(* ===== verification/Prelude.thy ===== *)
theory Prelude
  imports Main "HOL-Library.Word" "HOL-Library.List_Lexorder" "HOL-Library.Sublist"
begin

text \<open>
  Shared vocabulary of the development: JavaScript strings as lists of UTF-16 code units, the
  errors the code throws, results that carry them, and the list lemmas the components share.
\<close>

section \<open>JavaScript strings\<close>

text \<open>
  A JavaScript string is a sequence of 16-bit code units.  \<open>js\<close> embeds an ASCII literal of the
  source.  The order of the type is the order of JavaScript's \<open><\<close> on strings, lexicographic by
  code unit (\<open>HOL-Library.List_Lexorder\<close>).
\<close>

type_synonym code_unit = "16 word"
type_synonym jstring = "16 word list"

definition js :: "string \<Rightarrow> jstring" where
  "js s = map of_char s"

lemma unat_of_char [simp]: "unat (of_char c :: code_unit) = of_char c"
proof -
  have lt: "(of_char c :: nat) < 256" by simp
  have "unat (of_char c :: code_unit) = unat (of_nat (of_char c) :: code_unit)"
    by (simp only: of_nat_of_char)
  also have "\<dots> = of_char c mod 65536" by (simp add: unat_of_nat)
  also have "\<dots> = of_char c" using lt by (intro mod_less) linarith
  finally show ?thesis .
qed

lemma of_char_eq_iff [simp]: "(of_char c :: code_unit) = of_char d \<longleftrightarrow> c = d"
proof
  assume "(of_char c :: code_unit) = of_char d"
  then have "unat (of_char c :: code_unit) = unat (of_char d :: code_unit)" by simp
  then show "c = d" by simp
qed simp

lemma js_eq_iff [simp]: "js s = js t \<longleftrightarrow> s = t"
proof -
  have "inj (of_char :: char \<Rightarrow> code_unit)" by (rule injI) simp
  then show ?thesis by (simp add: js_def inj_map_eq_map)
qed

lemma js_Nil [simp]: "js [] = []"
  by (simp add: js_def)

lemma js_eq_Nil [simp]: "js s = [] \<longleftrightarrow> s = []" "[] = js s \<longleftrightarrow> s = []"
  by (auto simp: js_def)

lemma length_js [simp]: "length (js s) = length s"
  by (simp add: js_def)

lemma js_append: "js (s @ t) = js s @ js t"
  by (simp add: js_def)

lemma prefix_js [simp]: "prefix (js s) (js t) \<longleftrightarrow> prefix s t"
proof (induction s arbitrary: t)
  case (Cons c s)
  then show ?case by (cases t) (auto simp: js_def)
qed simp

text \<open>
  Code-unit classes of the source's regular expressions, compared as numbers.
\<close>

definition unit_between :: "code_unit \<Rightarrow> code_unit \<Rightarrow> code_unit \<Rightarrow> bool" where
  "unit_between lo hi c \<longleftrightarrow> lo \<le> c \<and> c \<le> hi"

definition is_digit :: "code_unit \<Rightarrow> bool" where
  "is_digit c \<longleftrightarrow> unit_between 0x30 0x39 c"

definition is_alpha :: "code_unit \<Rightarrow> bool" where
  "is_alpha c \<longleftrightarrow> unit_between 0x41 0x5A c \<or> unit_between 0x61 0x7A c"

definition is_high_surrogate :: "code_unit \<Rightarrow> bool" where
  "is_high_surrogate c \<longleftrightarrow> unit_between 0xD800 0xDBFF c"

definition is_low_surrogate :: "code_unit \<Rightarrow> bool" where
  "is_low_surrogate c \<longleftrightarrow> unit_between 0xDC00 0xDFFF c"

lemmas unit_class_defs = unit_between_def is_digit_def is_alpha_def is_high_surrogate_def
  is_low_surrogate_def word_le_nat_alt word_less_nat_alt

text \<open>\<open>Buffer.byteLength\<close>: the UTF-8 length of a string; a lone surrogate is encoded as the
  three-byte replacement character.\<close>

fun byte_length :: "jstring \<Rightarrow> nat" where
  "byte_length [] = 0"
| "byte_length (c # s) =
     (if is_high_surrogate c
      then (case s of
              d # r \<Rightarrow> if is_low_surrogate d then 4 + byte_length r else 3 + byte_length s
            | [] \<Rightarrow> 3)
      else (if c < 0x80 then 1 else if c < 0x800 then 2 else 3) + byte_length s)"

lemma byte_length_append:
  "ys = [] \<or> \<not> is_low_surrogate (hd ys) \<Longrightarrow> byte_length (xs @ ys) = byte_length xs + byte_length ys"
proof (induction xs rule: byte_length.induct)
  case (2 c s)
  show ?case
  proof (cases s)
    case Nil
    then show ?thesis using 2 by (cases ys) auto
  next
    case (Cons d r)
    then show ?thesis using 2 by (auto split: if_splits)
  qed
qed simp

lemma byte_length_ascii: "c < 0x80 \<Longrightarrow> byte_length (c # s) = Suc (byte_length s)"
  by (auto simp: unit_class_defs)

lemma byte_length_split_ascii:
  "c < 0x80 \<Longrightarrow> byte_length (xs @ c # ys) = Suc (byte_length xs + byte_length ys)"
  by (subst byte_length_append) (auto simp: byte_length_ascii unit_class_defs)

declare byte_length.simps(2) [simp del]

section \<open>Decimal text\<close>

fun nat_text :: "nat \<Rightarrow> jstring" where
  "nat_text n = (if n < 10 then [of_nat (48 + n)] else nat_text (n div 10) @ [of_nat (48 + n mod 10)])"

declare nat_text.simps [simp del]

definition digits_value :: "jstring \<Rightarrow> nat" where
  "digits_value s = foldl (\<lambda>n c. 10 * n + (unat c - 48)) 0 s"

lemma digits_value_Nil [simp]: "digits_value [] = 0"
  by (simp add: digits_value_def)

lemma digits_value_snoc [simp]: "digits_value (s @ [c]) = 10 * digits_value s + (unat c - 48)"
  by (simp add: digits_value_def)

lemma unat_digit: "n < 10 \<Longrightarrow> unat (of_nat (48 + n) :: code_unit) = 48 + n"
  by (simp only: unat_of_nat) simp

lemma digits_value_nat_text [simp]: "digits_value (nat_text n) = n"
proof (induction n rule: nat_text.induct)
  case (1 n)
  show ?case
  proof (cases "n < 10")
    case True
    then show ?thesis
      by (subst nat_text.simps) (use unat_digit [of n] in \<open>simp add: digits_value_def\<close>)
  next
    case False
    then show ?thesis using 1
      by (subst nat_text.simps) (use unat_digit [of "n mod 10"] in simp)
  qed
qed

lemma nat_text_digits: "list_all is_digit (nat_text n)"
proof (induction n rule: nat_text.induct)
  case (1 n)
  have d: "is_digit (of_nat (48 + m))" if "m < 10" for m
    using unat_digit [OF that] that by (simp add: unit_class_defs)
  show ?case
  proof (cases "n < 10")
    case True
    then show ?thesis by (subst nat_text.simps) (simp add: d del: of_nat_add)
  next
    case False
    with 1 show ?thesis by (subst nat_text.simps) (simp add: d del: of_nat_add)
  qed
qed

lemma nat_text_ne [simp]: "nat_text n \<noteq> []" "[] \<noteq> nat_text n"
  by (subst nat_text.simps; simp)+

lemma nat_text_eq_iff [simp]: "nat_text m = nat_text n \<longleftrightarrow> m = n"
  by (metis digits_value_nat_text)

text \<open>The regular expression \<open>^(?:0|[1-9][0-9]*)$\<close>.\<close>

definition canonical_nat :: "jstring \<Rightarrow> bool" where
  "canonical_nat s \<longleftrightarrow> s \<noteq> [] \<and> list_all is_digit s \<and> (hd s \<noteq> 0x30 \<or> length s = 1)"

lemma nat_text_hd: "0 < n \<Longrightarrow> unat (hd (nat_text n)) \<noteq> 48"
proof (induction n rule: nat_text.induct)
  case (1 n)
  show ?case
  proof (cases "n < 10")
    case True
    with 1 show ?thesis by (subst nat_text.simps) (use unat_digit [of n] in simp)
  next
    case False
    with 1 show ?thesis by (subst nat_text.simps) (simp add: hd_append)
  qed
qed

lemma canonical_nat_text [simp]: "canonical_nat (nat_text n)"
proof (cases "n = 0")
  case True
  then show ?thesis by (simp add: canonical_nat_def nat_text.simps [of 0] unit_class_defs)
next
  case False
  then show ?thesis using nat_text_hd [of n] by (auto simp: canonical_nat_def nat_text_digits)
qed

text \<open>A canonical numeral is the text of its value, so array indices have one spelling.\<close>

lemma nat_text_value: "canonical_nat s \<Longrightarrow> nat_text (digits_value s) = s"
proof (induction s rule: rev_induct)
  case Nil
  then show ?case by (simp add: canonical_nat_def)
next
  case (snoc c s)
  have c: "is_digit c" using snoc.prems by (simp add: canonical_nat_def)
  then have cn: "48 \<le> unat c" "unat c \<le> 57" by (auto simp: unit_class_defs)
  have cc: "of_nat (48 + (unat c - 48)) = c" using cn by simp
  show ?case
  proof (cases "s = []")
    case True
    then show ?thesis using cn cc by (simp add: digits_value_def nat_text.simps [of "unat c - 48"] del: of_nat_add)
  next
    case False
    have cs: "canonical_nat s" using snoc.prems False
      by (auto simp: canonical_nat_def)
    note IH = snoc.IH [OF cs]
    have pos: "0 < digits_value s"
    proof (rule ccontr)
      assume "\<not> 0 < digits_value s"
      then have "s = nat_text 0" using IH by simp
      then have "s = [0x30]" by (simp add: nat_text.simps [of 0])
      then show False using snoc.prems by (simp add: canonical_nat_def)
    qed
    have k: "unat c - 48 < 10" using cn by simp
    have m: "(10 * digits_value s + (unat c - 48)) div 10 = digits_value s"
      "(10 * digits_value s + (unat c - 48)) mod 10 = unat c - 48"
      using k by (simp_all only: div_mult_self4 mod_mult_self4 div_less mod_less)
    show ?thesis
      using pos IH cc mod_less [OF k]
      by (simp add: digits_value_snoc nat_text.simps [of "10 * digits_value s + (unat c - 48)"] m
          del: of_nat_add mod_less)
  qed
qed

lemma canonical_nat_inj:
  "canonical_nat s \<Longrightarrow> canonical_nat t \<Longrightarrow> digits_value s = digits_value t \<Longrightarrow> s = t"
  by (metis nat_text_value)

section \<open>Errors and results\<close>

text \<open>
  The exceptions the modelled code throws.  \<open>RequestError\<close> is \<open>RetainedRequestError\<close> with its
  code, status and retry disposition; \<open>EditFailure\<close> is \<open>ObjectEditFailure\<close> with its message and
  pointer; \<open>SyntaxError\<close> is \<open>JsonSyntaxError\<close> with its message; \<open>ArtifactError\<close> is
  \<open>ProtocolArtifactValidationError\<close>; \<open>SqlError\<close> is an error of the SQLite driver, which carries
  a \<open>code\<close> property.
\<close>

datatype js_error =
    RequestError jstring nat jstring
  | EditFailure jstring jstring
  | SyntaxError string
  | TypeError string
  | BudgetError string
  | ArtifactError string
  | PlainError string
  | SqlError string

type_synonym 'a result = "js_error + 'a"

fun bindR :: "'e + 'a \<Rightarrow> ('a \<Rightarrow> 'e + 'b) \<Rightarrow> 'e + 'b" where
  "bindR (Inl e) f = Inl e"
| "bindR (Inr x) f = f x"

lemma bindR_cong [fundef_cong]:
  "r = r' \<Longrightarrow> (\<And>x. r' = Inr x \<Longrightarrow> f x = f' x) \<Longrightarrow> bindR r f = bindR r' f'"
  by (cases r') auto

lemma bindR_eq_Inr [simp]: "bindR r f = Inr y \<longleftrightarrow> (\<exists>x. r = Inr x \<and> f x = Inr y)"
  by (cases r) auto

lemma bindR_eq_Inl: "bindR r f = Inl e \<longleftrightarrow> r = Inl e \<or> (\<exists>x. r = Inr x \<and> f x = Inl e)"
  by (cases r) auto

definition guardR :: "bool \<Rightarrow> 'e \<Rightarrow> 'e + unit" where
  "guardR b e = (if b then Inr () else Inl e)"

lemma guardR_simps [simp]: "guardR True e = Inr ()" "guardR False e = Inl e"
    "guardR b e = Inr u \<longleftrightarrow> b"
  by (auto simp: guardR_def)

fun mapR :: "('a \<Rightarrow> 'e + 'b) \<Rightarrow> 'a list \<Rightarrow> 'e + 'b list" where
  "mapR f [] = Inr []"
| "mapR f (x # xs) = bindR (f x) (\<lambda>y. bindR (mapR f xs) (\<lambda>ys. Inr (y # ys)))"

lemma mapR_cong: "(\<And>x. x \<in> set xs \<Longrightarrow> f x = g x) \<Longrightarrow> mapR f xs = mapR g xs"
  by (induction xs) auto

lemma mapR_eq_Inr: "mapR f xs = Inr ys \<longleftrightarrow> list_all2 (\<lambda>x y. f x = Inr y) xs ys"
  by (induction xs arbitrary: ys) (auto simp: list_all2_Cons1)

lemma bindR_assoc: "bindR (bindR r f) g = bindR r (\<lambda>x. bindR (f x) g)"
  by (cases r) auto

lemma bindR_Inr [simp]: "bindR r Inr = r"
  by (cases r) auto

fun foldR :: "('a \<Rightarrow> 's \<Rightarrow> 'e + 's) \<Rightarrow> 'a list \<Rightarrow> 's \<Rightarrow> 'e + 's" where
  "foldR f [] s = Inr s"
| "foldR f (x # xs) s = bindR (f x s) (foldR f xs)"

lemma foldR_append: "foldR f (xs @ ys) s = bindR (foldR f xs s) (foldR f ys)"
proof (induction xs arbitrary: s)
  case (Cons x xs)
  then show ?case by (cases "f x s") auto
qed simp

lemma foldR_inv:
  "foldR f xs s = Inr s' \<Longrightarrow> P s \<Longrightarrow> (\<And>x s s'. x \<in> set xs \<Longrightarrow> P s \<Longrightarrow> f x s = Inr s' \<Longrightarrow> P s') \<Longrightarrow> P s'"
proof (induction xs arbitrary: s)
  case (Cons x xs)
  from Cons.prems(1) obtain t where t: "f x s = Inr t" "foldR f xs t = Inr s'" by auto
  have "P t" by (rule Cons.prems(3) [OF _ Cons.prems(2) t(1)]) simp
  show ?case
    by (rule Cons.IH [OF t(2) \<open>P t\<close>]) (auto intro: Cons.prems(3))
qed simp

text \<open>The first iteration that leaves early, after the ones before it succeeded.\<close>

lemma foldR_Inl:
  "foldR f xs s = Inl e \<longleftrightarrow>
     (\<exists>pre x post s'. xs = pre @ x # post \<and> foldR f pre s = Inr s' \<and> f x s' = Inl e)"
proof (induction xs arbitrary: s)
  case (Cons x xs)
  show ?case
  proof (cases "f x s")
    case (Inl e')
    then show ?thesis
      by (auto simp: Cons_eq_append_conv intro: exI [of _ "[]"])
  next
    case (Inr t)
    then have "foldR f (x # xs) s = Inl e \<longleftrightarrow>
        (\<exists>pre y post s'. xs = pre @ y # post \<and> foldR f pre t = Inr s' \<and> f y s' = Inl e)"
      using Cons.IH [of t] by simp
    also have "\<dots> \<longleftrightarrow> (\<exists>pre y post s'. x # xs = pre @ y # post \<and> foldR f pre s = Inr s' \<and> f y s' = Inl e)"
      (is "?l \<longleftrightarrow> ?r")
    proof
      assume ?l
      then obtain pre y post s' where "xs = pre @ y # post" "foldR f pre t = Inr s'" "f y s' = Inl e" by blast
      then show ?r using Inr by (intro exI [of _ "x # pre"]) auto
    next
      assume ?r
      then obtain pre y post s' where "x # xs = pre @ y # post" "foldR f pre s = Inr s'" "f y s' = Inl e" by blast
      then show ?l using Inr by (cases pre) auto
    qed
    finally show ?thesis .
  qed
qed simp

text \<open>A \<open>catch\<close> that rethrows \<open>RetainedRequestError\<close> and turns every other error into one.\<close>

fun catch_others :: "js_error \<Rightarrow> 'a result \<Rightarrow> 'a result" where
  "catch_others e (Inr x) = Inr x"
| "catch_others e (Inl (RequestError c s r)) = Inl (RequestError c s r)"
| "catch_others e (Inl _) = Inl e"

lemma catch_others_eq_Inr [simp]: "catch_others e r = Inr x \<longleftrightarrow> r = Inr x"
  by (cases "(e, r)" rule: catch_others.cases) auto

section \<open>Association lists\<close>

lemma map_of_eq_None: "map_of xs k = None \<longleftrightarrow> k \<notin> fst ` set xs"
  by (rule map_of_eq_None_iff)

lemma distinct_filter_keys: "distinct (map fst xs) \<Longrightarrow> distinct (map fst (filter P xs))"
  by (induction xs) auto

lemma map_of_filter_neq: "map_of (filter (\<lambda>(k, _). k \<noteq> k0) xs) k = (if k = k0 then None else map_of xs k)"
  by (induction xs) auto

end
