(* ===== verification/Json_Value.thy ===== *)
theory Json_Value
  imports Prelude
begin

text \<open>
  JSON values as the protocol package has them (\<open>packages/protocol/src/json-admission.ts\<close>,
  \<open>json-values.ts\<close>) and structural equality (\<open>packages/server/src/json-value-equality.ts\<close>).
  Numbers are a parameter of the type: \<open>jstring jv\<close> is \<open>LosslessJsonValue\<close>, whose number nodes
  carry their literal; the admitted values of the theory Json\_Number instantiate it with exact
  decimals.
\<close>

section \<open>Values\<close>

datatype 'n jv =
    JNull
  | JBool bool
  | JStr jstring
  | JNum 'n
  | JArr "'n jv list"
  | JObj "(jstring \<times> 'n jv) list"

type_synonym 'n jobject = "(jstring \<times> 'n jv) list"
type_synonym lossless = "jstring jv"

lemma jv_field_size [termination_simp]:
  "(k, x) \<in> set kvs \<Longrightarrow> size_jv f x < Suc (size_list (size_prod (\<lambda>_. 0) (size_jv f)) kvs)"
  by (induction kvs) auto

lemma jv_field_size_le [termination_simp]:
  "(k, x) \<in> set kvs \<Longrightarrow> size x < Suc (size_list (size_prod (\<lambda>_. 0) size) kvs)"
  by (induction kvs) auto

section \<open>Objects in property enumeration order\<close>

text \<open>
  ECMAScript enumerates the own string keys of an object with the array indices first, ascending,
  and the other keys in insertion order.  An object is an association list in that order;
  \<open>obj_put\<close> is a property definition (\<open>target[key] = value\<close> on a prototype-free object, and
  \<open>Object.defineProperty\<close>), \<open>obj_get\<close> an own-property read, \<open>obj_delete\<close> is \<open>delete\<close>.
\<close>

definition is_array_index :: "jstring \<Rightarrow> bool" where
  "is_array_index k \<longleftrightarrow> canonical_nat k \<and> digits_value k < 2 ^ 32 - 1"

definition key_before :: "jstring \<Rightarrow> jstring \<Rightarrow> bool" where
  "key_before k k' \<longleftrightarrow> is_array_index k \<and> (is_array_index k' \<longrightarrow> digits_value k < digits_value k')"

fun obj_put :: "jstring \<Rightarrow> 'v \<Rightarrow> (jstring \<times> 'v) list \<Rightarrow> (jstring \<times> 'v) list" where
  "obj_put k v [] = [(k, v)]"
| "obj_put k v ((k', v') # kvs) =
     (if k = k' then (k, v) # kvs
      else if key_before k k' then (k, v) # (k', v') # kvs
      else (k', v') # obj_put k v kvs)"

definition obj_get :: "jstring \<Rightarrow> (jstring \<times> 'v) list \<Rightarrow> 'v option" where
  "obj_get k kvs = map_of kvs k"

definition obj_has :: "jstring \<Rightarrow> (jstring \<times> 'v) list \<Rightarrow> bool" where
  "obj_has k kvs \<longleftrightarrow> k \<in> fst ` set kvs"

definition obj_delete :: "jstring \<Rightarrow> (jstring \<times> 'v) list \<Rightarrow> (jstring \<times> 'v) list" where
  "obj_delete k kvs = filter (\<lambda>(k', _). k' \<noteq> k) kvs"

text \<open>\<open>{ ...base, ...more }\<close>: the fields of \<open>more\<close> defined one after the other.\<close>

definition obj_spread :: "(jstring \<times> 'v) list \<Rightarrow> (jstring \<times> 'v) list \<Rightarrow> (jstring \<times> 'v) list" where
  "obj_spread base more = foldl (\<lambda>acc (k, v). obj_put k v acc) base more"

text \<open>The enumeration order of distinct own keys.\<close>

definition key_order :: "jstring \<Rightarrow> jstring \<Rightarrow> bool" where
  "key_order k k' \<longleftrightarrow> k \<noteq> k' \<and> \<not> key_before k' k"

definition obj_ok :: "(jstring \<times> 'v) list \<Rightarrow> bool" where
  "obj_ok kvs \<longleftrightarrow> sorted_wrt key_order (map fst kvs)"

lemma obj_ok_distinct: "obj_ok kvs \<Longrightarrow> distinct (map fst kvs)"
  by (induction kvs) (auto simp: obj_ok_def key_order_def)

lemma obj_ok_Nil [simp]: "obj_ok []"
  by (simp add: obj_ok_def)

lemma obj_ok_Cons:
  "obj_ok ((k, v) # kvs) \<longleftrightarrow> (\<forall>k' \<in> fst ` set kvs. key_order k k') \<and> obj_ok kvs"
  by (simp add: obj_ok_def)

lemma map_of_obj_put [simp]: "map_of (obj_put k v kvs) = (map_of kvs)(k \<mapsto> v)"
  by (induction k v kvs rule: obj_put.induct) auto

lemma obj_get_put [simp]: "obj_get k (obj_put k' v kvs) = (if k = k' then Some v else obj_get k kvs)"
  by (simp add: obj_get_def)

lemma fst_set_obj_put [simp]: "fst ` set (obj_put k v kvs) = insert k (fst ` set kvs)"
  by (induction k v kvs rule: obj_put.induct) auto

lemma set_obj_put: "set (obj_put k v kvs) \<subseteq> insert (k, v) (set kvs)"
  by (induction k v kvs rule: obj_put.induct) auto

lemma key_order_before:
  "key_before k k' \<Longrightarrow> key_order k' k'' \<Longrightarrow> key_order k k''"
  by (auto simp: key_before_def key_order_def)

lemma key_before_order: "key_before k k' \<Longrightarrow> key_order k k'"
  by (auto simp: key_before_def key_order_def)

lemma obj_ok_put [simp]: "obj_ok kvs \<Longrightarrow> obj_ok (obj_put k v kvs)"
  by (induction k v kvs rule: obj_put.induct)
    (auto simp: obj_ok_Cons key_order_before key_before_order, auto simp: key_order_def)

lemma obj_put_snoc: "obj_ok (kvs @ [(k, v)]) \<Longrightarrow> obj_put k v kvs = kvs @ [(k, v)]"
  by (induction k v kvs rule: obj_put.induct) (auto simp: obj_ok_Cons key_order_def)

lemma obj_ok_appendD: "obj_ok (xs @ ys) \<Longrightarrow> obj_ok xs"
  by (simp add: obj_ok_def sorted_wrt_append)

lemma obj_get_delete [simp]: "obj_get k (obj_delete k' kvs) = (if k = k' then None else obj_get k kvs)"
  by (simp add: obj_get_def obj_delete_def map_of_filter_neq)

lemma obj_ok_delete [simp]: "obj_ok kvs \<Longrightarrow> obj_ok (obj_delete k kvs)"
  by (induction kvs) (auto simp: obj_ok_Cons obj_delete_def)

lemma obj_has_get: "obj_has k kvs \<longleftrightarrow> obj_get k kvs \<noteq> None"
  by (auto simp: obj_has_def obj_get_def map_of_eq_None)

text \<open>Reading an object back key by key rebuilds it.\<close>

lemma obj_spread_append:
  "obj_ok (base @ more) \<Longrightarrow> obj_spread base more = base @ more"
proof (induction more arbitrary: base)
  case (Cons p more)
  obtain k v where p: "p = (k, v)" by (cases p)
  from Cons.prems p have ok: "obj_ok ((base @ [(k, v)]) @ more)" by simp
  then have "obj_put k v base = base @ [(k, v)]"
    by (intro obj_put_snoc) (rule obj_ok_appendD)
  with Cons.IH [OF ok] p show ?case by (simp add: obj_spread_def)
qed (simp add: obj_spread_def)

lemma obj_spread_ok: "obj_ok base \<Longrightarrow> obj_ok (obj_spread base more)"
  by (induction more arbitrary: base) (auto simp: obj_spread_def)

section \<open>Well-formed values\<close>

text \<open>
  \<open>isUnicodeScalarString\<close>: no unpaired surrogate.
\<close>

fun isUnicodeScalarString :: "jstring \<Rightarrow> bool" where
  "isUnicodeScalarString [] = True"
| "isUnicodeScalarString (c # s) =
     (if is_high_surrogate c
      then (case s of [] \<Rightarrow> False | d # r \<Rightarrow> is_low_surrogate d \<and> isUnicodeScalarString r)
      else \<not> is_low_surrogate c \<and> isUnicodeScalarString s)"

text \<open>
  What every value that comes out of the decoder or of a snapshot satisfies: scalar strings and
  keys, objects in enumeration order, numbers that meet \<open>P\<close>.
\<close>

fun json_ok :: "('n \<Rightarrow> bool) \<Rightarrow> 'n jv \<Rightarrow> bool" where
  "json_ok P JNull = True"
| "json_ok P (JBool b) = True"
| "json_ok P (JStr s) = isUnicodeScalarString s"
| "json_ok P (JNum n) = P n"
| "json_ok P (JArr xs) = list_all (json_ok P) xs"
| "json_ok P (JObj kvs) =
     (obj_ok kvs \<and> list_all (\<lambda>(k, x). isUnicodeScalarString k \<and> json_ok P x) kvs)"

section \<open>Structural equality\<close>

text \<open>
  \<open>jsonValueEqual\<close> is a worklist: \<open>pending\<close> is a stack, its top at the head.  One turn of the loop
  answers \<open>None\<close> where the code returns false, and otherwise the pairs it pushes, in push order.
  The comparison of two references (\<open>a === b\<close> on containers) only skips work, since a value
  equals itself.
\<close>

fun json_equal_turn :: "'n jv \<Rightarrow> 'n jv \<Rightarrow> ('n jv \<times> 'n jv) list option" where
  "json_equal_turn (JArr xs) (JArr ys) =
     (if length xs \<noteq> length ys then None else Some (zip xs ys))"
| "json_equal_turn (JObj f) (JObj g) =
     (if length f \<noteq> length g then None
      else if list_all (\<lambda>(k, _). obj_has k g) f
      then Some (map (\<lambda>(k, x). (x, the (obj_get k g))) f)
      else None)"
| "json_equal_turn a b = (if a = b then Some [] else None)"

definition pairs_size :: "('n jv \<times> 'n jv) list \<Rightarrow> nat" where
  "pairs_size ps = sum_list (map (\<lambda>p. Suc (size (fst p))) ps)"

lemma pairs_size_simps [simp]:
  "pairs_size [] = 0" "pairs_size (p # ps) = Suc (size (fst p)) + pairs_size ps"
  "pairs_size (ps @ qs) = pairs_size ps + pairs_size qs" "pairs_size (rev ps) = pairs_size ps"
  by (simp_all add: pairs_size_def rev_map [symmetric])

lemma pairs_size_turn: "json_equal_turn a b = Some ps \<Longrightarrow> pairs_size ps \<le> size a"
proof (induction a b rule: json_equal_turn.induct)
  case (1 xs ys)
  have "length xs = length ys \<Longrightarrow> pairs_size (zip xs ys) \<le> size_list size xs"
    by (induction xs ys rule: list_induct2) auto
  with 1 show ?case by (simp split: if_splits)
next
  case (2 f g)
  have le: "pairs_size (map (\<lambda>(k, x). (x, h k)) f) \<le> size_list (size_prod (\<lambda>_. 0) size) f" for h
    by (induction f) auto
  from 2 show ?case by (auto split: if_splits intro!: le_SucI le)
qed (auto split: if_splits)

function json_equal_loop :: "('n jv \<times> 'n jv) list \<Rightarrow> bool" where
  "json_equal_loop [] = True"
| "json_equal_loop ((a, b) # pending) =
     (case json_equal_turn a b of
        None \<Rightarrow> False
      | Some ps \<Rightarrow> json_equal_loop (rev ps @ pending))"
  by pat_completeness auto
termination
  by (relation "measure pairs_size") (auto dest: pairs_size_turn)

definition jsonValueEqual :: "'n jv \<Rightarrow> 'n jv \<Rightarrow> bool" where
  "jsonValueEqual left right = json_equal_loop [(left, right)]"

text \<open>
  The reference: equality of normal forms in which the fields of every object are sorted by key.
\<close>

fun json_norm :: "'n jv \<Rightarrow> 'n jv" where
  "json_norm (JArr xs) = JArr (map json_norm xs)"
| "json_norm (JObj kvs) = JObj (sort_key fst (map (\<lambda>(k, x). (k, json_norm x)) kvs))"
| "json_norm v = v"

fun json_eq :: "'n jv \<Rightarrow> 'n jv \<Rightarrow> bool" where
  "json_eq (JArr xs) b = (case b of JArr ys \<Rightarrow> list_all2 json_eq xs ys | _ \<Rightarrow> False)"
| "json_eq (JObj f) b =
     (case b of
        JObj g \<Rightarrow> length f = length g \<and>
          list_all (\<lambda>(k, x). case obj_get k g of None \<Rightarrow> False | Some y \<Rightarrow> json_eq x y) f
      | _ \<Rightarrow> False)"
| "json_eq a b = (a = b)"

lemma json_eq_turn:
  "json_eq a b \<longleftrightarrow> (case json_equal_turn a b of None \<Rightarrow> False | Some ps \<Rightarrow> \<forall>(x, y) \<in> set ps. json_eq x y)"
proof (cases "(a, b)" rule: json_equal_turn.cases)
  case (1 xs ys)
  then show ?thesis by (simp add: list_all2_iff)
next
  case (2 f g)
  have "(case obj_get k g of None \<Rightarrow> False | Some y \<Rightarrow> json_eq x y) \<longleftrightarrow>
      obj_has k g \<and> json_eq x (the (obj_get k g))" for k x
    by (auto simp: obj_has_get split: option.split)
  with 2 show ?thesis by (auto simp: list_all_iff)
qed (auto; cases a; auto)+

lemma json_equal_loop_iff: "json_equal_loop ps \<longleftrightarrow> (\<forall>(a, b) \<in> set ps. json_eq a b)"
proof (induction ps rule: json_equal_loop.induct)
  case (2 a b pending)
  then show ?case
    by (auto simp: json_eq_turn [of a b] ball_Un split: option.split)
qed simp

lemma jsonValueEqual_eq: "jsonValueEqual a b \<longleftrightarrow> json_eq a b"
  by (simp add: jsonValueEqual_def json_equal_loop_iff)

text \<open>On well-formed values the relation is equality of normal forms, so an equivalence.\<close>

lemma sort_key_fst_eq_iff:
  fixes f g :: "('k::linorder \<times> 'v) list"
  assumes "distinct (map fst f)" "distinct (map fst g)"
  shows "sort_key fst f = sort_key fst g \<longleftrightarrow> set f = set g"
proof
  assume "sort_key fst f = sort_key fst g"
  then show "set f = set g" by (metis set_sort)
next
  assume eq: "set f = set g"
  have d: "distinct (map fst (sort_key fst f))" "distinct (map fst (sort_key fst g))"
    using assms by (simp_all add: distinct_map)
  show "sort_key fst f = sort_key fst g"
    by (rule map_sorted_distinct_set_unique [of fst]) (use d eq assms in \<open>auto simp: distinct_map\<close>)
qed

lemma fields_eq_iff:
  fixes f g :: "(jstring \<times> 'v) list" and N :: "'v \<Rightarrow> 'w"
  assumes "distinct (map fst f)" "distinct (map fst g)"
    and "\<And>k x k' y. (k, x) \<in> set f \<Longrightarrow> (k', y) \<in> set g \<Longrightarrow> N x = N y \<longleftrightarrow> R x y"
  shows "set (map (\<lambda>(k, x). (k, N x)) f) = set (map (\<lambda>(k, x). (k, N x)) g) \<longleftrightarrow>
    length f = length g \<and> (\<forall>(k, x) \<in> set f. \<exists>y. obj_get k g = Some y \<and> R x y)"
    (is "?L = ?M \<longleftrightarrow> ?A \<and> ?B")
proof
  assume eq: "?L = ?M"
  have "fst ` set f = fst ` ?L" "fst ` set g = fst ` ?M" by force+
  with eq have "fst ` set f = fst ` set g" by simp
  then have "card (set (map fst f)) = card (set (map fst g))" by simp
  then have "?A" using assms(1,2) [THEN distinct_card] by simp
  moreover have "?B"
  proof clarify
    fix k x assume kx: "(k, x) \<in> set f"
    then have "(k, N x) \<in> ?L" by force
    then have "(k, N x) \<in> ?M" unfolding eq .
    then obtain y where "(k, y) \<in> set g" "N x = N y" by auto
    then show "\<exists>y. obj_get k g = Some y \<and> R x y"
      using assms kx by (auto simp: obj_get_def)
  qed
  ultimately show "?A \<and> ?B" by simp
next
  assume AB: "?A \<and> ?B"
  have B: "\<exists>y. (k, y) \<in> set g \<and> N x = N y" if "(k, x) \<in> set f" for k x
  proof -
    from AB that obtain y where y: "obj_get k g = Some y" "R x y" by blast
    then have "(k, y) \<in> set g" by (simp add: obj_get_def map_of_SomeD)
    with y assms(3) [OF that this] show ?thesis by blast
  qed
  have sub: "?L \<subseteq> ?M"
  proof
    fix p assume "p \<in> ?L"
    then obtain k x where "(k, x) \<in> set f" "p = (k, N x)" by auto
    with B [of k x] show "p \<in> ?M" by force
  qed
  have d: "distinct (map (\<lambda>(k, x). (k, N x)) h)" if "distinct (map fst h)" for h :: "(jstring \<times> 'v) list"
    using that by (induction h) force+
  have "card ?L = card ?M"
    using AB d [OF assms(1), THEN distinct_card] d [OF assms(2), THEN distinct_card] by simp
  with sub show "?L = ?M" by (intro card_subset_eq) auto
qed

lemma json_norm_leaf [simp]:
  "json_norm b = JNull \<longleftrightarrow> b = JNull" "json_norm b = JBool v \<longleftrightarrow> b = JBool v"
  "json_norm b = JStr s \<longleftrightarrow> b = JStr s" "json_norm b = JNum n \<longleftrightarrow> b = JNum n"
  "JNull = json_norm b \<longleftrightarrow> b = JNull" "JBool v = json_norm b \<longleftrightarrow> b = JBool v"
  "JStr s = json_norm b \<longleftrightarrow> b = JStr s" "JNum n = json_norm b \<longleftrightarrow> b = JNum n"
  by (cases b; auto)+

lemma json_eq_norm:
  "json_ok P a \<Longrightarrow> json_ok Q b \<Longrightarrow> json_eq a b \<longleftrightarrow> json_norm a = json_norm b"
proof (induction a arbitrary: b)
  case (JArr xs)
  show ?case
  proof (cases b)
    case [simp]: (JArr ys)
    have "json_eq x y \<longleftrightarrow> json_norm x = json_norm y" if "x \<in> set xs" "y \<in> set ys" for x y
      using JArr.IH [OF that(1)] JArr.prems that by (simp add: list_all_iff)
    then have "list_all2 json_eq xs ys \<longleftrightarrow> map json_norm xs = map json_norm ys"
      by (auto simp: list_all2_conv_all_nth list_eq_iff_nth_eq)
    then show ?thesis by simp
  qed auto
next
  case (JObj f)
  show ?case
  proof (cases b)
    case [simp]: (JObj g)
    let ?m = "map (\<lambda>(k, x). (k, json_norm x))"
    have ok: "obj_ok f" "obj_ok g" using JObj.prems by auto
    have fst_m: "map fst (?m h) = map fst h" for h :: "'a jobject" by (induction h) auto
    have IH: "json_norm x = json_norm y \<longleftrightarrow> json_eq x y" if "(k, x) \<in> set f" "(k', y) \<in> set g" for k x k' y
      using JObj.IH [OF that(1), of x y] JObj.prems that by (auto simp: list_all_iff)
    have "json_norm (JObj f) = json_norm b \<longleftrightarrow> sort_key fst (?m f) = sort_key fst (?m g)"
      by simp
    also have "\<dots> \<longleftrightarrow> set (?m f) = set (?m g)"
      by (rule sort_key_fst_eq_iff) (simp_all only: fst_m ok obj_ok_distinct)
    also have "\<dots> \<longleftrightarrow> length f = length g \<and> (\<forall>(k, x) \<in> set f. \<exists>y. obj_get k g = Some y \<and> json_eq x y)"
      by (rule fields_eq_iff) (use ok IH in \<open>auto simp: obj_ok_distinct\<close>)
    also have "\<dots> \<longleftrightarrow> json_eq (JObj f) b"
      by (auto simp: list_all_iff split: option.splits)
    finally show ?thesis by simp
  qed auto
qed auto

text \<open>
  Equality as the code computes it coincides with the reference, for every pair of well-formed
  values: it ignores the order of the fields and nothing else.
\<close>

lemma jsonValueEqual_norm:
  "json_ok P a \<Longrightarrow> json_ok Q b \<Longrightarrow> jsonValueEqual a b \<longleftrightarrow> json_norm a = json_norm b"
  by (simp add: jsonValueEqual_eq json_eq_norm)

lemma jsonValueEqual_refl [simp]: "json_ok P a \<Longrightarrow> jsonValueEqual a a"
  by (simp add: jsonValueEqual_norm)

end
