(* ===== verification/Json_Text.thy ===== *)
theory Json_Text
  imports Json_Value
begin

text \<open>
  JSON text: the iterative printers (\<open>stringifyJsonValue\<close> of
  \<open>packages/protocol/src/json-values.ts\<close>, \<open>losslessMemberText\<close> of
  \<open>packages/server/src/retained-v01/batch-contract.ts\<close>), the iterative decoder
  \<open>decodeJsonDocument\<close> of \<open>packages/protocol/src/json-admission.ts\<close> and the round trip between
  them.
\<close>

section \<open>Printing\<close>

subsection \<open>Strings: \<open>JSON.stringify\<close> of a string\<close>

definition hex_digit :: "nat \<Rightarrow> code_unit" where
  "hex_digit n = (if n < 10 then of_nat (48 + n) else of_nat (87 + n))"

definition unicode_escape :: "code_unit \<Rightarrow> jstring" where
  "unicode_escape c = (let n = unat c in
     [0x5C, 0x75, hex_digit (n div 4096), hex_digit (n div 256 mod 16), hex_digit (n div 16 mod 16),
      hex_digit (n mod 16)])"

definition quote_unit :: "code_unit \<Rightarrow> jstring" where
  "quote_unit c =
     (if c = 0x22 then [0x5C, 0x22]
      else if c = 0x5C then [0x5C, 0x5C]
      else if c = 8 then [0x5C, 0x62]
      else if c = 9 then [0x5C, 0x74]
      else if c = 10 then [0x5C, 0x6E]
      else if c = 12 then [0x5C, 0x66]
      else if c = 13 then [0x5C, 0x72]
      else if c < 0x20 \<or> is_high_surrogate c \<or> is_low_surrogate c then unicode_escape c
      else [c])"

text \<open>A surrogate pair is printed as it is, an unpaired surrogate as an escape.\<close>

fun quote_units :: "jstring \<Rightarrow> jstring" where
  "quote_units [] = []"
| "quote_units [c] = quote_unit c"
| "quote_units (c # d # s) =
     (if is_high_surrogate c \<and> is_low_surrogate d then [c, d] @ quote_units s
      else quote_unit c @ quote_units (d # s))"

definition string_text :: "jstring \<Rightarrow> jstring" where
  "string_text s = [0x22] @ quote_units s @ [0x22]"

subsection \<open>The task stack\<close>

text \<open>
  \<open>pending\<close> is a stack of text chunks and values, its top at the head; the loop pops the top,
  emits it, or replaces a container by its delimiters, separators, keys and children.
\<close>

datatype 'n task = Chunk jstring | Item "'n jv"

fun array_tasks :: "'n jv list \<Rightarrow> 'n task list" where
  "array_tasks [] = []"
| "array_tasks [x] = [Item x]"
| "array_tasks (x # xs) = Item x # Chunk [0x2C] # array_tasks xs"

fun object_tasks :: "'n jobject \<Rightarrow> 'n task list" where
  "object_tasks [] = []"
| "object_tasks [(k, x)] = [Chunk (string_text k), Chunk [0x3A], Item x]"
| "object_tasks ((k, x) # kvs) =
     Chunk (string_text k) # Chunk [0x3A] # Item x # Chunk [0x2C] # object_tasks kvs"

fun task_size :: "'n task \<Rightarrow> nat" where
  "task_size (Chunk s) = 1"
| "task_size (Item v) = 8 * size v + 2"

lemma array_tasks_size: "sum_list (map task_size (array_tasks xs)) \<le> 8 * size_list size xs"
  by (induction xs rule: array_tasks.induct) auto

lemma object_tasks_size:
  "sum_list (map task_size (object_tasks kvs)) \<le> 8 * size_list (size_prod (\<lambda>_. 0) size) kvs"
  by (induction kvs rule: object_tasks.induct) auto

function print_loop :: "('n \<Rightarrow> jstring) \<Rightarrow> 'n task list \<Rightarrow> jstring \<Rightarrow> jstring" where
  "print_loop num [] out = out"
| "print_loop num (Chunk s # pending) out = print_loop num pending (out @ s)"
| "print_loop num (Item v # pending) out =
     (case v of
        JNull \<Rightarrow> print_loop num pending (out @ js ''null'')
      | JBool b \<Rightarrow> print_loop num pending (out @ (if b then js ''true'' else js ''false''))
      | JStr s \<Rightarrow> print_loop num pending (out @ string_text s)
      | JNum n \<Rightarrow> print_loop num pending (out @ num n)
      | JArr xs \<Rightarrow> print_loop num (array_tasks xs @ Chunk [0x5D] # pending) (out @ [0x5B])
      | JObj kvs \<Rightarrow> print_loop num (object_tasks kvs @ Chunk [0x7D] # pending) (out @ [0x7B]))"
  by pat_completeness auto
termination
proof (relation "measure (\<lambda>(_, ts, _). sum_list (map task_size ts))", goal_cases)
  case (7 num v pending out xs)
  then show ?case using array_tasks_size [of xs] by simp
next
  case (8 num v pending out kvs)
  then show ?case using object_tasks_size [of kvs] by simp
qed auto

definition print_json :: "('n \<Rightarrow> jstring) \<Rightarrow> 'n jv \<Rightarrow> jstring" where
  "print_json num v = print_loop num [Item v] []"

text \<open>\<open>losslessMemberText\<close>: number nodes are printed as their literal.\<close>

definition losslessMemberText :: "lossless \<Rightarrow> jstring" where
  "losslessMemberText v = print_json (\<lambda>lit. lit) v"

subsection \<open>The recursive reference\<close>

fun commas :: "jstring list \<Rightarrow> jstring" where
  "commas [] = []"
| "commas [s] = s"
| "commas (s # ss) = s @ [0x2C] @ commas ss"

fun json_text :: "('n \<Rightarrow> jstring) \<Rightarrow> 'n jv \<Rightarrow> jstring" where
  "json_text num JNull = js ''null''"
| "json_text num (JBool b) = (if b then js ''true'' else js ''false'')"
| "json_text num (JStr s) = string_text s"
| "json_text num (JNum n) = num n"
| "json_text num (JArr xs) = [0x5B] @ commas (map (json_text num) xs) @ [0x5D]"
| "json_text num (JObj kvs) =
     [0x7B] @ commas (map (\<lambda>(k, x). string_text k @ [0x3A] @ json_text num x) kvs) @ [0x7D]"

fun task_text :: "('n \<Rightarrow> jstring) \<Rightarrow> 'n task \<Rightarrow> jstring" where
  "task_text num (Chunk s) = s"
| "task_text num (Item v) = json_text num v"

lemma array_tasks_text:
  "concat (map (task_text num) (array_tasks xs)) = commas (map (json_text num) xs)"
  by (induction xs rule: array_tasks.induct) auto

lemma object_tasks_text:
  "concat (map (task_text num) (object_tasks kvs)) =
     commas (map (\<lambda>(k, x). string_text k @ [0x3A] @ json_text num x) kvs)"
  by (induction kvs rule: object_tasks.induct) auto

lemma print_loop_text: "print_loop num ts out = out @ concat (map (task_text num) ts)"
proof (induction num ts out rule: print_loop.induct)
  case (3 num v pending out)
  then show ?case
    by (cases v) (simp_all add: array_tasks_text object_tasks_text del: json_text.simps, simp_all)
qed auto

lemma print_json_text: "print_json num v = json_text num v"
  by (simp add: print_json_def print_loop_text)

lemma json_text_map: "json_text num (map_jv f v) = json_text (num \<circ> f) v"
  by (induction v) (auto intro!: arg_cong [where f = commas] simp: case_prod_unfold)

end
