(* ===== verification/Json_Decode.thy ===== *)
theory Json_Decode
  imports Json_Text
begin

text \<open>
  The decoder \<open>decodeJsonDocument\<close> of \<open>packages/protocol/src/json-admission.ts\<close>: an iterative
  machine over a stack of open containers, and its round trip with the printers of Json\_Text.
\<close>

section \<open>Tokens\<close>

definition is_ws :: "code_unit \<Rightarrow> bool" where
  "is_ws c \<longleftrightarrow> c = 0x20 \<or> c = 9 \<or> c = 13 \<or> c = 10"

definition skip_ws :: "jstring \<Rightarrow> jstring" where
  "skip_ws = dropWhile is_ws"

subsection \<open>Numbers: the sticky regular expression \<open>NUMBER_PREFIX\<close>\<close>

text \<open>
  \<open>-?(?:0|[1-9][0-9]*)(?:\.[0-9]+)?(?:[eE][+-]?[0-9]+)?\<close>, matched greedily at the front; the
  result is the match and what follows it.
\<close>

definition span_digits :: "jstring \<Rightarrow> jstring \<times> jstring" where
  "span_digits s = (takeWhile is_digit s, dropWhile is_digit s)"

definition scan_sign :: "jstring \<Rightarrow> jstring \<times> jstring" where
  "scan_sign s = (case s of c # r \<Rightarrow> if c = 0x2D then ([c], r) else ([], s) | [] \<Rightarrow> ([], s))"

definition scan_integer :: "jstring \<Rightarrow> (jstring \<times> jstring) option" where
  "scan_integer s = (case s of
     [] \<Rightarrow> None
   | c # r \<Rightarrow> if c = 0x30 then Some ([c], r)
              else if is_digit c then Some (span_digits s) else None)"

definition scan_fraction :: "jstring \<Rightarrow> jstring \<times> jstring" where
  "scan_fraction s = (case s of
     [] \<Rightarrow> ([], s)
   | c # r \<Rightarrow> if c = 0x2E \<and> takeWhile is_digit r \<noteq> []
              then (c # takeWhile is_digit r, dropWhile is_digit r) else ([], s))"

definition scan_exp_sign :: "jstring \<Rightarrow> jstring \<times> jstring" where
  "scan_exp_sign s = (case s of
     c # r \<Rightarrow> if c = 0x2B \<or> c = 0x2D then ([c], r) else ([], s) | [] \<Rightarrow> ([], s))"

definition scan_exponent :: "jstring \<Rightarrow> jstring \<times> jstring" where
  "scan_exponent s = (case s of
     [] \<Rightarrow> ([], s)
   | c # r \<Rightarrow>
       if c = 0x65 \<or> c = 0x45
       then (case scan_exp_sign r of (sg, r') \<Rightarrow>
               if takeWhile is_digit r' \<noteq> []
               then (c # sg @ takeWhile is_digit r', dropWhile is_digit r') else ([], s))
       else ([], s))"

definition scan_number :: "jstring \<Rightarrow> (jstring \<times> jstring) option" where
  "scan_number s = (case scan_sign s of (sg, r1) \<Rightarrow>
     case scan_integer r1 of
       None \<Rightarrow> None
     | Some (i, r2) \<Rightarrow>
         case scan_fraction r2 of (f, r3) \<Rightarrow>
         case scan_exponent r3 of (e, r4) \<Rightarrow> Some (sg @ i @ f @ e, r4))"

text \<open>\<open>JSON_NUMBER\<close>, the anchored form of the same expression.\<close>

definition is_json_number :: "jstring \<Rightarrow> bool" where
  "is_json_number s \<longleftrightarrow> (case scan_number s of Some (_, r) \<Rightarrow> r = [] | None \<Rightarrow> False)"

lemma scan_sign_app: "scan_sign s = (a, b) \<Longrightarrow> s = a @ b"
  by (auto simp: scan_sign_def split: list.splits if_splits)

lemma scan_integer_app: "scan_integer s = Some (a, b) \<Longrightarrow> s = a @ b \<and> a \<noteq> []"
  by (auto simp: scan_integer_def span_digits_def split: list.splits if_splits)

lemma scan_fraction_app: "scan_fraction s = (a, b) \<Longrightarrow> s = a @ b"
  by (auto simp: scan_fraction_def split: list.splits if_splits)

lemma scan_exponent_app: "scan_exponent s = (a, b) \<Longrightarrow> s = a @ b"
  by (auto simp: scan_exponent_def scan_exp_sign_def split: list.splits if_splits)

lemma scan_number_app: "scan_number s = Some (lit, r) \<Longrightarrow> s = lit @ r \<and> lit \<noteq> []"
  by (auto simp: scan_number_def split: prod.splits option.splits
      dest!: scan_sign_app scan_integer_app scan_fraction_app scan_exponent_app)

lemma is_json_number_scan: "is_json_number s \<longleftrightarrow> scan_number s = Some (s, [])"
  by (auto simp: is_json_number_def split: option.splits dest: scan_number_app)

subsection \<open>Strings\<close>

text \<open>The scan for the closing quote, then \<open>JSON.parse\<close> of the slice.\<close>

fun scan_string :: "bool \<Rightarrow> jstring \<Rightarrow> (jstring \<times> jstring) option" where
  "scan_string escaped [] = None"
| "scan_string escaped (c # s) =
     (if c = 0x22 \<and> \<not> escaped then Some ([], s)
      else case scan_string (c = 0x5C \<and> \<not> escaped) s of
             None \<Rightarrow> None
           | Some (body, r) \<Rightarrow> Some (c # body, r))"

definition hex_value :: "code_unit \<Rightarrow> nat option" where
  "hex_value c = (let n = unat c in
     if 48 \<le> n \<and> n \<le> 57 then Some (n - 48)
     else if 97 \<le> n \<and> n \<le> 102 then Some (n - 87)
     else if 65 \<le> n \<and> n \<le> 70 then Some (n - 55) else None)"

definition simple_escape :: "code_unit \<Rightarrow> code_unit option" where
  "simple_escape c =
     (if c = 0x22 then Some 0x22 else if c = 0x5C then Some 0x5C else if c = 0x2F then Some 0x2F
      else if c = 0x62 then Some 8 else if c = 0x66 then Some 12 else if c = 0x6E then Some 10
      else if c = 0x72 then Some 13 else if c = 0x74 then Some 9 else None)"

definition hex4 :: "code_unit \<Rightarrow> code_unit \<Rightarrow> code_unit \<Rightarrow> code_unit \<Rightarrow> code_unit option" where
  "hex4 a b c d = (case (hex_value a, hex_value b, hex_value c, hex_value d) of
     (Some w, Some x, Some y, Some z) \<Rightarrow> Some (of_nat (4096 * w + 256 * x + 16 * y + z))
   | _ \<Rightarrow> None)"

fun unescape :: "jstring \<Rightarrow> jstring option" where
  "unescape [] = Some []"
| "unescape (c # s) =
     (if c = 0x5C then
        (case s of
           [] \<Rightarrow> None
         | e # r \<Rightarrow>
             if e = 0x75 then
               (case r of
                  h1 # h2 # h3 # h4 # r' \<Rightarrow>
                    (case hex4 h1 h2 h3 h4 of
                       None \<Rightarrow> None
                     | Some u \<Rightarrow> map_option (Cons u) (unescape r'))
                | _ \<Rightarrow> None)
             else
               (case simple_escape e of
                  None \<Rightarrow> None
                | Some u \<Rightarrow> map_option (Cons u) (unescape r)))
      else if c < 0x20 then None
      else map_option (Cons c) (unescape s))"

text \<open>The inner function \<open>string\<close>, called with the opening quote already consumed.\<close>

definition decode_string :: "jstring \<Rightarrow> (jstring \<times> jstring) result" where
  "decode_string s = (case scan_string False s of
     None \<Rightarrow> Inl (SyntaxError ''unterminated JSON string'')
   | Some (body, r) \<Rightarrow>
       (case unescape body of
          None \<Rightarrow> Inl (SyntaxError ''invalid JSON string'')
        | Some v \<Rightarrow> if isUnicodeScalarString v then Inr (v, r)
                    else Inl (SyntaxError ''unpaired surrogate'')))"

section \<open>The machine\<close>

text \<open>
  A frame is an open container with its state.  The code attaches a child container to its parent
  when it opens and fills it afterwards; the model attaches it when it closes, under the key the
  frame remembers.  The names of a frame's \<open>keys\<close> set are the keys of its object.
\<close>

datatype frame_state = First | Next | After

datatype frame =
    ArrFrame frame_state "lossless list"
  | ObjFrame frame_state "jstring jobject" jstring

fun state_of_frame :: "frame \<Rightarrow> frame_state" where
  "state_of_frame (ArrFrame st _) = st"
| "state_of_frame (ObjFrame st _ _) = st"

fun set_state :: "frame_state \<Rightarrow> frame \<Rightarrow> frame" where
  "set_state st (ArrFrame _ xs) = ArrFrame st xs"
| "set_state st (ObjFrame _ kvs k) = ObjFrame st kvs k"

fun frame_close :: "frame \<Rightarrow> code_unit" where
  "frame_close (ArrFrame _ _) = 0x5D"
| "frame_close (ObjFrame _ _ _) = 0x7D"

fun frame_value :: "frame \<Rightarrow> lossless" where
  "frame_value (ArrFrame _ xs) = JArr xs"
| "frame_value (ObjFrame _ kvs _) = JObj kvs"

fun attach :: "lossless \<Rightarrow> frame \<Rightarrow> frame" where
  "attach v (ArrFrame st xs) = ArrFrame st (xs @ [v])"
| "attach v (ObjFrame st kvs k) = ObjFrame st (obj_put k v kvs) k"

datatype opened = Leaf lossless | Opened frame

text \<open>The inner function \<open>value\<close>: a leaf, or a container whose opening delimiter was read.\<close>

definition decode_value :: "jstring \<Rightarrow> (opened \<times> jstring) result" where
  "decode_value s = (let t = skip_ws s in
     if prefix [0x22] t then bindR (decode_string (tl t)) (\<lambda>(v, r). Inr (Leaf (JStr v), r))
     else if prefix [0x7B] t then Inr (Opened (ObjFrame First [] []), tl t)
     else if prefix [0x5B] t then Inr (Opened (ArrFrame First []), tl t)
     else if prefix (js ''true'') t then Inr (Leaf (JBool True), drop 4 t)
     else if prefix (js ''false'') t then Inr (Leaf (JBool False), drop 5 t)
     else if prefix (js ''null'') t then Inr (Leaf JNull, drop 4 t)
     else (case scan_number t of
             Some (lit, r) \<Rightarrow> Inr (Leaf (JNum lit), r)
           | None \<Rightarrow> Inl (SyntaxError ''expected JSON value'')))"

text \<open>The member name of an object frame, up to and including its colon.\<close>

definition decode_key :: "frame \<Rightarrow> jstring \<Rightarrow> (frame \<times> jstring) result" where
  "decode_key f s = (case f of
     ArrFrame st xs \<Rightarrow> Inr (f, s)
   | ObjFrame st kvs k0 \<Rightarrow>
       if \<not> prefix [0x22] s then Inl (SyntaxError ''expected object member name'')
       else bindR (decode_string (tl s)) (\<lambda>(k, r).
         if obj_has k kvs then Inl (SyntaxError ''duplicate decoded object member name'')
         else (let r' = skip_ws r in
               if prefix [0x3A] r' then Inr (ObjFrame st kvs k, tl r')
               else Inl (SyntaxError ''expected colon''))))"

lemma skip_ws_length: "length (skip_ws s) \<le> length s"
  by (simp add: skip_ws_def length_dropWhile_le)

lemma scan_string_length: "scan_string e s = Some (b, r) \<Longrightarrow> length r < length s"
  by (induction e s arbitrary: b rule: scan_string.induct) (fastforce split: if_splits option.splits)+

lemma decode_string_length: "decode_string s = Inr (v, r) \<Longrightarrow> length r < length s"
  by (auto simp: decode_string_def dest!: scan_string_length split: option.splits if_splits)

lemma prefix_length_le': "prefix p s \<Longrightarrow> length p \<le> length s"
  by (rule prefix_length_le)

lemma scan_number_length: "scan_number s = Some (lit, r) \<Longrightarrow> length r < length s"
  by (auto dest: scan_number_app)

lemma decode_value_length: "decode_value s = Inr (w, r) \<Longrightarrow> length r < length s"
  using skip_ws_length [of s]
  by (auto simp: decode_value_def Let_def split: if_splits option.splits
      dest!: decode_string_length prefix_length_le' scan_number_length)

lemma decode_key_length: "decode_key f s = Inr (g, r) \<Longrightarrow> length r \<le> length s"
  by (auto simp: decode_key_def Let_def split: frame.splits if_splits
      dest!: decode_string_length prefix_length_le' intro: order_trans [OF _ skip_ws_length])
     (meson diff_le_self dual_order.trans less_imp_le_nat skip_ws_length)

text \<open>
  The loop over the stack of frames, its top at the head.  Every turn consumes a character, so it
  ends; a child container becomes the new top, a leaf goes into the top frame.
\<close>

function decode_loop :: "frame \<Rightarrow> frame list \<Rightarrow> jstring \<Rightarrow> (lossless \<times> jstring) result" where
  "decode_loop f fs s =
     (let t = skip_ws s in
      if prefix [frame_close f] t \<and> state_of_frame f \<noteq> Next then
        (case fs of
           [] \<Rightarrow> Inr (frame_value f, tl t)
         | g # gs \<Rightarrow> decode_loop (attach (frame_value f) g) gs (tl t))
      else if state_of_frame f = After then
        (if prefix [0x2C] t then decode_loop (set_state Next f) fs (tl t)
         else Inl (SyntaxError ''expected comma or closing delimiter''))
      else
        bindR (decode_key f t) (\<lambda>(f', r).
        bindR (decode_value r) (\<lambda>(child, r').
          case child of
            Leaf v \<Rightarrow> decode_loop (attach v (set_state After f')) fs r'
          | Opened g \<Rightarrow> decode_loop g (set_state After f' # fs) r')))"
  by pat_completeness auto
termination
proof (relation "measure (\<lambda>(_, _, s). length s)", goal_cases)
  case (2 f fs s t g gs)
  then show ?case using skip_ws_length [of s] by (auto dest!: prefix_length_le')
next
  case (3 f fs s t)
  then show ?case using skip_ws_length [of s] by (auto dest!: prefix_length_le')
next
  case (4 f fs s t p f' r q child r' v)
  then show ?case using skip_ws_length [of s]
    by (auto dest!: decode_key_length decode_value_length)
next
  case (5 f fs s t p f' r q child r' g)
  then show ?case using skip_ws_length [of s]
    by (auto dest!: decode_key_length decode_value_length)
qed simp

declare decode_loop.simps [simp del]

definition decode_root :: "jstring \<Rightarrow> (lossless \<times> jstring) result" where
  "decode_root s = bindR (decode_value s) (\<lambda>(root, r).
     case root of Leaf v \<Rightarrow> Inr (v, r) | Opened f \<Rightarrow> decode_loop f [] r)"

definition decodeJsonDocument :: "jstring \<Rightarrow> lossless result" where
  "decodeJsonDocument s = bindR (decode_root s) (\<lambda>(v, r).
     if skip_ws r = [] then Inr v else Inl (SyntaxError ''trailing JSON input''))"

section \<open>Strings round trip\<close>

lemma unat_of_nat_unit: "n < 65536 \<Longrightarrow> unat (of_nat n :: code_unit) = n"
  by (simp add: unat_of_nat)

lemma hex_value_digit: "n < 16 \<Longrightarrow> hex_value (hex_digit n) = Some n"
  by (auto simp: hex_value_def hex_digit_def Let_def unat_of_nat_unit simp del: of_nat_add)

lemma hex_split: "4096 * (n div 4096) + 256 * (n div 256 mod 16) + 16 * (n div 16 mod 16) + n mod 16 = n"
  for n :: nat
proof -
  have e: "n div 4096 = n div 256 div 16" "n div 256 = n div 16 div 16"
    by (simp_all add: div_mult2_eq [symmetric])
  have "n = 16 * (n div 16) + n mod 16" by simp
  moreover have "n div 16 = 16 * (n div 256) + n div 16 mod 16" unfolding e by simp
  moreover have "n div 256 = 16 * (n div 4096) + n div 256 mod 16" unfolding e(1) by simp
  ultimately show ?thesis by linarith
qed

lemma hex4_escape:
  "hex4 (hex_digit (unat c div 4096)) (hex_digit (unat c div 256 mod 16))
     (hex_digit (unat c div 16 mod 16)) (hex_digit (unat c mod 16)) = Some c"
proof -
  have "unat c < 65536" using unsigned_less [of c] by simp
  then have "unat c div 4096 < 16" by (simp add: less_mult_imp_div_less)
  then show ?thesis
    by (simp add: hex4_def hex_value_digit hex_split del: of_nat_add of_nat_mult)
qed

lemma unescape_escape: "unescape (unicode_escape c @ s) = map_option (Cons c) (unescape s)"
  by (simp add: unicode_escape_def Let_def hex4_escape)

lemma unescape_plain: "c \<noteq> 0x5C \<Longrightarrow> \<not> c < 0x20 \<Longrightarrow> unescape (c # s) = map_option (Cons c) (unescape s)"
  by simp

lemma surrogate_plain:
  "is_high_surrogate c \<or> is_low_surrogate c \<Longrightarrow> c \<noteq> 0x5C \<and> c \<noteq> 0x22 \<and> \<not> c < 0x20"
  by (auto simp: unit_class_defs)

lemma unescape_quote_unit: "unescape (quote_unit c @ s) = map_option (Cons c) (unescape s)"
  by (simp add: quote_unit_def simple_escape_def unescape_escape del: unescape.simps(2))
    (simp add: simple_escape_def)

lemma unescape_quote: "unescape (quote_units s) = Some s"
proof (induction s rule: quote_units.induct)
  case (2 c)
  show ?case using unescape_quote_unit [of c "[]"] by simp
next
  case (3 c d s)
  then show ?case
    using surrogate_plain [of c] surrogate_plain [of d]
    by (auto simp: unescape_quote_unit unescape_plain simp del: unescape.simps(2))
qed simp

lemma hex_digit_plain: "n < 16 \<Longrightarrow> hex_digit n \<noteq> 0x22 \<and> hex_digit n \<noteq> 0x5C"
proof -
  assume n: "n < 16"
  have "unat (hex_digit n) = (if n < 10 then 48 + n else 87 + n)"
    using n by (simp add: hex_digit_def unat_of_nat_unit del: of_nat_add)
  then show ?thesis using n by (auto split: if_splits)
qed

lemma scan_plain:
  "c \<noteq> 0x22 \<Longrightarrow> c \<noteq> 0x5C \<Longrightarrow> scan_string False (c # s) = map_option (apfst (Cons c)) (scan_string False s)"
  by (auto split: option.split)

lemma scan_quote_unit:
  "scan_string False (quote_unit c @ s) = map_option (apfst (append (quote_unit c))) (scan_string False s)"
proof -
  have "unat c < 65536" using unsigned_less [of c] by simp
  then have "unat c div 4096 < 16" by (simp add: less_mult_imp_div_less)
  note h = hex_digit_plain [OF this] hex_digit_plain [of "unat c div 256 mod 16"]
    hex_digit_plain [of "unat c div 16 mod 16"] hex_digit_plain [of "unat c mod 16"]
  have "scan_string False (unicode_escape c @ s) =
      map_option (apfst (append (unicode_escape c))) (scan_string False s)"
    using h by (auto simp: unicode_escape_def Let_def split: option.split)
  then show ?thesis
    by (auto simp: quote_unit_def split: option.split)
qed

lemma scan_quote: "scan_string False (quote_units s @ 0x22 # r) = Some (quote_units s, r)"
proof (induction s rule: quote_units.induct)
  case (2 c)
  show ?case using scan_quote_unit [of c "0x22 # r"] by simp
next
  case (3 c d s)
  then show ?case
    using surrogate_plain [of c] surrogate_plain [of d]
    by (auto simp: scan_quote_unit scan_plain simp del: scan_string.simps(2))
qed simp

lemma decode_string_text:
  "isUnicodeScalarString s \<Longrightarrow> decode_string (tl (string_text s @ r)) = Inr (s, r)"
  by (simp add: decode_string_def string_text_def scan_quote unescape_quote)

section \<open>Documents round trip\<close>

text \<open>What can follow a printed value: nothing, a comma or a closing delimiter.\<close>

definition stops :: "jstring \<Rightarrow> bool" where
  "stops r \<longleftrightarrow> r = [] \<or> hd r = 0x2C \<or> hd r = 0x5D \<or> hd r = 0x7D"

lemma stops_simps [simp]: "stops []" "stops (0x2C # r)" "stops (0x5D # r)" "stops (0x7D # r)"
  by (simp_all add: stops_def)

lemma stops_hd: "stops r \<Longrightarrow> r \<noteq> [] \<Longrightarrow> \<not> is_digit (hd r) \<and> hd r \<noteq> 0x2D \<and> hd r \<noteq> 0x2B \<and>
    hd r \<noteq> 0x2E \<and> hd r \<noteq> 0x65 \<and> hd r \<noteq> 0x45 \<and> hd r \<noteq> 0x30"
  by (auto simp: stops_def unit_class_defs)

lemma digits_stop:
  assumes "stops r"
  shows "takeWhile is_digit (s @ r) = takeWhile is_digit s"
    "dropWhile is_digit (s @ r) = dropWhile is_digit s @ r"
proof -
  have "takeWhile is_digit r = [] \<and> dropWhile is_digit r = r"
    using stops_hd [OF assms] by (cases r) auto
  then show "takeWhile is_digit (s @ r) = takeWhile is_digit s"
    "dropWhile is_digit (s @ r) = dropWhile is_digit s @ r"
    by (induction s) auto
qed

lemma scan_sign_stop: "stops r \<Longrightarrow> scan_sign (s @ r) = apsnd (\<lambda>b. b @ r) (scan_sign s)"
  using stops_hd [of r] by (cases s; cases r) (auto simp: scan_sign_def)

lemma scan_exp_sign_stop: "stops r \<Longrightarrow> scan_exp_sign (s @ r) = apsnd (\<lambda>b. b @ r) (scan_exp_sign s)"
  using stops_hd [of r] by (cases s; cases r) (auto simp: scan_exp_sign_def)

lemma scan_integer_stop:
  "stops r \<Longrightarrow> scan_integer s = Some (a, b) \<Longrightarrow> scan_integer (s @ r) = Some (a, b @ r)"
  by (auto simp: scan_integer_def span_digits_def digits_stop split: list.splits if_splits)

lemma scan_fraction_stop: "stops r \<Longrightarrow> scan_fraction (s @ r) = apsnd (\<lambda>b. b @ r) (scan_fraction s)"
  using stops_hd [of r] by (cases s; cases r) (auto simp: scan_fraction_def digits_stop)

lemma scan_exponent_stop: "stops r \<Longrightarrow> scan_exponent (s @ r) = apsnd (\<lambda>b. b @ r) (scan_exponent s)"
  using stops_hd [of r]
  by (cases s; cases r) (auto simp: scan_exponent_def scan_exp_sign_stop digits_stop split: prod.splits)

lemma scan_number_stop:
  assumes "stops r" "scan_number s = Some (a, b)"
  shows "scan_number (s @ r) = Some (a, b @ r)"
  using assms
  by (auto simp: scan_number_def scan_sign_stop scan_fraction_stop scan_exponent_stop scan_integer_stop
      split: prod.splits option.splits)

lemma is_json_number_hd: "is_json_number s \<Longrightarrow> s \<noteq> [] \<and> (hd s = 0x2D \<or> is_digit (hd s))"
  by (cases s)
    (auto simp: is_json_number_def scan_number_def scan_sign_def scan_integer_def unit_class_defs
      split: option.splits list.splits if_splits prod.splits)

abbreviation lossless_ok :: "lossless \<Rightarrow> bool" where
  "lossless_ok \<equiv> json_ok is_json_number"

abbreviation lossless_text :: "lossless \<Rightarrow> jstring" where
  "lossless_text \<equiv> json_text (\<lambda>lit. lit)"

text \<open>The first unit of a printed value is neither white space nor a closing delimiter.\<close>

lemma lossless_text_hd:
  assumes "lossless_ok v"
  shows "lossless_text v \<noteq> [] \<and> \<not> is_ws (hd (lossless_text v)) \<and> hd (lossless_text v) \<noteq> 0x5D \<and>
    hd (lossless_text v) \<noteq> 0x7D \<and> hd (lossless_text v) \<noteq> 0x2C"
proof (cases v)
  case (JNum n)
  then show ?thesis using assms is_json_number_hd [of n]
    by (auto simp: is_ws_def unit_class_defs)
qed (auto simp: string_text_def js_def is_ws_def)

lemma skip_ws_hd: "s \<noteq> [] \<Longrightarrow> \<not> is_ws (hd s) \<Longrightarrow> skip_ws (s @ r) = s @ r"
  by (cases s) (auto simp: skip_ws_def)

lemma skip_ws_text [simp]: "lossless_ok v \<Longrightarrow> skip_ws (lossless_text v @ r) = lossless_text v @ r"
  using lossless_text_hd by (intro skip_ws_hd) auto

lemma skip_ws_delim [simp]:
  "skip_ws (0x2C # r) = 0x2C # r" "skip_ws (0x5D # r) = 0x5D # r" "skip_ws (0x7D # r) = 0x7D # r"
  "skip_ws (0x3A # r) = 0x3A # r" "skip_ws (0x22 # r) = 0x22 # r" "skip_ws [] = []"
  by (simp_all add: skip_ws_def is_ws_def)

text \<open>A finished value goes into the top frame, or is the root.\<close>

fun deliver :: "lossless \<Rightarrow> frame list \<Rightarrow> jstring \<Rightarrow> (lossless \<times> jstring) result" where
  "deliver v [] r = Inr (v, r)"
| "deliver v (g # gs) r = decode_loop (attach v g) gs r"

definition value_run :: "frame list \<Rightarrow> jstring \<Rightarrow> (lossless \<times> jstring) result" where
  "value_run fs s = bindR (decode_value s) (\<lambda>(child, r).
     case child of Leaf v \<Rightarrow> deliver v fs r | Opened g \<Rightarrow> decode_loop g fs r)"

lemma decode_root_run: "decode_root s = value_run [] s"
  unfolding decode_root_def value_run_def
  by (intro arg_cong2 [where f = bindR] ext) (auto split: prod.split opened.split)

lemma loop_element:
  "skip_ws s = s \<Longrightarrow> \<not> prefix [frame_close f] s \<Longrightarrow> state_of_frame f \<noteq> After \<Longrightarrow>
   decode_loop f fs s = bindR (decode_key f s) (\<lambda>(f', r). value_run (set_state After f' # fs) r)"
  by (subst decode_loop.simps)
    (auto simp: value_run_def Let_def intro!: arg_cong2 [where f = bindR] ext split: prod.split opened.splits)

lemma loop_close:
  "state_of_frame f \<noteq> Next \<Longrightarrow> skip_ws (frame_close f # r) = frame_close f # r \<Longrightarrow>
   decode_loop f fs (frame_close f # r) = deliver (frame_value f) fs r"
  by (subst decode_loop.simps) (auto simp: Let_def split: list.splits)

lemma loop_comma:
  "decode_loop f fs (0x2C # r) = decode_loop (set_state Next f) fs r" if "state_of_frame f = After"
  using that by (subst decode_loop.simps) (cases f; simp)

lemma value_run_leaf:
  "decode_value (s @ r) = Inr (Leaf v, r) \<Longrightarrow> value_run fs (s @ r) = deliver v fs r"
  by (simp add: value_run_def)

lemma value_run_atom:
  assumes "lossless_ok v" "stops r" "\<forall>xs. v \<noteq> JArr xs" "\<forall>kvs. v \<noteq> JObj kvs"
  shows "value_run fs (lossless_text v @ r) = deliver v fs r"
proof -
  have "decode_value (lossless_text v @ r) = Inr (Leaf v, r)"
  proof (cases v)
    case (JStr s)
    then show ?thesis
      using assms(1) decode_string_text [of s r] skip_ws_text [OF assms(1), of r]
      by (simp add: decode_value_def Let_def string_text_def)
  next
    case (JNum lit)
    with assms(1) have n: "is_json_number lit" by simp
    then have sc: "scan_number (lit @ r) = Some (lit, r)"
      using scan_number_stop [OF assms(2)] by (fastforce simp: is_json_number_scan)
    have hd: "lit \<noteq> []" "hd lit = 0x2D \<or> is_digit (hd lit)" using is_json_number_hd [OF n] by auto
    then obtain c l where "lit = c # l" "c = 0x2D \<or> is_digit c" by (cases lit) auto
    moreover have "lit @ r = skip_ws (lit @ r)" using skip_ws_text [OF assms(1), of r] JNum by simp
    ultimately show ?thesis
      using sc JNum by (auto simp: decode_value_def Let_def js_def unit_class_defs)
  qed (use assms skip_ws_text [OF assms(1), of r] in \<open>auto simp: decode_value_def Let_def js_def\<close>)
  then show ?thesis by (rule value_run_leaf)
qed

definition round_trips :: "lossless \<Rightarrow> bool" where
  "round_trips v \<longleftrightarrow> (\<forall>fs r. stops r \<longrightarrow> value_run fs (lossless_text v @ r) = deliver v fs r)"

lemma array_elements:
  assumes "xs \<noteq> []" "st \<noteq> After" "\<forall>x \<in> set xs. lossless_ok x \<and> round_trips x"
  shows "decode_loop (ArrFrame st acc) fs (commas (map lossless_text xs) @ 0x5D # r) =
    deliver (JArr (acc @ xs)) fs r"
  using assms
proof (induction "map lossless_text xs" arbitrary: xs acc st rule: commas.induct)
  case (2 s)
  then obtain x where xs: "xs = [x]" and s: "s = lossless_text x" by auto
  with 2 have x: "lossless_ok x" "round_trips x" by auto
  have hd: "\<not> prefix [0x5D] (lossless_text x @ t)" for t
    using lossless_text_hd [OF x(1)] by (cases "lossless_text x") auto
  show ?case
    using x 2 hd loop_close [of "ArrFrame After (acc @ [x])" r fs]
    by (simp add: xs loop_element decode_key_def round_trips_def)
next
  case (3 s t ss)
  then obtain x y ys where xs: "xs = x # y # ys" and eqs: "s = lossless_text x" "t # ss = map lossless_text (y # ys)"
    by auto
  with 3 have x: "lossless_ok x" "round_trips x" by auto
  have hd: "\<not> prefix [0x5D] (lossless_text x @ u)" for u
    using lossless_text_hd [OF x(1)] by (cases "lossless_text x") auto
  have "decode_loop (ArrFrame Next (acc @ [x])) fs (commas (map lossless_text (y # ys)) @ 0x5D # r) =
      deliver (JArr ((acc @ [x]) @ y # ys)) fs r"
    using 3 xs eqs by (intro 3(1)) auto
  then show ?case
    using x 3 hd by (simp add: xs loop_element decode_key_def round_trips_def loop_comma)
qed auto

abbreviation field_text :: "jstring \<times> lossless \<Rightarrow> jstring" where
  "field_text \<equiv> \<lambda>(k, x). string_text k @ [0x3A] @ lossless_text x"

lemma object_field:
  assumes "st \<noteq> After" "\<not> obj_has k acc" "isUnicodeScalarString k" "round_trips x" "stops r"
  shows "decode_loop (ObjFrame st acc k0) fs (field_text (k, x) @ r) =
    decode_loop (ObjFrame After (obj_put k x acc) k) fs r"
  using assms decode_string_text [of k "[0x3A] @ lossless_text x @ r"]
  by (simp add: loop_element string_text_def decode_key_def Let_def round_trips_def)

lemma object_elements:
  assumes "kvs \<noteq> []" "st \<noteq> After" "obj_ok (acc @ kvs)"
    "\<forall>(k, x) \<in> set kvs. isUnicodeScalarString k \<and> lossless_ok x \<and> round_trips x"
  shows "decode_loop (ObjFrame st acc k0) fs (commas (map field_text kvs) @ 0x7D # r) =
    deliver (JObj (acc @ kvs)) fs r"
  using assms
proof (induction kvs arbitrary: acc st k0)
  case (Cons p kvs)
  obtain k x where p: "p = (k, x)" by (cases p)
  have ok: "obj_ok ((acc @ [(k, x)]) @ kvs)" using Cons.prems p by simp
  then have put: "obj_put k x acc = acc @ [(k, x)]" by (intro obj_put_snoc) (rule obj_ok_appendD)
  have new: "\<not> obj_has k acc"
    using obj_ok_distinct [OF obj_ok_appendD [OF ok]] by (auto simp: obj_has_def)
  show ?case
  proof (cases kvs)
    case Nil
    have "decode_loop (ObjFrame st acc k0) fs (field_text (k, x) @ 0x7D # r) =
        decode_loop (ObjFrame After (acc @ [(k, x)]) k) fs (0x7D # r)"
      using Cons.prems new p put by (subst object_field) auto
    also have "\<dots> = deliver (JObj (acc @ [(k, x)])) fs r"
      using loop_close [of "ObjFrame After (acc @ [(k, x)]) k" r fs] by simp
    finally show ?thesis by (simp add: p Nil)
  next
    case (Cons q qs)
    have "decode_loop (ObjFrame st acc k0) fs (field_text (k, x) @ 0x2C # t) =
        decode_loop (ObjFrame Next (acc @ [(k, x)]) k) fs t" for t
      using Cons.prems new p put by (subst object_field) (auto simp: loop_comma)
    moreover have "decode_loop (ObjFrame Next (acc @ [(k, x)]) k) fs (commas (map field_text kvs) @ 0x7D # r) =
        deliver (JObj ((acc @ [(k, x)]) @ kvs)) fs r"
      using Cons.prems p ok Cons by (intro Cons.IH) auto
    ultimately show ?thesis by (simp add: p Cons)
  qed
qed simp

lemma round_trips_ok: "lossless_ok v \<Longrightarrow> round_trips v"
proof (induction v)
  case (JArr xs)
  have open_arr: "value_run fs (0x5B # t) = decode_loop (ArrFrame First []) fs t" for fs t
    by (simp add: value_run_def decode_value_def Let_def skip_ws_def is_ws_def)
  show ?case
  proof (cases "xs = []")
    case True
    then show ?thesis
      using loop_close [of "ArrFrame First []"] by (simp add: round_trips_def open_arr)
  next
    case False
    with JArr show ?thesis
      by (simp add: round_trips_def open_arr array_elements list_all_iff)
  qed
next
  case (JObj kvs)
  have open_obj: "value_run fs (0x7B # t) = decode_loop (ObjFrame First [] []) fs t" for fs t
    by (simp add: value_run_def decode_value_def Let_def skip_ws_def is_ws_def)
  show ?case
  proof (cases "kvs = []")
    case True
    then show ?thesis
      using loop_close [of "ObjFrame First [] []"] by (simp add: round_trips_def open_obj)
  next
    case False
    from JObj have "\<forall>(k, x) \<in> set kvs. isUnicodeScalarString k \<and> lossless_ok x \<and> round_trips x"
      by (auto simp: list_all_iff)
    with JObj.prems False show ?thesis
      using object_elements [of kvs First "[]"] by (simp add: round_trips_def open_obj)
  qed
qed (auto simp: round_trips_def intro!: value_run_atom simp del: json_text.simps)

lemma decode_lossless_text: "lossless_ok v \<Longrightarrow> decodeJsonDocument (lossless_text v) = Inr v"
proof -
  assume "lossless_ok v"
  then have "value_run [] (lossless_text v @ []) = deliver v [] []"
    using round_trips_ok [of v] stops_simps(1) unfolding round_trips_def by blast
  then show ?thesis by (simp add: decodeJsonDocument_def decode_root_run)
qed

lemma lossless_text_inj:
  "lossless_ok v \<Longrightarrow> lossless_ok w \<Longrightarrow> lossless_text v = lossless_text w \<Longrightarrow> v = w"
  by (metis decode_lossless_text sum.inject(2))

section \<open>Whatever the decoder accepts is well formed\<close>

lemma is_digit_0: "is_digit 0x30"
  by (simp add: unit_class_defs)

lemma digits_idem [simp]:
  "takeWhile is_digit (takeWhile is_digit x) = takeWhile is_digit x"
  "dropWhile is_digit (takeWhile is_digit x) = []"
  by (auto simp: takeWhile_eq_all_conv dropWhile_eq_Nil_conv dest: set_takeWhileD)

lemma scan_number_valid:
  assumes "scan_number s = Some (lit, r)"
  shows "is_json_number lit"
proof -
  from assms obtain sg r1 i r2 f r3 e r4 where p:
    "scan_sign s = (sg, r1)" "scan_integer r1 = Some (i, r2)" "scan_fraction r2 = (f, r3)"
    "scan_exponent r3 = (e, r4)" "lit = sg @ i @ f @ e"
    by (auto simp: scan_number_def split: prod.splits option.splits)
  have e0: "e = [] \<or> hd e = 0x65 \<or> hd e = 0x45" "scan_exponent e = (e, [])"
    using p(4)
    by (auto simp: scan_exponent_def scan_exp_sign_def split: list.splits if_splits dest: set_takeWhileD)
  have nd: "e = [] \<or> \<not> is_digit (hd e) \<and> hd e \<noteq> 0x2E" using e0(1) by (auto simp: unit_class_defs)
  then have tw: "takeWhile is_digit (x @ e) = takeWhile is_digit x"
    "dropWhile is_digit (x @ e) = dropWhile is_digit x @ e" for x
    by (induction x; cases e; auto)+
  have f0: "f = [] \<or> hd f = 0x2E" "scan_fraction (f @ e) = (f, e)"
    using p(3) nd by (auto simp: scan_fraction_def tw split: list.splits if_splits dest: set_takeWhileD)
  have nd2: "f @ e = [] \<or> \<not> is_digit (hd (f @ e))" using f0(1) nd
    by (cases f) (auto simp: unit_class_defs)
  have tw2: "takeWhile is_digit (x @ f @ e) = takeWhile is_digit x"
    "dropWhile is_digit (x @ f @ e) = dropWhile is_digit x @ f @ e" for x
    using nd2 by (induction x; cases "f @ e"; auto)+
  have i0: "scan_integer (i @ f @ e) = Some (i, f @ e)" "i \<noteq> []" "is_digit (hd i)"
    using p(2) by (auto simp: scan_integer_def span_digits_def tw2 is_digit_0
        split: list.splits if_splits dest: set_takeWhileD)
  have "hd i \<noteq> 0x2D" using i0(3) by (auto simp: unit_class_defs)
  then have "scan_sign (sg @ i @ f @ e) = (sg, i @ f @ e)"
    using p(1) i0(2) by (cases i) (auto simp: scan_sign_def split: list.splits if_splits)
  then show ?thesis
    using i0(1) f0(2) e0(2) p(5) by (simp add: is_json_number_def scan_number_def)
qed

lemma decode_string_scalar: "decode_string s = Inr (v, r) \<Longrightarrow> isUnicodeScalarString v"
  by (auto simp: decode_string_def split: option.splits if_splits)

fun frame_ok :: "frame \<Rightarrow> bool" where
  "frame_ok (ArrFrame st xs) = list_all lossless_ok xs"
| "frame_ok (ObjFrame st kvs k) = (isUnicodeScalarString k \<and> lossless_ok (JObj kvs))"

fun opened_ok :: "opened \<Rightarrow> bool" where
  "opened_ok (Leaf v) = lossless_ok v"
| "opened_ok (Opened f) = frame_ok f"

lemma decode_value_ok: "decode_value s = Inr (w, r) \<Longrightarrow> opened_ok w"
  by (auto simp: decode_value_def Let_def split: if_splits option.splits
      dest: decode_string_scalar scan_number_valid)

lemma decode_key_ok: "frame_ok f \<Longrightarrow> decode_key f s = Inr (g, r) \<Longrightarrow> frame_ok g"
  by (auto simp: decode_key_def Let_def split: frame.splits if_splits dest: decode_string_scalar)

lemma set_state_ok [simp]: "frame_ok (set_state st f) = frame_ok f"
  by (cases f) auto

lemma list_all_obj_put: "list_all Q kvs \<Longrightarrow> Q (k, v) \<Longrightarrow> list_all Q (obj_put k v kvs)"
  using set_obj_put [of k v kvs] by (auto simp: list_all_iff)

lemma attach_ok: "frame_ok f \<Longrightarrow> lossless_ok v \<Longrightarrow> frame_ok (attach v f)"
  by (cases f) (auto intro!: list_all_obj_put)

lemma frame_value_ok: "frame_ok f \<Longrightarrow> lossless_ok (frame_value f)"
  by (cases f) auto

lemma decode_loop_ok:
  "frame_ok f \<Longrightarrow> list_all frame_ok fs \<Longrightarrow> decode_loop f fs s = Inr (v, r) \<Longrightarrow> lossless_ok v"
proof (induction f fs s rule: decode_loop.induct)
  case (1 f fs s)
  show ?case
  proof (cases "prefix [frame_close f] (skip_ws s) \<and> state_of_frame f \<noteq> Next")
    case True
    with 1 show ?thesis
      by (auto simp: decode_loop.simps [of f fs s] Let_def frame_value_ok attach_ok split: list.splits)
  next
    case nclose: False
    show ?thesis
    proof (cases "state_of_frame f = After")
      case True
      with 1 nclose show ?thesis
        by (auto simp: decode_loop.simps [of f fs s] Let_def split: if_splits)
    next
      case False
      then obtain f' r1 w r2 where st: "decode_key f (skip_ws s) = Inr (f', r1)" "decode_value r1 = Inr (w, r2)"
        and res: "(case w of Leaf v \<Rightarrow> decode_loop (attach v (set_state After f')) fs r2
          | Opened g \<Rightarrow> decode_loop g (set_state After f' # fs) r2) = Inr (v, r)"
        using 1(7) nclose by (auto simp: decode_loop.simps [of f fs s] Let_def split: if_splits)
      have ok: "frame_ok f'" "opened_ok w"
        using decode_key_ok [OF 1(5) st(1)] decode_value_ok [OF st(2)] by auto
      show ?thesis
      proof (cases w)
        case (Leaf u)
        show ?thesis
          by (rule 1(3) [OF refl nclose False st(1) refl st(2) refl Leaf]) (use ok Leaf 1 res in \<open>auto simp: attach_ok\<close>)
      next
        case (Opened g)
        show ?thesis
          by (rule 1(4) [OF refl nclose False st(1) refl st(2) refl Opened]) (use ok Opened 1 res in auto)
      qed
    qed
  qed
qed

lemma decode_root_ok: "decode_root s = Inr (v, r) \<Longrightarrow> lossless_ok v"
proof -
  assume "decode_root s = Inr (v, r)"
  then obtain w r1 where w: "decode_value s = Inr (w, r1)"
    and res: "(case w of Leaf u \<Rightarrow> Inr (u, r1) | Opened f \<Rightarrow> decode_loop f [] r1) = Inr (v, r)"
    by (auto simp: decode_root_def)
  show ?thesis
    using decode_value_ok [OF w] res decode_loop_ok [of _ "[]"] by (cases w) auto
qed

lemma decodeJsonDocument_ok: "decodeJsonDocument s = Inr v \<Longrightarrow> lossless_ok v"
  by (auto simp: decodeJsonDocument_def split: if_splits dest: decode_root_ok)

end
