(* ===== verification/Json_Number.thy ===== *)
theory Json_Number
  imports Json_Decode
begin

text \<open>
  Numbers.  Number literals as exact decimals (\<open>exactDecimal\<close>, \<open>isAdmissibleJsonNumber\<close> of
  \<open>packages/protocol/src/json-admission.ts\<close>), the conversions of the language they rest on
  (\<open>Number\<close> of a literal: rounding to binary64; \<open>Number::toString\<close>: the shortest decimal that
  rounds back), and the admitted values, whose numbers are those decimals.
\<close>

section \<open>Exact decimals\<close>

text \<open>
  \<open>Dec c e\<close> is \<open>c * 10 ^ e\<close>.  The code writes it \<open><digits>e<exponent>\<close>, digits without leading or
  trailing zeros; zero, of either sign, is \<open>Dec 0 0\<close>.
\<close>

datatype decimal = Dec int int

definition decimal_ok :: "decimal \<Rightarrow> bool" where
  "decimal_ok d = (case d of Dec c e \<Rightarrow> if c = 0 then e = 0 else \<not> 10 dvd c)"

text \<open>The pieces of a literal: sign, integer digits, fraction digits, exponent text.\<close>

definition is_exp_mark :: "code_unit \<Rightarrow> bool" where
  "is_exp_mark c \<longleftrightarrow> c = 0x65 \<or> c = 0x45"

definition literal_negative :: "jstring \<Rightarrow> bool" where
  "literal_negative lit \<longleftrightarrow> prefix [0x2D] lit"

definition literal_mantissa :: "jstring \<Rightarrow> jstring" where
  "literal_mantissa lit = takeWhile (\<lambda>c. \<not> is_exp_mark c) (if literal_negative lit then tl lit else lit)"

definition literal_exponent_text :: "jstring \<Rightarrow> jstring" where
  "literal_exponent_text lit = (case dropWhile (\<lambda>c. \<not> is_exp_mark c) lit of [] \<Rightarrow> [0x30] | _ # r \<Rightarrow> r)"

definition literal_integer :: "jstring \<Rightarrow> jstring" where
  "literal_integer lit = takeWhile (\<lambda>c. c \<noteq> 0x2E) (literal_mantissa lit)"

definition literal_fraction :: "jstring \<Rightarrow> jstring" where
  "literal_fraction lit = tl (dropWhile (\<lambda>c. c \<noteq> 0x2E) (literal_mantissa lit))"

definition integer_value :: "jstring \<Rightarrow> int" where
  "integer_value s =
     (if prefix [0x2D] s then - int (digits_value (tl s))
      else if prefix [0x2B] s then int (digits_value (tl s))
      else int (digits_value s))"

text \<open>\<open>significant\<close> without its trailing zeros, and their number.\<close>

definition strip_leading :: "jstring \<Rightarrow> jstring" where
  "strip_leading = dropWhile (\<lambda>c. c = 0x30)"

definition trailing_zeros :: "jstring \<Rightarrow> nat" where
  "trailing_zeros s = length (takeWhile (\<lambda>c. c = 0x30) (rev s))"

definition literal_decimal :: "jstring \<Rightarrow> decimal" where
  "literal_decimal lit =
     (let significant = strip_leading (literal_integer lit @ literal_fraction lit);
          trailing = trailing_zeros significant;
          digits = take (length significant - trailing) significant;
          magnitude = int (digits_value digits)
      in if significant = [] then Dec 0 0
         else Dec (if literal_negative lit then - magnitude else magnitude)
                (integer_value (literal_exponent_text lit) - int (length (literal_fraction lit)) + int trailing))"

definition safe_integer :: "int \<Rightarrow> bool" where
  "safe_integer n \<longleftrightarrow> \<bar>n\<bar> \<le> 2 ^ 53 - 1"

text \<open>\<open>exactDecimal\<close>: undefined when the exponent of a nonzero literal is not a safe integer.\<close>

definition exactDecimal :: "jstring \<Rightarrow> decimal option" where
  "exactDecimal lit =
     (if strip_leading (literal_integer lit @ literal_fraction lit) = [] then Some (Dec 0 0)
      else if \<not> safe_integer (integer_value (literal_exponent_text lit)) then None
      else Some (literal_decimal lit))"

section \<open>Binary64\<close>

text \<open>A finite nonzero magnitude is \<open>m * 2 ^ q\<close> with the significand and exponent of the format.\<close>

datatype double = Double nat int

fun bit_size :: "nat \<Rightarrow> nat" where
  "bit_size n = (if n = 0 then 0 else Suc (bit_size (n div 2)))"

declare bit_size.simps [simp del]

definition round_quotient :: "nat \<Rightarrow> nat \<Rightarrow> nat" where
  "round_quotient n d = (let q = n div d; r = n mod d in
     if 2 * r < d \<or> (2 * r = d \<and> even q) then q else q + 1)"

definition scale_num :: "nat \<Rightarrow> int \<Rightarrow> nat" where
  "scale_num n q = n * 2 ^ nat (- q)"

definition scale_den :: "nat \<Rightarrow> int \<Rightarrow> nat" where
  "scale_den d q = d * 2 ^ nat q"

definition double_exponent :: "nat \<Rightarrow> nat \<Rightarrow> int" where
  "double_exponent n d =
     (let b = int (bit_size n) - int (bit_size d) - 53 in
      max (- 1074) (if 2 ^ 53 \<le> scale_num n b div scale_den d b then b + 1 else b))"

text \<open>Rounding a positive rational to nearest, ties to even; \<open>None\<close> is overflow to infinity, and a
  significand 0 is underflow to zero.\<close>

definition round_double :: "nat \<Rightarrow> nat \<Rightarrow> double option" where
  "round_double n d =
     (let q = double_exponent n d;
          m = round_quotient (scale_num n q) (scale_den d q);
          (m', q') = (if m = 2 ^ 53 then (2 ^ 52, q + 1) else (m, q))
      in if 971 < q' then None else Some (Double m' q'))"

definition decimal_num :: "nat \<Rightarrow> int \<Rightarrow> nat" where
  "decimal_num c e = c * 10 ^ nat e"

definition decimal_den :: "int \<Rightarrow> nat" where
  "decimal_den e = 10 ^ nat (- e)"

definition double_of_decimal :: "nat \<Rightarrow> int \<Rightarrow> double option" where
  "double_of_decimal c e =
     (if c = 0 then Some (Double 0 (- 1074)) else round_double (decimal_num c e) (decimal_den e))"

text \<open>A decimal with trailing zeros moved into the exponent.\<close>

function normal_decimal :: "nat \<Rightarrow> int \<Rightarrow> decimal" where
  "normal_decimal c e =
     (if c = 0 then Dec 0 0 else if 10 dvd c then normal_decimal (c div 10) (e + 1) else Dec (int c) e)"
  by pat_completeness auto
termination
  by (relation "measure fst") auto

declare normal_decimal.simps [simp del]

text \<open>
  The decimals with last digit at \<open>10 ^ e\<close> next to the value that round to it, the closest of
  them first.  The shortest representation is the one with the largest \<open>e\<close>; the exponents of the
  format lie between those listed.
\<close>

definition decimal_candidate :: "double \<Rightarrow> int \<Rightarrow> decimal option" where
  "decimal_candidate x e = (case x of Double m q \<Rightarrow>
     let num = m * 2 ^ nat q * 10 ^ nat (- e);
         den = 2 ^ nat (- q) * 10 ^ nat e;
         lo = num div den;
         near_lo = (2 * (num mod den) \<le> den);
         ok_lo = (double_of_decimal lo e = Some x);
         ok_hi = (double_of_decimal (lo + 1) e = Some x)
     in if ok_lo \<and> (near_lo \<or> \<not> ok_hi) then Some (normal_decimal lo e)
        else if ok_hi then Some (normal_decimal (lo + 1) e)
        else None)"

definition shortest_decimal :: "double \<Rightarrow> decimal option" where
  "shortest_decimal x = (if x = Double 0 (- 1074) then Some (Dec 0 0)
     else case find (\<lambda>e. decimal_candidate x e \<noteq> None) (map (\<lambda>k. 309 - int k) [0..<700]) of
            None \<Rightarrow> None
          | Some e \<Rightarrow> decimal_candidate x e)"

text \<open>\<open>Number(literal)\<close>, as a sign and a magnitude, and the decimal of \<open>JSON.stringify\<close> of it.\<close>

definition literal_double :: "jstring \<Rightarrow> double option" where
  "literal_double lit = (case literal_decimal lit of Dec c e \<Rightarrow> double_of_decimal (nat \<bar>c\<bar>) e)"

definition signed_decimal :: "bool \<Rightarrow> decimal \<Rightarrow> decimal" where
  "signed_decimal neg d = (case d of Dec c e \<Rightarrow> Dec (if neg then - c else c) e)"

definition isAdmissibleJsonNumber :: "jstring \<Rightarrow> bool" where
  "isAdmissibleJsonNumber lit =
     (case literal_double lit of
        None \<Rightarrow> False
      | Some nearest \<Rightarrow>
          (case exactDecimal lit of
             None \<Rightarrow> False
           | Some exact \<Rightarrow>
               (case shortest_decimal nearest of
                  None \<Rightarrow> False
                | Some s \<Rightarrow> exact = signed_decimal (literal_negative lit) s)))"

text \<open>
  An admitted number is its decimal: two admitted literals of the same sign that round to the same
  binary64 value are the same decimal, so comparing decimals is comparing JavaScript numbers.
\<close>

lemma admissible_decimal_inj:
  "isAdmissibleJsonNumber l1 \<Longrightarrow> isAdmissibleJsonNumber l2 \<Longrightarrow>
   literal_double l1 = literal_double l2 \<Longrightarrow> literal_negative l1 = literal_negative l2 \<Longrightarrow>
   exactDecimal l1 = exactDecimal l2"
  by (auto simp: isAdmissibleJsonNumber_def split: option.splits)

lemma admissible_exact: "isAdmissibleJsonNumber lit \<Longrightarrow> exactDecimal lit = Some (literal_decimal lit)"
  by (auto simp: isAdmissibleJsonNumber_def exactDecimal_def literal_decimal_def Let_def
      split: option.splits if_splits)

text \<open>A literal of at least \<open>10 ^ 309\<close> overflows, so it is never admitted.\<close>

lemma bit_size_lower: "2 ^ k \<le> n \<Longrightarrow> k < bit_size n"
proof (induction k arbitrary: n)
  case 0
  then show ?case by (simp add: bit_size.simps [of n])
next
  case (Suc k)
  then have "2 ^ k \<le> n div 2" by (simp add: less_eq_div_iff_mult_less_eq mult.commute)
  moreover have "0 < n" using Suc.prems by (cases n) auto
  ultimately show ?case using Suc.IH [of "n div 2"] by (simp add: bit_size.simps [of n])
qed

lemma overflow: "0 < c \<Longrightarrow> 309 \<le> e \<Longrightarrow> double_of_decimal c e = None"
proof -
  assume c: "0 < c" and e: "309 \<le> e"
  have "(2::nat) ^ 1026 \<le> 10 ^ 309" by simp
  also have "\<dots> \<le> 10 ^ nat e" using e by (intro power_increasing) auto
  also have "\<dots> \<le> c * 10 ^ nat e" using c by simp
  finally have "1026 < bit_size (c * 10 ^ nat e)" by (rule bit_size_lower)
  moreover have "bit_size 1 = 1" by (simp add: bit_size.simps)
  ultimately have "971 < double_exponent (c * 10 ^ nat e) 1"
    by (simp add: double_exponent_def Let_def)
  then show ?thesis
    using c e by (auto simp: double_of_decimal_def round_double_def decimal_num_def decimal_den_def Let_def)
qed

lemma huge_inadmissible:
  "literal_decimal lit = Dec c e \<Longrightarrow> c \<noteq> 0 \<Longrightarrow> 309 \<le> e \<Longrightarrow> \<not> isAdmissibleJsonNumber lit"
  by (simp add: isAdmissibleJsonNumber_def literal_double_def overflow)

section \<open>Printing an admitted number\<close>

text \<open>
  The layout of \<open>Number::toString\<close> for the digits \<open>ds\<close> and the position \<open>n\<close> of the decimal point.
\<close>

definition number_layout :: "jstring \<Rightarrow> int \<Rightarrow> jstring" where
  "number_layout ds n =
     (let k = int (length ds) in
      if k \<le> n \<and> n \<le> 21 then ds @ replicate (nat (n - k)) 0x30
      else if 0 < n \<and> n \<le> 21 then take (nat n) ds @ [0x2E] @ drop (nat n) ds
      else if - 6 < n \<and> n \<le> 0 then [0x30, 0x2E] @ replicate (nat (- n)) 0x30 @ ds
      else take 1 ds @ (if k = 1 then [] else [0x2E] @ drop 1 ds) @ [0x65] @
             (if 1 \<le> n then [0x2B] else [0x2D]) @ nat_text (nat \<bar>n - 1\<bar>))"

definition number_text :: "decimal \<Rightarrow> jstring" where
  "number_text d = (case d of Dec c e \<Rightarrow>
     if c = 0 then [0x30]
     else (if c < 0 then [0x2D] else []) @
       (let ds = nat_text (nat \<bar>c\<bar>) in number_layout ds (e + int (length ds))))"

text \<open>A literal put together from its pieces is scanned and split into them again.\<close>

definition literal_of :: "bool \<Rightarrow> jstring \<Rightarrow> jstring \<Rightarrow> jstring option \<Rightarrow> jstring" where
  "literal_of neg i f x =
     (if neg then [0x2D] else []) @ i @ (if f = [] then [] else [0x2E] @ f) @
     (case x of None \<Rightarrow> [] | Some t \<Rightarrow> [0x65] @ t)"

definition exp_text_ok :: "jstring \<Rightarrow> bool" where
  "exp_text_ok t \<longleftrightarrow> (\<exists>c ds. t = c # ds \<and> (c = 0x2B \<or> c = 0x2D) \<and> ds \<noteq> [] \<and> list_all is_digit ds)"

definition pieces_ok :: "jstring \<Rightarrow> jstring \<Rightarrow> jstring option \<Rightarrow> bool" where
  "pieces_ok i f x \<longleftrightarrow> canonical_nat i \<and> list_all is_digit f \<and>
     (case x of None \<Rightarrow> True | Some t \<Rightarrow> exp_text_ok t)"

lemma digit_facts: "is_digit c \<Longrightarrow> c \<noteq> 0x2E \<and> c \<noteq> 0x2D \<and> c \<noteq> 0x2B \<and> \<not> is_exp_mark c"
  by (auto simp: unit_class_defs is_exp_mark_def)

lemma takeWhile_append_all:
  "list_all P xs \<Longrightarrow> takeWhile P (xs @ ys) = xs @ takeWhile P ys"
  "list_all P xs \<Longrightarrow> dropWhile P (xs @ ys) = dropWhile P ys"
  by (induction xs) auto

lemma list_all_mono: "list_all P xs \<Longrightarrow> (\<And>x. P x \<Longrightarrow> Q x) \<Longrightarrow> list_all Q xs"
  by (auto simp: list_all_iff)

lemma takeWhile_digits:
  "list_all is_digit xs \<Longrightarrow> ys = [] \<or> \<not> is_digit (hd ys) \<Longrightarrow>
   takeWhile is_digit (xs @ ys) = xs \<and> dropWhile is_digit (xs @ ys) = ys"
  by (cases ys) (auto simp: takeWhile_append_all takeWhile_eq_all_conv list_all_iff)

lemma takeWhile_all_digits:
  "list_all is_digit xs \<Longrightarrow> takeWhile is_digit xs = xs \<and> dropWhile is_digit xs = []"
  using takeWhile_digits [of xs "[]"] by simp

lemma scan_integer_canonical:
  "canonical_nat i \<Longrightarrow> ys = [] \<or> \<not> is_digit (hd ys) \<Longrightarrow> scan_integer (i @ ys) = Some (i, ys)"
proof -
  assume i: "canonical_nat i" and ys: "ys = [] \<or> \<not> is_digit (hd ys)"
  obtain c t where it: "i = c # t" using i by (cases i) (auto simp: canonical_nat_def)
  show ?thesis
    using i it takeWhile_digits [of i ys] ys
    by (auto simp: canonical_nat_def scan_integer_def span_digits_def)
qed

lemma scan_literal_of:
  assumes "pieces_ok i f x"
  shows "is_json_number (literal_of neg i f x)"
proof -
  define e where "e = (case x of None \<Rightarrow> [] | Some t \<Rightarrow> [0x65] @ t)"
  define g where "g = (if f = [] then [] else [0x2E] @ f)"
  have lit: "literal_of neg i f x = (if neg then [0x2D] else []) @ i @ g @ e"
    by (simp add: literal_of_def e_def g_def)
  have e: "e = [] \<or> hd e = 0x65" "scan_exponent e = (e, [])"
    using assms
    by (auto simp: takeWhile_all_digits e_def pieces_ok_def exp_text_ok_def scan_exponent_def scan_exp_sign_def
        split: option.splits)
  have nd: "e = [] \<or> \<not> is_digit (hd e)" "e = [] \<or> hd e \<noteq> 0x2E"
    using e(1) by (auto simp: unit_class_defs)
  have g: "scan_fraction (g @ e) = (g, e)"
    using assms nd takeWhile_digits [of f e]
    by (cases "f = []"; cases e)
      (simp_all add: g_def pieces_ok_def scan_fraction_def takeWhile_all_digits del: takeWhile_eq_all_conv)
  have gd: "g @ e = [] \<or> \<not> is_digit (hd (g @ e))"
    using nd(1) by (auto simp: g_def unit_class_defs)
  have i: "scan_integer (i @ g @ e) = Some (i, g @ e)"
    using assms gd by (intro scan_integer_canonical) (auto simp: pieces_ok_def)
  obtain c t where "i = c # t" "is_digit c"
    using assms by (cases i) (auto simp: pieces_ok_def canonical_nat_def)
  then have "scan_sign ((if neg then [0x2D] else []) @ i @ g @ e) = (if neg then [0x2D] else [], i @ g @ e)"
    using digit_facts [of c] by (auto simp: scan_sign_def)
  then show ?thesis
    using i g e(2) by (simp add: lit is_json_number_def scan_number_def)
qed

lemma literal_of_parts:
  assumes "pieces_ok i f x"
  shows "literal_negative (literal_of neg i f x) = neg"
    and "literal_integer (literal_of neg i f x) = i"
    and "literal_fraction (literal_of neg i f x) = f"
    and "literal_exponent_text (literal_of neg i f x) = (case x of None \<Rightarrow> [0x30] | Some t \<Rightarrow> t)"
proof -
  define e where "e = (case x of None \<Rightarrow> [] | Some t \<Rightarrow> [0x65] @ t)"
  define g where "g = (if f = [] then [] else [0x2E] @ f)"
  have lit: "literal_of neg i f x = (if neg then [0x2D] else []) @ i @ g @ e"
    by (simp add: literal_of_def e_def g_def)
  obtain c t where c: "i = c # t" "is_digit c"
    using assms by (cases i) (auto simp: pieces_ok_def canonical_nat_def)
  have di: "list_all is_digit i" "list_all is_digit f"
    using assms by (auto simp: pieces_ok_def canonical_nat_def)
  have em: "list_all (\<lambda>c. \<not> is_exp_mark c) (i @ g)"
    using di digit_facts by (auto simp: list_all_iff g_def is_exp_mark_def)
  show neg: "literal_negative (literal_of neg i f x) = neg"
    unfolding literal_negative_def lit using c digit_facts [of c] by (cases neg) auto
  have e0: "takeWhile (\<lambda>c. \<not> is_exp_mark c) e = []" "dropWhile (\<lambda>c. \<not> is_exp_mark c) e = e"
    by (auto simp: e_def is_exp_mark_def split: option.splits)
  have man: "literal_mantissa (literal_of neg i f x) = i @ g"
    using neg em takeWhile_append_all(1) [OF em, of e] e0
    by (simp add: literal_mantissa_def lit)
  have dot: "list_all (\<lambda>c. c \<noteq> 0x2E) i" using di digit_facts by (auto simp: list_all_iff)
  show "literal_integer (literal_of neg i f x) = i"
    using takeWhile_append_all(1) [OF dot, of g] by (simp add: literal_integer_def man g_def)
  show "literal_fraction (literal_of neg i f x) = f"
    using takeWhile_append_all(2) [OF dot, of g] by (simp add: literal_fraction_def man g_def)
  have "dropWhile (\<lambda>c. \<not> is_exp_mark c) (literal_of neg i f x) = e"
    using takeWhile_append_all(2) [OF em, of e] e0
    by (auto simp: lit is_exp_mark_def)
  then show "literal_exponent_text (literal_of neg i f x) = (case x of None \<Rightarrow> [0x30] | Some t \<Rightarrow> t)"
    by (simp add: literal_exponent_text_def e_def split: option.splits)
qed

text \<open>The decimal of a literal whose significant digits are \<open>ds\<close> among leading and trailing zeros.\<close>

lemma strip_leading_zeros:
  "ds = [] \<or> hd ds \<noteq> 0x30 \<Longrightarrow> strip_leading (replicate n 0x30 @ ds @ z) = (if ds = [] then strip_leading z else ds @ z)"
  by (induction n) (cases ds; auto simp: strip_leading_def)+

lemma trailing_zeros_app:
  "ds \<noteq> [] \<Longrightarrow> last ds \<noteq> 0x30 \<Longrightarrow> trailing_zeros (ds @ replicate n 0x30) = n"
  by (cases ds rule: rev_cases) (auto simp: trailing_zeros_def takeWhile_append_all takeWhile_append)

lemma literal_decimal_digits:
  assumes "pieces_ok i f x" "i @ f = replicate a 0x30 @ ds @ replicate b 0x30"
    and "ds \<noteq> []" "hd ds \<noteq> 0x30" "last ds \<noteq> 0x30"
  shows "literal_decimal (literal_of neg i f x) =
    Dec (if neg then - int (digits_value ds) else int (digits_value ds))
      ((case x of None \<Rightarrow> 0 | Some t \<Rightarrow> integer_value t) - int (length f) + int b)"
proof -
  have s: "strip_leading (i @ f) = ds @ replicate b 0x30"
    using assms by (simp add: strip_leading_zeros)
  have z: "integer_value [0x30] = 0"
    by (simp add: integer_value_def digits_value_def)
  show ?thesis
    using assms s trailing_zeros_app [of ds b] z
    by (simp add: literal_decimal_def literal_of_parts Let_def split: option.splits)
qed

lemma last_nat_text: "n mod 10 \<noteq> 0 \<Longrightarrow> last (nat_text n) \<noteq> 0x30"
proof -
  assume n: "n mod 10 \<noteq> 0"
  have "unat (last (nat_text n)) = 48 + n mod 10"
    by (subst nat_text.simps) (use unat_digit [of n] unat_digit [of "n mod 10"] in \<open>auto simp del: of_nat_add\<close>)
  with n show ?thesis by auto
qed

lemma hd_nat_text: "0 < n \<Longrightarrow> hd (nat_text n) \<noteq> 0x30"
  using nat_text_hd [of n] by auto

text \<open>Every printed number is a literal of those pieces.\<close>

definition layout_pieces :: "jstring \<Rightarrow> int \<Rightarrow> jstring \<times> jstring \<times> jstring option" where
  "layout_pieces ds n =
     (let k = int (length ds) in
      if k \<le> n \<and> n \<le> 21 then (ds @ replicate (nat (n - k)) 0x30, [], None)
      else if 0 < n \<and> n \<le> 21 then (take (nat n) ds, drop (nat n) ds, None)
      else if - 6 < n \<and> n \<le> 0 then ([0x30], replicate (nat (- n)) 0x30 @ ds, None)
      else (take 1 ds, drop 1 ds,
            Some ((if 1 \<le> n then [0x2B] else [0x2D]) @ nat_text (nat \<bar>n - 1\<bar>))))"

lemma digits_replicate [simp]: "list_all is_digit (replicate n 0x30)"
  by (auto simp: list_all_iff is_digit_0)

lemma canonical_take:
  assumes "list_all is_digit z" "list_all is_digit ds" "hd ds \<noteq> 0x30" "take m ds \<noteq> []"
  shows "canonical_nat (take m ds @ z)"
proof -
  have "hd (take m ds @ z) = hd ds" using assms(4) by (cases ds; cases m) auto
  then show ?thesis
    using assms by (auto simp: canonical_nat_def list_all_iff dest: in_set_takeD)
qed

lemma canonical_zero: "canonical_nat [0x30]"
  by (simp add: canonical_nat_def is_digit_0)

lemma drop_1_empty: "ds \<noteq> [] \<Longrightarrow> drop 1 ds = [] \<longleftrightarrow> length ds = 1"
  by (cases ds) auto

lemma drop_point_ne: "0 < n \<Longrightarrow> \<not> int (length ds) \<le> n \<Longrightarrow> drop (nat n) ds \<noteq> []"
  by auto

lemma number_layout_pieces:
  assumes "list_all is_digit ds" "ds \<noteq> []" "hd ds \<noteq> 0x30" "layout_pieces ds n = (i, f, x)"
  shows "(if neg then [0x2D] else []) @ number_layout ds n = literal_of neg i f x" "pieces_ok i f x"
proof -
  show "(if neg then [0x2D] else []) @ number_layout ds n = literal_of neg i f x"
    using assms
    by (auto simp: layout_pieces_def number_layout_def literal_of_def Let_def drop_1_empty [OF assms(2)] drop_point_ne
        simp del: One_nat_def drop_eq_Nil split: if_splits)
  show "pieces_ok i f x"
    using assms canonical_take [of "replicate (nat (n - int (length ds))) 0x30" ds "length ds"]
      canonical_take [of "[]" ds "nat n"] canonical_take [of "[]" ds 1] nat_text_digits [of "nat \<bar>n - 1\<bar>"]
    by (auto simp: layout_pieces_def pieces_ok_def exp_text_ok_def Let_def list_all_iff is_digit_0
        canonical_zero dest: in_set_dropD split: if_splits)
qed

lemma integer_value_signed:
  "integer_value (0x2B # nat_text m) = int m" "integer_value (0x2D # nat_text m) = - int m"
  by (simp_all add: integer_value_def)

lemma decimal_of_layout:
  assumes "list_all is_digit ds" "ds \<noteq> []" "hd ds \<noteq> 0x30" "last ds \<noteq> 0x30"
  shows "literal_decimal ((if neg then [0x2D] else []) @ number_layout ds n) =
    Dec (if neg then - int (digits_value ds) else int (digits_value ds)) (n - int (length ds))"
proof -
  obtain i f x where p: "layout_pieces ds n = (i, f, x)" by (cases "layout_pieces ds n")
  note lp = number_layout_pieces [OF assms(1-3) p]
  have "\<exists>a b. i @ f = replicate a 0x30 @ ds @ replicate b 0x30 \<and>
      (case x of None \<Rightarrow> 0 | Some t \<Rightarrow> integer_value t) - int (length f) + int b = n - int (length ds)"
  proof (cases "int (length ds) \<le> n \<and> n \<le> 21")
    case True
    then show ?thesis using p
      by (intro exI [of _ 0] exI [of _ "nat (n - int (length ds))"]) (auto simp: layout_pieces_def Let_def)
  next
    case c1: False
    show ?thesis
    proof (cases "- 6 < n \<and> n \<le> 0")
      case True
      with c1 show ?thesis using p assms(2)
        by (intro exI [of _ "Suc (nat (- n))"] exI [of _ 0]) (auto simp: layout_pieces_def Let_def)
    next
      case False
      with c1 show ?thesis using p assms(2)
        by (intro exI [of _ 0])
          (auto simp: layout_pieces_def Let_def integer_value_signed Suc_le_eq split: if_splits)
    qed
  qed
  then obtain a b where ab: "i @ f = replicate a 0x30 @ ds @ replicate b 0x30"
    "(case x of None \<Rightarrow> 0 | Some t \<Rightarrow> integer_value t) - int (length f) + int b = n - int (length ds)"
    by blast
  show ?thesis
    unfolding lp(1) literal_decimal_digits [OF lp(2) ab(1) assms(2-4)] ab(2) ..
qed

lemma number_text_number: "is_json_number (number_text d)"
proof (cases d)
  case (Dec c e)
  show ?thesis
  proof (cases "c = 0")
    case True
    then show ?thesis using Dec scan_literal_of [of "[0x30]" "[]" None False]
      by (simp add: number_text_def literal_of_def pieces_ok_def canonical_nat_def is_digit_0)
  next
    case False
    let ?ds = "nat_text (nat \<bar>c\<bar>)"
    obtain i f x where "layout_pieces ?ds (e + int (length ?ds)) = (i, f, x)" by (cases "layout_pieces ?ds (e + int (length ?ds))")
    note lp = number_layout_pieces [OF nat_text_digits nat_text_ne(1) hd_nat_text this]
    from scan_literal_of [OF lp(2), of "c < 0"] lp(1) [of "c < 0"] False show ?thesis
      by (simp add: number_text_def Dec Let_def)
  qed
qed

lemma decimal_number_text: "decimal_ok d \<Longrightarrow> literal_decimal (number_text d) = d"
proof (cases d)
  case (Dec c e)
  assume ok: "decimal_ok d"
  show ?thesis
  proof (cases "c = 0")
    case True
    with ok Dec show ?thesis
      using literal_of_parts [of "[0x30]" "[]" None False]
      by (simp add: number_text_def decimal_ok_def literal_decimal_def literal_of_def pieces_ok_def
          canonical_nat_def is_digit_0 strip_leading_def)
  next
    case False
    with ok Dec have "\<not> 10 dvd c" by (simp add: decimal_ok_def)
    then have "\<not> 10 dvd nat \<bar>c\<bar>" by (metis abs_dvd_iff dvd_abs_iff int_dvd_int_iff int_nat_eq abs_ge_zero of_nat_numeral)
    then have m: "nat \<bar>c\<bar> mod 10 \<noteq> 0" by (simp add: dvd_eq_mod_eq_0)
    show ?thesis
      using decimal_of_layout [OF nat_text_digits nat_text_ne(1) hd_nat_text last_nat_text [OF m],
          of "c < 0" "e + int (length (nat_text (nat \<bar>c\<bar>)))"] False
      by (simp add: number_text_def Dec Let_def)
  qed
qed

end
