(* ===== verification/Json_Admission.thy ===== *)
theory Json_Admission
  imports Json_Number
begin

text \<open>
  Numeric admission (\<open>mapLosslessJson\<close> and \<open>admitJsonNumbers\<close> of
  \<open>packages/protocol/src/json-admission.ts\<close>): the lossless tree becomes a tree of numbers, or a
  bounded list of diagnostics.  Also the snapshot of \<open>packages/protocol/src/json-values.ts\<close> and
  the text of an admitted value.
\<close>

section \<open>Admitted values\<close>

text \<open>
  An admitted number is identified with its exact decimal (\<open>admissible_decimal_inj\<close>); the number
  \<open>0\<close> stands for \<open>-0\<close> too, which the code maps to \<open>0\<close>.
\<close>

type_synonym json = "decimal jv"
type_synonym json_object = "decimal jobject"

abbreviation admitted_ok :: "json \<Rightarrow> bool" where
  "admitted_ok \<equiv> json_ok decimal_ok"

definition json_nat :: "nat \<Rightarrow> json" where
  "json_nat n = JNum (normal_decimal n 0)"

definition serialized :: "json \<Rightarrow> jstring" where
  "serialized v = print_json number_text v"

text \<open>\<open>JSON.parse\<close> of text that \<open>serialized\<close> wrote: its numbers are exact.\<close>

definition json_parse :: "jstring \<Rightarrow> json result" where
  "json_parse text = bindR (decodeJsonDocument text) (\<lambda>v. Inr (map_jv literal_decimal v))"

text \<open>
  \<open>snapshotJsonValue\<close> of a tree of plain values: it refuses lone surrogates in strings and keys and
  copies everything else.  Cycles, accessors and foreign prototypes cannot occur in a \<open>json\<close>.
\<close>

fun scalar_strings :: "'n jv \<Rightarrow> bool" where
  "scalar_strings (JStr s) = isUnicodeScalarString s"
| "scalar_strings (JArr xs) = list_all scalar_strings xs"
| "scalar_strings (JObj kvs) = list_all (\<lambda>(k, x). isUnicodeScalarString k \<and> scalar_strings x) kvs"
| "scalar_strings _ = True"

definition snapshotJsonValue :: "json \<Rightarrow> json result" where
  "snapshotJsonValue v =
     (if scalar_strings v then Inr v else Inl (ArtifactError ''must not contain an unpaired surrogate''))"

lemma scalar_strings_ok: "json_ok P v \<Longrightarrow> scalar_strings v"
  by (induction v) (auto simp: list_all_iff)

lemma snapshot_ok [simp]: "json_ok decimal_ok v \<Longrightarrow> snapshotJsonValue v = Inr v"
  by (simp add: snapshotJsonValue_def scalar_strings_ok)

lemma json_ok_map: "json_ok P v \<Longrightarrow> (\<And>n. P n \<Longrightarrow> Q (f n)) \<Longrightarrow> json_ok Q (map_jv f v)"
proof (induction v)
  case (JObj kvs)
  have "obj_ok (map (map_prod id (map_jv f)) kvs)"
    using JObj by (simp add: obj_ok_def sorted_wrt_map)
  then show ?case using JObj by (fastforce simp: list_all_iff)
qed (auto simp: list_all_iff)

lemma json_ok_lossless: "admitted_ok v \<Longrightarrow> lossless_ok (map_jv number_text v)"
  by (rule json_ok_map) (auto simp: number_text_number)

lemma serialized_lossless: "serialized v = lossless_text (map_jv number_text v)"
  by (simp add: serialized_def print_json_text json_text_map comp_def)

lemma map_jv_inverse: "json_ok P v \<Longrightarrow> (\<And>n. P n \<Longrightarrow> g (f n) = n) \<Longrightarrow> map_jv g (map_jv f v) = v"
proof (induction v)
  case (JObj kvs)
  then have "map (map_prod id (map_jv g) \<circ> map_prod id (map_jv f)) kvs = kvs"
    by (intro map_idI) (auto simp: list_all_iff)
  then show ?case by simp
qed (auto simp: list_all_iff map_idI)

theorem json_parse_serialized: "admitted_ok v \<Longrightarrow> json_parse (serialized v) = Inr v"
  by (simp add: json_parse_def serialized_lossless decode_lossless_text json_ok_lossless
      map_jv_inverse decimal_number_text)

lemma serialized_inj: "admitted_ok v \<Longrightarrow> admitted_ok w \<Longrightarrow> serialized v = serialized w \<Longrightarrow> v = w"
  by (metis json_parse_serialized Inr_inject)

section \<open>The traversal\<close>

text \<open>
  A path is the list of keys from the inside out, as the parent links of the code; \<open>pointer\<close> prints
  it with the escapes of JSON Pointer.
\<close>

definition escape_token :: "jstring \<Rightarrow> jstring" where
  "escape_token k = concat (map (\<lambda>c. if c = 0x7E then js ''~0'' else if c = 0x2F then js ''~1'' else [c]) k)"

definition pointer :: "jstring list \<Rightarrow> jstring" where
  "pointer path = concat (map (\<lambda>k. 0x2F # escape_token k) (rev path))"

text \<open>
  The loop visits the tree in order and hands every number literal to the callback with its
  pointer; the callback threads a state and may throw.  Keys of an array are its indices.
\<close>

function (sequential)
  mapLosslessJson :: "(jstring \<Rightarrow> jstring \<Rightarrow> 's \<Rightarrow> 'e + decimal \<times> 's) \<Rightarrow> jstring list \<Rightarrow> lossless \<Rightarrow> 's \<Rightarrow> 'e + json \<times> 's"
  and map_lossless_items :: "(jstring \<Rightarrow> jstring \<Rightarrow> 's \<Rightarrow> 'e + decimal \<times> 's) \<Rightarrow> jstring list \<Rightarrow> nat \<Rightarrow> lossless list \<Rightarrow> 's \<Rightarrow> 'e + json list \<times> 's"
  and map_lossless_members :: "(jstring \<Rightarrow> jstring \<Rightarrow> 's \<Rightarrow> 'e + decimal \<times> 's) \<Rightarrow> jstring list \<Rightarrow> jstring jobject \<Rightarrow> 's \<Rightarrow> 'e + json_object \<times> 's"
where
  "mapLosslessJson number path (JNum lit) s =
     bindR (number lit (pointer path) s) (\<lambda>(n, s'). Inr (JNum n, s'))"
| "mapLosslessJson number path (JArr xs) s =
     bindR (map_lossless_items number path 0 xs s) (\<lambda>(ys, s'). Inr (JArr ys, s'))"
| "mapLosslessJson number path (JObj kvs) s =
     bindR (map_lossless_members number path kvs s) (\<lambda>(ys, s'). Inr (JObj ys, s'))"
| "mapLosslessJson number path (JStr t) s = Inr (JStr t, s)"
| "mapLosslessJson number path (JBool b) s = Inr (JBool b, s)"
| "mapLosslessJson number path JNull s = Inr (JNull, s)"
| "map_lossless_items number path i [] s = Inr ([], s)"
| "map_lossless_items number path i (x # xs) s =
     bindR (mapLosslessJson number (nat_text i # path) x s) (\<lambda>(y, s').
       bindR (map_lossless_items number path (Suc i) xs s') (\<lambda>(ys, s''). Inr (y # ys, s'')))"
| "map_lossless_members number path [] s = Inr ([], s)"
| "map_lossless_members number path ((k, x) # kvs) s =
     bindR (mapLosslessJson number (k # path) x s) (\<lambda>(y, s').
       bindR (map_lossless_members number path kvs s') (\<lambda>(ys, s''). Inr ((k, y) # ys, s'')))"
  by pat_completeness auto
termination
  by (relation "measure (\<lambda>a. case a of Inl (_, _, v, _) \<Rightarrow> size v
        | Inr (Inl (_, _, _, xs, _)) \<Rightarrow> size_list size xs
        | Inr (Inr (_, _, kvs, _)) \<Rightarrow> size_list (size_prod (\<lambda>_. 0) size) kvs)") auto

text \<open>The number literals of a tree with their pointers, in the order of the traversal.\<close>

fun occurrences :: "jstring list \<Rightarrow> lossless \<Rightarrow> (jstring \<times> jstring) list"
  and item_occurrences :: "jstring list \<Rightarrow> nat \<Rightarrow> lossless list \<Rightarrow> (jstring \<times> jstring) list"
  and member_occurrences :: "jstring list \<Rightarrow> jstring jobject \<Rightarrow> (jstring \<times> jstring) list"
where
  "occurrences path (JNum lit) = [(pointer path, lit)]"
| "occurrences path (JArr xs) = item_occurrences path 0 xs"
| "occurrences path (JObj kvs) = member_occurrences path kvs"
| "occurrences path _ = []"
| "item_occurrences path i [] = []"
| "item_occurrences path i (x # xs) =
     occurrences (nat_text i # path) x @ item_occurrences path (Suc i) xs"
| "member_occurrences path [] = []"
| "member_occurrences path ((k, x) # kvs) = occurrences (k # path) x @ member_occurrences path kvs"

section \<open>Admission\<close>

text \<open>The closed fields of a \<open>ValidationDiagnostic\<close>, in the order the code copies them.\<close>

record validation_diagnostic =
  diag_type :: "jstring option"
  diag_schemaLocation :: "jstring option"
  diag_instanceLocation :: "jstring option"
  diag_document :: "jstring option"
  diag_message :: jstring

definition opt_member :: "string \<Rightarrow> jstring option \<Rightarrow> json_object" where
  "opt_member name m = (case m of None \<Rightarrow> [] | Some s \<Rightarrow> [(js name, JStr s)])"

definition diagnostic_json :: "validation_diagnostic \<Rightarrow> json" where
  "diagnostic_json d = JObj
     (opt_member ''type'' (diag_type d) @ opt_member ''schemaLocation'' (diag_schemaLocation d) @
      opt_member ''instanceLocation'' (diag_instanceLocation d) @ opt_member ''document'' (diag_document d) @
      [(js ''message'', JStr (diag_message d))])"

record budget =
  count_limit :: "nat option"
  byte_limit :: "nat option"
  format_diagnostic :: "jstring \<Rightarrow> jstring \<Rightarrow> validation_diagnostic"

record admission_state =
  offending :: "(jstring \<times> jstring) list"
  diagnostics :: "json list"
  diagnostic_bytes :: nat

datatype admission =
    Admitted json
  | Refused "(jstring \<times> jstring) list" "json list" bool

text \<open>
  The callback leaves the traversal by throwing: the private \<open>stop\<close> symbol when the budget is
  exhausted, or an error.  The number it returns for a refused literal never leaves the function,
  since a refusal discards the tree.
\<close>

datatype admission_exit = Stop admission_state | Throw js_error

definition within :: "nat option \<Rightarrow> nat \<Rightarrow> bool" where
  "within limit n = (case limit of None \<Rightarrow> True | Some b \<Rightarrow> n \<le> b)"

definition admit_refusal :: "budget \<Rightarrow> jstring \<Rightarrow> jstring \<Rightarrow> admission_state \<Rightarrow> admission_exit + admission_state" where
  "admit_refusal b lit ptr s =
     (if \<not> within (count_limit b) (Suc (length (diagnostics s))) then Inl (Stop s)
      else
        let diagnostic = diagnostic_json (format_diagnostic b ptr lit);
            nextBytes = diagnostic_bytes s + (if diagnostics s = [] then 0 else 1)
              + byte_length (serialized diagnostic)
        in if \<not> within (byte_limit b) nextBytes
           then if diagnostics s = []
                then Inl (Throw (BudgetError ''diagnostic byte bound cannot retain the first entry''))
                else Inl (Stop s)
           else Inr \<lparr> offending = offending s @ [(ptr, lit)],
                      diagnostics = diagnostics s @ [diagnostic], diagnostic_bytes = nextBytes \<rparr>)"

definition admit_turn :: "budget \<Rightarrow> jstring \<Rightarrow> jstring \<Rightarrow> admission_state \<Rightarrow> admission_exit + admission_state" where
  "admit_turn b lit ptr s = (if isAdmissibleJsonNumber lit then Inr s else admit_refusal b lit ptr s)"

definition admit_number :: "budget \<Rightarrow> jstring \<Rightarrow> jstring \<Rightarrow> admission_state \<Rightarrow> admission_exit + decimal \<times> admission_state" where
  "admit_number b lit ptr s = bindR (admit_turn b lit ptr s) (\<lambda>s'. Inr (literal_decimal lit, s'))"

definition limit_ok :: "nat option \<Rightarrow> bool" where
  "limit_ok limit = (case limit of None \<Rightarrow> True | Some n \<Rightarrow> 1 \<le> n \<and> safe_integer (int n))"

definition initial_admission :: admission_state where
  "initial_admission = \<lparr> offending = [], diagnostics = [], diagnostic_bytes = 2 \<rparr>"

definition admitJsonNumbers :: "lossless \<Rightarrow> budget \<Rightarrow> admission result" where
  "admitJsonNumbers root b =
     (if \<not> limit_ok (count_limit b) \<or> \<not> limit_ok (byte_limit b)
      then Inl (BudgetError ''diagnostic bounds must be positive safe integers'')
      else case mapLosslessJson (admit_number b) [] root initial_admission of
             Inr (v, s) \<Rightarrow> Inr (if offending s \<noteq> [] then Refused (offending s) (diagnostics s) False else Admitted v)
           | Inl (Stop s) \<Rightarrow> Inr (Refused (offending s) (diagnostics s) True)
           | Inl (Throw e) \<Rightarrow> Inl e)"

section \<open>Admission as a fold over the literals\<close>

lemma mapLosslessJson_fold:
  "mapLosslessJson (admit_number b) path v s =
     bindR (foldR (\<lambda>(p, l). admit_turn b l p) (occurrences path v) s) (\<lambda>s'. Inr (map_jv literal_decimal v, s'))"
  "map_lossless_items (admit_number b) path i xs s =
     bindR (foldR (\<lambda>(p, l). admit_turn b l p) (item_occurrences path i xs) s)
       (\<lambda>s'. Inr (map (map_jv literal_decimal) xs, s'))"
  "map_lossless_members (admit_number b) path kvs s =
     bindR (foldR (\<lambda>(p, l). admit_turn b l p) (member_occurrences path kvs) s)
       (\<lambda>s'. Inr (map (map_prod id (map_jv literal_decimal)) kvs, s'))"
proof (induction path v and path i xs and path kvs arbitrary: s and s and s
    rule: occurrences_item_occurrences_member_occurrences.induct)
qed (simp_all add: admit_number_def foldR_append bindR_assoc)

fun literals :: "lossless \<Rightarrow> jstring list" where
  "literals (JNum lit) = [lit]"
| "literals (JArr xs) = concat (map literals xs)"
| "literals (JObj kvs) = concat (map (\<lambda>(k, x). literals x) kvs)"
| "literals _ = []"

lemma occurrences_literals:
  "map snd (occurrences path v) = literals v"
  "map snd (item_occurrences path i xs) = concat (map literals xs)"
  "map snd (member_occurrences path kvs) = concat (map (\<lambda>(k, x). literals x) kvs)"
  by (induction path v and path i xs and path kvs rule: occurrences_item_occurrences_member_occurrences.induct)
    simp_all

definition list_bytes :: "json list \<Rightarrow> nat" where
  "list_bytes ds = byte_length (serialized (JArr ds))"

definition admission_inv :: "budget \<Rightarrow> admission_state \<Rightarrow> bool" where
  "admission_inv b s \<longleftrightarrow> diagnostic_bytes s = list_bytes (diagnostics s) \<and>
     length (diagnostics s) = length (offending s) \<and>
     within (count_limit b) (length (diagnostics s)) \<and>
     (diagnostics s \<noteq> [] \<longrightarrow> within (byte_limit b) (diagnostic_bytes s))"

abbreviation inadmissible :: "jstring \<times> jstring \<Rightarrow> bool" where
  "inadmissible occ \<equiv> \<not> isAdmissibleJsonNumber (snd occ)"

lemma list_bytes_snoc:
  "list_bytes (ds @ [d]) = list_bytes ds + (if ds = [] then 0 else 1) + byte_length (serialized d)"
proof -
  have "commas (map (json_text number_text) (ds @ [d])) =
      commas (map (json_text number_text) ds) @ (if ds = [] then [] else [0x2C]) @ json_text number_text d"
    by (induction ds rule: array_tasks.induct) auto
  then show ?thesis
    by (auto simp: list_bytes_def serialized_def print_json_text byte_length_split_ascii byte_length_ascii)
qed

lemma list_bytes_single: "list_bytes [d] = list_bytes [] + byte_length (serialized d)"
  using list_bytes_snoc [of "[]" d] by simp

lemma list_bytes_Nil: "list_bytes [] = 2"
  by (simp add: list_bytes_def serialized_def print_json_text byte_length_ascii)

lemma admit_turn_inv:
  assumes "admission_inv b s" "admit_turn b l p s = Inr s'"
  shows "admission_inv b s' \<and> offending s' = offending s @ filter inadmissible [(p, l)]"
  using assms
  by (auto simp: admit_turn_def admit_refusal_def admission_inv_def Let_def list_bytes_snoc list_bytes_single
      split: if_splits)

lemma admit_fold:
  "foldR (\<lambda>(p, l). admit_turn b l p) occs initial_admission = Inr s \<Longrightarrow>
   admission_inv b s \<and> offending s = filter inadmissible occs"
proof (induction occs arbitrary: s rule: rev_induct)
  case Nil
  then show ?case
    by (auto simp: initial_admission_def admission_inv_def within_def list_bytes_Nil split: option.splits)
next
  case (snoc occ occs)
  from snoc.prems obtain t where t: "foldR (\<lambda>(p, l). admit_turn b l p) occs initial_admission = Inr t"
    "admit_turn b (snd occ) (fst occ) t = Inr s"
    by (auto simp: foldR_append case_prod_unfold)
  from snoc.IH [OF t(1)] admit_turn_inv [OF _ t(2)] show ?case by simp
qed

lemma admit_stop:
  assumes "foldR (\<lambda>(p, l). admit_turn b l p) occs initial_admission = Inl (Stop s)" "limit_ok (count_limit b)"
  shows "admission_inv b s \<and> offending s \<noteq> [] \<and>
    (\<exists>occ rest. filter inadmissible occs = offending s @ occ # rest)"
proof -
  from assms(1) obtain pre x post t where x: "occs = pre @ x # post"
    "foldR (\<lambda>(p, l). admit_turn b l p) pre initial_admission = Inr t"
    "admit_turn b (snd x) (fst x) t = Inl (Stop s)"
    by (auto simp: foldR_Inl case_prod_unfold)
  from x(3) have s: "t = s" "inadmissible x"
    by (auto simp: admit_turn_def admit_refusal_def Let_def split: if_splits)
  note inv = admit_fold [OF x(2), unfolded s]
  have "diagnostics s \<noteq> []"
    using x(3) assms(2) s
    by (auto simp: admit_turn_def admit_refusal_def within_def limit_ok_def Let_def
        split: if_splits option.splits)
  with inv s x(1) show ?thesis by (auto simp: admission_inv_def)
qed

theorem admitted_iff:
  "admitJsonNumbers root b = Inr (Admitted v) \<longleftrightarrow>
     limit_ok (count_limit b) \<and> limit_ok (byte_limit b) \<and>
     list_all isAdmissibleJsonNumber (literals root) \<and> v = map_jv literal_decimal root"
proof -
  let ?f = "foldR (\<lambda>(p, l). admit_turn b l p) (occurrences [] root) initial_admission"
  have lits: "list_all isAdmissibleJsonNumber (literals root) \<longleftrightarrow> filter inadmissible (occurrences [] root) = []"
    by (simp add: occurrences_literals(1) [of "[]", symmetric] filter_empty_conv list_all_iff)
  have all: "foldR (\<lambda>(p, l). admit_turn b l p) occs s0 = Inr s0"
    if "filter inadmissible occs = []" for occs s0
    using that by (induction occs) (auto simp: admit_turn_def split: if_splits)
  show ?thesis
  proof (cases ?f)
    case (Inl e)
    then show ?thesis using all [of "occurrences [] root" initial_admission] lits
      by (cases e) (auto simp: admitJsonNumbers_def mapLosslessJson_fold)
  next
    case (Inr s)
    with admit_fold [OF Inr] lits show ?thesis
      by (auto simp: admitJsonNumbers_def mapLosslessJson_fold)
  qed
qed

theorem refused_bounds:
  assumes "admitJsonNumbers root b = Inr (Refused os ds truncated)"
  shows "os \<noteq> [] \<and> length ds = length os \<and> within (count_limit b) (length ds) \<and>
    within (byte_limit b) (list_bytes ds) \<and>
    (\<exists>rest. filter inadmissible (occurrences [] root) = os @ rest \<and> (truncated \<longleftrightarrow> rest \<noteq> []))"
proof -
  let ?f = "foldR (\<lambda>(p, l). admit_turn b l p) (occurrences [] root) initial_admission"
  have lim: "limit_ok (count_limit b)"
    using assms by (auto simp: admitJsonNumbers_def split: if_splits)
  show ?thesis
  proof (cases ?f)
    case (Inl e)
    then obtain s where e: "e = Stop s" using assms
      by (cases e) (auto simp: admitJsonNumbers_def mapLosslessJson_fold split: if_splits)
    from admit_stop [OF Inl [unfolded e] lim] assms Inl e show ?thesis
      by (auto simp: admitJsonNumbers_def mapLosslessJson_fold admission_inv_def split: if_splits)
  next
    case (Inr s)
    with admit_fold [OF Inr] assms show ?thesis
      by (auto simp: admitJsonNumbers_def mapLosslessJson_fold admission_inv_def split: if_splits)
  qed
qed

text \<open>A value that is admitted is well formed.\<close>

lemma takeWhile_scanned:
  "sg = [] \<or> sg = [0x2D] \<Longrightarrow> list_all is_digit (i @ g) \<Longrightarrow> i \<noteq> [] \<Longrightarrow>
   f = [] \<and> g = [] \<or> f = 0x2E # g \<Longrightarrow> e = [] \<or> is_exp_mark (hd e) \<Longrightarrow>
   literal_integer (sg @ i @ f @ e) = i \<and> literal_fraction (sg @ i @ f @ e) = g"
proof -
  assume a: "sg = [] \<or> sg = [0x2D]" "list_all is_digit (i @ g)" "i \<noteq> []"
    "f = [] \<and> g = [] \<or> f = 0x2E # g" "e = [] \<or> is_exp_mark (hd e)"
  obtain c t where c: "i = c # t" "is_digit c" using a(2,3) by (cases i) auto
  have neg: "literal_negative (sg @ i @ f @ e) = (sg = [0x2D])"
    using a(1) c digit_facts [of c] by (auto simp: literal_negative_def)
  have em: "list_all (\<lambda>c. \<not> is_exp_mark c) (i @ f)"
  proof -
    have "list_all (\<lambda>c. \<not> is_exp_mark c) (i @ g)"
      using a(2) by (rule list_all_mono) (simp add: digit_facts)
    then show ?thesis using a(4) by (auto simp: is_exp_mark_def)
  qed
  have e0: "takeWhile (\<lambda>c. \<not> is_exp_mark c) e = []" using a(5) by (cases e) auto
  have man: "literal_mantissa (sg @ i @ f @ e) = i @ f"
    using a(1) neg takeWhile_append_all(1) [OF em, of e] e0 by (auto simp: literal_mantissa_def)
  have dot: "list_all (\<lambda>c. c \<noteq> 0x2E) i" using a(2) digit_facts by (auto simp: list_all_iff)
  show ?thesis
    using takeWhile_append_all [OF dot, of f] a(4) unfolding literal_integer_def literal_fraction_def man
    by auto
qed

lemma number_digits: "is_json_number lit \<Longrightarrow> list_all is_digit (literal_integer lit @ literal_fraction lit)"
proof -
  assume "is_json_number lit"
  then obtain sg r1 i r2 f r3 e where p:
    "scan_sign lit = (sg, r1)" "scan_integer r1 = Some (i, r2)" "scan_fraction r2 = (f, r3)"
    "scan_exponent r3 = (e, [])" "lit = sg @ i @ f @ e"
    unfolding is_json_number_scan by (auto simp: scan_number_def split: prod.splits option.splits)
  have "sg = [] \<or> sg = [0x2D]"
    using p(1) by (auto simp: scan_sign_def split: list.splits if_splits)
  moreover have i: "list_all is_digit i" "i \<noteq> []"
    using p(2) by (auto simp: scan_integer_def span_digits_def is_digit_0 list_all_iff
        split: list.splits if_splits dest: set_takeWhileD)
  moreover have f: "f = [] \<or> (\<exists>g. f = 0x2E # g \<and> list_all is_digit g)"
    using p(3) by (auto simp: scan_fraction_def list_all_iff split: list.splits if_splits dest: set_takeWhileD)
  moreover have e: "e = [] \<or> is_exp_mark (hd e)"
    using p(4) by (auto simp: scan_exponent_def is_exp_mark_def split: list.splits if_splits prod.splits)
  ultimately have "\<exists>g. list_all is_digit g \<and> literal_integer lit = i \<and> literal_fraction lit = g"
    using takeWhile_scanned [of sg i _ f e] unfolding p(5) by fastforce
  with i(1) show ?thesis by auto
qed

lemma digits_not_dvd:
  "list_all is_digit ds \<Longrightarrow> ds \<noteq> [] \<Longrightarrow> last ds \<noteq> 0x30 \<Longrightarrow> \<not> 10 dvd digits_value ds"
proof -
  assume ds: "list_all is_digit ds" "ds \<noteq> []" "last ds \<noteq> 0x30"
  then obtain xs c where c: "ds = xs @ [c]" by (cases ds rule: rev_cases) auto
  have n: "48 \<le> unat c" "unat c \<le> 57" using ds c by (auto simp: unit_class_defs)
  have "unat c \<noteq> 48"
  proof
    assume "unat c = 48"
    then have "unat c = unat (0x30 :: code_unit)" by simp
    then have "c = 0x30" by (simp only: word_unat_eq_iff)
    then show False using ds(3) c by simp
  qed
  then have "\<not> 10 dvd unat c - 48" using n by (auto dest!: dvd_imp_le)
  then show ?thesis unfolding c digits_value_snoc
    by (metis dvd_add_right_iff dvd_triv_left)
qed

lemma takeWhile_rev_last:
  "take (length s - trailing_zeros s) s \<noteq> [] \<Longrightarrow> last (take (length s - trailing_zeros s) s) \<noteq> 0x30"
proof -
  have "rev (dropWhile (\<lambda>c. c = 0x30) (rev s)) = take (length s - trailing_zeros s) s"
    by (simp add: trailing_zeros_def dropWhile_eq_drop rev_drop length_takeWhile_le)
  moreover assume "take (length s - trailing_zeros s) s \<noteq> []"
  ultimately show ?thesis
    using hd_dropWhile [of "\<lambda>c. c = 0x30" "rev s"] by (metis last_rev rev.simps(1) rev_rev_ident)
qed

lemma takeWhile_less: "\<exists>x \<in> set xs. \<not> P x \<Longrightarrow> length (takeWhile P xs) < length xs"
  by (induction xs) auto

lemma literal_decimal_ok: "is_json_number lit \<Longrightarrow> decimal_ok (literal_decimal lit)"
proof -
  assume n: "is_json_number lit"
  define s where "s = strip_leading (literal_integer lit @ literal_fraction lit)"
  define ds where "ds = take (length s - trailing_zeros s) s"
  have dig: "list_all is_digit ds"
    using number_digits [OF n]
    by (auto simp: ds_def s_def strip_leading_def list_all_iff dest!: in_set_takeD set_dropWhileD)
  show ?thesis
  proof (cases "s = []")
    case True
    then show ?thesis by (simp add: literal_decimal_def s_def decimal_ok_def)
  next
    case False
    have "hd s \<noteq> 0x30"
      using hd_dropWhile [of "\<lambda>c. c = 0x30" "literal_integer lit @ literal_fraction lit"] False
      unfolding s_def strip_leading_def by blast
    then have "\<exists>c \<in> set (rev s). c \<noteq> 0x30" using False by (auto intro: bexI [of _ "hd s"])
    then have "trailing_zeros s < length s"
      using takeWhile_less [of "rev s" "\<lambda>c. c = 0x30"] by (auto simp: trailing_zeros_def)
    then have "ds \<noteq> []" using False by (simp add: ds_def)
    with takeWhile_rev_last [of s] dig have "\<not> 10 dvd digits_value ds"
      by (intro digits_not_dvd) (auto simp: ds_def)
    then have m: "\<not> 10 dvd int (digits_value ds)" "digits_value ds \<noteq> 0"
      using int_dvd_int_iff [of 10 "digits_value ds"] by (simp, metis dvd_0_right)
    obtain e where "literal_decimal lit =
        Dec (if literal_negative lit then - int (digits_value ds) else int (digits_value ds)) e"
      using False unfolding literal_decimal_def s_def [symmetric] Let_def ds_def [symmetric] by auto
    with m show ?thesis by (simp add: decimal_ok_def)
  qed
qed

lemma admitted_value_ok: "lossless_ok v \<Longrightarrow> admitted_ok (map_jv literal_decimal v)"
  by (rule json_ok_map [where P = is_json_number]) (auto intro: literal_decimal_ok)

theorem admitJsonNumbers_ok:
  "lossless_ok root \<Longrightarrow> admitJsonNumbers root b = Inr (Admitted v) \<Longrightarrow> admitted_ok v"
  by (auto simp: admitted_iff admitted_value_ok)

section \<open>Properties of the JSON layer\<close>

text \<open>C28: decoding the text the iterative printer writes for a well-formed lossless value gives the
  value back: nesting, key order, escapes and number spellings survive the round trip.\<close>

theorem member_text_round_trip:
  assumes "json_ok is_json_number v"
  shows "decodeJsonDocument (losslessMemberText v) = Inr v"
  using assms by (simp add: losslessMemberText_def print_json_text decode_lossless_text)

lemma member_text_round_trip_witness:
  "decodeJsonDocument (losslessMemberText
     (JObj [(js ''a'', JArr [JNum (js ''-1.50e+2''), JNull]), ([0xD83D, 0xDE00], JStr [0x22, 7])])) =
   Inr (JObj [(js ''a'', JArr [JNum (js ''-1.50e+2''), JNull]), ([0xD83D, 0xDE00], JStr [0x22, 7])])"
  by (rule member_text_round_trip) code_simp

text \<open>C29: whatever the decoder accepts is well formed (scalar strings and keys, no duplicate name,
  objects in enumeration order, grammatical number literals), and printing and decoding it again
  changes nothing.\<close>

theorem decoder_sound:
  assumes "decodeJsonDocument text = Inr v"
  shows "json_ok is_json_number v \<and> decodeJsonDocument (losslessMemberText v) = Inr v"
  using decodeJsonDocument_ok [OF assms]
  by (simp add: losslessMemberText_def print_json_text decode_lossless_text)

lemma decoder_sound_witness:
  "decodeJsonDocument (js '' {''@ [0x22] @ js ''b'' @ [0x22] @ js '' : [1, true ] }'') =
     Inr (JObj [(js ''b'', JArr [JNum (js ''1''), JBool True])]) \<and>
   json_ok is_json_number (JObj [(js ''b'', JArr [JNum (js ''1''), JBool True])])"
proof -
  have d: "decodeJsonDocument (js '' {''@ [0x22] @ js ''b'' @ [0x22] @ js '' : [1, true ] }'') =
     Inr (JObj [(js ''b'', JArr [JNum (js ''1''), JBool True])])"
    by code_simp
  from decoder_sound [OF d] d show ?thesis by blast
qed

text \<open>C30: the worklist comparison \<open>jsonValueEqual\<close> decides semantic equality: two well-formed values
  are equal exactly when their normal forms, with the fields of every object sorted, are the same.\<close>

theorem json_value_equal_decides:
  assumes "json_ok P a" "json_ok P b"
  shows "jsonValueEqual a b \<longleftrightarrow> json_norm a = json_norm b"
  using assms by (rule jsonValueEqual_norm)

lemma json_value_equal_decides_witness:
  "jsonValueEqual (JObj [(js ''a'', JNull), (js ''b'', JBool True)])
      (JObj [(js ''b'', JBool True), (js ''a'', JNull)] :: json) \<longleftrightarrow>
   json_norm (JObj [(js ''a'', JNull), (js ''b'', JBool True)]) =
      json_norm (JObj [(js ''b'', JBool True), (js ''a'', JNull)] :: json)"
  by (rule json_value_equal_decides [where P = "\<lambda>_. True"]; code_simp)


text \<open>A refusal reports a nonempty prefix of the inadmissible literals in document order, at most
  as many as the count bound, whose serialized list fits the byte bound, and says it is truncated
  exactly when an inadmissible literal was left out.\<close>

theorem refusal_bounded:
  assumes "admitJsonNumbers root b = Inr (Refused os ds truncated)"
  shows "os \<noteq> [] \<and> length ds = length os \<and> within (count_limit b) (length ds) \<and>
    within (byte_limit b) (byte_length (serialized (JArr ds))) \<and>
    (\<exists>rest. filter inadmissible (occurrences [] root) = os @ rest \<and> (truncated \<longleftrightarrow> rest \<noteq> []))"
  using refused_bounds [OF assms] unfolding list_bytes_def .

definition example_budget :: budget where
  "example_budget = \<lparr> count_limit = Some 1, byte_limit = None, format_diagnostic = (\<lambda>ptr lit.
     \<lparr> diag_type = None, diag_schemaLocation = None, diag_instanceLocation = Some ptr,
       diag_document = None, diag_message = js ''unsupported'' \<rparr>) \<rparr>"

lemma refusal_bounded_witness:
  "\<exists>ds truncated. admitJsonNumbers (JArr [JNum (js ''1e309''), JNum (js ''1e400'')]) example_budget =
      Inr (Refused [(js ''/0'', js ''1e309'')] ds truncated) \<and> length ds = 1 \<and> truncated"
proof -
  have n: "literal_decimal (js ''1e309'') = Dec 1 309" "literal_decimal (js ''1e400'') = Dec 1 400"
    by code_simp+
  have i: "\<not> isAdmissibleJsonNumber (js ''1e309'')" "\<not> isAdmissibleJsonNumber (js ''1e400'')"
    using huge_inadmissible [OF n(1)] huge_inadmissible [OF n(2)] by simp_all
  have p: "pointer [nat_text 0] = js ''/0''" by code_simp
  obtain ds truncated where r: "admitJsonNumbers (JArr [JNum (js ''1e309''), JNum (js ''1e400'')]) example_budget =
      Inr (Refused [(js ''/0'', js ''1e309'')] ds truncated)"
    using i by (simp add: admitJsonNumbers_def example_budget_def limit_ok_def safe_integer_def
        admit_number_def admit_turn_def admit_refusal_def initial_admission_def within_def Let_def p)
  from refusal_bounded [OF r] i have "length ds = 1 \<and> truncated" by auto
  with r show ?thesis by blast
qed

text \<open>C32: reading back the text stored for an admitted value gives the same value: what
  \<open>serialized\<close> writes, \<open>JSON.parse\<close> reads.\<close>

theorem stored_text_round_trip:
  assumes "json_ok decimal_ok v"
  shows "json_parse (serialized v) = Inr v"
  using assms by (rule json_parse_serialized)

lemma stored_text_round_trip_witness:
  "json_parse (serialized (JObj [(js ''n'', JNum (Dec (- 15) (- 1))), (js ''z'', JArr [])])) =
     Inr (JObj [(js ''n'', JNum (Dec (- 15) (- 1))), (js ''z'', JArr [])])"
  by (rule stored_text_round_trip) code_simp

end
