(* ===== verification/Object_Edits.thy ===== *)
theory Object_Edits
  imports Json_Admission
begin

text \<open>
  Literal object edits (\<open>packages/server/src/retained-v01/object-edits.ts\<close>): the carrier syntax
  \<open>assertObjectChange\<close>, the bounds \<open>exceedsEditLimits\<close> and the patch \<open>applyObjectChange\<close>.
\<close>

section \<open>Carrier syntax\<close>

text \<open>The regular expression \<open>^(?:\/(?:[^/~]|~[01])*)*$\<close>: empty, or a pointer whose escapes are
  \<open>~0\<close> and \<open>~1\<close>.\<close>

fun escapes_ok :: "jstring \<Rightarrow> bool" where
  "escapes_ok [] = True"
| "escapes_ok (c # s) =
     (if c = 0x7E then (case s of d # r \<Rightarrow> (d = 0x30 \<or> d = 0x31) \<and> escapes_ok r | [] \<Rightarrow> False)
      else escapes_ok s)"

definition edit_path_ok :: "jstring \<Rightarrow> bool" where
  "edit_path_ok path \<longleftrightarrow> path = [] \<or> hd path = 0x2F \<and> escapes_ok path"

definition edit_ops :: "jstring list" where
  "edit_ops = [js ''add'', js ''replace'', js ''remove'']"

definition edit_member_ok :: "jstring jobject \<Rightarrow> bool" where
  "edit_member_ok entry =
     (case (obj_get (js ''op'') entry, obj_get (js ''path'') entry) of
        (Some (JStr op), Some (JStr path)) \<Rightarrow>
          (let names = [js ''op'', js ''path''] @ (if op = js ''remove'' then [] else [js ''value''])
           in op \<in> set edit_ops \<and> list_all (\<lambda>(k, _). k \<in> set names) entry \<and>
              (op \<noteq> js ''remove'' \<longrightarrow> obj_has (js ''value'') entry) \<and> edit_path_ok path)
      | _ \<Rightarrow> False)"

definition assertObjectChange :: "lossless \<Rightarrow> unit result" where
  "assertObjectChange value =
     (case value of
        JArr items \<Rightarrow>
          foldR (\<lambda>item _.
            case item of
              JObj entry \<Rightarrow> guardR (edit_member_ok entry) (TypeError ''invalid ordinary patch member'')
            | _ \<Rightarrow> Inl (TypeError ''patch member must be an object'')) items ()
      | _ \<Rightarrow> Inl (TypeError ''patch must be an array''))"

section \<open>Changes\<close>

datatype edit = is_add: Add jstring json | Replace jstring json | Remove jstring

fun edit_path :: "edit \<Rightarrow> jstring" where
  "edit_path (Add p v) = p"
| "edit_path (Replace p v) = p"
| "edit_path (Remove p) = p"

text \<open>The admitted members of a change, read as the code's \<open>ObjectChange\<close>.\<close>

definition edit_of :: "json \<Rightarrow> edit option" where
  "edit_of item = (case item of
     JObj entry \<Rightarrow>
       (case (obj_get (js ''op'') entry, obj_get (js ''path'') entry) of
          (Some (JStr op), Some (JStr path)) \<Rightarrow>
            if op = js ''remove'' then Some (Remove path)
            else (case obj_get (js ''value'') entry of
                    None \<Rightarrow> None
                  | Some v \<Rightarrow> Some (if op = js ''add'' then Add path v else Replace path v))
        | _ \<Rightarrow> None)
   | _ \<Rightarrow> None)"

definition edits_of :: "json \<Rightarrow> edit list" where
  "edits_of v = (case v of JArr items \<Rightarrow> List.map_filter edit_of items | _ \<Rightarrow> [])"

text \<open>\<open>EDIT_LIMITS\<close>: operations, bytes of a path and its depth, the number of its slashes.\<close>

definition exceedsEditLimits :: "edit list list \<Rightarrow> bool" where
  "exceedsEditLimits changes \<longleftrightarrow>
     sum_list (map length changes) > 100 \<or>
     list_ex (list_ex (\<lambda>e. byte_length (edit_path e) > 2048 \<or> count_list (edit_path e) 0x2F > 64)) changes"

section \<open>Applying a change\<close>

text \<open>\<open>token.replace(/~1/g, "/").replace(/~0/g, "~")\<close>\<close>

fun replace2 :: "code_unit \<Rightarrow> code_unit \<Rightarrow> code_unit \<Rightarrow> jstring \<Rightarrow> jstring" where
  "replace2 a b c (x # y # s) = (if x = a \<and> y = b then c # replace2 a b c s else x # replace2 a b c (y # s))"
| "replace2 a b c s = s"

definition unescape_token :: "jstring \<Rightarrow> jstring" where
  "unescape_token t = replace2 0x7E 0x30 0x7E (replace2 0x7E 0x31 0x2F t)"

fun split_on :: "code_unit \<Rightarrow> jstring \<Rightarrow> jstring list" where
  "split_on d [] = [[]]"
| "split_on d (c # s) =
     (if c = d then [] # split_on d s
      else (case split_on d s of w # ws \<Rightarrow> (c # w) # ws | [] \<Rightarrow> [[c]]))"

definition edit_tokens :: "jstring \<Rightarrow> jstring list" where
  "edit_tokens path = (if path = [] then [] else map unescape_token (split_on 0x2F (tl path)))"

text \<open>\<open>copy\<close> prints and parses, which is the identity on admitted values (\<open>copy_ok\<close>).\<close>

definition copy_json :: "json \<Rightarrow> json result" where
  "copy_json v = bindR (snapshotJsonValue v) (\<lambda>s. json_parse (print_json number_text s))"

text \<open>
  \<open>child\<close> is one step of the walk to the parent: own properties of objects, canonical indices of
  arrays (\<open>length\<close> and other own names of an array are refused by the index test).  The document is
  a fresh copy without sharing, so assigning through the parent is rebuilding the path to it.
\<close>

definition array_index :: "jstring \<Rightarrow> nat option" where
  "array_index t = (if canonical_nat t then Some (digits_value t) else None)"

definition child :: "json \<Rightarrow> jstring \<Rightarrow> json option" where
  "child v t = (case v of
     JObj kvs \<Rightarrow> obj_get t kvs
   | JArr xs \<Rightarrow> (case array_index t of Some i \<Rightarrow> if i < length xs then Some (xs ! i) else None | None \<Rightarrow> None)
   | _ \<Rightarrow> None)"

definition put_child :: "json \<Rightarrow> jstring \<Rightarrow> json \<Rightarrow> json" where
  "put_child v t w = (case v of
     JObj kvs \<Rightarrow> JObj (obj_put t w kvs)
   | JArr xs \<Rightarrow> (case array_index t of Some i \<Rightarrow> JArr (xs[i := w]) | None \<Rightarrow> v)
   | _ \<Rightarrow> v)"

definition insert_at :: "nat \<Rightarrow> 'a \<Rightarrow> 'a list \<Rightarrow> 'a list" where
  "insert_at i x xs = take i xs @ x # drop i xs"

definition remove_at :: "nat \<Rightarrow> 'a list \<Rightarrow> 'a list" where
  "remove_at i xs = take i xs @ drop (Suc i) xs"

definition edit_array_index :: "edit \<Rightarrow> jstring \<Rightarrow> nat \<Rightarrow> nat option" where
  "edit_array_index ch name len =
     (case (if name = js ''-'' \<and> is_add ch then Some len else array_index name) of
        None \<Rightarrow> None
      | Some i \<Rightarrow> if safe_integer (int i) \<and> i \<le> len \<and> (is_add ch \<or> i \<noteq> len) then Some i else None)"

definition edit_array :: "edit \<Rightarrow> jstring \<Rightarrow> json list \<Rightarrow> json result" where
  "edit_array ch name xs =
     (case edit_array_index ch name (length xs) of
        None \<Rightarrow> Inl (EditFailure (js ''patch array index does not exist'') (edit_path ch))
      | Some i \<Rightarrow>
          (case ch of
             Add p v \<Rightarrow> bindR (copy_json v) (\<lambda>w. Inr (JArr (insert_at i w xs)))
           | Remove p \<Rightarrow> Inr (JArr (remove_at i xs))
           | Replace p v \<Rightarrow> bindR (copy_json v) (\<lambda>w. Inr (JArr (xs[i := w])))))"

definition edit_object :: "edit \<Rightarrow> jstring \<Rightarrow> json_object \<Rightarrow> json result" where
  "edit_object ch name kvs =
     (if \<not> is_add ch \<and> \<not> obj_has name kvs
      then Inl (EditFailure (js ''patch target does not exist'') (edit_path ch))
      else case ch of
             Remove p \<Rightarrow> Inr (JObj (obj_delete name kvs))
           | Add p v \<Rightarrow> bindR (copy_json v) (\<lambda>w. Inr (JObj (obj_put name w kvs)))
           | Replace p v \<Rightarrow> bindR (copy_json v) (\<lambda>w. Inr (JObj (obj_put name w kvs))))"

definition edit_target :: "edit \<Rightarrow> jstring \<Rightarrow> json \<Rightarrow> json result" where
  "edit_target ch name parent = (case parent of
     JArr xs \<Rightarrow> edit_array ch name xs
   | JObj kvs \<Rightarrow> edit_object ch name kvs
   | _ \<Rightarrow> Inl (EditFailure (js ''patch target does not exist'') (edit_path ch)))"

fun edit_under :: "edit \<Rightarrow> jstring list \<Rightarrow> jstring \<Rightarrow> json \<Rightarrow> json result" where
  "edit_under ch [] name v = edit_target ch name v"
| "edit_under ch (t # ts) name v =
     (case child v t of
        None \<Rightarrow> Inl (EditFailure (js ''patch parent does not exist'') (edit_path ch))
      | Some w \<Rightarrow> bindR (edit_under ch ts name w) (\<lambda>w'. Inr (put_child v t w')))"

text \<open>\<open>result\<close> is undefined after the root was removed; then every member of a path is missing.\<close>

definition edit_root :: "edit \<Rightarrow> json option \<Rightarrow> json option result" where
  "edit_root ch result =
     (if \<not> is_add ch \<and> result = None
      then Inl (EditFailure (js ''patch target does not exist'') (edit_path ch))
      else case ch of
             Remove p \<Rightarrow> Inr None
           | Add p v \<Rightarrow> bindR (copy_json v) (\<lambda>w. Inr (Some w))
           | Replace p v \<Rightarrow> bindR (copy_json v) (\<lambda>w. Inr (Some w)))"

definition edit_turn :: "edit \<Rightarrow> json option \<Rightarrow> json option result" where
  "edit_turn ch result =
     (let tokens = edit_tokens (edit_path ch)
      in if tokens = [] then edit_root ch result
         else case result of
                None \<Rightarrow> Inl (EditFailure (if length tokens = 1 then js ''patch target does not exist''
                                        else js ''patch parent does not exist'') (edit_path ch))
              | Some v \<Rightarrow> bindR (edit_under ch (butlast tokens) (last tokens) v) (\<lambda>w. Inr (Some w)))"

definition applyObjectChange :: "json_object \<Rightarrow> edit list \<Rightarrow> json_object result" where
  "applyObjectChange former changes =
     bindR (copy_json (JObj former)) (\<lambda>start.
     bindR (foldR edit_turn changes (Some start)) (\<lambda>result.
       case result of
         Some (JObj kvs) \<Rightarrow>
           bindR (snapshotJsonValue (JObj kvs)) (\<lambda>s. case s of JObj out \<Rightarrow> Inr out | _ \<Rightarrow> Inl (PlainError ''''))
       | _ \<Rightarrow> Inl (EditFailure (js ''resulting document must be an object'') [])))"

section \<open>Well-formedness\<close>

fun edit_ok :: "edit \<Rightarrow> bool" where
  "edit_ok (Add p v) = admitted_ok v"
| "edit_ok (Replace p v) = admitted_ok v"
| "edit_ok (Remove p) = True"

lemma copy_ok [simp]: "admitted_ok v \<Longrightarrow> copy_json v = Inr v"
  using json_parse_serialized [of v] by (simp add: copy_json_def serialized_def)

lemma admitted_obj_put:
  "admitted_ok (JObj kvs) \<Longrightarrow> isUnicodeScalarString k \<Longrightarrow> admitted_ok v \<Longrightarrow> admitted_ok (JObj (obj_put k v kvs))"
  by (auto intro: list_all_obj_put)

lemma admitted_obj_delete: "admitted_ok (JObj kvs) \<Longrightarrow> admitted_ok (JObj (obj_delete k kvs))"
  by (simp add: list_all_iff) (auto simp: obj_delete_def)

lemma list_all_edits:
  assumes "list_all P xs"
  shows "list_all P (remove_at i xs)" and "P x \<Longrightarrow> list_all P (insert_at i x xs)"
    and "P x \<Longrightarrow> list_all P (xs[i := x])"
  using assms set_take_subset [of i xs] set_drop_subset [of i xs] set_drop_subset [of "Suc i" xs]
    set_update_subset_insert [of xs i x]
  unfolding list_all_iff insert_at_def remove_at_def by (simp_all) blast+

lemma admitted_get: "admitted_ok (JObj kvs) \<Longrightarrow> obj_get k kvs = Some v \<Longrightarrow> isUnicodeScalarString k \<and> admitted_ok v"
  by (auto simp: obj_get_def list_all_iff dest!: map_of_SomeD)

lemma child_ok: "admitted_ok v \<Longrightarrow> child v t = Some w \<Longrightarrow> admitted_ok w"
  by (auto simp: child_def list_all_iff obj_get_def dest!: map_of_SomeD split: jv.splits option.splits if_splits)

lemma put_child_ok:
  "admitted_ok v \<Longrightarrow> child v t = Some w0 \<Longrightarrow> admitted_ok w \<Longrightarrow> admitted_ok (put_child v t w)"
  by (auto simp: child_def put_child_def list_all_iff obj_get_def dest!: map_of_SomeD set_mp [OF set_obj_put]
        dest: set_update_subsetI set_mp [OF set_update_subset_insert] split: jv.splits option.splits if_splits)

lemma edit_target_ok:
  assumes "admitted_ok v" "edit_ok ch" "isUnicodeScalarString name" "edit_target ch name v = Inr w"
  shows "admitted_ok w"
proof (cases v)
  case (JArr xs)
  then show ?thesis using assms
    by (cases ch)
      (auto simp: edit_target_def edit_array_def list_all_edits split: option.splits)
next
  case (JObj kvs)
  then show ?thesis using assms admitted_obj_put [of kvs name] admitted_obj_delete [of kvs name]
    by (cases ch) (auto simp: edit_target_def edit_object_def simp del: json_ok.simps split: if_splits)
qed (use assms in \<open>auto simp: edit_target_def\<close>)

lemma edit_under_ok:
  assumes "admitted_ok v" "edit_ok ch" "isUnicodeScalarString name" "edit_under ch ts name v = Inr w"
  shows "admitted_ok w"
  using assms
proof (induction ts arbitrary: v w)
  case Nil
  then show ?case by (auto intro: edit_target_ok)
next
  case (Cons t ts)
  then obtain u u' where u: "child v t = Some u" "edit_under ch ts name u = Inr u'" "w = put_child v t u'"
    by (auto split: option.splits)
  have "admitted_ok u'" using Cons.IH [OF child_ok [OF Cons.prems(1) u(1)] Cons.prems(2,3) u(2)] .
  then show ?case using put_child_ok [OF Cons.prems(1) u(1)] u(3) by simp
qed

text \<open>The tokens of a path of scalar values are scalar strings.\<close>

definition non_surrogate :: "code_unit \<Rightarrow> bool" where
  "non_surrogate c \<longleftrightarrow> \<not> is_high_surrogate c \<and> \<not> is_low_surrogate c"

lemma non_surrogate_ascii [simp]: "non_surrogate 0x7E" "non_surrogate 0x30" "non_surrogate 0x31" "non_surrogate 0x2F"
  by (auto simp: non_surrogate_def unit_class_defs)

lemma high_not_low: "is_high_surrogate c \<Longrightarrow> \<not> is_low_surrogate c"
  by (auto simp: unit_class_defs)

lemma split_scalar: "isUnicodeScalarString s \<Longrightarrow> non_surrogate d \<Longrightarrow> list_all isUnicodeScalarString (split_on d s)"
proof (induction s rule: length_induct)
  case (1 s)
  show ?case
  proof (cases "\<exists>c e r. s = c # e # r \<and> is_high_surrogate c")
    case True
    then obtain c e r where s: "s = c # e # r" "is_high_surrogate c" by blast
    have e: "is_low_surrogate e" "isUnicodeScalarString r" using 1(2) s by auto
    have ne: "c \<noteq> d" "e \<noteq> d" using 1(3) s(2) e(1) by (auto simp: non_surrogate_def)
    have r: "list_all isUnicodeScalarString (split_on d r)" using 1(1,3) s(1) e(2) by simp
    show ?thesis
    proof (cases "split_on d r")
      case (Cons w ws)
      then show ?thesis using s ne e(1) r by simp
    qed (use s ne e(1) in simp)
  next
    case False
    show ?thesis
    proof (cases s)
      case (Cons c t)
      have c: "\<not> is_high_surrogate c" "\<not> is_low_surrogate c" "isUnicodeScalarString t"
        using False 1(2) Cons by (cases t; auto split: if_splits)+
      have r: "list_all isUnicodeScalarString (split_on d t)" using 1(1,3) Cons c(3) by simp
      show ?thesis using Cons c r by (cases "split_on d t") auto
    qed simp
  qed
qed

lemma replace2_skip: "x \<noteq> a \<Longrightarrow> replace2 a b c (x # s) = x # replace2 a b c s"
  by (cases s) auto

lemma replace2_scalar:
  "isUnicodeScalarString s \<Longrightarrow> non_surrogate a \<Longrightarrow> non_surrogate b \<Longrightarrow> non_surrogate c \<Longrightarrow>
   isUnicodeScalarString (replace2 a b c s)"
proof (induction s rule: length_induct)
  case (1 s)
  show ?case
  proof (cases s)
    case (Cons x t)
    show ?thesis
    proof (cases "x = a")
      case False
      show ?thesis
      proof (cases "is_high_surrogate x")
        case True
        with 1 Cons obtain e r where "t = e # r" "is_low_surrogate e" "isUnicodeScalarString r"
          by (auto split: list.splits)
        moreover have "e \<noteq> a" using 1(3) \<open>is_low_surrogate e\<close> by (auto simp: non_surrogate_def)
        ultimately show ?thesis
          using 1(1-5) Cons True False replace2_skip [of x a b c t] replace2_skip [of e a b c r] by auto
      next
        case nh: False
        with 1 Cons False show ?thesis using replace2_skip [of x a b c t] by auto
      qed
    next
      case True
      show ?thesis
      proof (cases t)
        case (Cons y r)
        with 1 True \<open>s = x # t\<close> show ?thesis
          by (auto simp: non_surrogate_def)
      qed (use 1 Cons in auto)
    qed
  qed (use 1 in auto)
qed

lemma tokens_scalar:
  "isUnicodeScalarString p \<Longrightarrow> edit_path_ok p \<Longrightarrow> list_all isUnicodeScalarString (edit_tokens p)"
proof -
  assume p: "isUnicodeScalarString p" "edit_path_ok p"
  have "isUnicodeScalarString (tl p)"
    using p by (cases p) (auto simp: edit_path_ok_def unit_class_defs split: if_splits)
  then show ?thesis
    using split_scalar [of "tl p" "0x2F"] replace2_scalar
    by (auto simp: edit_tokens_def list_all_iff unescape_token_def)
qed

fun edit_wf :: "edit \<Rightarrow> bool" where
  "edit_wf e = (edit_ok e \<and> isUnicodeScalarString (edit_path e) \<and> edit_path_ok (edit_path e))"

lemma edit_turn_ok:
  assumes "\<forall>v. r = Some v \<longrightarrow> admitted_ok v" "edit_wf ch" "edit_turn ch r = Inr r'"
  shows "\<forall>v. r' = Some v \<longrightarrow> admitted_ok v"
proof (cases "edit_tokens (edit_path ch) = []")
  case True
  then show ?thesis using assms
    by (cases ch) (auto simp: edit_turn_def edit_root_def split: if_splits)
next
  case False
  then have "isUnicodeScalarString (last (edit_tokens (edit_path ch)))"
    using assms(2) tokens_scalar [of "edit_path ch"] by (auto simp: list_all_iff)
  then show ?thesis using False assms edit_under_ok
    by (auto simp: edit_turn_def Let_def split: option.splits)
qed

lemma foldR_edit_ok:
  assumes "admitted_ok (JObj former)" "list_all edit_wf changes"
    and "foldR edit_turn changes (Some (JObj former)) = Inr r"
  shows "\<forall>v. r = Some v \<longrightarrow> admitted_ok v"
proof (rule foldR_inv [OF assms(3), where P = "\<lambda>r. \<forall>v. r = Some v \<longrightarrow> admitted_ok v"])
  fix x s s'
  assume a: "x \<in> set changes" "\<forall>v. s = Some v \<longrightarrow> admitted_ok v" "edit_turn x s = Inr s'"
  have "edit_wf x" using a(1) assms(2) unfolding list_all_iff by blast
  from edit_turn_ok [OF a(2) this a(3)] show "\<forall>v. s' = Some v \<longrightarrow> admitted_ok v" .
qed (use assms(1) in \<open>simp del: json_ok.simps\<close>)

lemma applyObjectChange_ok:
  assumes "admitted_ok (JObj former)" "list_all edit_wf changes" "applyObjectChange former changes = Inr after"
  shows "admitted_ok (JObj after)"
proof -
  from assms obtain r where r0: "foldR edit_turn changes (Some (JObj former)) = Inr r"
    "(case r of Some (JObj kvs) \<Rightarrow>
        bindR (snapshotJsonValue (JObj kvs)) (\<lambda>s. case s of JObj out \<Rightarrow> Inr out | _ \<Rightarrow> Inl (PlainError ''''))
      | _ \<Rightarrow> Inl (EditFailure (js ''resulting document must be an object'') [])) = Inr after"
    unfolding applyObjectChange_def copy_ok [OF assms(1)] bindR.simps bindR_eq_Inr by blast
  then obtain kvs where r: "foldR edit_turn changes (Some (JObj former)) = Inr (Some (JObj kvs))"
    "bindR (snapshotJsonValue (JObj kvs)) (\<lambda>s. case s of JObj out \<Rightarrow> Inr out | _ \<Rightarrow> Inl (PlainError '''')) = Inr after"
    by (cases r; cases "the r") simp_all
  have "admitted_ok (JObj kvs)"
    using foldR_edit_ok [OF assms(1,2) r(1)] by (simp del: json_ok.simps)
  then show ?thesis using r(2) by (simp del: json_ok.simps)
qed

section \<open>Reading the result\<close>

fun json_at :: "json \<Rightarrow> jstring list \<Rightarrow> json option" where
  "json_at v [] = Some v"
| "json_at v (t # ts) = (case child v t of None \<Rightarrow> None | Some w \<Rightarrow> json_at w ts)"

lemma child_put_child: "child v t = Some w0 \<Longrightarrow> child (put_child v t w) t = Some w"
  by (auto simp: child_def put_child_def split: jv.splits option.splits if_splits)

lemma child_put_other: "t' \<noteq> t \<Longrightarrow> child (put_child v t w) t' = child v t'"
proof -
  assume ne: "t' \<noteq> t"
  then have "canonical_nat t \<Longrightarrow> canonical_nat t' \<Longrightarrow> digits_value t \<noteq> digits_value t'"
    using canonical_nat_inj by blast
  with ne show ?thesis
    by (auto simp: child_def put_child_def array_index_def split: jv.splits option.splits if_splits)
qed

lemma json_at_append: "json_at v (ts @ us) = (case json_at v ts of None \<Rightarrow> None | Some w \<Rightarrow> json_at w us)"
  by (induction ts arbitrary: v) (auto split: option.splits)

text \<open>An edit under a parent changes that parent and nothing outside it.\<close>

lemma edit_under_parent:
  "edit_under ch ts name v = Inr w \<Longrightarrow>
   \<exists>parent parent'. json_at v ts = Some parent \<and> edit_target ch name parent = Inr parent' \<and>
     json_at w ts = Some parent'"
proof (induction ts arbitrary: v w)
  case (Cons t ts)
  then obtain u u' where u: "child v t = Some u" "edit_under ch ts name u = Inr u'" "w = put_child v t u'"
    by (auto split: option.splits)
  from Cons.IH [OF u(2)] show ?case using u(1,3) child_put_child [OF u(1)] by auto
qed auto

lemma edit_under_frame:
  "edit_under ch ts name v = Inr w \<Longrightarrow> us \<parallel> ts \<Longrightarrow> json_at w us = json_at v us"
proof (induction ts arbitrary: v w us)
  case (Cons t ts)
  then obtain u u' where u: "child v t = Some u" "edit_under ch ts name u = Inr u'" "w = put_child v t u'"
    by (auto split: option.splits)
  from Cons.prems(2) obtain t' us' where us: "us = t' # us'" "t' \<noteq> t \<or> us' \<parallel> ts"
    by (cases us) (auto simp: parallel_def)
  show ?case
  proof (cases "t' = t")
    case True
    then show ?thesis using us u Cons.IH [OF u(2)] child_put_child [OF u(1)] by simp
  next
    case False
    then show ?thesis using us u child_put_other [OF False] by simp
  qed
qed (auto simp: parallel_def)

fun edit_value :: "edit \<Rightarrow> json option" where
  "edit_value (Add p v) = Some v"
| "edit_value (Replace p v) = Some v"
| "edit_value (Remove p) = None"

lemma edit_member:
  assumes "edit_target ch name (JObj kvs) = Inr w" "edit_ok ch"
  shows "child w name = edit_value ch \<and> (\<forall>t. t \<noteq> name \<longrightarrow> child w t = child (JObj kvs) t)"
  using assms by (cases ch) (auto simp: edit_target_def edit_object_def child_def split: if_splits)

lemma edit_member_at:
  assumes "edit_under ch ts name v = Inr w" "edit_ok ch" "json_at v ts = Some (JObj kvs)"
  shows "json_at w (ts @ [name]) = edit_value ch"
    and "us \<parallel> ts @ [name] \<Longrightarrow> json_at w us = json_at v us"
proof -
  from edit_under_parent [OF assms(1)] assms(3) obtain p where p:
    "edit_target ch name (JObj kvs) = Inr p" "json_at w ts = Some p" by auto
  note m = edit_member [OF p(1) assms(2)]
  show "json_at w (ts @ [name]) = edit_value ch"
    using p(2) m by (auto simp: json_at_append split: option.splits)
  assume us: "us \<parallel> ts @ [name]"
  show "json_at w us = json_at v us"
  proof (cases "us \<parallel> ts")
    case False
    with us obtain r where r: "us = ts @ r" by (auto simp: parallel_def prefix_def)
    with us obtain t r' where t: "r = t # r'" "t \<noteq> name" by (cases r) (auto simp: parallel_def)
    then show ?thesis using r p(2) assms(3) m by (simp add: json_at_append)
  qed (rule edit_under_frame [OF assms(1)])
qed

text \<open>Errors: only edit failures, which name a path of the change or the document.\<close>

lemma edit_under_error:
  "edit_under ch ts name v = Inl e \<Longrightarrow> edit_ok ch \<Longrightarrow> \<exists>m. e = EditFailure m (edit_path ch)"
proof (induction ts arbitrary: v)
  case Nil
  then show ?case
    by (cases ch) (auto simp: edit_target_def edit_array_def edit_object_def split: jv.splits option.splits if_splits)
next
  case (Cons t ts)
  then show ?case by (cases "child v t"; cases "edit_under ch ts name (the (child v t))") auto
qed

lemma edit_turn_error: "edit_turn ch r = Inl e \<Longrightarrow> edit_ok ch \<Longrightarrow> \<exists>m. e = EditFailure m (edit_path ch)"
proof (cases "edit_tokens (edit_path ch) = []")
  case True
  assume "edit_turn ch r = Inl e" "edit_ok ch"
  with True show ?thesis by (cases ch) (auto simp: edit_turn_def edit_root_def split: if_splits)
next
  case False
  assume e: "edit_turn ch r = Inl e" "edit_ok ch"
  show ?thesis
  proof (cases r)
    case None
    with False e show ?thesis by (auto simp: edit_turn_def Let_def)
  next
    case (Some v)
    with False e show ?thesis
      using edit_under_error [of ch "butlast (edit_tokens (edit_path ch))" "last (edit_tokens (edit_path ch))" v]
      by (cases "edit_under ch (butlast (edit_tokens (edit_path ch))) (last (edit_tokens (edit_path ch))) v")
        (auto simp: edit_turn_def Let_def)
  qed
qed

section \<open>Properties\<close>

text \<open>A change that applies turns a well-formed document into a well-formed document: the result
  is an object again, with distinct scalar keys in enumeration order.\<close>

theorem edited_document_ok:
  assumes "json_ok decimal_ok (JObj former)" "list_all edit_wf changes"
    and "applyObjectChange former changes = Inr after"
  shows "json_ok decimal_ok (JObj after)"
  using assms by (rule applyObjectChange_ok)

lemma edited_document_ok_witness:
  "applyObjectChange [(js ''a'', JArr [JNull])] [Add (js ''/a/-'') (JBool True), Remove (js ''/a/0'')] =
     Inr [(js ''a'', JArr [JBool True])] \<and>
   json_ok decimal_ok (JObj [(js ''a'', JArr [JBool True])])"
proof -
  have a: "applyObjectChange [(js ''a'', JArr [JNull])] [Add (js ''/a/-'') (JBool True), Remove (js ''/a/0'')] =
     Inr [(js ''a'', JArr [JBool True])]" by code_simp
  have "json_ok decimal_ok (JObj [(js ''a'', JArr [JBool True])])"
    by (rule edited_document_ok [OF _ _ a]) code_simp+
  with a show ?thesis by blast
qed

text \<open>C34: an edit of an object member sets, or removes, exactly that member: reading the result at the
  edited path gives the value of the edit, and at every path that neither contains nor extends it
  what the document had before.\<close>

theorem edit_reads_back:
  assumes "json_ok decimal_ok (JObj former)" "edit_wf ch"
    and "edit_tokens (edit_path ch) = ts @ [name]"
    and "json_at (JObj former) ts = Some (JObj kvs)"
    and "applyObjectChange former [ch] = Inr after"
  shows "json_at (JObj after) (ts @ [name]) = edit_value ch \<and>
    (\<forall>us. us \<parallel> ts @ [name] \<longrightarrow> json_at (JObj after) us = json_at (JObj former) us)"
proof -
  have "edit_under ch ts name (JObj former) = Inr (JObj after)"
  proof -
    from assms(5) obtain w where w: "edit_under ch ts name (JObj former) = Inr w"
      and r: "(case Some w of Some (JObj kvs) \<Rightarrow>
        bindR (snapshotJsonValue (JObj kvs)) (\<lambda>s. case s of JObj out \<Rightarrow> Inr out | _ \<Rightarrow> Inl (PlainError ''''))
      | _ \<Rightarrow> Inl (EditFailure (js ''resulting document must be an object'') [])) = Inr after"
      unfolding applyObjectChange_def copy_ok [OF assms(1)] bindR.simps foldR.simps edit_turn_def assms(3)
      by (auto simp: Let_def)
    have "isUnicodeScalarString name"
      using tokens_scalar [of "edit_path ch"] assms(2,3) by auto
    then have "admitted_ok w" using edit_under_ok [OF assms(1) _ _ w] assms(2) by simp
    then show ?thesis using w r by (cases w) (simp_all del: json_ok.simps)
  qed
  from edit_member_at [OF this _ assms(4)] assms(2) show ?thesis by simp
qed

lemma edit_reads_back_witness:
  "json_at (JObj [(js ''a'', JObj [(js ''x'', JNull), (js ''y/z'', JBool True)])]) [js ''a'', js ''y/z''] =
     Some (JBool True)"
proof -
  have r: "applyObjectChange [(js ''a'', JObj [(js ''x'', JNull)])] [Add (js ''/a/y~1z'') (JBool True)] =
      Inr [(js ''a'', JObj [(js ''x'', JNull), (js ''y/z'', JBool True)])]" by code_simp
  have t: "edit_tokens (edit_path (Add (js ''/a/y~1z'') (JBool True))) = [js ''a''] @ [js ''y/z'']" by code_simp
  have ok: "json_ok decimal_ok (JObj [(js ''a'', JObj [(js ''x'', JNull)])])" by code_simp
  have wf: "edit_wf (Add (js ''/a/y~1z'') (JBool True))" by code_simp
  have p: "json_at (JObj [(js ''a'', JObj [(js ''x'', JNull)])]) [js ''a''] = Some (JObj [(js ''x'', JNull)])"
    by code_simp
  from edit_reads_back [OF ok wf t p r] show ?thesis by simp
qed

text \<open>On well-formed input a change fails only with an edit failure, and the failure names the
  path of one of its edits, or the document when the result is no object.\<close>

theorem edit_failure_path:
  assumes "json_ok decimal_ok (JObj former)" "list_all edit_wf changes"
    and "applyObjectChange former changes = Inl e"
  shows "\<exists>m p. e = EditFailure m p \<and> (p = [] \<or> p \<in> edit_path ` set changes)"
proof (cases "foldR edit_turn changes (Some (JObj former))")
  case (Inl e')
  then have e': "e' = e" using assms(3) unfolding applyObjectChange_def copy_ok [OF assms(1)] by simp
  from Inl obtain pre x post s' where x: "changes = pre @ x # post" "edit_turn x s' = Inl e'"
    unfolding foldR_Inl by blast
  have "edit_ok x" using assms(2) x(1) by simp
  from edit_turn_error [OF x(2) this] show ?thesis using x(1) e' by auto
next
  case (Inr r)
  have "\<forall>v. r = Some v \<longrightarrow> admitted_ok v"
    using foldR_edit_ok [OF assms(1,2) Inr] by simp
  then show ?thesis using assms(3) Inr unfolding applyObjectChange_def copy_ok [OF assms(1)] bindR.simps
    by (cases r; cases "the r") (auto simp del: json_ok.simps)
qed

lemma edit_failure_path_witness:
  "\<exists>m. applyObjectChange [(js ''a'', JNull)] [Replace (js ''/b'') JNull] = Inl (EditFailure m (js ''/b''))"
proof -
  have f: "applyObjectChange [(js ''a'', JNull)] [Replace (js ''/b'') JNull] =
      Inl (EditFailure (js ''patch target does not exist'') (js ''/b''))" by code_simp
  have "json_ok decimal_ok (JObj [(js ''a'', JNull)])" "list_all edit_wf [Replace (js ''/b'') JNull]" by code_simp+
  from edit_failure_path [OF this f] have "\<exists>m p. EditFailure (js ''patch target does not exist'') (js ''/b'') = EditFailure m p"
    by blast
  with f show ?thesis by blast
qed

end
