(* ===== verification/Semantic_Identity.thy ===== *)
theory Semantic_Identity
  imports Json_Admission
begin

text \<open>
  The durable identity of a request (\<open>packages/server/src/semantic-identity.ts\<close>): the worklist
  encoder \<open>encodeSemanticValue\<close>, its recursive reference, and the theorem that two values have the
  same encoding exactly when they are semantically equal.
\<close>

section \<open>Semantic values\<close>

text \<open>
  A semantic value is a JSON tree whose number nodes are literals, and which may hold the private
  unbound node; the leaf type distinguishes the two.
\<close>

datatype sem_leaf = SemNumber jstring | SemUnbound

type_synonym semantic = "sem_leaf jv"
type_synonym semantic_object = "sem_leaf jobject"

abbreviation sem_unbound :: semantic where
  "sem_unbound \<equiv> JNum SemUnbound"

definition sem_of :: "lossless \<Rightarrow> semantic" where
  "sem_of v = map_jv SemNumber v"

fun leaf_ok :: "sem_leaf \<Rightarrow> bool" where
  "leaf_ok (SemNumber lit) = is_json_number lit"
| "leaf_ok SemUnbound = True"

abbreviation sem_ok :: "semantic \<Rightarrow> bool" where
  "sem_ok \<equiv> json_ok leaf_ok"

lemma sem_of_ok: "lossless_ok v \<Longrightarrow> sem_ok (sem_of v)"
  unfolding sem_of_def by (rule json_ok_map) auto

section \<open>Exact numbers\<close>

definition int_text :: "int \<Rightarrow> jstring" where
  "int_text i = (if i < 0 then 0x2D # nat_text (nat (- i)) else nat_text (nat i))"

text \<open>\<open>exactNumber\<close>: the coefficient's digits without surrounding zeros, with the sign, and the
  exponent as an unbounded integer.\<close>

definition exactNumber :: "jstring \<Rightarrow> (jstring \<times> jstring) result" where
  "exactNumber lit =
     (if \<not> is_json_number lit then Inl (TypeError ''semantic number must be a JSON number literal'')
      else
        let digits = strip_leading (literal_integer lit @ literal_fraction lit);
            trailing = trailing_zeros digits
        in if digits = [] then Inr (js ''0'', js ''0'')
           else Inr ((if literal_negative lit then [0x2D] else []) @ take (length digits - trailing) digits,
                     int_text (integer_value (literal_exponent_text lit)
                       - int (length (literal_fraction lit)) + int trailing)))"

lemma exactNumber_decimal:
  "is_json_number lit \<Longrightarrow> literal_decimal lit = Dec c e \<Longrightarrow> exactNumber lit = Inr (int_text c, int_text e)"
proof -
  assume n: "is_json_number lit" and d: "literal_decimal lit = Dec c e"
  define s where "s = strip_leading (literal_integer lit @ literal_fraction lit)"
  define ds where "ds = take (length s - trailing_zeros s) s"
  show ?thesis
  proof (cases "s = []")
    case True
    then show ?thesis using n d
      by (simp add: exactNumber_def literal_decimal_def s_def int_text_def js_def nat_text.simps [of 0] Let_def)
  next
    case False
    have dig: "list_all is_digit ds"
      using number_digits [OF n]
      by (auto simp: ds_def s_def strip_leading_def list_all_iff dest!: in_set_takeD set_dropWhileD)
    have "hd s \<noteq> 0x30"
      using hd_dropWhile [of "\<lambda>c. c = 0x30" "literal_integer lit @ literal_fraction lit"] False
      unfolding s_def strip_leading_def by blast
    moreover have ne: "ds \<noteq> []"
    proof -
      have "\<exists>c \<in> set (rev s). c \<noteq> 0x30" using False calculation by (auto intro: bexI [of _ "hd s"])
      then show ?thesis
        using takeWhile_less [of "rev s" "\<lambda>c. c = 0x30"] False by (auto simp: ds_def trailing_zeros_def)
    qed
    moreover have "hd ds = hd s" using ne by (cases s) (auto simp: ds_def take_Cons split: nat.splits)
    ultimately have can: "canonical_nat ds" using dig by (simp add: canonical_nat_def)
    have pos: "digits_value ds \<noteq> 0"
      using digits_not_dvd [OF dig ne] takeWhile_rev_last [of s] ne by (auto simp: ds_def intro: ccontr)
    have "literal_decimal lit = Dec (if literal_negative lit then - int (digits_value ds) else int (digits_value ds))
        (integer_value (literal_exponent_text lit) - int (length (literal_fraction lit)) + int (trailing_zeros s))"
      using False unfolding literal_decimal_def s_def [symmetric] Let_def ds_def [symmetric] by simp
    with d pos show ?thesis using n False nat_text_value [OF can]
      unfolding exactNumber_def s_def [symmetric] Let_def ds_def [symmetric]
      by (auto simp: int_text_def)
  qed
qed

section \<open>The encoder\<close>

text \<open>
  \<open>pending\<close> is a stack of work items, its top at the head; the \<open>leave\<close> items of the code only
  maintain the set of ancestors that detects cycles, which a tree does not have.  The names of an
  object are visited in the order of UTF-16 code units.
\<close>

datatype work = WValue semantic | WText jstring

definition scalar_text :: "jstring \<Rightarrow> jstring result" where
  "scalar_text s =
     (if isUnicodeScalarString s then Inr (string_text s)
      else Inl (TypeError ''semantic strings must be scalar Unicode''))"

fun array_work :: "semantic list \<Rightarrow> work list" where
  "array_work [] = []"
| "array_work [x] = [WValue x]"
| "array_work (x # xs) = WValue x # WText [0x2C] # array_work xs"

fun object_work :: "(jstring \<times> semantic) list \<Rightarrow> work list result" where
  "object_work [] = Inr []"
| "object_work [(k, x)] =
     bindR (scalar_text k) (\<lambda>t. Inr [WText ([0x5B] @ t @ [0x2C]), WValue x, WText [0x5D]])"
| "object_work ((k, x) # kvs) =
     bindR (scalar_text k) (\<lambda>t. bindR (object_work kvs) (\<lambda>ws.
       Inr (WText ([0x5B] @ t @ [0x2C]) # WValue x # WText [0x5D] # WText [0x2C] # ws)))"

definition tag_text :: "string \<Rightarrow> jstring" where
  "tag_text name = [0x5B] @ string_text (js name) @ [0x2C]"

fun encode_turn :: "semantic \<Rightarrow> (jstring \<times> work list) result" where
  "encode_turn JNull = Inr ([0x5B] @ string_text (js ''null'') @ [0x5D], [])"
| "encode_turn (JBool b) = Inr (tag_text ''boolean'' @ (if b then js ''true'' else js ''false'') @ [0x5D], [])"
| "encode_turn (JStr s) = bindR (scalar_text s) (\<lambda>t. Inr (tag_text ''string'' @ t @ [0x5D], []))"
| "encode_turn (JNum SemUnbound) = Inr ([0x5B] @ string_text (js ''unbound'') @ [0x5D], [])"
| "encode_turn (JNum (SemNumber lit)) = bindR (exactNumber lit) (\<lambda>(coefficient, exponent).
     Inr (tag_text ''number'' @ string_text coefficient @ [0x2C] @ string_text exponent @ [0x5D], []))"
| "encode_turn (JArr xs) = Inr (tag_text ''array'' @ [0x5B], array_work xs @ [WText [0x5D, 0x5D]])"
| "encode_turn (JObj kvs) = bindR (object_work (sort_key fst kvs))
     (\<lambda>ws. Inr (tag_text ''object'' @ [0x5B], ws @ [WText [0x5D, 0x5D]]))"

fun work_size :: "work \<Rightarrow> nat" where
  "work_size (WText t) = 1"
| "work_size (WValue v) = 10 * size v + 1"

abbreviation works_size :: "work list \<Rightarrow> nat" where
  "works_size ws \<equiv> sum_list (map work_size ws)"

lemma array_work_size: "works_size (array_work xs) \<le> 10 * size_list size xs"
  by (induction xs rule: array_work.induct) auto

lemma object_work_size:
  "object_work kvs = Inr ws \<Longrightarrow> works_size ws \<le> 10 * size_list (size_prod (\<lambda>_. 0) size) kvs"
  by (induction kvs arbitrary: ws rule: object_work.induct) fastforce+

lemma size_list_insort: "size_list f (insort_key g x xs) = Suc (f x + size_list f xs)"
  by (induction xs) auto

lemma size_list_sort: "size_list f (sort_key g xs) = size_list f xs"
  by (induction xs) (auto simp: sort_key_def size_list_insort)

lemma encode_turn_size: "encode_turn v = Inr (t, ws) \<Longrightarrow> works_size ws < work_size (WValue v)"
proof (induction v rule: encode_turn.induct)
  case (6 xs)
  then show ?case using array_work_size [of xs] by auto
next
  case (7 kvs)
  then show ?case using object_work_size [of "sort_key fst kvs"] by (fastforce simp: size_list_sort)
qed auto

function encode_loop :: "work list \<Rightarrow> jstring \<Rightarrow> jstring result" where
  "encode_loop [] out = Inr out"
| "encode_loop (WText t # pending) out = encode_loop pending (out @ t)"
| "encode_loop (WValue v # pending) out =
     (case encode_turn v of
        Inl e \<Rightarrow> Inl e
      | Inr (t, ws) \<Rightarrow> encode_loop (ws @ pending) (out @ t))"
  by pat_completeness auto
termination
  by (relation "measure (\<lambda>(ws, _). works_size ws)") (auto dest: encode_turn_size)

definition SEMANTIC_VALUE_FORMAT :: jstring where
  "SEMANTIC_VALUE_FORMAT = js ''ru-semantic-value-1''"

definition encodeSemanticValue :: "semantic \<Rightarrow> jstring result" where
  "encodeSemanticValue v =
     bindR (encode_loop [WValue v] ([0x5B] @ string_text SEMANTIC_VALUE_FORMAT @ [0x2C]))
       (\<lambda>out. Inr (out @ [0x5D]))"

section \<open>The reference\<close>

text \<open>Every node becomes a tagged array over the normal form of the value.\<close>

type_synonym sem_norm = "decimal option jv"

fun leaf_decimal :: "sem_leaf \<Rightarrow> decimal option" where
  "leaf_decimal (SemNumber lit) = Some (literal_decimal lit)"
| "leaf_decimal SemUnbound = None"

definition sem_norm :: "semantic \<Rightarrow> sem_norm" where
  "sem_norm v = json_norm (map_jv leaf_decimal v)"

fun sem_tag :: "sem_norm \<Rightarrow> lossless" where
  "sem_tag JNull = JArr [JStr (js ''null'')]"
| "sem_tag (JBool b) = JArr [JStr (js ''boolean''), JBool b]"
| "sem_tag (JStr s) = JArr [JStr (js ''string''), JStr s]"
| "sem_tag (JNum None) = JArr [JStr (js ''unbound'')]"
| "sem_tag (JNum (Some d)) =
     (case d of Dec c e \<Rightarrow> JArr [JStr (js ''number''), JStr (int_text c), JStr (int_text e)])"
| "sem_tag (JArr xs) = JArr [JStr (js ''array''), JArr (map sem_tag xs)]"
| "sem_tag (JObj kvs) = JArr [JStr (js ''object''), JArr (map (\<lambda>(k, x). JArr [JStr k, sem_tag x]) kvs)]"

definition semantic_text :: "semantic \<Rightarrow> jstring" where
  "semantic_text v = lossless_text (JArr [JStr SEMANTIC_VALUE_FORMAT, sem_tag (sem_norm v)])"

abbreviation norm_text :: "semantic \<Rightarrow> jstring" where
  "norm_text v \<equiv> lossless_text (sem_tag (sem_norm v))"

fun work_text :: "work \<Rightarrow> jstring" where
  "work_text (WText t) = t"
| "work_text (WValue v) = norm_text v"

fun work_ok :: "work \<Rightarrow> bool" where
  "work_ok (WText t) = True"
| "work_ok (WValue v) = sem_ok v"

lemma insort_key_map_fst:
  "insort_key fst (a, f b) (map (\<lambda>(k, x). (k, f x)) xs) = map (\<lambda>(k, x). (k, f x)) (insort_key fst (a, b) xs)"
  by (induction xs) auto

lemma sort_key_map_fst: "sort_key fst (map (\<lambda>(k, x). (k, f x)) kvs) = map (\<lambda>(k, x). (k, f x)) (sort_key fst kvs)"
  by (induction kvs) (auto simp: sort_key_def insort_key_map_fst)

lemma sem_norm_obj:
  "sem_norm (JObj kvs) = JObj (map (\<lambda>(k, x). (k, sem_norm x)) (sort_key fst kvs))"
  unfolding sort_key_map_fst [symmetric]
  by (auto simp: sem_norm_def intro!: arg_cong [where f = "sort_key fst"])

lemma array_work_text: "concat (map work_text (array_work xs)) = commas (map norm_text xs)"
  by (induction xs rule: array_work.induct) auto

lemma object_work_text:
  "list_all (\<lambda>(k, x). isUnicodeScalarString k) kvs \<Longrightarrow>
   \<exists>ws. object_work kvs = Inr ws \<and>
     concat (map work_text ws) = commas (map (\<lambda>(k, x). [0x5B] @ string_text k @ [0x2C] @ norm_text x @ [0x5D]) kvs) \<and>
     (list_all (\<lambda>(k, x). sem_ok x) kvs \<longrightarrow> list_all work_ok ws)"
  by (induction kvs rule: object_work.induct) (auto simp: scalar_text_def)

lemma encode_turn_text:
  assumes "sem_ok v"
  shows "\<exists>t ws. encode_turn v = Inr (t, ws) \<and> t @ concat (map work_text ws) = norm_text v \<and> list_all work_ok ws"
proof (cases v)
  case (JNum l)
  then show ?thesis using assms
    by (cases l)
      (auto simp: sem_norm_def tag_text_def exactNumber_decimal split: decimal.splits prod.splits)
next
  case (JArr xs)
  have "list_all work_ok (array_work ys)" if "list_all sem_ok ys" for ys
    using that by (induction ys rule: array_work.induct) auto
  then show ?thesis using assms JArr
    by (auto simp: sem_norm_def tag_text_def array_work_text comp_def)
next
  case (JObj kvs)
  have ok: "list_all (\<lambda>(k, x). isUnicodeScalarString k \<and> sem_ok x) (sort_key fst kvs)"
    using assms JObj by (auto simp: list_all_iff)
  then obtain ws where ws: "object_work (sort_key fst kvs) = Inr ws"
    "concat (map work_text ws) = commas (map (\<lambda>(k, x). [0x5B] @ string_text k @ [0x2C] @ norm_text x @ [0x5D]) (sort_key fst kvs))"
    "list_all work_ok ws"
    using object_work_text [of "sort_key fst kvs"] by (fastforce simp: list_all_iff)
  then show ?thesis using JObj
    by (auto simp: sem_norm_obj tag_text_def comp_def case_prod_unfold intro!: arg_cong [where f = commas])
qed (use assms in \<open>auto simp: sem_norm_def tag_text_def scalar_text_def\<close>)

lemma encode_loop_text:
  "list_all work_ok ws \<Longrightarrow> encode_loop ws out = Inr (out @ concat (map work_text ws))"
proof (induction ws out rule: encode_loop.induct)
  case (3 v pending out)
  then obtain t ws where t: "encode_turn v = Inr (t, ws)" "t @ concat (map work_text ws) = norm_text v"
    "list_all work_ok ws" using encode_turn_text [of v] by auto
  from 3(1) [OF t(1) refl] 3(2) t show ?case by (simp flip: t(2))
qed auto

lemma encodeSemanticValue_text: "sem_ok v \<Longrightarrow> encodeSemanticValue v = Inr (semantic_text v)"
  using encode_loop_text [of "[WValue v]" "[0x5B] @ string_text SEMANTIC_VALUE_FORMAT @ [0x2C]"]
  unfolding encodeSemanticValue_def by (simp add: semantic_text_def)

lemma int_text_inj: "int_text a = int_text b \<Longrightarrow> a = b"
proof -
  have h: "hd (nat_text n) \<noteq> 0x2D" for n
    using nat_text_digits [of n] nat_text_ne [of n] digit_facts by (cases "nat_text n") auto
  have "nat_text n \<noteq> 0x2D # s" for n s using h [of n] by auto
  moreover assume "int_text a = int_text b"
  ultimately show "a = b"
    by (auto simp: int_text_def nat_text_eq_iff split: if_splits) (metis)+
qed

lemma sem_tag_inj: "sem_tag a = sem_tag b \<Longrightarrow> a = b"
proof (induction a arbitrary: b rule: sem_tag.induct)
  case 1
  then show ?case by (cases b rule: sem_tag.cases) (auto split: decimal.splits)
next
  case (2 t)
  then show ?case by (cases b rule: sem_tag.cases) (auto split: decimal.splits)
next
  case (3 t)
  then show ?case by (cases b rule: sem_tag.cases) (auto split: decimal.splits)
next
  case 4
  then show ?case by (cases b rule: sem_tag.cases) (auto split: decimal.splits)
next
  case (5 d)
  then show ?case by (cases b rule: sem_tag.cases) (auto split: decimal.splits dest: int_text_inj)
next
  case (6 xs)
  then obtain ys where "b = JArr ys" "map sem_tag xs = map sem_tag ys"
    by (cases b rule: sem_tag.cases) (auto split: decimal.splits)
  then show ?case using 6(1) list.inj_map_strong [of xs ys sem_tag sem_tag] by blast
next
  case (7 kvs)
  then obtain ys where b: "b = JObj ys"
    "map (\<lambda>(k, x). JArr [JStr k, sem_tag x]) kvs = map (\<lambda>(k, x). JArr [JStr k, sem_tag x]) ys"
    by (cases b rule: sem_tag.cases) (auto split: decimal.splits)
  have "kvs = ys"
    by (rule list.inj_map_strong [OF _ b(2)]) (use 7(1) in auto)
  then show ?case using b by simp
qed

lemma scalar_small: "list_all (\<lambda>c. unat c < 0xD800) s \<Longrightarrow> isUnicodeScalarString s"
  by (induction s rule: isUnicodeScalarString.induct) (auto simp: unit_class_defs)

lemma scalar_js [simp]: "isUnicodeScalarString (js s)"
proof (rule scalar_small)
  have "unat (of_char c :: code_unit) < 0xD800" for c
  proof -
    have "(of_char c :: nat) < 256" by simp
    then show ?thesis by (simp only: unat_of_char)
  qed
  then show "list_all (\<lambda>c. unat c < 0xD800) (js s)" by (simp add: js_def list_all_iff)
qed

lemma scalar_int_text: "isUnicodeScalarString (int_text i)"
proof (rule scalar_small)
  show "list_all (\<lambda>c. unat c < 0xD800) (int_text i)"
    using nat_text_digits [of "nat i"] nat_text_digits [of "nat (- i)"]
    by (fastforce simp: int_text_def list_all_iff unit_class_defs)
qed

lemma sem_tag_ok: "scalar_strings v \<Longrightarrow> lossless_ok (sem_tag v)"
  by (induction v rule: sem_tag.induct)
    (auto split: decimal.splits simp: scalar_int_text list_all_iff)

lemma scalar_strings_map: "scalar_strings (map_jv f v) = scalar_strings v"
  by (induction v) (auto simp: list_all_iff)

lemma scalar_strings_norm: "scalar_strings v \<Longrightarrow> scalar_strings (json_norm v)"
  by (induction v rule: json_norm.induct) (auto simp: list_all_iff)

lemma sem_norm_scalar: "sem_ok v \<Longrightarrow> scalar_strings (sem_norm v)"
  by (simp add: sem_norm_def scalar_strings_norm scalar_strings_map scalar_strings_ok)

lemma semantic_text_inj:
  "sem_ok v \<Longrightarrow> sem_ok w \<Longrightarrow> semantic_text v = semantic_text w \<longleftrightarrow> sem_norm v = sem_norm w"
  unfolding semantic_text_def SEMANTIC_VALUE_FORMAT_def
  using lossless_text_inj [of "JArr [JStr (js ''ru-semantic-value-1''), sem_tag (sem_norm v)]"
      "JArr [JStr (js ''ru-semantic-value-1''), sem_tag (sem_norm w)]"]
  by (auto simp: sem_tag_ok sem_norm_scalar dest: sem_tag_inj)

section \<open>Properties\<close>

text \<open>C33: the durable identity is complete and collision free: on well-formed semantic values the
  encoder always produces a text, and two values have the same text exactly when they are the same
  up to the order of object members and the spelling of numbers.\<close>

theorem semantic_identity_exact:
  assumes "json_ok leaf_ok v" "json_ok leaf_ok w"
  shows "\<exists>t u. encodeSemanticValue v = Inr t \<and> encodeSemanticValue w = Inr u \<and>
    (t = u \<longleftrightarrow> json_norm (map_jv leaf_decimal v) = json_norm (map_jv leaf_decimal w))"
  using assms semantic_text_inj [OF assms] by (simp add: encodeSemanticValue_text sem_norm_def)

lemma semantic_identity_exact_witness:
  "\<exists>t u. encodeSemanticValue (JObj [(js ''a'', JNum (SemNumber (js ''10''))), (js ''b'', JNum SemUnbound)]) = Inr t \<and>
     encodeSemanticValue (JObj [(js ''b'', JNum SemUnbound), (js ''a'', JNum (SemNumber (js ''1e1'')))]) = Inr u \<and>
     t = u"
proof -
  have n: "json_norm (map_jv leaf_decimal (JObj [(js ''a'', JNum (SemNumber (js ''10''))), (js ''b'', JNum SemUnbound)])) =
      json_norm (map_jv leaf_decimal (JObj [(js ''b'', JNum SemUnbound), (js ''a'', JNum (SemNumber (js ''1e1'')))]))"
    by code_simp
  have ok: "json_ok leaf_ok (JObj [(js ''a'', JNum (SemNumber (js ''10''))), (js ''b'', JNum SemUnbound)])"
    "json_ok leaf_ok (JObj [(js ''b'', JNum SemUnbound), (js ''a'', JNum (SemNumber (js ''1e1'')))])"
    by code_simp+
  from semantic_identity_exact [OF ok] n show ?thesis by auto
qed

end
