(* ===== verification/Uri.thy ===== *)
theory Uri
  imports Object_Edits Semantic_Identity
begin

text \<open>
  Identities and references as URLs: \<open>decodeURIComponent\<close>, the canonical path grammar of
  \<open>packages/protocol/src/read-values.ts\<close> and the admission of identities and references of
  \<open>retained-v01/contract.ts\<close> and \<open>reference-input.ts\<close>.  The WHATWG URL parser and the RFC 3986
  validator of ajv-formats are parameters (\<open>url_runtime\<close>).
\<close>

section \<open>The URL parser as a parameter\<close>

text \<open>
  \<open>parse_url s\<close> is \<open>new URL(s)\<close>, \<open>None\<close> where it throws; \<open>bare_href\<close> is the \<open>href\<close> after \<open>search\<close>
  and \<open>hash\<close> are set to the empty string.  \<open>json_schema_uri\<close> is \<open>isJsonSchemaUri\<close>.
\<close>

record url_parts =
  href :: jstring
  protocol :: jstring
  username :: jstring
  password :: jstring
  host :: jstring
  pathname :: jstring
  search :: jstring
  hash :: jstring
  bare_href :: jstring

record url_runtime =
  parse_url :: "jstring \<Rightarrow> url_parts option"
  json_schema_uri :: "jstring \<Rightarrow> bool"

section \<open>Code points and UTF-8\<close>

text \<open>Iterating a string yields code points; a lone surrogate is a code point of its own.\<close>

definition pair_value :: "code_unit \<Rightarrow> code_unit \<Rightarrow> nat" where
  "pair_value c d = 0x10000 + (unat c - 0xD800) * 0x400 + (unat d - 0xDC00)"

fun code_points :: "jstring \<Rightarrow> nat list" where
  "code_points [] = []"
| "code_points [c] = [unat c]"
| "code_points (c # d # s) =
     (if is_high_surrogate c \<and> is_low_surrogate d then pair_value c d # code_points s
      else unat c # code_points (d # s))"

definition utf16 :: "nat \<Rightarrow> jstring" where
  "utf16 p = (if p < 0x10000 then [of_nat p]
     else [of_nat (0xD800 + (p - 0x10000) div 0x400), of_nat (0xDC00 + (p - 0x10000) mod 0x400)])"

definition surrogate_point :: "nat \<Rightarrow> bool" where
  "surrogate_point p \<longleftrightarrow> 0xD800 \<le> p \<and> p \<le> 0xDFFF"

text \<open>\<open>TextEncoder.encode\<close>: a lone surrogate becomes the replacement character.\<close>

definition utf8 :: "nat \<Rightarrow> nat list" where
  "utf8 p = (if surrogate_point p then [0xEF, 0xBF, 0xBD]
     else if p < 0x80 then [p]
     else if p < 0x800 then [0xC0 + p div 64, 0x80 + p mod 64]
     else if p < 0x10000 then [0xE0 + p div 4096, 0x80 + p div 64 mod 64, 0x80 + p mod 64]
     else [0xF0 + p div 262144, 0x80 + p div 4096 mod 64, 0x80 + p div 64 mod 64, 0x80 + p mod 64])"

text \<open>Evaluation compares code points as integers.\<close>

lemma point_code [code]:
  "surrogate_point p \<longleftrightarrow> 0xD800 \<le> int p \<and> int p \<le> 0xDFFF"
  "utf16 p = (if int p < 0x10000 then [of_nat p]
     else [of_nat (0xD800 + (p - 0x10000) div 0x400), of_nat (0xDC00 + (p - 0x10000) mod 0x400)])"
  "utf8 p = (if surrogate_point p then [0xEF, 0xBF, 0xBD]
     else if int p < 0x80 then [p]
     else if int p < 0x800 then [0xC0 + p div 64, 0x80 + p mod 64]
     else if int p < 0x10000 then [0xE0 + p div 4096, 0x80 + p div 64 mod 64, 0x80 + p mod 64]
     else [0xF0 + p div 262144, 0x80 + p div 4096 mod 64, 0x80 + p div 64 mod 64, 0x80 + p mod 64])"
  by (auto simp: surrogate_point_def utf16_def utf8_def)

text \<open>The scalar value of a UTF-8 sequence; overlong forms, surrogates and values beyond
  \<open>0x10FFFF\<close> are invalid.\<close>

definition continuation :: "nat \<Rightarrow> bool" where
  "continuation b \<longleftrightarrow> 0x80 \<le> b \<and> b < 0xC0"

fun utf8_value :: "nat list \<Rightarrow> nat option" where
  "utf8_value [a] = (if a < 0x80 then Some a else None)"
| "utf8_value [a, b] =
     (if 0xC2 \<le> a \<and> a < 0xE0 \<and> continuation b then Some ((a - 0xC0) * 64 + (b - 0x80)) else None)"
| "utf8_value [a, b, c] =
     (let p = (a - 0xE0) * 4096 + (b - 0x80) * 64 + (c - 0x80)
      in if 0xE0 \<le> a \<and> a < 0xF0 \<and> continuation b \<and> continuation c \<and> 0x800 \<le> p \<and> \<not> surrogate_point p
         then Some p else None)"
| "utf8_value [a, b, c, d] =
     (let p = (a - 0xF0) * 262144 + (b - 0x80) * 4096 + (c - 0x80) * 64 + (d - 0x80)
      in if 0xF0 \<le> a \<and> a < 0xF8 \<and> continuation b \<and> continuation c \<and> continuation d \<and>
            0x10000 \<le> p \<and> p \<le> 0x10FFFF
         then Some p else None)"
| "utf8_value _ = None"

definition utf8_extra :: "nat \<Rightarrow> nat option" where
  "utf8_extra a = (if a < 0x80 then Some 0 else if a < 0xC0 then None else if a < 0xE0 then Some 1
     else if a < 0xF0 then Some 2 else if a < 0xF8 then Some 3 else None)"

section \<open>\<open>decodeURIComponent\<close>\<close>

fun pct_byte :: "jstring \<Rightarrow> (nat \<times> jstring) option" where
  "pct_byte (c # h # l # r) =
     (if c = 0x25
      then (case (hex_value h, hex_value l) of (Some a, Some b) \<Rightarrow> Some (16 * a + b, r) | _ \<Rightarrow> None)
      else None)"
| "pct_byte _ = None"

fun pct_bytes :: "nat \<Rightarrow> jstring \<Rightarrow> (nat list \<times> jstring) option" where
  "pct_bytes 0 s = Some ([], s)"
| "pct_bytes (Suc n) s =
     (case pct_byte s of
        None \<Rightarrow> None
      | Some (b, r) \<Rightarrow> map_option (apfst (Cons b)) (pct_bytes n r))"

definition pct_char :: "jstring \<Rightarrow> (nat \<times> jstring) option" where
  "pct_char s =
     (case pct_byte s of
        None \<Rightarrow> None
      | Some (a, r) \<Rightarrow>
          (case utf8_extra a of
             None \<Rightarrow> None
           | Some n \<Rightarrow>
               (case pct_bytes n r of
                  None \<Rightarrow> None
                | Some (bs, r') \<Rightarrow> map_option (\<lambda>p. (p, r')) (utf8_value (a # bs)))))"

lemma pct_byte_length: "pct_byte s = Some (b, r) \<Longrightarrow> length r < length s"
  by (cases s rule: pct_byte.cases) (auto split: if_splits option.splits)

lemma pct_bytes_length: "pct_bytes n s = Some (bs, r) \<Longrightarrow> length r \<le> length s"
  by (induction n arbitrary: s bs) (auto split: option.splits dest!: pct_byte_length, fastforce)

lemma pct_char_length: "pct_char s = Some (p, r) \<Longrightarrow> length r < length s"
  by (auto simp: pct_char_def split: option.splits dest!: pct_byte_length pct_bytes_length)

function decodeURIComponent :: "jstring \<Rightarrow> jstring option" where
  "decodeURIComponent s =
     (case s of
        [] \<Rightarrow> Some []
      | c # r \<Rightarrow>
          if c = 0x25
          then (case pct_char s of
                  None \<Rightarrow> None
                | Some (p, r') \<Rightarrow> map_option (append (utf16 p)) (decodeURIComponent r'))
          else map_option (Cons c) (decodeURIComponent r))"
  by pat_completeness auto
termination
  by (relation "measure length") (auto dest: pct_char_length)

declare decodeURIComponent.simps [simp del]

section \<open>Canonical segments\<close>

text \<open>\<open>LITERAL_PATH_CHARACTER\<close>: \<open>[A-Za-z0-9._~!$&'()*+,;=:@-]\<close>.\<close>

definition literal_point :: "nat \<Rightarrow> bool" where
  "literal_point p \<longleftrightarrow> p < 0x80 \<and>
     (is_alpha (of_nat p) \<or> is_digit (of_nat p) \<or> of_nat p \<in> set (js ''._~!$&()*+,;=:@-'') \<or> p = 0x27)"

definition upper_hex :: "nat \<Rightarrow> code_unit" where
  "upper_hex n = (if n < 10 then of_nat (48 + n) else of_nat (55 + n))"

definition pct_text :: "nat \<Rightarrow> jstring" where
  "pct_text b = [0x25, upper_hex (b div 16), upper_hex (b mod 16)]"

definition encode_point :: "nat \<Rightarrow> jstring" where
  "encode_point p = (if literal_point p then [of_nat p] else concat (map pct_text (utf8 p)))"

definition canonicalPathSegment :: "jstring \<Rightarrow> jstring" where
  "canonicalPathSegment s = concat (map encode_point (code_points s))"

definition ascii_control :: "code_unit \<Rightarrow> bool" where
  "ascii_control c \<longleftrightarrow> c \<le> 0x1F \<or> c = 0x7F"

definition validateCanonicalIdSegment :: "jstring \<Rightarrow> bool" where
  "validateCanonicalIdSegment segment \<longleftrightarrow> segment \<noteq> [] \<and>
     (case decodeURIComponent segment of
        None \<Rightarrow> False
      | Some decoded \<Rightarrow>
          decoded \<noteq> js ''.'' \<and> decoded \<noteq> js ''..'' \<and> 0x2F \<notin> set decoded \<and> 0x5C \<notin> set decoded \<and>
          \<not> list_ex ascii_control decoded \<and> canonicalPathSegment decoded = segment)"

definition assertCanonicalPathSegments :: "jstring \<Rightarrow> bool" where
  "assertCanonicalPathSegments path \<longleftrightarrow> list_all validateCanonicalIdSegment (split_on 0x2F path)"

section \<open>Admission of identities and references\<close>

definition malformed :: js_error where
  "malformed = RequestError (js ''malformed-request'') 400 (js ''never'')"

text \<open>\<open>/^https?:\/\//i\<close> and its case-sensitive form.\<close>

definition lower_ascii :: "code_unit \<Rightarrow> code_unit" where
  "lower_ascii c = (if unit_between 0x41 0x5A c then c + 0x20 else c)"

definition http_prefix_exact :: "jstring \<Rightarrow> bool" where
  "http_prefix_exact s \<longleftrightarrow> prefix (js ''http://'') s \<or> prefix (js ''https://'') s"

definition http_prefix :: "jstring \<Rightarrow> bool" where
  "http_prefix s \<longleftrightarrow> http_prefix_exact (map lower_ascii (take 8 s))"

text \<open>\<open>[?#\\\s]\<close> with the white space of the language.\<close>

definition white_space :: "code_unit \<Rightarrow> bool" where
  "white_space c \<longleftrightarrow> unit_between 9 13 c \<or> c = 0x20 \<or> c = 0xA0 \<or> c = 0x1680 \<or> unit_between 0x2000 0x200A c \<or>
     c = 0x2028 \<or> c = 0x2029 \<or> c = 0x202F \<or> c = 0x205F \<or> c = 0x3000 \<or> c = 0xFEFF"

definition reference_break :: "code_unit \<Rightarrow> bool" where
  "reference_break c \<longleftrightarrow> c = 0x3F \<or> c = 0x23 \<or> c = 0x5C \<or> white_space c"

text \<open>The part of an operand below the Scope: absolute operands must start with it.\<close>

definition local_part :: "jstring \<Rightarrow> jstring \<Rightarrow> jstring result" where
  "local_part scope supplied =
     (if http_prefix supplied
      then if prefix scope supplied then Inr (drop (length scope) supplied) else Inl malformed
      else Inr supplied)"

definition canonicalCreatedId :: "url_runtime \<Rightarrow> jstring \<Rightarrow> jstring \<Rightarrow> jstring result" where
  "canonicalCreatedId rt scope supplied =
     bindR (local_part scope supplied) (\<lambda>local.
       if \<not> assertCanonicalPathSegments local then Inl malformed
       else if local = [] \<or> 0x3F \<in> set local \<or> 0x23 \<in> set local \<or> prefix [0x40] local then Inl malformed
       else case parse_url rt (scope @ local) of
              None \<Rightarrow> Inl malformed
            | Some u \<Rightarrow> if href u = scope @ local then Inr (href u) else Inl malformed)"

fun join :: "code_unit \<Rightarrow> jstring list \<Rightarrow> jstring" where
  "join d [] = []"
| "join d [s] = s"
| "join d (s # ss) = s @ d # join d ss"

definition normalize_segments :: "jstring \<Rightarrow> jstring option" where
  "normalize_segments local =
     map_option (join 0x2F) (those (map (\<lambda>s. map_option canonicalPathSegment (decodeURIComponent s)) (split_on 0x2F local)))"

definition canonicalLocalReference :: "url_runtime \<Rightarrow> jstring \<Rightarrow> jstring \<Rightarrow> jstring result" where
  "canonicalLocalReference rt scope supplied =
     bindR (local_part scope supplied) (\<lambda>local.
       if list_ex reference_break local then Inl malformed
       else case normalize_segments local of
              None \<Rightarrow> Inl malformed
            | Some normalized \<Rightarrow> canonicalCreatedId rt scope normalized)"

text \<open>\<open>inputReferenceUri\<close>: a scheme makes the operand absolute; HTTP operands whose parsed form lies
  in the Scope are normalized, other absolute URIs are opaque.\<close>

fun scheme_rest :: "jstring \<Rightarrow> bool" where
  "scheme_rest [] = False"
| "scheme_rest (c # s) =
     (if c = 0x3A then True
      else (is_alpha c \<or> is_digit c \<or> c = 0x2B \<or> c = 0x2E \<or> c = 0x2D) \<and> scheme_rest s)"

definition has_scheme :: "jstring \<Rightarrow> bool" where
  "has_scheme s = (case s of [] \<Rightarrow> False | c # r \<Rightarrow> is_alpha c \<and> scheme_rest r)"

definition inputReferenceUri :: "url_runtime \<Rightarrow> jstring \<Rightarrow> jstring \<Rightarrow> jstring result" where
  "inputReferenceUri rt scope value =
     (if \<not> has_scheme value then canonicalLocalReference rt scope value
      else if \<not> json_schema_uri rt value then Inl malformed
      else if http_prefix value
           then (case parse_url rt value of
                   None \<Rightarrow> Inl (TypeError ''Invalid URL'')
                 | Some u \<Rightarrow> if prefix scope (href u) then canonicalLocalReference rt scope value else Inr value)
           else Inr value)"

section \<open>HTTP URLs and the Scope\<close>

fun complete_escapes :: "jstring \<Rightarrow> bool" where
  "complete_escapes (c # h # l # r) =
     (if c = 0x25 then hex_value h \<noteq> None \<and> hex_value l \<noteq> None \<and> complete_escapes r
      else complete_escapes (h # l # r))"
| "complete_escapes s = (0x25 \<notin> set s)"

definition upper_hex_value :: "code_unit \<Rightarrow> nat option" where
  "upper_hex_value c = (if is_digit c \<or> unit_between 0x41 0x46 c then hex_value c else None)"

definition unreserved :: "nat \<Rightarrow> bool" where
  "unreserved p \<longleftrightarrow> p < 0x80 \<and>
     (is_alpha (of_nat p) \<or> is_digit (of_nat p) \<or> of_nat p \<in> set (js ''._~-''))"

fun canonical_escapes :: "jstring \<Rightarrow> bool" where
  "canonical_escapes (c # h # l # r) =
     (if c = 0x25
      then (case (upper_hex_value h, upper_hex_value l) of
              (Some a, Some b) \<Rightarrow> \<not> unreserved (16 * a + b) \<and> canonical_escapes r
            | _ \<Rightarrow> False)
      else canonical_escapes (h # l # r))"
| "canonical_escapes s = (0x25 \<notin> set s)"

definition parseCanonicalHttpUrl :: "url_runtime \<Rightarrow> jstring \<Rightarrow> jstring result" where
  "parseCanonicalHttpUrl rt value =
     (case parse_url rt value of
        None \<Rightarrow> Inl (ArtifactError ''must be an absolute HTTP(S) URL'')
      | Some u \<Rightarrow>
          if protocol u \<notin> {js ''http:'', js ''https:''} \<or> username u \<noteq> [] \<or> password u \<noteq> [] \<or>
             0x23 \<in> set value \<or> href u \<noteq> value
          then Inl (ArtifactError ''must be a canonical credential-free HTTP(S) URL'')
          else if \<not> complete_escapes value then Inl (ArtifactError ''must use complete percent escapes'')
          else if \<not> canonical_escapes (pathname u) then Inl (ArtifactError ''must use canonical percent escapes'')
          else Inr value)"

definition canonical_path :: "jstring \<Rightarrow> bool" where
  "canonical_path path =
     (let segments = split_on 0x2F path
      in list_all (\<lambda>(i, s). (i = 0 \<or> i = length segments - 1) \<and> s = [] \<or> validateCanonicalIdSegment s)
           (zip [0..<length segments] segments))"

definition parseCanonicalScope :: "url_runtime \<Rightarrow> jstring \<Rightarrow> jstring result" where
  "parseCanonicalScope rt value =
     bindR (parseCanonicalHttpUrl rt value) (\<lambda>scope.
       case parse_url rt scope of
         None \<Rightarrow> Inl (TypeError ''Invalid URL'')
       | Some u \<Rightarrow>
           if 0x3F \<in> set scope \<or> \<not> suffix [0x2F] (pathname u)
           then Inl (ArtifactError ''must be a canonical HTTP(S) URL ending in /'')
           else if \<not> canonical_path (pathname u) then Inl (ArtifactError ''has a noncanonical path'')
           else Inr scope)"

definition canonicalSubject :: "url_runtime \<Rightarrow> jstring \<Rightarrow> jstring \<Rightarrow> jstring result" where
  "canonicalSubject rt scope supplied =
     (if http_prefix supplied \<and> \<not> prefix scope supplied
      then (case parseCanonicalHttpUrl rt supplied of Inl _ \<Rightarrow> Inl malformed | Inr u \<Rightarrow> Inr u)
      else canonicalLocalReference rt scope supplied)"

definition nonempty_string :: "'n jv option \<Rightarrow> jstring result" where
  "nonempty_string v = (case v of Some (JStr s) \<Rightarrow> if s \<noteq> [] then Inr s else Inl malformed | _ \<Rightarrow> Inl malformed)"

text \<open>\<open>httpUri\<close>: a type or navigation URL; it need not be canonical.\<close>

definition httpUri :: "url_runtime \<Rightarrow> 'n jv option \<Rightarrow> unit result" where
  "httpUri rt v =
     bindR (nonempty_string v) (\<lambda>value.
       if \<not> http_prefix_exact value \<or> \<not> json_schema_uri rt value then Inl malformed
       else case parse_url rt value of
              None \<Rightarrow> Inl malformed
            | Some u \<Rightarrow> guardR (protocol u \<in> {js ''http:'', js ''https:''} \<and> username u = [] \<and> password u = []) malformed)"

section \<open>The encoding round trip\<close>

lemma unat_small: "n < 65536 \<Longrightarrow> unat (of_nat n :: code_unit) = n"
  by (rule unat_of_nat_unit)

lemma hex_value_upper: "n < 16 \<Longrightarrow> hex_value (upper_hex n) = Some n"
  by (auto simp: hex_value_def upper_hex_def Let_def unat_small simp del: of_nat_add)

lemma pct_byte_text: "b < 256 \<Longrightarrow> pct_byte (pct_text b @ r) = Some (b, r)"
  by (simp add: pct_text_def hex_value_upper)

lemma pct_bytes_text:
  "list_all (\<lambda>b. b < 256) bs \<Longrightarrow> pct_bytes (length bs) (concat (map pct_text bs) @ r) = Some (bs, r)"
  by (induction bs) (auto simp: pct_byte_text)

lemma pct_char_text:
  "list_all (\<lambda>b. b < 256) (a # bs) \<Longrightarrow> utf8_extra a = Some (length bs) \<Longrightarrow>
   pct_char (concat (map pct_text (a # bs)) @ r) = map_option (\<lambda>p. (p, r)) (utf8_value (a # bs))"
  by (simp add: pct_char_def pct_byte_text pct_bytes_text)

definition scalar_point :: "nat \<Rightarrow> bool" where
  "scalar_point p \<longleftrightarrow> \<not> surrogate_point p \<and> p \<le> 0x10FFFF"

lemma split3: "(p div 4096) * 4096 + (p div 64 mod 64) * 64 + p mod 64 = (p::nat)"
proof -
  have "p div 4096 = p div 64 div 64" by (simp add: div_mult2_eq)
  moreover have "(p div 64 div 64) * 64 + p div 64 mod 64 = p div 64" "(p div 64) * 64 + p mod 64 = p" by simp_all
  ultimately show ?thesis by linarith
qed

lemma pct_char_point:
  assumes "scalar_point p"
  shows "pct_char (concat (map pct_text (utf8 p)) @ r) = Some (p, r)"
proof -
  have m: "x mod 64 < 64 \<and> x mod 64 < 128" for x :: nat
    using mod_less_divisor [of 64 x] by linarith
  consider "p < 0x80" | "0x80 \<le> p" "p < 0x800" | "0x800 \<le> p" "p < 0x10000" | "0x10000 \<le> p" by linarith
  then show ?thesis
  proof cases
    case 1
    then have "utf8 p = [p]" by (simp add: utf8_def surrogate_point_def)
    then show ?thesis using 1 pct_char_text [of p "[]" r] by (simp add: utf8_extra_def)
  next
    case 2
    then have u: "utf8 p = [0xC0 + p div 64, 0x80 + p mod 64]" by (simp add: utf8_def surrogate_point_def)
    have "2 \<le> p div 64" "p div 64 < 32" using 2 by (auto simp: less_mult_imp_div_less less_eq_div_iff_mult_less_eq)
    then show ?thesis using m [of p] pct_char_text [of "0xC0 + p div 64" "[0x80 + p mod 64]" r]
      unfolding u by (simp add: utf8_extra_def continuation_def)
  next
    case 3
    then have u: "utf8 p = [0xE0 + p div 4096, 0x80 + p div 64 mod 64, 0x80 + p mod 64]"
      using assms by (simp add: utf8_def scalar_point_def)
    have "p div 4096 < 16" using 3 by (auto simp: less_mult_imp_div_less)
    then show ?thesis using m [of p] m [of "p div 64"] 3 assms split3 [of p]
        pct_char_text [of "0xE0 + p div 4096" "[0x80 + p div 64 mod 64, 0x80 + p mod 64]" r]
      unfolding u by (simp add: utf8_extra_def continuation_def scalar_point_def Let_def)
  next
    case 4
    then have u: "utf8 p = [0xF0 + p div 262144, 0x80 + p div 4096 mod 64, 0x80 + p div 64 mod 64, 0x80 + p mod 64]"
      using assms by (simp add: utf8_def scalar_point_def)
    have "p div 262144 < 8" using assms by (auto simp: scalar_point_def less_mult_imp_div_less)
    moreover have "p div 262144 * 262144 + (p div 4096 mod 64) * 4096 + (p div 64 mod 64) * 64 + p mod 64 = p"
      using split3 [of p] div_mult_mod_eq [of "p div 4096" 64] by (simp add: div_mult2_eq [symmetric])
    ultimately show ?thesis using m [of p] m [of "p div 64"] m [of "p div 4096"] 4 assms
        pct_char_text [of "0xF0 + p div 262144" "[0x80 + p div 4096 mod 64, 0x80 + p div 64 mod 64, 0x80 + p mod 64]" r]
      unfolding u by (simp add: utf8_extra_def continuation_def scalar_point_def Let_def)
  qed
qed

lemma pct_text_hd: "utf8 p \<noteq> [] \<and> concat (map pct_text (utf8 p)) = 0x25 # tl (concat (map pct_text (utf8 p)))"
  by (auto simp: utf8_def pct_text_def)

lemma literal_point_plain: "literal_point p \<Longrightarrow> of_nat p \<noteq> (0x25 :: code_unit) \<and> p < 0x80"
  by (auto simp: literal_point_def js_def unit_class_defs)

lemma decode_Nil: "decodeURIComponent [] = Some []"
  by (simp add: decodeURIComponent.simps)

lemma decode_plain: "c \<noteq> 0x25 \<Longrightarrow> decodeURIComponent (c # r) = map_option (Cons c) (decodeURIComponent r)"
  by (subst decodeURIComponent.simps) simp

lemma decode_point:
  assumes "scalar_point p"
  shows "decodeURIComponent (encode_point p @ r) = map_option (append (utf16 p)) (decodeURIComponent r)"
proof (cases "literal_point p")
  case True
  have "(@) [x] = (#) x" for x :: code_unit by (rule ext) simp
  then show ?thesis using True literal_point_plain [OF True]
    by (simp add: encode_point_def decode_plain utf16_def)
next
  case False
  obtain t where t: "concat (map pct_text (utf8 p)) = 0x25 # t" using pct_text_hd [of p] by blast
  have "pct_char (0x25 # t @ r) = Some (p, r)"
    using pct_char_point [OF assms, of r] unfolding t by simp
  then show ?thesis using False t by (simp add: encode_point_def) (subst decodeURIComponent.simps, simp)
qed

lemma utf16_pair:
  assumes "is_high_surrogate c" "is_low_surrogate d"
  shows "utf16 (pair_value c d) = [c, d] \<and> scalar_point (pair_value c d)"
proof -
  have b: "0xD800 \<le> unat c" "unat c \<le> 0xDBFF" "0xDC00 \<le> unat d" "unat d \<le> 0xDFFF"
    using assms by (auto simp: unit_class_defs)
  have e: "pair_value c d - 0x10000 = (unat c - 0xD800) * 0x400 + (unat d - 0xDC00)" by (simp add: pair_value_def)
  have dm: "(pair_value c d - 0x10000) div 0x400 = unat c - 0xD800" "(pair_value c d - 0x10000) mod 0x400 = unat d - 0xDC00"
    unfolding e using b by (simp_all only: div_mult_self3 mod_mult_self3) simp_all
  have "pair_value c d \<le> 0x10FFFF" "0x10000 \<le> pair_value c d" using b by (simp_all add: pair_value_def)
  moreover have "of_nat (0xD800 + (unat c - 0xD800)) = c" "of_nat (0xDC00 + (unat d - 0xDC00)) = d"
    using b by simp_all
  ultimately show ?thesis using dm by (simp add: utf16_def scalar_point_def surrogate_point_def del: of_nat_add)
qed

lemma utf16_unit: "non_surrogate c \<Longrightarrow> utf16 (unat c) = [c] \<and> scalar_point (unat c)"
proof -
  assume "non_surrogate c"
  moreover have "unat c < 65536" using unsigned_less [of c] by simp
  ultimately show ?thesis by (auto simp: utf16_def scalar_point_def surrogate_point_def non_surrogate_def unit_class_defs)
qed

lemma code_points_scalar:
  "isUnicodeScalarString s \<Longrightarrow> list_all scalar_point (code_points s) \<and> concat (map utf16 (code_points s)) = s"
proof (induction s rule: code_points.induct)
  case (2 c)
  then show ?case using utf16_unit [of c] by (auto simp: non_surrogate_def split: if_splits)
next
  case (3 c d s)
  show ?case
  proof (cases "is_high_surrogate c")
    case True
    then show ?thesis using 3 utf16_pair [of c d] by auto
  next
    case False
    then show ?thesis using 3 utf16_unit [of c] by (auto simp: non_surrogate_def split: if_splits)
  qed
qed simp

lemma decode_encode: "isUnicodeScalarString s \<Longrightarrow> decodeURIComponent (canonicalPathSegment s) = Some s"
proof -
  assume s: "isUnicodeScalarString s"
  have "list_all scalar_point ps \<Longrightarrow> decodeURIComponent (concat (map encode_point ps)) = Some (concat (map utf16 ps))" for ps
    by (induction ps) (auto simp: decode_Nil decode_point)
  then show ?thesis using code_points_scalar [OF s] by (simp add: canonicalPathSegment_def)
qed

section \<open>Canonical references\<close>

text \<open>A canonical segment is made of literal characters and percent escapes, so none of its
  characters ends a path.\<close>

definition path_unit :: "code_unit \<Rightarrow> bool" where
  "path_unit c \<longleftrightarrow> literal_point (unat c) \<or> c = 0x25"

lemma upper_hex_literal: "n < 16 \<Longrightarrow> literal_point (unat (upper_hex n))"
proof -
  assume n: "n < 16"
  have "unat (upper_hex n) = (if n < 10 then 48 + n else 55 + n)"
    using n by (simp add: upper_hex_def unat_small del: of_nat_add)
  then show ?thesis using n
    by (auto simp: literal_point_def unit_class_defs unat_small simp del: of_nat_add)
qed

lemma unit_bound: "unat (c :: code_unit) < 65536"
  by (rule order_less_le_trans [OF unsigned_less]) simp

lemma code_points_bound: "p \<in> set (code_points s) \<Longrightarrow> p \<le> 0x10FFFF"
proof (induction s rule: code_points.induct)
  case (2 c)
  then show ?case using unit_bound [of c] by simp
next
  case (3 c d s)
  then show ?case using unit_bound [of c] utf16_pair [of c d]
    by (auto simp: scalar_point_def split: if_splits)
qed simp

lemma utf8_bytes: "p \<le> 0x10FFFF \<Longrightarrow> list_all (\<lambda>b. b < 256) (utf8 p)"
proof -
  assume s: "p \<le> 0x10FFFF"
  have "x mod 64 < 128" for x :: nat using mod_less_divisor [of 64 x] by linarith
  moreover have "p < 0x800 \<Longrightarrow> p div 64 < 32" "p < 0x10000 \<Longrightarrow> p div 4096 < 16" "p div 262144 < 8"
    using s by (auto simp: less_mult_imp_div_less)
  ultimately show ?thesis by (auto simp: utf8_def)
qed

lemma canonical_units: "list_all path_unit (canonicalPathSegment s)"
proof -
  have l: "literal_point p \<Longrightarrow> path_unit (of_nat p)" for p
    using literal_point_plain [of p] by (simp add: path_unit_def unat_small)
  have e: "p \<le> 0x10FFFF \<Longrightarrow> list_all path_unit (encode_point p)" for p
    using utf8_bytes [of p] upper_hex_literal l
    by (auto simp: encode_point_def list_all_iff pct_text_def path_unit_def less_mult_imp_div_less)
  show ?thesis using code_points_bound [of _ s] e by (auto simp: canonicalPathSegment_def list_all_iff)
qed

lemma path_unit_safe: "path_unit c \<Longrightarrow> \<not> reference_break c \<and> c \<noteq> 0x2F"
proof -
  have "literal_point (unat c) \<Longrightarrow> \<not> reference_break c \<and> c \<noteq> 0x2F"
    by (auto simp: literal_point_def reference_break_def white_space_def unit_class_defs js_def)
  then show "path_unit c \<Longrightarrow> \<not> reference_break c \<and> c \<noteq> 0x2F"
    by (auto simp: path_unit_def reference_break_def white_space_def unit_class_defs)
qed

text \<open>Splitting and joining.\<close>

lemma split_on_ne [simp]: "split_on d s \<noteq> []"
  by (induction s) (auto split: list.splits)

lemma join_split: "join d (split_on d s) = s"
proof (induction s)
  case (Cons c s)
  then show ?case by (cases "split_on d s"; cases "tl (split_on d s)") (auto split: list.splits)
qed simp

lemma split_plain: "d \<notin> set w \<Longrightarrow> split_on d w = [w]"
  by (induction w) auto

lemma split_app: "d \<notin> set w \<Longrightarrow> split_on d (w @ d # s) = w # split_on d s"
  by (induction w) auto

lemma split_join: "ws \<noteq> [] \<Longrightarrow> list_all (\<lambda>w. d \<notin> set w) ws \<Longrightarrow> split_on d (join d ws) = ws"
  by (induction ws rule: join.induct) (auto simp: split_plain split_app)

lemma split_no_sep: "w \<in> set (split_on d s) \<Longrightarrow> d \<notin> set w"
  by (induction s arbitrary: w) (auto split: list.splits if_splits)

lemma set_join: "set (join d ws) \<subseteq> insert d (\<Union> (set ` set ws))"
  by (induction ws rule: join.induct) auto

text \<open>\<open>decodeURIComponent\<close> of a scalar string is a scalar string.\<close>

lemma scalar_append: "isUnicodeScalarString a \<Longrightarrow> isUnicodeScalarString b \<Longrightarrow> isUnicodeScalarString (a @ b)"
  by (induction a rule: isUnicodeScalarString.induct) (auto split: list.splits if_splits)

lemma hex_value_ascii: "hex_value c \<noteq> None \<Longrightarrow> non_surrogate c"
  by (auto simp: hex_value_def non_surrogate_def unit_class_defs Let_def split: if_splits)

lemma pct_byte_scalar: "pct_byte s = Some (b, r) \<Longrightarrow> isUnicodeScalarString s \<Longrightarrow> isUnicodeScalarString r"
proof (cases s rule: pct_byte.cases)
  case (1 c h l r')
  assume "pct_byte s = Some (b, r)" "isUnicodeScalarString s"
  moreover from this 1 have "c = 0x25" "non_surrogate h" "non_surrogate l" "r' = r"
    using hex_value_ascii by (auto split: if_splits option.splits)
  ultimately show ?thesis using 1 by (auto simp: non_surrogate_def unit_class_defs)
qed auto

lemma pct_bytes_scalar: "pct_bytes n s = Some (bs, r) \<Longrightarrow> isUnicodeScalarString s \<Longrightarrow> isUnicodeScalarString r"
  by (induction n arbitrary: s bs) (auto split: option.splits dest: pct_byte_scalar)

lemma utf8_value_scalar: "utf8_value bs = Some p \<Longrightarrow> scalar_point p"
proof (cases bs rule: utf8_value.cases)
  case (2 a b)
  assume "utf8_value bs = Some p"
  with 2 have "p = (a - 0xC0) * 64 + (b - 0x80)" "a < 0xE0" "b < 0xC0" by (auto simp: continuation_def split: if_splits)
  then have "p < 0x800" by auto
  then show ?thesis by (simp add: scalar_point_def surrogate_point_def)
next
  case (3 a b c)
  assume "utf8_value bs = Some p"
  with 3 have p: "p = (a - 0xE0) * 4096 + (b - 0x80) * 64 + (c - 0x80)" "a < 0xF0" "b < 0xC0" "c < 0xC0" "\<not> surrogate_point p"
    by (auto simp: continuation_def Let_def split: if_splits)
  then have "p < 0x10000" by auto
  with p(5) show ?thesis by (simp add: scalar_point_def)
qed (auto simp: scalar_point_def surrogate_point_def Let_def split: if_splits)

lemma pct_char_scalar:
  "pct_char s = Some (p, r) \<Longrightarrow> isUnicodeScalarString s \<Longrightarrow> scalar_point p \<and> isUnicodeScalarString r"
proof -
  assume c: "pct_char s = Some (p, r)" and s: "isUnicodeScalarString s"
  from c obtain a r1 n bs where p: "pct_byte s = Some (a, r1)" "pct_bytes n r1 = Some (bs, r)" "utf8_value (a # bs) = Some p"
    by (auto simp: pct_char_def split: option.splits)
  show ?thesis using pct_bytes_scalar [OF p(2) pct_byte_scalar [OF p(1) s]] utf8_value_scalar [OF p(3)] by blast
qed

lemma utf16_scalar: "scalar_point p \<Longrightarrow> isUnicodeScalarString (utf16 p)"
proof (cases "p < 0x10000")
  case True
  moreover assume "scalar_point p"
  ultimately show ?thesis
    by (auto simp: utf16_def scalar_point_def surrogate_point_def unit_class_defs unat_small)
next
  case False
  assume p: "scalar_point p"
  have "(p - 0x10000) div 0x400 < 0x400" using p by (auto simp: scalar_point_def less_mult_imp_div_less)
  moreover have "(p - 0x10000) mod 0x400 < 0x400" by simp
  ultimately have "unat (of_nat (0xD800 + (p - 0x10000) div 0x400) :: code_unit) = 0xD800 + (p - 0x10000) div 0x400"
    "unat (of_nat (0xDC00 + (p - 0x10000) mod 0x400) :: code_unit) = 0xDC00 + (p - 0x10000) mod 0x400"
    by (intro unat_small; linarith)+
  moreover have "(p - 0x10000) div 0x400 \<le> 1023" "(p - 0x10000) mod 0x400 \<le> 1023"
    using \<open>(p - 0x10000) div 0x400 < 0x400\<close> mod_less_divisor [of "0x400" "p - 0x10000"] by linarith+
  ultimately show ?thesis using False
    by (simp add: utf16_def unit_class_defs del: of_nat_add)
qed

lemma decode_scalar:
  "isUnicodeScalarString s \<Longrightarrow> decodeURIComponent s = Some t \<Longrightarrow> isUnicodeScalarString t"
proof (induction s arbitrary: t rule: length_induct)
  case (1 s)
  show ?case
  proof (cases s)
    case (Cons c r)
    show ?thesis
    proof (cases "c = 0x25")
      case True
      with 1(3) Cons obtain p r' t' where p: "pct_char s = Some (p, r')" "decodeURIComponent r' = Some t'" "t = utf16 p @ t'"
        by (subst (asm) decodeURIComponent.simps) (auto split: option.splits)
      have "isUnicodeScalarString t'" using 1(1) pct_char_length [OF p(1)] pct_char_scalar [OF p(1) 1(2)] p(2) by blast
      then show ?thesis using p(3) pct_char_scalar [OF p(1) 1(2)] utf16_scalar scalar_append by blast
    next
      case nc: False
      show ?thesis
      proof (cases "is_high_surrogate c")
        case True
        with 1(2) Cons obtain d r' where d: "r = d # r'" "is_low_surrogate d" "isUnicodeScalarString r'"
          by (auto split: list.splits)
        have "d \<noteq> 0x25" using d(2) by (auto simp: unit_class_defs)
        with 1(3) Cons nc d obtain t' where t': "decodeURIComponent r' = Some t'" "t = c # d # t'"
          by (auto simp: decode_plain)
        have "isUnicodeScalarString t'" using 1(1) [rule_format, of r' t'] Cons d t'(1) by simp
        then show ?thesis using t'(2) True d(2) by simp
      next
        case False
        with 1(2) Cons have r: "\<not> is_low_surrogate c" "isUnicodeScalarString r" by auto
        from 1(3) Cons nc obtain t' where t': "decodeURIComponent r = Some t'" "t = c # t'"
          by (auto simp: decode_plain)
        have "isUnicodeScalarString t'" using 1(1) [rule_format, of r t'] Cons r t'(1) by simp
        then show ?thesis using t'(2) False r by simp
      qed
    qed
  qed (use 1(3) in \<open>simp add: decode_Nil\<close>)
qed

section \<open>References\<close>

text \<open>What the code relies on of a captured Scope: an HTTP URL in ASCII that ends in a slash.\<close>

definition scope_ok :: "jstring \<Rightarrow> bool" where
  "scope_ok scope \<longleftrightarrow> http_prefix scope \<and> 8 \<le> length scope \<and> suffix [0x2F] scope \<and> list_all (\<lambda>c. c < 0x80) scope"

lemma http_prefix_app: "scope_ok scope \<Longrightarrow> http_prefix (scope @ x)"
  by (simp add: scope_ok_def http_prefix_def)

lemma createdId_shape:
  "canonicalCreatedId rt scope s = Inr u \<Longrightarrow>
   \<exists>l. local_part scope s = Inr l \<and> u = scope @ l \<and> assertCanonicalPathSegments l \<and> l \<noteq> [] \<and> \<not> prefix [0x40] l \<and>
     0x3F \<notin> set l \<and> 0x23 \<notin> set l \<and> (\<exists>p. parse_url rt u = Some p \<and> href p = u)"
  by (auto simp: canonicalCreatedId_def split: if_splits option.splits)

lemma segments_not_http: "assertCanonicalPathSegments l \<Longrightarrow> \<not> http_prefix l"
proof
  assume l: "assertCanonicalPathSegments l" and h: "http_prefix l"
  have s: "lower_ascii c = 0x2F \<longleftrightarrow> c = 0x2F" for c
    by (auto simp: lower_ascii_def unit_class_defs word_eq_iff_unsigned unat_word_ariths)
  obtain a b where "l = a @ 0x2F # 0x2F # b"
  proof -
    from h obtain p r where m: "map lower_ascii (take 8 l) = p @ 0x2F # 0x2F # r"
      by (auto simp: http_prefix_def http_prefix_exact_def prefix_def js_def)
        (metis append_Cons append_Nil)+
    have v: "take 8 l = take (length p) (take 8 l) @ drop (length p) (take 8 l)"
      "map lower_ascii (drop (length p) (take 8 l)) = 0x2F # 0x2F # r"
      unfolding append_take_drop_id drop_map [symmetric] m by simp_all
    define p' where "p' = take (length p) (take 8 l)"
    define v where "v = drop (length p) (take 8 l)"
    note v = v [folded p'_def v_def]
    from v(2) obtain x v1 where x: "v = x # v1" "lower_ascii x = 0x2F" "map lower_ascii v1 = 0x2F # r"
      unfolding map_eq_Cons_conv by metis
    from x(3) obtain y r' where y: "v1 = y # r'" "lower_ascii y = 0x2F"
      unfolding map_eq_Cons_conv by metis
    note xy = x(1) [unfolded y(1)] x(2) y(2)
    have "take 8 l = p' @ 0x2F # 0x2F # r'"
      using v(1) xy(1) s [THEN iffD1, OF xy(2)] s [THEN iffD1, OF xy(3)] by simp
    then have "l = p' @ 0x2F # 0x2F # (r' @ drop 8 l)" using append_take_drop_id [of 8 l] by simp
    then show thesis by (rule that)
  qed
  then have "[] \<in> set (tl (split_on 0x2F l))"
  proof (induction a arbitrary: l)
    case (Cons c a)
    then show ?case
      by (cases "split_on 0x2F (a @ 0x2F # 0x2F # b)") (auto split: list.splits)
  qed simp
  then have "[] \<in> set (split_on 0x2F l)" using split_on_ne [of "0x2F" l] by (metis list.set_sel(2))
  with l show False by (auto simp: assertCanonicalPathSegments_def list_all_iff validateCanonicalIdSegment_def)
qed

lemma local_part_scope: "scope_ok scope \<Longrightarrow> local_part scope (scope @ l) = Inr l"
  by (simp add: local_part_def http_prefix_app)

lemma local_part_segments: "assertCanonicalPathSegments l \<Longrightarrow> local_part scope l = Inr l"
  by (simp add: local_part_def segments_not_http)

lemma createdId_again:
  assumes "scope_ok scope" "canonicalCreatedId rt scope s = Inr u"
  obtains l where "u = scope @ l" "assertCanonicalPathSegments l" "canonicalCreatedId rt scope l = Inr u"
    "canonicalCreatedId rt scope u = Inr u" "l \<noteq> []"
proof -
  from createdId_shape [OF assms(2)] obtain l p where l: "u = scope @ l" "assertCanonicalPathSegments l"
    "l \<noteq> []" "\<not> prefix [0x40] l" "0x3F \<notin> set l" "0x23 \<notin> set l" "parse_url rt u = Some p" "href p = u" by blast
  have "canonicalCreatedId rt scope l = Inr u" "canonicalCreatedId rt scope u = Inr u"
    using l local_part_scope [OF assms(1), of l] local_part_segments [OF l(2), of scope]
    by (simp_all add: canonicalCreatedId_def)
  then show thesis using l that by blast
qed

lemma those_map_eq: "those (map f xs) = Some ys \<longleftrightarrow> list_all2 (\<lambda>x y. f x = Some y) xs ys"
  by (induction xs arbitrary: ys) (auto simp: list_all2_Cons1 split: option.splits)

lemma normalize_canonical: "assertCanonicalPathSegments l \<Longrightarrow> normalize_segments l = Some l \<and> \<not> list_ex reference_break l"
proof -
  assume l: "assertCanonicalPathSegments l"
  have w: "map_option canonicalPathSegment (decodeURIComponent w) = Some w" if "w \<in> set (split_on 0x2F l)" for w
    using l that by (auto simp: assertCanonicalPathSegments_def list_all_iff validateCanonicalIdSegment_def
        split: option.splits)
  then have "those (map (\<lambda>s. map_option canonicalPathSegment (decodeURIComponent s)) (split_on 0x2F l)) =
      Some (split_on 0x2F l)"
    unfolding those_map_eq by (simp add: list_all2_same)
  then have n: "normalize_segments l = Some l" by (simp add: normalize_segments_def join_split)
  have "path_unit c" if "w \<in> set (split_on 0x2F l)" "c \<in> set w" for w c
    using w [OF that(1)] canonical_units that(2) by (auto simp: list_all_iff)
  moreover have "c = 0x2F \<or> (\<exists>w \<in> set (split_on 0x2F l). c \<in> set w)" if "c \<in> set l" for c
    using that set_join [of "0x2F" "split_on 0x2F l"] by (auto simp: join_split)
  moreover have "\<not> reference_break 0x2F" by (simp add: reference_break_def white_space_def unit_class_defs)
  ultimately have "\<not> list_ex reference_break l"
    using path_unit_safe by (fastforce simp: list_ex_iff)
  with n show ?thesis by blast
qed

lemma canonicalLocalReference_canonical:
  assumes "scope_ok scope" "canonicalLocalReference rt scope supplied = Inr u"
  shows "\<exists>l. u = scope @ l \<and> assertCanonicalPathSegments l \<and> l \<noteq> [] \<and>
    canonicalLocalReference rt scope u = Inr u \<and> canonicalCreatedId rt scope u = Inr u"
proof -
  from assms(2) obtain n where "canonicalCreatedId rt scope n = Inr u"
    by (auto simp: canonicalLocalReference_def split: if_splits option.splits)
  then obtain l where l: "u = scope @ l" "assertCanonicalPathSegments l" "canonicalCreatedId rt scope l = Inr u"
    "canonicalCreatedId rt scope u = Inr u" "l \<noteq> []"
    using createdId_again [OF assms(1)] by blast
  have "canonicalLocalReference rt scope u = Inr u"
    using l normalize_canonical [OF l(2)] local_part_scope [OF assms(1), of l]
    by (simp add: canonicalLocalReference_def)
  with l show ?thesis by blast
qed


lemma normalize_inj:
  assumes "isUnicodeScalarString a" "isUnicodeScalarString b"
    and "normalize_segments a = Some n" "normalize_segments b = Some m"
  shows "n = m \<longleftrightarrow> map decodeURIComponent (split_on 0x2F a) = map decodeURIComponent (split_on 0x2F b)"
proof -
  have shape: "\<exists>ds. map decodeURIComponent (split_on 0x2F a) = map Some ds \<and> list_all isUnicodeScalarString ds \<and>
      ds \<noteq> [] \<and> n = join 0x2F (map canonicalPathSegment ds)"
    if "isUnicodeScalarString a" "normalize_segments a = Some n" for a n
  proof -
    from that(2) obtain ws where ws: "list_all2 (\<lambda>s w. map_option canonicalPathSegment (decodeURIComponent s) = Some w) (split_on 0x2F a) ws"
      "n = join 0x2F ws" by (auto simp: normalize_segments_def those_map_eq)
    from ws(1) split_scalar [OF that(1), of "0x2F"]
    have "\<exists>ds. map decodeURIComponent (split_on 0x2F a) = map Some ds \<and> list_all isUnicodeScalarString ds \<and> ws = map canonicalPathSegment ds"
    proof (induction rule: list_all2_induct)
      case (Cons s ss w ws)
      then obtain ds d where "map decodeURIComponent ss = map Some ds" "list_all isUnicodeScalarString ds"
        "ws = map canonicalPathSegment ds" "decodeURIComponent s = Some d" "canonicalPathSegment d = w" by auto
      then show ?case using Cons.prems decode_scalar [of s d] by (intro exI [of _ "d # ds"]) auto
    qed simp
    then obtain ds where ds: "map decodeURIComponent (split_on 0x2F a) = map Some ds" "list_all isUnicodeScalarString ds"
      "ws = map canonicalPathSegment ds" by blast
    moreover have "ds \<noteq> []" using ds(1) split_on_ne [of "0x2F" a] by auto
    ultimately show ?thesis using ws(2) by blast
  qed
  obtain ds es where ds: "map decodeURIComponent (split_on 0x2F a) = map Some ds" "list_all isUnicodeScalarString ds" "ds \<noteq> []"
    "n = join 0x2F (map canonicalPathSegment ds)"
    and es: "map decodeURIComponent (split_on 0x2F b) = map Some es" "list_all isUnicodeScalarString es" "es \<noteq> []"
    "m = join 0x2F (map canonicalPathSegment es)"
    using shape [OF assms(1,3)] shape [OF assms(2,4)] by blast
  have s: "split_on 0x2F (join 0x2F (map canonicalPathSegment xs)) = map canonicalPathSegment xs" if "xs \<noteq> []" for xs
    using that canonical_units path_unit_safe by (intro split_join) (fastforce simp: list_all_iff)+
  have "n = m \<longleftrightarrow> map canonicalPathSegment ds = map canonicalPathSegment es"
    using s [OF ds(3)] s [OF es(3)] ds(4) es(4) by metis
  also have "\<dots> \<longleftrightarrow> ds = es"
    using ds(2) es(2) decode_encode by (auto simp: list_all_iff intro!: list.inj_map_strong [of ds es canonicalPathSegment canonicalPathSegment]) (metis option.inject)
  finally show ?thesis using ds(1) es(1) by (simp add: inj_map_eq_map)
qed

section \<open>Properties\<close>

text \<open>Normalization of references is idempotent and stays inside the Scope: whatever operand is
  accepted, the result is a nonempty local identity below the Scope that the same function, and the
  stricter creation admission, return unchanged.\<close>

theorem reference_normalization:
  assumes "scope_ok scope" "canonicalLocalReference rt scope supplied = Inr u"
  shows "strict_prefix scope u \<and> canonicalLocalReference rt scope u = Inr u \<and> canonicalCreatedId rt scope u = Inr u"
  using canonicalLocalReference_canonical [OF assms] by (auto simp: strict_prefix_def)

definition example_runtime :: url_runtime where
  "example_runtime = \<lparr>
     parse_url = (\<lambda>s. if prefix (js ''http://h/'') s
       then Some \<lparr> href = s, protocol = js ''http:'', username = [], password = [], host = js ''h'',
         pathname = drop 8 s, search = [], hash = [], bare_href = s \<rparr> else None),
     json_schema_uri = (\<lambda>_. True) \<rparr>"

lemma reference_normalization_witness:
  "canonicalLocalReference example_runtime (js ''http://h/'') (js ''%61/b%c3%a9'') = Inr (js ''http://h/a/b%C3%A9'') \<and>
   canonicalLocalReference example_runtime (js ''http://h/'') (js ''http://h/a/b%C3%A9'') = Inr (js ''http://h/a/b%C3%A9'')"
proof -
  have r: "canonicalLocalReference example_runtime (js ''http://h/'') (js ''%61/b%c3%a9'') = Inr (js ''http://h/a/b%C3%A9'')"
    by code_simp
  have "scope_ok (js ''http://h/'')" by code_simp
  from reference_normalization [OF this r] r show ?thesis by blast
qed




end
