(* ===== verification/Reference_Comparison.thy ===== *)
theory Reference_Comparison
  imports Uri
begin

text \<open>
  Alias resolution (\<open>retained-v01/alias-witness.ts\<close>) and the comparison of captured invocations
  (\<open>retained-v01/reference-comparison.ts\<close>): the references of a request are resolved through the
  aliases of the moment, the witnesses of the first resolution are kept, and a retry is compared
  under those witnesses.
\<close>

section \<open>References\<close>

text \<open>\<open>EndpointReference\<close>: a URI, or a URI with a pinned revision.\<close>

datatype endpoint = EUri jstring | EPin jstring jstring

fun referenceUri :: "endpoint \<Rightarrow> jstring" where
  "referenceUri (EUri u) = u"
| "referenceUri (EPin u r) = u"

fun reference_pin :: "endpoint \<Rightarrow> jstring option" where
  "reference_pin (EUri u) = None"
| "reference_pin (EPin u r) = Some r"

fun with_pin :: "jstring \<Rightarrow> jstring option \<Rightarrow> endpoint" where
  "with_pin u None = EUri u"
| "with_pin u (Some r) = EPin u r"

text \<open>
  A witness is a locator with its target, \<open>None\<close> for an admitted missing alias.  A lookup answers
  \<open>None\<close> for a direct URI (undefined), \<open>Some None\<close> for a missing alias (null) and
  \<open>Some (Some t)\<close> for an alias.
\<close>

type_synonym witness = "jstring \<times> jstring option"
type_synonym alias_lookup = "jstring \<Rightarrow> jstring option option"

datatype resolved = RValue endpoint | RMissing jstring "jstring option"

definition fact_error :: js_error where
  "fact_error = TypeError ''invalid alias-resolution fact''"

definition nonempty_fact :: "jstring \<Rightarrow> unit result" where
  "nonempty_fact s = guardR (s \<noteq> []) fact_error"

text \<open>The prior witnesses must be nonempty and without duplicate locators.\<close>

fun check_prior :: "witness list \<Rightarrow> jstring list \<Rightarrow> unit result" where
  "check_prior [] seen = Inr ()"
| "check_prior ((l, t) # ws) seen =
     bindR (nonempty_fact l) (\<lambda>_.
     bindR (case t of None \<Rightarrow> Inr () | Some u \<Rightarrow> nonempty_fact u) (\<lambda>_.
       if l \<in> set seen then Inl (TypeError ''duplicate original alias witness'')
       else check_prior ws (l # seen)))"

section \<open>Resolution\<close>

text \<open>
  One reference: prior witnesses win over the lookup; without prior witnesses every alias that is
  consulted is recorded.  Lookups do not change within a turn, so the cache of the code is not
  observable.
\<close>

definition resolve_target :: "witness list option \<Rightarrow> alias_lookup \<Rightarrow> jstring \<Rightarrow> jstring option option result" where
  "resolve_target prior lookup uri =
     (case prior of
        Some ws \<Rightarrow>
          (case map_of ws uri of
             Some t \<Rightarrow> Inr (Some t)
           | None \<Rightarrow>
               bindR (case lookup uri of Some (Some t) \<Rightarrow> nonempty_fact t | _ \<Rightarrow> Inr ()) (\<lambda>_. Inr (lookup uri)))
      | None \<Rightarrow> bindR (case lookup uri of Some (Some t) \<Rightarrow> nonempty_fact t | _ \<Rightarrow> Inr ()) (\<lambda>_. Inr (lookup uri)))"

definition resolved_as :: "jstring \<Rightarrow> jstring option \<Rightarrow> jstring option option \<Rightarrow> resolved" where
  "resolved_as uri pin target = (case target of
     Some None \<Rightarrow> RMissing uri pin
   | Some (Some t) \<Rightarrow> RValue (with_pin t pin)
   | None \<Rightarrow> RValue (with_pin uri pin))"

definition resolve_one :: "witness list option \<Rightarrow> alias_lookup \<Rightarrow> endpoint \<Rightarrow> resolved result" where
  "resolve_one prior lookup r =
     bindR (nonempty_fact (referenceUri r)) (\<lambda>_.
     bindR (case reference_pin r of None \<Rightarrow> Inr () | Some p \<Rightarrow> nonempty_fact p) (\<lambda>_.
     bindR (resolve_target prior lookup (referenceUri r)) (\<lambda>t.
       Inr (resolved_as (referenceUri r) (reference_pin r) t))))"

text \<open>The entries of the map \<open>initial\<close>, in insertion order, and the sorted witnesses.\<close>

definition initial_witnesses :: "alias_lookup \<Rightarrow> endpoint list \<Rightarrow> witness list" where
  "initial_witnesses lookup refs =
     List.map_filter (\<lambda>u. map_option (Pair u) (lookup u)) (remdups (map referenceUri refs))"

definition original_witnesses :: "witness list option \<Rightarrow> alias_lookup \<Rightarrow> endpoint list \<Rightarrow> witness list" where
  "original_witnesses prior lookup refs =
     (case prior of Some ws \<Rightarrow> ws | None \<Rightarrow> sort_key fst (initial_witnesses lookup refs))"

definition resolveAliasReferences ::
  "endpoint list \<Rightarrow> alias_lookup \<Rightarrow> witness list option \<Rightarrow> (resolved list \<times> witness list) result" where
  "resolveAliasReferences refs lookup prior =
     bindR (check_prior (case prior of Some ws \<Rightarrow> ws | None \<Rightarrow> []) []) (\<lambda>_.
     bindR (mapR (resolve_one prior lookup) refs) (\<lambda>rs.
       Inr (rs, original_witnesses prior lookup refs)))"

section \<open>Captured comparisons\<close>

datatype slot = SBead | SSource | STarget

fun slot_name :: "slot \<Rightarrow> jstring" where
  "slot_name SBead = js ''bead''"
| "slot_name SSource = js ''source''"
| "slot_name STarget = js ''target''"

definition slot_order :: "slot list" where
  "slot_order = [SBead, SSource, STarget]"

text \<open>
  \<open>identityFor\<close> is the encoder an admission factory captures over its own normalized input; the
  registry of captured invocations is a field of the prepared invocation here.
\<close>

type_synonym semantic_slots = "(slot \<times> semantic) list"

record captured =
  cap_names :: "slot list"
  cap_references :: "endpoint list"
  cap_identityFor :: "semantic_slots \<Rightarrow> jstring result"

record comparison =
  cmp_identity :: jstring
  cmp_references :: "(slot \<times> resolved) list"
  cmp_witnesses :: "witness list"

definition endpoint_semantic :: "endpoint \<Rightarrow> semantic" where
  "endpoint_semantic r = (case r of
     EUri u \<Rightarrow> JStr u
   | EPin u p \<Rightarrow> JObj [(js ''uri'', JStr u), (js ''revision'', JStr p)])"

fun reference_semantic :: "resolved \<Rightarrow> semantic" where
  "reference_semantic (RValue r) = endpoint_semantic r"
| "reference_semantic (RMissing l pin) =
     JArr ([sem_unbound, JStr l] @ (case pin of None \<Rightarrow> [] | Some p \<Rightarrow> [JStr p]))"

definition semanticSlots :: "slot list \<Rightarrow> resolved list \<Rightarrow> semantic_slots" where
  "semanticSlots names rs = map2 (\<lambda>n r. (n, reference_semantic r)) names rs"

definition captureReferenceComparison ::
  "jstring \<Rightarrow> (slot \<times> endpoint) list \<Rightarrow> (semantic_slots \<Rightarrow> jstring result) \<Rightarrow> captured result" where
  "captureReferenceComparison identity slots identityFor =
     (if identity = [] then Inl (TypeError ''immutable newly captured invocation required'')
      else
        let names = filter (\<lambda>n. n \<in> fst ` set slots) slot_order;
            references = map (\<lambda>n. the (map_of slots n)) names
        in bindR (resolveAliasReferences references (\<lambda>_. None) None) (\<lambda>(direct, _).
           bindR (identityFor (semanticSlots names direct)) (\<lambda>t.
             if t \<noteq> identity then Inl (TypeError ''captured comparison changed original semantic identity'')
             else Inr \<lparr> cap_names = names, cap_references = references, cap_identityFor = identityFor \<rparr>)))"

text \<open>Fixed slots, the handles of a batch, keep the captured reference; the others are resolved.\<close>

fun merge_fixed :: "slot list \<Rightarrow> slot list \<Rightarrow> endpoint list \<Rightarrow> resolved list \<Rightarrow> resolved list" where
  "merge_fixed fixed (n # ns) (r # rs) qs =
     (if n \<in> set fixed then RValue r # merge_fixed fixed ns rs qs
      else case qs of
             q # qs' \<Rightarrow> q # merge_fixed fixed ns rs qs'
           | [] \<Rightarrow> [])"
| "merge_fixed fixed _ _ qs = []"

definition ordinary_references :: "captured \<Rightarrow> slot list \<Rightarrow> endpoint list" where
  "ordinary_references c fixed =
     map snd (filter (\<lambda>(n, _). n \<notin> set fixed) (zip (cap_names c) (cap_references c)))"

definition compareCapturedReferences ::
  "captured \<Rightarrow> alias_lookup \<Rightarrow> witness list option \<Rightarrow> slot list \<Rightarrow> comparison result" where
  "compareCapturedReferences c lookup prior fixed =
     bindR (resolveAliasReferences (ordinary_references c fixed) lookup prior) (\<lambda>(qs, witnesses).
       let rs = merge_fixed fixed (cap_names c) (cap_references c) qs
       in bindR (cap_identityFor c (semanticSlots (cap_names c) rs)) (\<lambda>identity.
          Inr \<lparr> cmp_identity = identity, cmp_references = zip (cap_names c) rs, cmp_witnesses = witnesses \<rparr>))"

section \<open>Witnesses\<close>

text \<open>What a stored list of witnesses satisfies: nonempty facts, sorted distinct locators.\<close>

definition witnesses_ok :: "witness list \<Rightarrow> bool" where
  "witnesses_ok ws \<longleftrightarrow> list_all (\<lambda>(l, t). l \<noteq> [] \<and> t \<noteq> Some []) ws \<and> sorted (map fst ws) \<and> distinct (map fst ws)"

lemma bindR_guard: "bindR (guardR b e) f = (if b then f () else Inl e)"
  by (simp add: guardR_def)

lemma check_prior_iff:
  "check_prior ws seen = Inr () \<longleftrightarrow>
     list_all (\<lambda>(l, t). l \<noteq> [] \<and> t \<noteq> Some []) ws \<and> distinct (map fst ws) \<and> list_all (\<lambda>l. l \<notin> set seen) (map fst ws)"
proof (induction ws seen rule: check_prior.induct)
  case (2 l t ws seen)
  have k: "list_all (\<lambda>x. x \<notin> set (l # seen)) (map fst ws) \<longleftrightarrow>
      l \<notin> set (map fst ws) \<and> list_all (\<lambda>x. x \<notin> set seen) (map fst ws)"
    unfolding list_all_iff by auto
  show ?case
    using 2 unfolding k by (cases t) (auto simp: nonempty_fact_def bindR_guard)
qed simp

lemma check_prior_ok: "witnesses_ok ws \<Longrightarrow> check_prior ws [] = Inr ()"
  by (simp add: check_prior_iff witnesses_ok_def list_all_iff)

lemma initial_witnesses_alt:
  "initial_witnesses lookup refs =
     map (\<lambda>u. (u, the (lookup u))) (filter (\<lambda>u. lookup u \<noteq> None) (remdups (map referenceUri refs)))"
proof -
  have "List.map_filter (\<lambda>u. map_option (Pair u) (lookup u)) us = map (\<lambda>u. (u, the (lookup u))) (filter (\<lambda>u. lookup u \<noteq> None) us)" for us
    by (induction us) (auto simp: List.map_filter_simps split: option.splits)
  then show ?thesis by (simp add: initial_witnesses_def)
qed

lemma initial_fst:
  "map fst (initial_witnesses lookup refs) = filter (\<lambda>u. lookup u \<noteq> None) (remdups (map referenceUri refs))"
  by (simp add: initial_witnesses_alt comp_def)

lemma map_of_initial:
  "map_of (initial_witnesses lookup refs) u = (if u \<in> referenceUri ` set refs then lookup u else None)"
proof -
  have "map_of (map (\<lambda>u. (u, the (lookup u))) us) u = (if u \<in> set us then Some (the (lookup u)) else None)" for us
    by (induction us) auto
  then show ?thesis by (auto simp: initial_witnesses_alt)
qed

lemma distinct_sort_fst: "distinct (map fst xs) \<Longrightarrow> distinct (map fst (sort_key fst xs))"
  by (simp add: distinct_map inj_on_def)

lemma map_of_sort: "distinct (map fst xs) \<Longrightarrow> map_of (sort_key fst xs) = map_of xs"
proof (rule ext)
  fix k
  assume d: "distinct (map fst xs)"
  have "map_of (sort_key fst xs) k = Some v \<longleftrightarrow> map_of xs k = Some v" for v
    using d distinct_sort_fst [OF d] by (simp add: map_of_eq_Some_iff)
  then show "map_of (sort_key fst xs) k = map_of xs k" by (metis not_Some_eq)
qed

lemma map_of_original: "map_of (original_witnesses None lookup refs) u =
    (if u \<in> referenceUri ` set refs then lookup u else None)"
proof -
  have "distinct (map fst (initial_witnesses lookup refs))" by (simp add: initial_fst)
  then show ?thesis by (simp add: original_witnesses_def map_of_sort map_of_initial)
qed

lemma resolve_target_lookup: "resolve_target prior lookup u = Inr t \<Longrightarrow>
   t = (case prior of None \<Rightarrow> lookup u | Some ws \<Rightarrow> (case map_of ws u of Some x \<Rightarrow> Some x | None \<Rightarrow> lookup u))"
  by (auto simp: resolve_target_def split: option.splits)

lemma resolve_one_facts:
  "resolve_one prior lookup r = Inr q \<Longrightarrow> referenceUri r \<noteq> [] \<and> resolve_target prior lookup (referenceUri r) \<noteq> Inl e"
  by (auto simp: resolve_one_def nonempty_fact_def)

lemma witnesses_original:
  assumes "mapR (resolve_one None lookup) refs = Inr rs"
  shows "witnesses_ok (original_witnesses None lookup refs)"
proof -
  have f: "\<exists>q. resolve_one None lookup r = Inr q" if "r \<in> set refs" for r
    using assms that by (auto simp: mapR_eq_Inr list_all2_conv_all_nth in_set_conv_nth)
  have "l \<noteq> [] \<and> t \<noteq> Some []" if "(l, t) \<in> set (initial_witnesses lookup refs)" for l t
  proof -
    from that obtain r where r: "r \<in> set refs" "l = referenceUri r" "lookup l = Some t"
      by (auto simp: initial_witnesses_alt)
    from f [OF r(1)] r(2,3) show ?thesis
      by (auto simp: resolve_one_def resolve_target_def nonempty_fact_def split: option.splits)
  qed
  moreover have "distinct (map fst (initial_witnesses lookup refs))" by (simp add: initial_fst)
  ultimately show ?thesis
    by (auto simp: witnesses_ok_def original_witnesses_def distinct_sort_fst list_all_iff)
qed

text \<open>
  A retry under the witnesses of the first resolution resolves every reference the same way, as long
  as what was a direct URI has not become an alias.
\<close>

lemma resolve_again:
  assumes "mapR (resolve_one None lookup) refs = Inr rs"
    and "\<And>r. r \<in> set refs \<Longrightarrow> lookup (referenceUri r) = None \<Longrightarrow> lookup' (referenceUri r) = None"
  shows "mapR (resolve_one (Some (original_witnesses None lookup refs)) lookup') refs = Inr rs"
proof -
  have "resolve_one (Some (original_witnesses None lookup refs)) lookup' r = resolve_one None lookup r"
    if r: "r \<in> set refs" for r
  proof -
    have "map_of (original_witnesses None lookup refs) (referenceUri r) = lookup (referenceUri r)"
      using r by (simp add: map_of_original)
    moreover obtain q where "resolve_one None lookup r = Inr q"
      using assms(1) r by (auto simp: mapR_eq_Inr list_all2_conv_all_nth in_set_conv_nth)
    ultimately show ?thesis using assms(2) [OF r]
      by (auto simp: resolve_one_def resolve_target_def nonempty_fact_def split: option.splits)
  qed
  then have "mapR (resolve_one (Some (original_witnesses None lookup refs)) lookup') refs = mapR (resolve_one None lookup) refs"
    by (induction refs rule: rev_induct) (auto intro!: mapR_cong)
  with assms(1) show ?thesis by simp
qed

lemma compare_again:
  assumes "compareCapturedReferences c lookup None fixed = Inr first"
    and "\<And>r. r \<in> set (ordinary_references c fixed) \<Longrightarrow> lookup (referenceUri r) = None \<Longrightarrow> lookup' (referenceUri r) = None"
  shows "compareCapturedReferences c lookup' (Some (cmp_witnesses first)) fixed = Inr first \<and> witnesses_ok (cmp_witnesses first)"
proof -
  let ?refs = "ordinary_references c fixed"
  from assms(1) obtain rs where rs: "mapR (resolve_one None lookup) ?refs = Inr rs"
    and w: "cmp_witnesses first = original_witnesses None lookup ?refs"
    by (auto simp: compareCapturedReferences_def resolveAliasReferences_def Let_def)
  note ok = witnesses_original [OF rs]
  have again: "mapR (resolve_one (Some (original_witnesses None lookup ?refs)) lookup') ?refs = Inr rs"
    by (rule resolve_again [OF rs]) (rule assms(2))
  have "original_witnesses (Some (original_witnesses None lookup ?refs)) lookup' ?refs = original_witnesses None lookup ?refs"
    by (simp add: original_witnesses_def)
  then show ?thesis
    using assms(1) again rs ok check_prior_ok [OF ok]
    by (simp add: compareCapturedReferences_def resolveAliasReferences_def w)
qed

section \<open>Properties\<close>

text \<open>C36: a retry compares equal: under the witnesses that the first comparison recorded, a later
  comparison yields the same identity, references and witnesses whatever aliases were created,
  redirected or deleted in between, provided only that no reference that was a direct URI has
  become an alias locator; and the recorded witnesses are sorted, distinct and nonempty.\<close>

theorem retry_compares_equal:
  assumes "compareCapturedReferences c lookup None fixed = Inr first"
    and "\<forall>r \<in> set (ordinary_references c fixed).
      lookup (referenceUri r) = None \<longrightarrow> lookup' (referenceUri r) = None"
  shows "compareCapturedReferences c lookup' (Some (cmp_witnesses first)) fixed = Inr first \<and>
    witnesses_ok (cmp_witnesses first)"
  by (rule compare_again [OF assms(1)]) (use assms(2) in blast)

definition example_capture :: captured where
  "example_capture = \<lparr> cap_names = [SSource, STarget],
     cap_references = [EUri (js ''http://h/a''), EPin (js ''http://h/b'') (js ''r1'')],
     cap_identityFor = (\<lambda>slots. Inr (if slots = [] then js ''none'' else js ''some'')) \<rparr>"

lemma retry_compares_equal_witness:
  "compareCapturedReferences example_capture (\<lambda>_. None)
     (Some [(js ''http://h/a'', Some (js ''http://h/x''))]) [] =
   compareCapturedReferences example_capture
     (\<lambda>u. if u = js ''http://h/a'' then Some (Some (js ''http://h/x'')) else None) None []"
proof -
  have f: "compareCapturedReferences example_capture
      (\<lambda>u. if u = js ''http://h/a'' then Some (Some (js ''http://h/x'')) else None) None [] =
      Inr \<lparr> cmp_identity = js ''some'',
            cmp_references = [(SSource, RValue (EUri (js ''http://h/x''))), (STarget, RValue (EPin (js ''http://h/b'') (js ''r1'')))],
            cmp_witnesses = [(js ''http://h/a'', Some (js ''http://h/x''))] \<rparr>"
    by (simp add: compareCapturedReferences_def example_capture_def ordinary_references_def resolveAliasReferences_def
        resolve_one_def resolve_target_def resolved_as_def nonempty_fact_def initial_witnesses_def
        original_witnesses_def semanticSlots_def List.map_filter_simps Let_def)
  from retry_compares_equal [OF f, of "\<lambda>_. None"] f show ?thesis by simp
qed

end
