(* ===== verification/Contract.thy ===== *)
theory Contract
  imports Reference_Comparison
begin

text \<open>
  The Bead contract (\<open>retained-v01/contract.ts\<close>): resources and their JSON, problems, the closed
  carrier grammar of create, update and delete requests, and the prepared invocations the store
  executes.
\<close>

section \<open>Resources\<close>

text \<open>
  \<open>RetainedBead\<close> and \<open>RetainedLink\<close>; a type is kept as the JSON the request spelled it with, an
  endpoint is rebuilt by the admission and so is a value of \<open>endpoint\<close>.
\<close>

record bead =
  bead_id :: jstring
  bead_type :: json
  bead_revision :: jstring
  bead_properties :: json_object
  bead_metadata :: json_object
  bead_provenance :: "json_object option"

datatype resource_kind = KBead | KLink

datatype resource_state = BeadState bead | LinkState bead endpoint endpoint

fun state_kind :: "resource_state \<Rightarrow> resource_kind" where
  "state_kind (BeadState b) = KBead"
| "state_kind (LinkState b s t) = KLink"

fun state_resource :: "resource_state \<Rightarrow> bead" where
  "state_resource (BeadState b) = b"
| "state_resource (LinkState b s t) = b"

fun kind_text :: "resource_kind \<Rightarrow> jstring" where
  "kind_text KBead = js ''bead''"
| "kind_text KLink = js ''link''"

definition endpoint_json :: "endpoint \<Rightarrow> 'n jv" where
  "endpoint_json e = (case e of
     EUri u \<Rightarrow> JStr u
   | EPin u r \<Rightarrow> JObj [(js ''uri'', JStr u), (js ''revision'', JStr r)])"

definition json_endpoint :: "json \<Rightarrow> endpoint option" where
  "json_endpoint v = (case v of
     JStr u \<Rightarrow> Some (EUri u)
   | JObj kvs \<Rightarrow>
       (case (obj_get (js ''uri'') kvs, obj_get (js ''revision'') kvs) of
          (Some (JStr u), Some (JStr r)) \<Rightarrow> Some (EPin u r) | _ \<Rightarrow> None)
   | _ \<Rightarrow> None)"

definition bead_fields :: "bead \<Rightarrow> json_object" where
  "bead_fields b =
     [(js ''id'', JStr (bead_id b)), (js ''type'', bead_type b), (js ''revision'', JStr (bead_revision b)),
      (js ''properties'', JObj (bead_properties b)), (js ''metadata'', JObj (bead_metadata b))] @
     (case bead_provenance b of None \<Rightarrow> [] | Some p \<Rightarrow> [(js ''revisionProvenance'', JObj p)])"

fun resource_json :: "resource_state \<Rightarrow> json" where
  "resource_json (BeadState b) = JObj (bead_fields b)"
| "resource_json (LinkState b s t) =
     JObj (bead_fields b @ [(js ''source'', endpoint_json s), (js ''target'', endpoint_json t)])"

definition deletedIdentity :: "resource_state \<Rightarrow> json_object" where
  "deletedIdentity s = (let b = state_resource s in
     [(js ''resourceKind'', JStr (kind_text (state_kind s))),
      (js ''resource'', JObj [(js ''id'', JStr (bead_id b)), (js ''type'', bead_type b),
        (js ''revision'', JStr (bead_revision b))])])"

definition eventDeleted :: "resource_state \<Rightarrow> json_object" where
  "eventDeleted s = deletedIdentity s @
     (case s of
        LinkState b src tgt \<Rightarrow> [(js ''source'', endpoint_json src), (js ''target'', endpoint_json tgt)]
      | BeadState b \<Rightarrow> [])"

section \<open>Problems\<close>

definition problem_family :: "jstring \<Rightarrow> nat \<Rightarrow> string" where
  "problem_family code status =
     (if prefix (js ''idempotency-'') code
      then if code = js ''idempotency-expired'' then ''gone'' else ''conflict''
      else if code \<in> {js ''identity-taken'', js ''revision-mismatch'', js ''incident-links-exist'', js ''alias-path-taken''}
      then ''conflict''
      else if code \<in> {js ''resource-not-found'', js ''revision-unknown''} then ''not-found''
      else if code = js ''unauthenticated'' then ''authentication''
      else if code = js ''validation-failed'' then ''validation''
      else if code = js ''temporarily-unavailable'' then ''unavailable''
      else if code = js ''foreign-view'' then ''conflict''
      else if code = js ''cursor-expired'' then ''gone''
      else if status = 413 then ''size''
      else ''request'')"

definition problem :: "string \<Rightarrow> nat \<Rightarrow> string \<Rightarrow> json_object" where
  "problem code status retry =
     [(js ''type'', JStr (js ''https://github.com/gastownhall/bdp/problems/'' @ js (problem_family (js code) status))),
      (js ''code'', JStr (js code)), (js ''status'', json_nat status), (js ''retry'', JStr (js retry))]"

definition RETAINED_SPEC :: jstring where
  "RETAINED_SPEC = js ''https://github.com/gastownhall/bdp/schemas/bdp-v0.1.schema.json''"

definition RETAINED_MEDIA :: jstring where
  "RETAINED_MEDIA = js ''application/vnd.bdp.v0.1+json''"

definition HISTORICAL_UPDATE_CAPABILITY :: jstring where
  "HISTORICAL_UPDATE_CAPABILITY = js ''https://github.com/gastownhall/bdp/capabilities/historical-update''"

definition HISTORICAL_UPDATE_MEDIA :: jstring where
  "HISTORICAL_UPDATE_MEDIA = js ''application/vnd.bdp.v0.1.historical-update.v1+json''"

section \<open>The closed carrier grammar\<close>

type_synonym lossless_object = "jstring jobject"

definition record_of :: "'n jv option \<Rightarrow> 'n jobject result" where
  "record_of v = (case v of Some (JObj kvs) \<Rightarrow> Inr kvs | _ \<Rightarrow> Inl malformed)"

definition closed :: "'n jobject \<Rightarrow> string list \<Rightarrow> unit result" where
  "closed value names = guardR (list_all (\<lambda>(k, _). k \<in> set (map js names)) value) malformed"

text \<open>A check that only applies to a member that is present.\<close>

definition when_present :: "'n jv option \<Rightarrow> ('n jv \<Rightarrow> 'a result) \<Rightarrow> unit result" where
  "when_present v f = (case v of None \<Rightarrow> Inr () | Some x \<Rightarrow> bindR (f x) (\<lambda>_. Inr ()))"

definition typeReference :: "url_runtime \<Rightarrow> lossless option \<Rightarrow> unit result" where
  "typeReference rt value =
     (case value of
        Some (JStr s) \<Rightarrow> httpUri rt value
      | _ \<Rightarrow>
          bindR (record_of value) (\<lambda>type.
          bindR (closed type [''uri'', ''revision'']) (\<lambda>_.
          bindR (httpUri rt (obj_get (js ''uri'') type)) (\<lambda>_.
          bindR (nonempty_string (obj_get (js ''revision'') type)) (\<lambda>_. Inr ())))))"

definition provenance_text_ok :: "string \<Rightarrow> 'n jv option \<Rightarrow> bool" where
  "provenance_text_ok name v = (case v of
     None \<Rightarrow> True
   | Some JNull \<Rightarrow> True
   | Some (JStr s) \<Rightarrow> \<not> (name = ''agent'' \<and> s = [])
   | _ \<Rightarrow> False)"

definition provenanceInput :: "'n jv \<Rightarrow> unit result" where
  "provenanceInput value =
     bindR (record_of (Some value)) (\<lambda>provenance.
     bindR (closed provenance [''actor'', ''agent'', ''message'']) (\<lambda>_.
     bindR (guardR (provenance_text_ok ''agent'' (obj_get (js ''agent'') provenance)) malformed) (\<lambda>_.
     bindR (guardR (provenance_text_ok ''message'' (obj_get (js ''message'') provenance)) malformed) (\<lambda>_.
       when_present (obj_get (js ''actor'') provenance) (\<lambda>a.
         bindR (record_of (Some a)) (\<lambda>actor.
         bindR (closed actor [''id'', ''basis'']) (\<lambda>_.
         bindR (nonempty_string (obj_get (js ''id'') actor)) (\<lambda>_.
           case obj_get (js ''basis'') actor of
             Some (JStr b) \<Rightarrow> guardR (b = js ''writer-supplied'' \<or> b = js ''unknown'') malformed
           | _ \<Rightarrow> Inl malformed))))))))"

text \<open>
  \<open>parseRevisionProvenanceInput\<close> validates the closed shape \<open>revisionProvenanceInput\<close> of the schema
  bundle and returns the snapshot.
\<close>

definition provenance_shape :: "json \<Rightarrow> bool" where
  "provenance_shape v = (case v of
     JObj kvs \<Rightarrow>
       list_all (\<lambda>(k, _). k \<in> {js ''actor'', js ''agent'', js ''message''}) kvs \<and>
       provenance_text_ok ''agent'' (obj_get (js ''agent'') kvs) \<and>
       provenance_text_ok ''message'' (obj_get (js ''message'') kvs) \<and>
       (case obj_get (js ''actor'') kvs of
          None \<Rightarrow> True
        | Some (JObj actor) \<Rightarrow>
            list_all (\<lambda>(k, _). k \<in> {js ''id'', js ''basis''}) actor \<and>
            (case obj_get (js ''id'') actor of Some (JStr s) \<Rightarrow> s \<noteq> [] | _ \<Rightarrow> False) \<and>
            (case obj_get (js ''basis'') actor of
               Some (JStr b) \<Rightarrow> b = js ''writer-supplied'' \<or> b = js ''unknown'' | _ \<Rightarrow> False)
        | _ \<Rightarrow> False)
   | _ \<Rightarrow> False)"

definition parseRevisionProvenanceInput :: "json \<Rightarrow> json_object result" where
  "parseRevisionProvenanceInput v =
     bindR (snapshotJsonValue v) (\<lambda>s.
       case s of
         JObj kvs \<Rightarrow> if provenance_shape s then Inr kvs else Inl (ArtifactError ''History contextInput'')
       | _ \<Rightarrow> Inl (ArtifactError ''History contextInput''))"

section \<open>Numeric diagnostics\<close>

definition numericDiagnostic :: "jstring \<Rightarrow> validation_diagnostic" where
  "numericDiagnostic ptr =
     (let metadata = prefix (js ''/metadata'') ptr;
          document = (if metadata then ''metadata'' else ''properties'');
          pre = js (''/'' @ document);
          location = (if prefix (pre @ [0x2F]) ptr then Some (drop (length pre) ptr) else None)
      in \<lparr> diag_type = None, diag_schemaLocation = None,
           diag_instanceLocation = (case location of
             Some l \<Rightarrow> if byte_length l \<le> 1024 then Some l else None | None \<Rightarrow> None),
           diag_document = (if metadata then Some (js ''metadata'') else None),
           diag_message = js (document @ '': numeric value is not exactly supported'') \<rparr>)"

definition numeric_budget :: budget where
  "numeric_budget = \<lparr> count_limit = Some 8, byte_limit = Some 4096,
     format_diagnostic = (\<lambda>ptr literal. numericDiagnostic ptr) \<rparr>"

definition numeric_refusal :: "json list \<Rightarrow> bool \<Rightarrow> json_object" where
  "numeric_refusal ds truncated =
     problem ''validation-failed'' 422 ''never'' @ [(js ''diagnostics'', JArr ds)] @
     (if truncated then [(js ''diagnosticsTruncated'', JBool True)] else [])"

section \<open>Request identities\<close>

definition key_unit :: "code_unit \<Rightarrow> bool" where
  "key_unit c \<longleftrightarrow> is_alpha c \<or> is_digit c \<or> c = 0x5F \<or> c = 0x2D"

definition key_ok :: "jstring \<Rightarrow> bool" where
  "key_ok key \<longleftrightarrow> key \<noteq> [] \<and> length key \<le> 256 \<and> list_all key_unit key"

definition sem_fields :: "lossless_object \<Rightarrow> semantic_object" where
  "sem_fields kvs = map (map_prod id sem_of) kvs"

definition with_slots :: "lossless_object \<Rightarrow> semantic_slots \<Rightarrow> semantic" where
  "with_slots input slots = JObj (obj_spread (sem_fields input) (map (apfst slot_name) slots))"

definition request_value :: "string \<Rightarrow> jstring \<Rightarrow> semantic_object \<Rightarrow> string \<Rightarrow> semantic \<Rightarrow> semantic" where
  "request_value format media capabilities operation input = JObj
     [(js ''format'', JStr (js format)), (js ''specification'', JStr RETAINED_SPEC), (js ''media'', JStr media),
      (js ''capabilities'', JObj capabilities), (js ''operation'', JStr (js operation)), (js ''input'', input)]"

definition str_member :: "string \<Rightarrow> 'n jobject \<Rightarrow> jstring option" where
  "str_member name kvs = (case obj_get (js name) kvs of Some (JStr s) \<Rightarrow> Some s | _ \<Rightarrow> None)"

definition obj_member :: "string \<Rightarrow> 'n jobject \<Rightarrow> 'n jobject option" where
  "obj_member name kvs = (case obj_get (js name) kvs of Some (JObj s) \<Rightarrow> Some s | _ \<Rightarrow> None)"

definition edit_member_of :: "string \<Rightarrow> json_object \<Rightarrow> edit list option" where
  "edit_member_of name kvs = map_option edits_of (obj_get (js name) kvs)"

definition object_or_empty :: "string \<Rightarrow> 'n jobject \<Rightarrow> 'n jv" where
  "object_or_empty name kvs = (case obj_get (js name) kvs of Some v \<Rightarrow> v | None \<Rightarrow> JObj [])"

section \<open>Creation\<close>

record prepared_create =
  pc_scope :: jstring
  pc_key :: jstring
  pc_identity :: jstring
  pc_id :: "jstring option"
  pc_type :: json
  pc_properties :: json_object
  pc_metadata :: json_object
  pc_provenance :: "json_object option"
  pc_refusal :: "json_object option"
  pc_captured :: captured

text \<open>The \<open>try\<close> block: every error in it is \<open>malformed-request\<close>.\<close>

definition create_input :: "url_runtime \<Rightarrow> jstring \<Rightarrow> lossless_object result" where
  "create_input rt text =
     catch_others malformed
       (bindR (decodeJsonDocument text) (\<lambda>document.
        bindR (record_of (Some document)) (\<lambda>input.
        bindR (closed input [''id'', ''type'', ''properties'', ''metadata'', ''revisionProvenance'']) (\<lambda>_.
        bindR (when_present (obj_get (js ''id'') input) (\<lambda>v. nonempty_string (Some v))) (\<lambda>_.
        bindR (typeReference rt (obj_get (js ''type'') input)) (\<lambda>_.
        bindR (when_present (obj_get (js ''properties'') input) (\<lambda>v. record_of (Some v))) (\<lambda>_.
        bindR (when_present (obj_get (js ''metadata'') input) (\<lambda>v. record_of (Some v))) (\<lambda>_.
        bindR (when_present (obj_get (js ''revisionProvenance'') input) provenanceInput) (\<lambda>_.
          Inr input)))))))))"

definition optional_id :: "url_runtime \<Rightarrow> jstring \<Rightarrow> jstring option \<Rightarrow> jstring option result" where
  "optional_id rt scope ident = (case ident of
     None \<Rightarrow> Inr None
   | Some s \<Rightarrow> bindR (canonicalCreatedId rt scope s) (\<lambda>u. Inr (Some u)))"

definition create_normalized :: "lossless_object \<Rightarrow> jstring option \<Rightarrow> lossless_object" where
  "create_normalized input ident =
     obj_spread input
       ((case ident of None \<Rightarrow> [] | Some s \<Rightarrow> [(js ''id'', JStr s)]) @
        [(js ''properties'', object_or_empty ''properties'' input), (js ''metadata'', object_or_empty ''metadata'' input)])"

definition create_identity :: "lossless_object \<Rightarrow> jstring result" where
  "create_identity normalized = encodeSemanticValue
     (request_value ''retained-v01-create-1'' RETAINED_MEDIA [] ''createBead'' (JObj (sem_fields normalized)))"

definition optional_provenance :: "json_object \<Rightarrow> json_object option result" where
  "optional_provenance value = (case obj_get (js ''revisionProvenance'') value of
     None \<Rightarrow> Inr None
   | Some p \<Rightarrow> bindR (parseRevisionProvenanceInput p) (\<lambda>q. Inr (Some q)))"

text \<open>A \<open>catch\<close> without a test: every error becomes \<open>malformed-request\<close>.\<close>

fun catch_all :: "js_error \<Rightarrow> 'a result \<Rightarrow> 'a result" where
  "catch_all e (Inr x) = Inr x"
| "catch_all e (Inl _) = Inl e"

definition prepared :: "(captured \<Rightarrow> prepared_create) \<Rightarrow> jstring \<Rightarrow> prepared_create result" where
  "prepared build identity =
     bindR (captureReferenceComparison identity [] (\<lambda>_. Inr identity)) (\<lambda>c. Inr (build c))"

definition create_refused ::
  "jstring \<Rightarrow> jstring \<Rightarrow> jstring \<Rightarrow> jstring option \<Rightarrow> lossless_object \<Rightarrow> json list \<Rightarrow> bool \<Rightarrow> prepared_create result" where
  "create_refused scope key identity ident input ds truncated =
     bindR (snapshotJsonValue (case obj_get (js ''type'') input of Some t \<Rightarrow> map_jv literal_decimal t | None \<Rightarrow> JNull)) (\<lambda>type.
     bindR (snapshotJsonValue (JObj (numeric_refusal ds truncated))) (\<lambda>_.
       prepared (\<lambda>c. \<lparr> pc_scope = scope, pc_key = key, pc_identity = identity, pc_id = ident, pc_type = type,
         pc_properties = [], pc_metadata = [], pc_provenance = None,
         pc_refusal = Some (numeric_refusal ds truncated), pc_captured = c \<rparr>) identity))"

definition object_member :: "string \<Rightarrow> json_object \<Rightarrow> json_object" where
  "object_member name kvs = (case obj_get (js name) kvs of Some (JObj o') \<Rightarrow> o' | _ \<Rightarrow> [])"

definition create_admitted ::
  "jstring \<Rightarrow> jstring \<Rightarrow> jstring \<Rightarrow> jstring option \<Rightarrow> json \<Rightarrow> prepared_create result" where
  "create_admitted scope key identity ident admitted =
     bindR (snapshotJsonValue admitted) (\<lambda>snapshot.
     bindR (record_of (Some snapshot)) (\<lambda>value.
     bindR (catch_all malformed (optional_provenance value)) (\<lambda>provenance.
       prepared (\<lambda>c. \<lparr> pc_scope = scope, pc_key = key, pc_identity = identity, pc_id = ident,
         pc_type = (case obj_get (js ''type'') value of Some t \<Rightarrow> t | None \<Rightarrow> JNull),
         pc_properties = object_member ''properties'' value, pc_metadata = object_member ''metadata'' value,
         pc_provenance = provenance, pc_refusal = None, pc_captured = c \<rparr>) identity)))"

definition prepareCreate :: "url_runtime \<Rightarrow> jstring \<Rightarrow> jstring \<Rightarrow> jstring \<Rightarrow> prepared_create result" where
  "prepareCreate rt scope text key =
     (if \<not> key_ok key then Inl malformed
      else
        bindR (create_input rt text) (\<lambda>input.
        bindR (optional_id rt scope (str_member ''id'' input)) (\<lambda>id.
          let normalized = create_normalized input id in
          bindR (create_identity normalized) (\<lambda>identity.
          bindR (admitJsonNumbers (JObj normalized) numeric_budget) (\<lambda>admission.
            case admission of
              Refused os ds truncated \<Rightarrow> create_refused scope key identity id input ds truncated
            | Admitted v \<Rightarrow> create_admitted scope key identity id v)))))"

section \<open>Materialization\<close>

definition context_value :: "json option \<Rightarrow> json" where
  "context_value v = (case v of
     None \<Rightarrow> JObj [(js ''state'', JStr (js ''undetermined''))]
   | Some JNull \<Rightarrow> JObj [(js ''state'', JStr (js ''absent''))]
   | Some x \<Rightarrow> JObj [(js ''state'', JStr (js ''present'')), (js ''value'', x)])"

definition revision_provenance :: "json_object \<Rightarrow> jstring \<Rightarrow> json_object" where
  "revision_provenance p time =
     (case obj_get (js ''actor'') p of None \<Rightarrow> [] | Some a \<Rightarrow> [(js ''actor'', a)]) @
     (if obj_get (js ''agent'') p = None \<and> obj_get (js ''message'') p = None then []
      else [(js ''committedAt'', JObj [(js ''state'', JStr (js ''present'')), (js ''value'', JStr time)]),
            (js ''agent'', context_value (obj_get (js ''agent'') p)),
            (js ''message'', context_value (obj_get (js ''message'') p))])"

definition materializeBead ::
  "json \<Rightarrow> json_object \<Rightarrow> json_object \<Rightarrow> json_object option \<Rightarrow> jstring \<Rightarrow> jstring \<Rightarrow> jstring \<Rightarrow> bead" where
  "materializeBead type properties metadata provenance ident revision time =
     \<lparr> bead_id = ident, bead_type = type, bead_revision = revision, bead_properties = properties,
       bead_metadata = metadata,
       bead_provenance = (case provenance of
         None \<Rightarrow> None
       | Some p \<Rightarrow> if p = [] then None else Some (revision_provenance p time)) \<rparr>"

section \<open>Update\<close>

record prepared_update =
  pu_scope :: jstring
  pu_key :: jstring
  pu_identity :: jstring
  pu_bead :: jstring
  pu_type :: "json option"
  pu_properties :: "json_object option"
  pu_metadata :: "json_object option"
  pu_propertiesChange :: "edit list option"
  pu_metadataChange :: "edit list option"
  pu_expectedRevision :: "jstring option"
  pu_fromRevision :: "jstring option"
  pu_provenance :: "json_object option"
  pu_refusal :: "json_object option"
  pu_captured :: captured

definition mutation_members :: "bool \<Rightarrow> string list" where
  "mutation_members historical =
     [''type'', ''properties'', ''metadata'', ''propertiesChange'', ''metadataChange''] @
     (if historical then [''fromRevision''] else [])"

text \<open>One document of the update: a replacement or a change, not both.\<close>

definition edit_modes :: "lossless_object \<Rightarrow> string \<Rightarrow> unit result" where
  "edit_modes input name =
     (let replacement = obj_get (js name) input; change = obj_get (js (name @ ''Change'')) input in
      if replacement \<noteq> None \<and> change \<noteq> None then Inl (TypeError ''exclusive edit modes'')
      else bindR (when_present replacement (\<lambda>v. record_of (Some v))) (\<lambda>_. when_present change assertObjectChange))"

definition update_input :: "url_runtime \<Rightarrow> jstring \<Rightarrow> bool \<Rightarrow> lossless_object result" where
  "update_input rt text historical =
     catch_others malformed
       (bindR (decodeJsonDocument text) (\<lambda>document.
        bindR (record_of (Some document)) (\<lambda>input.
        bindR (closed input ([''bead'', ''type'', ''properties'', ''metadata'', ''propertiesChange'', ''metadataChange'',
          ''expectedRevision'', ''revisionProvenance''] @ (if historical then [''fromRevision''] else []))) (\<lambda>_.
        bindR (nonempty_string (obj_get (js ''bead'') input)) (\<lambda>_.
        bindR (if historical then bindR (nonempty_string (obj_get (js ''fromRevision'') input)) (\<lambda>_. Inr ()) else Inr ()) (\<lambda>_.
        bindR (guardR (list_ex (\<lambda>n. obj_has (js n) input) (mutation_members historical))
          (TypeError ''update requires mutation input'')) (\<lambda>_.
        bindR (when_present (obj_get (js ''type'') input) (\<lambda>v. typeReference rt (Some v))) (\<lambda>_.
        bindR (edit_modes input ''properties'') (\<lambda>_.
        bindR (edit_modes input ''metadata'') (\<lambda>_.
        bindR (when_present (obj_get (js ''expectedRevision'') input) (\<lambda>v. nonempty_string (Some v))) (\<lambda>_.
        bindR (when_present (obj_get (js ''revisionProvenance'') input) provenanceInput) (\<lambda>_.
          Inr input))))))))))))"

definition update_identity :: "bool \<Rightarrow> lossless_object \<Rightarrow> semantic_slots \<Rightarrow> jstring result" where
  "update_identity historical normalized slots = encodeSemanticValue
     (request_value ''retained-v01-update-1'' (if historical then HISTORICAL_UPDATE_MEDIA else RETAINED_MEDIA)
       (if historical then [(HISTORICAL_UPDATE_CAPABILITY, JStr (js ''1''))] else []) ''updateBead''
       (with_slots normalized slots))"

definition blank_update :: "jstring \<Rightarrow> jstring \<Rightarrow> jstring \<Rightarrow> jstring \<Rightarrow> captured \<Rightarrow> prepared_update" where
  "blank_update scope key identity b c =
     \<lparr> pu_scope = scope, pu_key = key, pu_identity = identity, pu_bead = b, pu_type = None, pu_properties = None,
       pu_metadata = None, pu_propertiesChange = None, pu_metadataChange = None, pu_expectedRevision = None,
       pu_fromRevision = None, pu_provenance = None, pu_refusal = None, pu_captured = c \<rparr>"

text \<open>The prepared update without its registration, as a function of the captured comparison.\<close>

definition update_body ::
  "jstring \<Rightarrow> jstring \<Rightarrow> jstring \<Rightarrow> jstring \<Rightarrow> bool \<Rightarrow> lossless_object \<Rightarrow> admission \<Rightarrow> (captured \<Rightarrow> prepared_update) result" where
  "update_body scope key identity b historical input admission =
     (case admission of
        Refused os ds truncated \<Rightarrow>
          bindR (snapshotJsonValue (JObj (numeric_refusal ds truncated))) (\<lambda>_.
            Inr (\<lambda>c. blank_update scope key identity b c
              \<lparr> pu_fromRevision := (if historical then str_member ''fromRevision'' input else None),
                pu_refusal := Some (numeric_refusal ds truncated) \<rparr>))
      | Admitted v \<Rightarrow>
          bindR (snapshotJsonValue v) (\<lambda>snapshot.
          bindR (record_of (Some snapshot)) (\<lambda>value.
          bindR (optional_provenance value) (\<lambda>provenance.
            Inr (\<lambda>c. blank_update scope key identity b c
              \<lparr> pu_fromRevision := (if historical then str_member ''fromRevision'' value else None),
                pu_type := obj_get (js ''type'') value,
                pu_properties := obj_member ''properties'' value,
                pu_metadata := obj_member ''metadata'' value,
                pu_propertiesChange := edit_member_of ''propertiesChange'' value,
                pu_metadataChange := edit_member_of ''metadataChange'' value,
                pu_expectedRevision := str_member ''expectedRevision'' value,
                pu_provenance := provenance \<rparr>)))))"

definition prepareSelectedUpdate ::
  "url_runtime \<Rightarrow> jstring \<Rightarrow> jstring \<Rightarrow> jstring \<Rightarrow> bool \<Rightarrow> prepared_update result" where
  "prepareSelectedUpdate rt scope text key historical =
     (if \<not> key_ok key then Inl malformed
      else
        bindR (update_input rt text historical) (\<lambda>input.
        bindR (canonicalSubject rt scope (case str_member ''bead'' input of Some s \<Rightarrow> s | None \<Rightarrow> [])) (\<lambda>b.
          let normalized = obj_put (js ''bead'') (JStr b) input in
          bindR (update_identity historical normalized []) (\<lambda>identity.
          bindR (admitJsonNumbers (JObj normalized) numeric_budget) (\<lambda>admission.
          bindR (update_body scope key identity b historical input admission) (\<lambda>build.
          bindR (captureReferenceComparison identity [(SBead, EUri b)] (update_identity historical normalized)) (\<lambda>c.
            Inr (build c)))))))) "

definition prepareUpdate :: "url_runtime \<Rightarrow> jstring \<Rightarrow> jstring \<Rightarrow> jstring \<Rightarrow> prepared_update result" where
  "prepareUpdate rt scope text key = prepareSelectedUpdate rt scope text key False"

definition prepareHistoricalUpdate :: "url_runtime \<Rightarrow> jstring \<Rightarrow> jstring \<Rightarrow> jstring \<Rightarrow> prepared_update result" where
  "prepareHistoricalUpdate rt scope text key = prepareSelectedUpdate rt scope text key True"

section \<open>Deletion\<close>

record prepared_delete =
  pd_scope :: jstring
  pd_key :: jstring
  pd_identity :: jstring
  pd_bead :: jstring
  pd_expectedRevision :: "jstring option"
  pd_captured :: captured

definition delete_input :: "jstring \<Rightarrow> lossless_object result" where
  "delete_input text =
     catch_others malformed
       (bindR (decodeJsonDocument text) (\<lambda>document.
        bindR (record_of (Some document)) (\<lambda>input.
        bindR (closed input [''bead'', ''expectedRevision'']) (\<lambda>_.
        bindR (nonempty_string (obj_get (js ''bead'') input)) (\<lambda>_.
        bindR (when_present (obj_get (js ''expectedRevision'') input) (\<lambda>v. nonempty_string (Some v))) (\<lambda>_.
          Inr input))))))"

definition delete_identity :: "lossless_object \<Rightarrow> semantic_slots \<Rightarrow> jstring result" where
  "delete_identity normalized slots = encodeSemanticValue
     (request_value ''retained-v01-delete-1'' RETAINED_MEDIA [] ''deleteBead'' (with_slots normalized slots))"

definition prepareDelete :: "url_runtime \<Rightarrow> jstring \<Rightarrow> jstring \<Rightarrow> jstring \<Rightarrow> prepared_delete result" where
  "prepareDelete rt scope text key =
     (if \<not> key_ok key then Inl malformed
      else
        bindR (delete_input text) (\<lambda>input.
        bindR (canonicalSubject rt scope (case str_member ''bead'' input of Some s \<Rightarrow> s | None \<Rightarrow> [])) (\<lambda>b.
          let normalized = obj_put (js ''bead'') (JStr b) input in
          bindR (delete_identity normalized []) (\<lambda>identity.
          bindR (captureReferenceComparison identity [(SBead, EUri b)] (delete_identity normalized)) (\<lambda>c.
            Inr \<lparr> pd_scope = scope, pd_key = key, pd_identity = identity, pd_bead = b,
              pd_expectedRevision = str_member ''expectedRevision'' input, pd_captured = c \<rparr>)))))"

section \<open>Errors of the grammar\<close>

text \<open>A result is quiet when a request error it carries can only be \<open>malformed-request\<close>.\<close>

fun is_request :: "js_error \<Rightarrow> bool" where
  "is_request (RequestError c s r) = True"
| "is_request _ = False"

definition quiet :: "'a result \<Rightarrow> bool" where
  "quiet r \<longleftrightarrow> (\<forall>e. r = Inl e \<longrightarrow> is_request e \<longrightarrow> e = malformed)"

lemma quiet_Inr [simp]: "quiet (Inr x)"
  by (simp add: quiet_def)

lemma quiet_Inl [simp]: "quiet (Inl e) \<longleftrightarrow> (is_request e \<longrightarrow> e = malformed)"
  by (simp add: quiet_def)

lemma quiet_bind: "quiet r \<Longrightarrow> (\<And>x. r = Inr x \<Longrightarrow> quiet (f x)) \<Longrightarrow> quiet (bindR r f)"
  by (cases r) auto

lemma quiet_guard [simp]: "quiet (guardR b e) \<longleftrightarrow> b \<or> quiet (Inl e :: unit result)"
  by (auto simp: guardR_def)

lemma catch_quiet: "quiet r \<Longrightarrow> catch_others malformed r = Inl e \<Longrightarrow> e = malformed"
  by (cases "(malformed, r)" rule: catch_others.cases) (auto simp: malformed_def)

lemma catch_all_eq_Inr [simp]: "catch_all e r = Inr x \<longleftrightarrow> r = Inr x"
  by (cases r) auto

lemma quiet_when_present: "(\<And>x. v = Some x \<Longrightarrow> quiet (f x)) \<Longrightarrow> quiet (when_present v f)"
  by (auto simp: when_present_def split: option.splits intro: quiet_bind)

lemma quiet_nonempty [simp]: "quiet (nonempty_string v)"
  by (auto simp: nonempty_string_def split: option.splits jv.splits)

lemma quiet_record [simp]: "quiet (record_of v)"
  by (auto simp: record_of_def split: option.splits jv.splits)

lemma quiet_closed [simp]: "quiet (closed v names)"
  by (simp add: closed_def)

lemma quiet_httpUri [simp]: "quiet (httpUri rt v)"
  by (auto simp: httpUri_def split: option.splits intro!: quiet_bind)

lemma quiet_typeReference [simp]: "quiet (typeReference rt v)"
  by (auto simp: typeReference_def split: option.splits jv.splits intro!: quiet_bind)

lemma quiet_provenance [simp]: "quiet (provenanceInput v)"
  by (auto simp: provenanceInput_def split: option.splits jv.splits intro!: quiet_bind quiet_when_present)

lemma quiet_decode_string: "quiet (decode_string s)"
  by (auto simp: decode_string_def split: option.splits)

lemma quiet_decode_value: "quiet (decode_value s)"
  by (auto simp: decode_value_def Let_def split: option.splits intro!: quiet_bind quiet_decode_string)

lemma quiet_decode_key: "quiet (decode_key f s)"
  by (auto simp: decode_key_def Let_def split: frame.splits intro!: quiet_bind quiet_decode_string)

lemma quiet_decode_loop: "quiet (decode_loop f fs s)"
proof (induction f fs s rule: decode_loop.induct)
  case (1 f fs s)
  let ?t = "skip_ws s"
  show ?case
  proof (cases "prefix [frame_close f] ?t \<and> state_of_frame f \<noteq> Next")
    case True
    then show ?thesis using 1(1) [OF refl]
      by (subst decode_loop.simps) (auto simp: Let_def split: list.splits)
  next
    case unfinished: False
    show ?thesis
    proof (cases "state_of_frame f = After")
      case True
      then show ?thesis using unfinished 1(2) [OF refl] by (subst decode_loop.simps) (auto simp: Let_def)
    next
      case False
      have "quiet (bindR (decode_key f ?t) (\<lambda>(f', r). bindR (decode_value r) (\<lambda>(child, r').
          case child of Leaf v \<Rightarrow> decode_loop (attach v (set_state After f')) fs r'
          | Opened g \<Rightarrow> decode_loop g (set_state After f' # fs) r')))"
        using 1(3,4) [OF refl unfinished False]
        by (auto intro!: quiet_bind quiet_decode_key quiet_decode_value split: opened.splits)
      then show ?thesis
        by (subst decode_loop.simps) (simp only: Let_def if_not_P [OF unfinished] if_not_P [OF False])
    qed
  qed
qed

lemma quiet_decode [simp]: "quiet (decodeJsonDocument s)"
  by (auto simp: decodeJsonDocument_def decode_root_def split: opened.splits
      intro!: quiet_bind quiet_decode_value quiet_decode_loop)

lemma quiet_foldR: "(\<And>x s. x \<in> set xs \<Longrightarrow> quiet (f x s)) \<Longrightarrow> quiet (foldR f xs s)"
  by (induction xs arbitrary: s) (auto intro!: quiet_bind)

lemma quiet_change [simp]: "quiet (assertObjectChange v)"
  by (auto simp: assertObjectChange_def split: jv.splits intro!: quiet_foldR)

lemma quiet_edit_modes [simp]: "quiet (edit_modes input name)"
  by (auto simp: edit_modes_def Let_def intro!: quiet_bind quiet_when_present)

lemma create_input_error: "create_input rt text = Inl e \<Longrightarrow> e = malformed"
  unfolding create_input_def
  by (rule catch_quiet) (auto intro!: quiet_bind quiet_when_present)

lemma update_input_error: "update_input rt text h = Inl e \<Longrightarrow> e = malformed"
  unfolding update_input_def
  by (rule catch_quiet) (auto intro!: quiet_bind quiet_when_present)

lemma delete_input_error: "delete_input text = Inl e \<Longrightarrow> e = malformed"
  unfolding delete_input_def
  by (rule catch_quiet) (auto intro!: quiet_bind quiet_when_present)

lemma createdId_error: "canonicalCreatedId rt scope s = Inl e \<Longrightarrow> e = malformed"
  by (cases "local_part scope s")
    (auto simp: canonicalCreatedId_def local_part_def split: if_splits option.splits)

lemma localReference_error: "canonicalLocalReference rt scope s = Inl e \<Longrightarrow> e = malformed"
  by (cases "local_part scope s")
    (auto simp: canonicalLocalReference_def local_part_def dest: createdId_error split: if_splits option.splits)

lemma subject_error: "canonicalSubject rt scope s = Inl e \<Longrightarrow> e = malformed"
  by (auto simp: canonicalSubject_def dest: localReference_error split: if_splits sum.splits)

section \<open>Well-formed requests\<close>



lemma key_order_js [simp]:
  "s \<noteq> c # t \<Longrightarrow> \<not> is_digit (of_char c) \<Longrightarrow> key_order (js s) (js (c # t))"
proof -
  assume "s \<noteq> c # t" "\<not> is_digit (of_char c)"
  moreover have "\<not> is_array_index (js (c # t))"
    using \<open>\<not> is_digit (of_char c)\<close> by (simp add: is_array_index_def canonical_nat_def js_def)
  ultimately show ?thesis by (simp add: key_order_def key_before_def)
qed

lemma obj_ok_map_values: "obj_ok (map (map_prod id f) kvs) = obj_ok kvs"
  by (simp add: obj_ok_def)

lemma lossless_get: "lossless_ok (JObj kvs) \<Longrightarrow> obj_get k kvs = Some v \<Longrightarrow> isUnicodeScalarString k \<and> lossless_ok v"
  by (auto simp: obj_get_def list_all_iff dest!: map_of_SomeD)

lemma json_ok_put:
  "json_ok P (JObj kvs) \<Longrightarrow> isUnicodeScalarString k \<Longrightarrow> json_ok P v \<Longrightarrow> json_ok P (JObj (obj_put k v kvs))"
  by (auto intro: list_all_obj_put)

lemma json_ok_spread:
  "json_ok P (JObj kvs) \<Longrightarrow> list_all (\<lambda>(k, v). isUnicodeScalarString k \<and> json_ok P v) ys \<Longrightarrow>
   json_ok P (JObj (obj_spread kvs ys))"
proof (induction ys arbitrary: kvs)
  case (Cons kv ys)
  obtain k v where kv: "kv = (k, v)" by (cases kv)
  have "json_ok P (JObj (obj_put k v kvs))" using json_ok_put Cons.prems kv by fastforce
  with Cons.IH [OF this] Cons.prems show ?case by (simp add: obj_spread_def kv)
qed (simp add: obj_spread_def)

lemma ascii_scalar: "list_all (\<lambda>c. c < 0x80) s \<Longrightarrow> isUnicodeScalarString s"
  by (rule scalar_small) (auto simp: list_all_iff word_less_nat_alt)

lemma path_unit_ascii: "path_unit c \<Longrightarrow> c < 0x80"
  by (auto simp: path_unit_def literal_point_def word_less_nat_alt)

lemma createdId_ascii:
  assumes "scope_ok scope" "canonicalCreatedId rt scope s = Inr u"
  shows "isUnicodeScalarString u"
proof -
  from createdId_again [OF assms] obtain l where l: "u = scope @ l" "assertCanonicalPathSegments l" by blast
  have "path_unit c" if "w \<in> set (split_on 0x2F l)" "c \<in> set w" for w c
  proof -
    from l(2) that(1) obtain d where "canonicalPathSegment d = w"
      by (auto simp: assertCanonicalPathSegments_def list_all_iff validateCanonicalIdSegment_def split: option.splits)
    then show ?thesis using canonical_units [of d] that(2) by (auto simp: list_all_iff)
  qed
  then have "c < 0x80" if "c \<in> set l" for c
    using that set_join [of "0x2F" "split_on 0x2F l"] path_unit_ascii by (fastforce simp: join_split)
  then show ?thesis using assms(1) l(1) by (intro ascii_scalar) (auto simp: scope_ok_def list_all_iff)
qed

text \<open>What the admission of a request carries through to the prepared invocation.\<close>

lemma record_of_eq_Inr: "record_of v = Inr kvs \<longleftrightarrow> v = Some (JObj kvs)"
  by (auto simp: record_of_def split: option.splits jv.splits)

lemma create_input_ok: "create_input rt text = Inr input \<Longrightarrow> lossless_ok (JObj input)"
  by (auto simp: create_input_def record_of_eq_Inr dest: decodeJsonDocument_ok simp del: json_ok.simps)

lemma update_input_ok: "update_input rt text h = Inr input \<Longrightarrow> lossless_ok (JObj input)"
  by (auto simp: update_input_def record_of_eq_Inr dest: decodeJsonDocument_ok simp del: json_ok.simps)

lemma delete_input_ok: "delete_input text = Inr input \<Longrightarrow> lossless_ok (JObj input)"
  by (auto simp: delete_input_def record_of_eq_Inr dest: decodeJsonDocument_ok simp del: json_ok.simps)

lemma optional_id_ok:
  "scope_ok scope \<Longrightarrow> optional_id rt scope s = Inr (Some u) \<Longrightarrow> isUnicodeScalarString u"
  by (auto simp: optional_id_def split: option.splits dest: createdId_ascii)

lemma create_normalized_ok:
  assumes "scope_ok scope" "optional_id rt scope s = Inr i" "lossless_ok (JObj input)"
  shows "lossless_ok (JObj (create_normalized input i))"
proof -
  have "lossless_ok (object_or_empty n input)" for n
    using lossless_get [OF assms(3)] by (auto simp: object_or_empty_def split: option.splits)
  then show ?thesis
    unfolding create_normalized_def using assms(3) optional_id_ok [OF assms(1)] assms(2)
    by (intro json_ok_spread) (auto split: option.splits)
qed

lemma request_value_ok:
  assumes "sem_ok input" "sem_ok (JObj capabilities)" "isUnicodeScalarString media"
  shows "sem_ok (request_value format media capabilities operation input)"
proof -
  show ?thesis
    using assms by (simp add: request_value_def obj_ok_Cons RETAINED_SPEC_def unit_class_defs)
qed

lemma with_slots_ok:
  assumes "lossless_ok (JObj input)" "list_all (\<lambda>(n, v). sem_ok v) slots"
  shows "sem_ok (with_slots input slots)"
proof -
  have k: "isUnicodeScalarString (slot_name n)" for n by (cases n) simp_all
  have "sem_of (JObj input) = JObj (sem_fields input)" by (simp add: sem_of_def [abs_def] sem_fields_def)
  then have "sem_ok (JObj (sem_fields input))" using sem_of_ok [OF assms(1)] by simp
  then show ?thesis
    unfolding with_slots_def using assms(2) k by (intro json_ok_spread) (auto simp: list_all_iff)
qed

lemma encode_request:
  assumes "sem_ok input" "sem_ok (JObj capabilities)" "isUnicodeScalarString media"
  shows "\<exists>t. encodeSemanticValue (request_value format media capabilities operation input) = Inr t \<and> t \<noteq> []"
  using encodeSemanticValue_text [OF request_value_ok [OF assms]] by (simp add: semantic_text_def)

lemma create_identity_total:
  assumes "lossless_ok (JObj normalized)"
  shows "\<exists>t. create_identity normalized = Inr t \<and> t \<noteq> []"
proof -
  have "sem_ok (JObj (sem_fields normalized))"
    using with_slots_ok [OF assms, of "[]"] by (simp add: with_slots_def obj_spread_def)
  then show ?thesis unfolding create_identity_def by (intro encode_request) (simp_all add: RETAINED_MEDIA_def)
qed

lemma update_identity_total:
  assumes "lossless_ok (JObj normalized)" "list_all (\<lambda>(n, v). sem_ok v) slots"
  shows "\<exists>t. update_identity historical normalized slots = Inr t \<and> t \<noteq> []"
  unfolding update_identity_def
  using with_slots_ok [OF assms]
  by (intro encode_request) (simp_all add: RETAINED_MEDIA_def HISTORICAL_UPDATE_MEDIA_def HISTORICAL_UPDATE_CAPABILITY_def obj_ok_Cons)

lemma delete_identity_total:
  assumes "lossless_ok (JObj normalized)" "list_all (\<lambda>(n, v). sem_ok v) slots"
  shows "\<exists>t. delete_identity normalized slots = Inr t \<and> t \<noteq> []"
  unfolding delete_identity_def
  using with_slots_ok [OF assms] by (intro encode_request) (simp_all add: RETAINED_MEDIA_def)

text \<open>Numeric admission of a well-formed document fails only for the byte budget.\<close>

lemma admit_turn_error: "admit_turn b l p s = Inl (Throw e) \<Longrightarrow> \<exists>m. e = BudgetError m"
  by (auto simp: admit_turn_def admit_refusal_def Let_def split: if_splits)

lemma admitJsonNumbers_error: "admitJsonNumbers root b = Inl e \<Longrightarrow> \<exists>m. e = BudgetError m"
  by (auto simp: admitJsonNumbers_def mapLosslessJson_fold foldR_Inl bindR_eq_Inl
      split: if_splits sum.splits admission_exit.splits dest!: admit_turn_error)

definition diagnosed :: "budget \<Rightarrow> admission_state \<Rightarrow> bool" where
  "diagnosed b s \<longleftrightarrow> diagnostics s = map (\<lambda>(p, l). diagnostic_json (format_diagnostic b p l)) (offending s)"

lemma admit_turn_diagnosed: "admit_turn b l p s = Inr s' \<Longrightarrow> diagnosed b s \<Longrightarrow> diagnosed b s'"
  by (auto simp: admit_turn_def admit_refusal_def diagnosed_def Let_def split: if_splits)

lemma fold_diagnosed:
  "foldR (\<lambda>(p, l). admit_turn b l p) occs initial_admission = Inr s \<Longrightarrow> diagnosed b s"
  by (erule foldR_inv) (auto simp: diagnosed_def initial_admission_def dest: admit_turn_diagnosed)

lemma admit_turn_stop: "admit_turn b l p s = Inl (Stop s') \<Longrightarrow> s' = s"
  by (auto simp: admit_turn_def admit_refusal_def Let_def split: if_splits)

lemma refused_diagnostics:
  assumes "admitJsonNumbers root b = Inr (Refused os ds truncated)"
  shows "ds = map (\<lambda>(p, l). diagnostic_json (format_diagnostic b p l)) os"
proof -
  let ?f = "foldR (\<lambda>(p, l). admit_turn b l p) (occurrences [] root) initial_admission"
  from assms obtain s where s: "?f = Inr s \<or> ?f = Inl (Stop s)" "os = offending s" "ds = diagnostics s"
    by (auto simp: admitJsonNumbers_def mapLosslessJson_fold bindR_eq_Inl split: if_splits sum.splits admission_exit.splits)
  then have "diagnosed b s"
    by (auto simp: foldR_Inl dest: fold_diagnosed dest!: admit_turn_stop)
  with s show ?thesis by (simp add: diagnosed_def)
qed

lemma scalar_Cons: "is_high_surrogate c = False \<Longrightarrow> is_low_surrogate c = False \<Longrightarrow>
   isUnicodeScalarString (c # s) = isUnicodeScalarString s"
  by simp

lemma escape_token_Cons:
  "escape_token (c # s) = (if c = 0x7E then js ''~0'' else if c = 0x2F then js ''~1'' else [c]) @ escape_token s"
  by (simp add: escape_token_def)

lemma scalar_escape: "isUnicodeScalarString k \<Longrightarrow> isUnicodeScalarString (escape_token k)"
proof (induction k rule: isUnicodeScalarString.induct)
  case 1
  then show ?case by (simp add: escape_token_def)
next
  case (2 c s)
  show ?case
  proof (cases "is_high_surrogate c")
    case True
    then obtain d r where s: "s = d # r" "is_low_surrogate d" "isUnicodeScalarString r"
      using 2(3) by (cases s) auto
    have "c \<noteq> 0x7E \<and> c \<noteq> 0x2F \<and> d \<noteq> 0x7E \<and> d \<noteq> 0x2F"
      using True s(2) by (auto simp: unit_class_defs)
    then show ?thesis using True s 2(1) [OF True s(1) s(3)] by (simp add: escape_token_Cons)
  next
    case False
    then show ?thesis using 2(2) [OF False] 2(3)
      by (auto simp: escape_token_Cons intro!: scalar_append)
  qed
qed

lemma scalar_pointer: "list_all isUnicodeScalarString path \<Longrightarrow> isUnicodeScalarString (pointer path)"
proof (induction path)
  case (Cons k path)
  have "\<not> is_high_surrogate 0x2F \<and> \<not> is_low_surrogate 0x2F" by (simp add: unit_class_defs)
  then have "isUnicodeScalarString (0x2F # escape_token k)" using Cons.prems scalar_escape by simp
  with Cons show ?case by (simp add: pointer_def scalar_append)
qed (simp add: pointer_def)

lemma scalar_nat_text: "isUnicodeScalarString (nat_text n)"
  using scalar_int_text [of "int n"] by (simp add: int_text_def)

lemma occurrences_scalar:
  "lossless_ok v \<Longrightarrow> list_all isUnicodeScalarString path \<Longrightarrow> list_all (\<lambda>(p, l). isUnicodeScalarString p) (occurrences path v)"
  "list_all lossless_ok xs \<Longrightarrow> list_all isUnicodeScalarString path \<Longrightarrow>
     list_all (\<lambda>(p, l). isUnicodeScalarString p) (item_occurrences path i xs)"
  "list_all (\<lambda>(k, x). isUnicodeScalarString k \<and> lossless_ok x) kvs \<Longrightarrow> list_all isUnicodeScalarString path \<Longrightarrow>
     list_all (\<lambda>(p, l). isUnicodeScalarString p) (member_occurrences path kvs)"
  by (induction path v and path i xs and path kvs rule: occurrences_item_occurrences_member_occurrences.induct)
    (simp_all add: scalar_pointer scalar_nat_text)

lemma scalar_drop_js: "isUnicodeScalarString (js s @ t) \<Longrightarrow> isUnicodeScalarString t"
proof (induction s)
  case (Cons c s)
  have "isUnicodeScalarString [of_char c]" using scalar_js [of "[c]"] unfolding js_def by simp
  then have "\<not> is_high_surrogate (of_char c) \<and> \<not> is_low_surrogate (of_char c)" by (simp split: if_splits)
  with Cons show ?case by (simp add: js_def)
qed (simp add: js_def)

lemma diagnostic_ok:
  "isUnicodeScalarString p \<Longrightarrow> admitted_ok (diagnostic_json (numericDiagnostic p))"
proof -
  assume p: "isUnicodeScalarString p"
  have "isUnicodeScalarString (drop (length q) p)" if "prefix (q @ [0x2F]) p" "q = js s" for q s
  proof -
    from that obtain t where "p = q @ 0x2F # t" by (auto simp: prefix_def)
    then have "drop (length q) p = 0x2F # t" "p = js s @ 0x2F # t" using that(2) by simp_all
    with p scalar_drop_js show ?thesis by metis
  qed
  from this [of "js ''/metadata''", OF _ refl] this [of "js ''/properties''", OF _ refl] show ?thesis
    by (auto simp: diagnostic_json_def numericDiagnostic_def opt_member_def obj_ok_Cons Let_def unit_class_defs
        split: option.splits)
qed

lemma normal_decimal_ok [simp]: "decimal_ok (normal_decimal c e)"
proof (induction c e rule: normal_decimal.induct)
  case (1 c e)
  have "\<not> 10 dvd int c" if "\<not> 10 dvd c" using that int_dvd_int_iff [of 10 c] by simp
  with 1 show ?case by (subst normal_decimal.simps) (auto simp: decimal_ok_def)
qed

lemma json_nat_ok [simp]: "admitted_ok (json_nat n)"
  by (simp add: json_nat_def)

lemma numeric_refusal_ok:
  assumes "lossless_ok root" "admitJsonNumbers root numeric_budget = Inr (Refused os ds truncated)"
  shows "admitted_ok (JObj (numeric_refusal ds truncated))"
proof -
  have "list_all (\<lambda>(p, l). isUnicodeScalarString p) os"
    using refused_bounds [OF assms(2)] occurrences_scalar(1) [OF assms(1), of "[]"]
    by (fastforce simp: list_all_iff dest: arg_cong [where f = set])
  then have "list_all admitted_ok ds"
    using refused_diagnostics [OF assms(2)] diagnostic_ok by (auto simp: list_all_iff numeric_budget_def)
  then show ?thesis
    by (simp add: numeric_refusal_def problem_def obj_ok_Cons unit_class_defs scalar_append)
qed

section \<open>Admission fails only as documented\<close>

definition admission_error :: "js_error \<Rightarrow> bool" where
  "admission_error e \<longleftrightarrow> e = malformed \<or> (\<exists>m. e = BudgetError m)"

lemma obj_put_same: "obj_get k kvs = Some v \<Longrightarrow> obj_ok kvs \<Longrightarrow> obj_put k v kvs = kvs"
proof (induction k v kvs rule: obj_put.induct)
  case (2 k v k' v' kvs)
  have "k \<noteq> k' \<Longrightarrow> k \<in> fst ` set kvs" using 2(2) by (auto simp: obj_get_def dest!: map_of_SomeD intro: rev_image_eqI)
  with 2 show ?case by (auto simp: obj_get_def obj_ok_Cons key_order_def split: if_splits)
qed (simp add: obj_get_def)

lemma prepared_total:
  "identity \<noteq> [] \<Longrightarrow> \<exists>c. prepared build identity = Inr (build c) \<and> cap_names c = []"
  by (auto simp: prepared_def captureReferenceComparison_def resolveAliasReferences_def semanticSlots_def Let_def)

lemma capture_bead_total:
  assumes "b \<noteq> []" "identity \<noteq> []" "f [(SBead, JStr b)] = Inr identity"
  shows "captureReferenceComparison identity [(SBead, EUri b)] f =
    Inr \<lparr> cap_names = [SBead], cap_references = [EUri b], cap_identityFor = f \<rparr>"
  using assms
  by (simp add: captureReferenceComparison_def resolveAliasReferences_def resolve_one_def resolve_target_def
      resolved_as_def nonempty_fact_def semanticSlots_def endpoint_semantic_def slot_order_def Let_def)

text \<open>A provenance that passed the closed grammar passes the schema after numeric admission.\<close>

lemma obj_get_map: "obj_get k (map (map_prod id f) kvs) = map_option f (obj_get k kvs)"
  by (induction kvs) (auto simp: obj_get_def)

lemma provenance_text_map: "provenance_text_ok n (map_option (map_jv f) v) = provenance_text_ok n v"
  by (auto simp: provenance_text_ok_def split: option.splits jv.splits)

lemma when_present_eq_Inr: "when_present v f = Inr u \<longleftrightarrow> (\<forall>x. v = Some x \<longrightarrow> (\<exists>y. f x = Inr y))"
  by (auto simp: when_present_def split: option.splits)

lemma guard_eq_Inr [simp]: "guardR b e = Inr u \<longleftrightarrow> b"
  by (simp add: guardR_def)

lemma nonempty_eq_Inr: "nonempty_string v = Inr s \<longleftrightarrow> v = Some (JStr s) \<and> s \<noteq> []"
  by (auto simp: nonempty_string_def split: option.splits jv.splits)

lemma closed_eq_Inr: "closed kvs names = Inr u \<longleftrightarrow> (\<forall>(k, x) \<in> set kvs. k \<in> set (map js names))"
  by (auto simp: closed_def list_all_iff)

lemma str_case_eq_Inr:
  "(case m of Some (JStr b) \<Rightarrow> guardR (P b) e | _ \<Rightarrow> Inl e') = Inr u \<longleftrightarrow> (\<exists>b. m = Some (JStr b) \<and> P b)"
  by (cases m) (auto split: jv.splits)

lemma closed_map: "list_all (\<lambda>(k, x). P k) (map (map_prod id f) kvs) \<longleftrightarrow> (\<forall>(k, x) \<in> set kvs. P k)"
  by (auto simp: list_all_iff)

lemma provenance_admitted:
  assumes "provenanceInput v = Inr u"
  shows "provenance_shape (map_jv literal_decimal v)"
proof -
  let ?a = "\<lambda>kvs. obj_get (js ''actor'') kvs"
  from assms obtain kvs where kvs: "v = JObj kvs" "\<forall>(k, x) \<in> set kvs. k \<in> set (map js [''actor'', ''agent'', ''message''])"
    "provenance_text_ok ''agent'' (obj_get (js ''agent'') kvs)" "provenance_text_ok ''message'' (obj_get (js ''message'') kvs)"
    "when_present (?a kvs) (\<lambda>a. bindR (record_of (Some a)) (\<lambda>actor.
       bindR (closed actor [''id'', ''basis'']) (\<lambda>_. bindR (nonempty_string (obj_get (js ''id'') actor)) (\<lambda>_.
         case obj_get (js ''basis'') actor of
           Some (JStr b) \<Rightarrow> guardR (b = js ''writer-supplied'' \<or> b = js ''unknown'') malformed
         | _ \<Rightarrow> Inl malformed)))) = Inr u"
    unfolding provenanceInput_def bindR_eq_Inr record_of_eq_Inr closed_eq_Inr guard_eq_Inr by blast
  have actor: "case map_option (map_jv literal_decimal) (?a kvs) of
          None \<Rightarrow> True
        | Some (JObj actor) \<Rightarrow>
            list_all (\<lambda>(k, _). k \<in> {js ''id'', js ''basis''}) actor \<and>
            (case obj_get (js ''id'') actor of Some (JStr s) \<Rightarrow> s \<noteq> [] | _ \<Rightarrow> False) \<and>
            (case obj_get (js ''basis'') actor of
               Some (JStr b) \<Rightarrow> b = js ''writer-supplied'' \<or> b = js ''unknown'' | _ \<Rightarrow> False)
        | _ \<Rightarrow> False"
  proof (cases "?a kvs")
    case (Some a)
    with kvs(5) obtain actor s b where a: "a = JObj actor" "\<forall>(k, x) \<in> set actor. k \<in> set (map js [''id'', ''basis''])"
      "obj_get (js ''id'') actor = Some (JStr s)" "s \<noteq> []"
      "obj_get (js ''basis'') actor = Some (JStr b)" "b = js ''writer-supplied'' \<or> b = js ''unknown''"
      unfolding Some when_present_def option.case bindR_eq_Inr record_of_eq_Inr closed_eq_Inr nonempty_eq_Inr str_case_eq_Inr
      by blast
    then show ?thesis using Some by (simp only: option.map jv.map option.case jv.case obj_get_map closed_map) simp
  qed simp
  show ?thesis
    unfolding kvs(1) provenance_shape_def jv.map jv.case obj_get_map closed_map provenance_text_map
    using kvs(2-4) actor by simp
qed

lemma type_admitted_ok: "lossless_ok (JObj input) \<Longrightarrow> obj_get k input = Some t \<Longrightarrow> admitted_ok (map_jv literal_decimal t)"
  using lossless_get admitted_value_ok by blast

lemma create_provenance:
  assumes "create_input rt text = Inr input" "obj_get (js ''revisionProvenance'') input = Some p"
  shows "provenance_shape (map_jv literal_decimal p)"
  using assms by (auto simp: create_input_def when_present_eq_Inr intro: provenance_admitted)

lemma update_provenance:
  assumes "update_input rt text h = Inr input" "obj_get (js ''revisionProvenance'') input = Some p"
  shows "provenance_shape (map_jv literal_decimal p)"
  using assms by (auto simp: update_input_def when_present_eq_Inr intro: provenance_admitted)

lemma provenance_shape_obj: "provenance_shape v \<Longrightarrow> \<exists>kvs. v = JObj kvs"
  by (cases v) (simp_all add: provenance_shape_def)

lemma optional_provenance_total:
  assumes "lossless_ok (JObj kvs)"
    and "\<And>p. obj_get (js ''revisionProvenance'') kvs = Some p \<Longrightarrow> provenance_shape (map_jv literal_decimal p)"
  shows "\<exists>q. optional_provenance (map (map_prod id (map_jv literal_decimal)) kvs) = Inr q"
proof (cases "obj_get (js ''revisionProvenance'') kvs")
  case (Some p)
  have "snapshotJsonValue (map_jv literal_decimal p) = Inr (map_jv literal_decimal p)"
    using type_admitted_ok [OF assms(1) Some] by simp
  moreover obtain q where "map_jv literal_decimal p = JObj q"
    using provenance_shape_obj [OF assms(2) [OF Some]] by blast
  ultimately show ?thesis using assms(2) [OF Some] Some
    by (simp add: optional_provenance_def parseRevisionProvenanceInput_def obj_get_map)
qed (simp add: optional_provenance_def obj_get_map)

lemma create_refused_total:
  assumes "lossless_ok (JObj input)" "lossless_ok root" "identity \<noteq> []"
    and "admitJsonNumbers root numeric_budget = Inr (Refused os ds truncated)"
  shows "\<exists>p. create_refused scope key identity i input ds truncated = Inr p"
proof -
  have "snapshotJsonValue (JObj (numeric_refusal ds truncated)) = Inr (JObj (numeric_refusal ds truncated))"
    using numeric_refusal_ok [OF assms(2,4)] by (rule snapshot_ok)
  moreover have "admitted_ok (case obj_get (js ''type'') input of Some t \<Rightarrow> map_jv literal_decimal t | None \<Rightarrow> JNull)"
    using type_admitted_ok [OF assms(1)] by (simp split: option.splits)
  ultimately show ?thesis
    using prepared_total [OF assms(3)] by (fastforce simp: create_refused_def simp del: json_ok.simps)
qed

lemma create_admitted_total:
  assumes "lossless_ok (JObj kvs)" "identity \<noteq> []"
    and "admitJsonNumbers (JObj kvs) numeric_budget = Inr (Admitted v)"
  shows "(\<exists>p. create_admitted scope key identity i v = Inr p) \<or> create_admitted scope key identity i v = Inl malformed"
proof -
  have v: "v = JObj (map (map_prod id (map_jv literal_decimal)) kvs)" "snapshotJsonValue v = Inr v"
    using assms(3) admitJsonNumbers_ok [OF assms(1,3)] by (simp_all add: admitted_iff del: json_ok.simps)
  show ?thesis
    using prepared_total [OF assms(2)] v
    by (cases "optional_provenance (map (map_prod id (map_jv literal_decimal)) kvs)")
      (auto simp: create_admitted_def record_of_def)
qed

lemma create_body:
  assumes "key_ok key" "create_input rt text = Inr input" "optional_id rt scope (str_member ''id'' input) = Inr i"
    "create_identity (create_normalized input i) = Inr t"
  shows "prepareCreate rt scope text key =
    bindR (admitJsonNumbers (JObj (create_normalized input i)) numeric_budget) (\<lambda>admission.
      case admission of
        Refused os ds truncated \<Rightarrow> create_refused scope key t i input ds truncated
      | Admitted v \<Rightarrow> create_admitted scope key t i v)"
  unfolding prepareCreate_def using assms by simp

lemma create_error:
  assumes "scope_ok scope" "prepareCreate rt scope text key = Inl e"
  shows "admission_error e"
proof (cases "key_ok key \<and> (\<exists>input i. create_input rt text = Inr input \<and> optional_id rt scope (str_member ''id'' input) = Inr i)")
  case True
  then obtain input i where i: "create_input rt text = Inr input" "optional_id rt scope (str_member ''id'' input) = Inr i"
    by blast
  note ok = create_normalized_ok [OF assms(1) i(2) create_input_ok [OF i(1)]]
  obtain t where t: "create_identity (create_normalized input i) = Inr t" "t \<noteq> []"
    using create_identity_total [OF ok] by blast
  note body = create_body [OF conjunct1 [OF True] i t(1)]
  show ?thesis
  proof (cases "admitJsonNumbers (JObj (create_normalized input i)) numeric_budget")
    case (Inl e')
    with body assms(2) admitJsonNumbers_error [OF Inl] show ?thesis by (auto simp: admission_error_def)
  next
    case (Inr a)
    show ?thesis
    proof (cases a)
      case (Admitted v)
      from create_admitted_total [OF ok t(2) Inr [unfolded Admitted], of scope key i] show ?thesis
        using body assms(2) unfolding Inr Admitted by (auto simp: admission_error_def)
    next
      case (Refused os ds truncated)
      from create_refused_total [OF create_input_ok [OF i(1)] ok t(2) Inr [unfolded Refused], of scope key i] show ?thesis
        using body assms(2) unfolding Inr Refused by auto
    qed
  qed
next
  case False
  have "e = malformed" if "optional_id rt scope s = Inl e" for s
    using that createdId_error by (auto simp: optional_id_def bindR_eq_Inl split: option.splits)
  moreover have "\<not> key_ok key \<or> create_input rt text = Inl e \<or> (\<exists>s. optional_id rt scope s = Inl e)"
  proof (cases "key_ok key")
    case True
    then show ?thesis using False assms(2)
      by (cases "create_input rt text"; cases "optional_id rt scope (str_member ''id'' (projr (create_input rt text)))")
        (auto simp: prepareCreate_def)
  qed simp
  ultimately show ?thesis using assms(2) create_input_error by (auto simp: admission_error_def prepareCreate_def)
qed

text \<open>The target of an update or a delete.\<close>

lemma subject_ok:
  assumes "scope_ok scope" "canonicalSubject rt scope s = Inr b" "isUnicodeScalarString s"
  shows "b \<noteq> [] \<and> isUnicodeScalarString b"
proof (cases "http_prefix s \<and> \<not> prefix scope s")
  case True
  then have "b = s" "s \<noteq> []" using assms(2)
    by (auto simp: canonicalSubject_def parseCanonicalHttpUrl_def http_prefix_def http_prefix_exact_def js_def
        split: sum.splits option.splits if_splits)
  with assms(3) show ?thesis by simp
next
  case False
  then have l: "canonicalLocalReference rt scope s = Inr b" using assms(2) unfolding canonicalSubject_def by (simp only: if_False)
  from canonicalLocalReference_canonical [OF assms(1) l] have "prefix scope b \<and> canonicalCreatedId rt scope b = Inr b"
    by auto
  then show ?thesis
    using createdId_ascii [OF assms(1)] assms(1) by (auto simp: scope_ok_def)
qed

lemma str_member_ok:
  assumes "lossless_ok (JObj input)"
  shows "isUnicodeScalarString (case str_member n input of Some s \<Rightarrow> s | None \<Rightarrow> [])"
proof (cases "str_member n input")
  case (Some s)
  then have "obj_get (js n) input = Some (JStr s)" by (auto simp: str_member_def split: option.splits jv.splits)
  with lossless_get [OF assms this] Some show ?thesis by simp
qed simp

lemma subject_slots:
  assumes "lossless_ok (JObj (obj_put (js ''bead'') (JStr b) input))"
  shows "with_slots (obj_put (js ''bead'') (JStr b) input) [(SBead, JStr b)] =
    with_slots (obj_put (js ''bead'') (JStr b) input) []"
proof -
  let ?n = "obj_put (js ''bead'') (JStr b) input"
  have "obj_get (js ''bead'') (sem_fields ?n) = Some (JStr b)"
    unfolding sem_fields_def obj_get_map by (simp add: sem_of_def)
  moreover have "obj_ok (sem_fields ?n)"
    using assms unfolding sem_fields_def by (simp add: obj_ok_map_values)
  ultimately show ?thesis by (simp add: with_slots_def obj_spread_def obj_put_same)
qed

lemma subject_normalized:
  assumes "scope_ok scope" "lossless_ok (JObj input)"
    "canonicalSubject rt scope (case str_member ''bead'' input of Some s \<Rightarrow> s | None \<Rightarrow> []) = Inr b"
  shows "b \<noteq> []" "lossless_ok (JObj (obj_put (js ''bead'') (JStr b) input))"
  using subject_ok [OF assms(1,3) str_member_ok [OF assms(2)]] json_ok_put [OF assms(2)] by simp_all

lemma delete_error:
  assumes "scope_ok scope" "prepareDelete rt scope text key = Inl e"
  shows "e = malformed"
proof (cases "key_ok key")
  case True
  show ?thesis
  proof (cases "delete_input text")
    case (Inl e')
    then show ?thesis using True assms(2) delete_input_error by (auto simp: prepareDelete_def)
  next
    case (Inr input)
    let ?s = "case str_member ''bead'' input of Some s \<Rightarrow> s | None \<Rightarrow> []"
    show ?thesis
    proof (cases "canonicalSubject rt scope ?s")
      case (Inl e')
      then show ?thesis using True Inr assms(2) subject_error by (auto simp: prepareDelete_def)
    next
      case b: (Inr b)
      note n = subject_normalized [OF assms(1) delete_input_ok [OF Inr] b]
      from delete_identity_total [OF n(2), of "[]"] obtain t where
        t: "delete_identity (obj_put (js ''bead'') (JStr b) input) [] = Inr t" "t \<noteq> []" by auto
      have "delete_identity (obj_put (js ''bead'') (JStr b) input) [(SBead, JStr b)] = Inr t"
        using t(1) by (simp add: delete_identity_def subject_slots [OF n(2)])
      from capture_bead_total [where f = "delete_identity (obj_put (js ''bead'') (JStr b) input)", OF n(1) t(2) this]
      show ?thesis using True Inr b t(1) assms(2) by (simp add: prepareDelete_def Let_def)
    qed
  qed
qed (use assms(2) in \<open>simp add: prepareDelete_def\<close>)

lemma capture_update_total:
  assumes "scope_ok scope" "update_input rt text h = Inr input"
    "canonicalSubject rt scope (case str_member ''bead'' input of Some s \<Rightarrow> s | None \<Rightarrow> []) = Inr b"
  shows "\<exists>t c. update_identity h (obj_put (js ''bead'') (JStr b) input) [] = Inr t \<and>
    captureReferenceComparison t [(SBead, EUri b)] (update_identity h (obj_put (js ''bead'') (JStr b) input)) = Inr c"
proof -
  note n = subject_normalized [OF assms(1) update_input_ok [OF assms(2)] assms(3)]
  from update_identity_total [OF n(2), of "[]" h] obtain t where
    t: "update_identity h (obj_put (js ''bead'') (JStr b) input) [] = Inr t" "t \<noteq> []" by auto
  have "update_identity h (obj_put (js ''bead'') (JStr b) input) [(SBead, JStr b)] = Inr t"
    using t(1) by (simp add: update_identity_def subject_slots [OF n(2)])
  from capture_bead_total [where f = "update_identity h (obj_put (js ''bead'') (JStr b) input)", OF n(1) t(2) this] t(1)
  show ?thesis by blast
qed

lemma update_body_total:
  assumes "lossless_ok (JObj n)" "admitJsonNumbers (JObj n) numeric_budget = Inr a"
    "\<And>p. obj_get (js ''revisionProvenance'') n = Some p \<Longrightarrow> provenance_shape (map_jv literal_decimal p)"
  shows "\<exists>f. update_body scope key t b h input a = Inr f"
proof (cases a)
  case (Admitted v)
  then have v: "v = JObj (map (map_prod id (map_jv literal_decimal)) n)"
    using assms(2) by (simp add: admitted_iff)
  have "snapshotJsonValue v = Inr v"
    using admitJsonNumbers_ok [OF assms(1)] assms(2) Admitted by (intro snapshot_ok) simp
  with v show ?thesis using optional_provenance_total [OF assms(1,3)] Admitted
    by (auto simp: update_body_def record_of_def)
next
  case (Refused os ds tr)
  have "snapshotJsonValue (JObj (numeric_refusal ds tr)) = Inr (JObj (numeric_refusal ds tr))"
    using numeric_refusal_ok [OF assms(1)] assms(2) Refused by (intro snapshot_ok) simp
  then show ?thesis using Refused by (simp add: update_body_def)
qed

lemma update_error:
  assumes "scope_ok scope" "prepareSelectedUpdate rt scope text key h = Inl e"
  shows "admission_error e"
proof (cases "key_ok key \<and> (\<exists>input b. update_input rt text h = Inr input \<and>
    canonicalSubject rt scope (case str_member ''bead'' input of Some s \<Rightarrow> s | None \<Rightarrow> []) = Inr b)")
  case True
  then obtain input b where i: "update_input rt text h = Inr input"
    "canonicalSubject rt scope (case str_member ''bead'' input of Some s \<Rightarrow> s | None \<Rightarrow> []) = Inr b" by blast
  let ?n = "obj_put (js ''bead'') (JStr b) input"
  obtain t c where t: "update_identity h ?n [] = Inr t"
    "captureReferenceComparison t [(SBead, EUri b)] (update_identity h ?n) = Inr c"
    using capture_update_total [OF assms(1) i] by blast
  note ok = subject_normalized(2) [OF assms(1) update_input_ok [OF i(1)] i(2)]
  have body: "prepareSelectedUpdate rt scope text key h =
      bindR (admitJsonNumbers (JObj ?n) numeric_budget) (\<lambda>a.
      bindR (update_body scope key t b h input a) (\<lambda>f. Inr (f c)))"
    unfolding prepareSelectedUpdate_def using True i t by simp
  show ?thesis
  proof (cases "admitJsonNumbers (JObj ?n) numeric_budget")
    case (Inl e')
    with body assms(2) admitJsonNumbers_error [OF Inl] show ?thesis by (auto simp: admission_error_def)
  next
    case (Inr a)
    have "\<exists>f. update_body scope key t b h input a = Inr f"
      using update_provenance [OF i(1)] by (intro update_body_total [OF ok Inr]) simp
    with body Inr assms(2) show ?thesis by auto
  qed
next
  case False
  have "e = malformed"
  proof (cases "key_ok key")
    case True
    then show ?thesis using False assms(2) update_input_error subject_error
      by (cases "update_input rt text h";
          cases "canonicalSubject rt scope (case str_member ''bead'' (projr (update_input rt text h)) of Some s \<Rightarrow> s | None \<Rightarrow> [])")
        (auto simp: prepareSelectedUpdate_def)
  qed (use assms(2) in \<open>simp add: prepareSelectedUpdate_def\<close>)
  then show ?thesis by (simp add: admission_error_def)
qed

text \<open>What a prepared creation carries.\<close>

lemma type_reference_some: "typeReference rt v = Inr u \<Longrightarrow> \<exists>t. v = Some t"
  by (cases v) (auto simp: typeReference_def record_of_def)

lemma json_ok_get: "json_ok P (JObj kvs) \<Longrightarrow> obj_get k kvs = Some v \<Longrightarrow> json_ok P v"
  by (auto simp: obj_get_def list_all_iff dest!: map_of_SomeD)

lemma obj_member_admitted:
  assumes "admitted_ok (JObj kvs)"
  shows "admitted_ok (JObj (object_member n kvs))"
  using json_ok_get [OF assms, of "js n"]
  by (cases "obj_get (js n) kvs") (auto simp: object_member_def split: jv.splits)

lemma create_refused_fields:
  "create_refused scope key t i input ds tr = Inr p \<Longrightarrow>
     pc_scope p = scope \<and> pc_key p = key \<and> pc_id p = i \<and> pc_refusal p = Some (numeric_refusal ds tr)"
  by (auto simp: create_refused_def prepared_def)

lemma create_admitted_fields:
  "create_admitted scope key t i (JObj kvs) = Inr p \<Longrightarrow>
     pc_scope p = scope \<and> pc_key p = key \<and> pc_id p = i \<and> pc_refusal p = None \<and>
     pc_type p = (case obj_get (js ''type'') kvs of Some t \<Rightarrow> t | None \<Rightarrow> JNull) \<and>
     pc_properties p = object_member ''properties'' kvs \<and> pc_metadata p = object_member ''metadata'' kvs"
  by (auto simp: create_admitted_def prepared_def snapshotJsonValue_def record_of_def split: if_splits)

lemma create_parts:
  assumes "prepareCreate rt scope text key = Inr p"
  obtains input i t a where "key_ok key" "create_input rt text = Inr input"
    "optional_id rt scope (str_member ''id'' input) = Inr i" "create_identity (create_normalized input i) = Inr t"
    "admitJsonNumbers (JObj (create_normalized input i)) numeric_budget = Inr a"
    "(case a of Refused os ds truncated \<Rightarrow> create_refused scope key t i input ds truncated
      | Admitted v \<Rightarrow> create_admitted scope key t i v) = Inr p"
  using assms by (auto simp: prepareCreate_def Let_def split: if_splits)

section \<open>Properties\<close>


definition example_create_text :: jstring where
  "example_create_text = [0x7B, 0x22] @ js ''type'' @ [0x22, 0x3A, 0x22] @ js ''http://h/t'' @ [0x22, 0x2C, 0x22] @
     js ''id'' @ [0x22, 0x3A, 0x22] @ js ''a'' @ [0x22, 0x7D]"

lemma example_create_input:
  "create_input example_runtime example_create_text =
     Inr [(js ''type'', JStr (js ''http://h/t'')), (js ''id'', JStr (js ''a''))]"
  by code_simp

lemma example_create:
  "\<exists>p. prepareCreate example_runtime (js ''http://h/'') example_create_text (js ''k'') = Inr p \<and>
     pc_scope p = js ''http://h/'' \<and> pc_key p = js ''k'' \<and> pc_id p = Some (js ''http://h/a'') \<and>
     pc_type p = JStr (js ''http://h/t'') \<and> pc_properties p = [] \<and> pc_metadata p = [] \<and>
     pc_provenance p = None \<and> pc_refusal p = None \<and> cap_names (pc_captured p) = []"
proof -
  let ?input = "[(js ''type'', JStr (js ''http://h/t'')), (js ''id'', JStr (js ''a''))] :: lossless_object"
  let ?i = "Some (js ''http://h/a'')"
  let ?n = "create_normalized ?input ?i"
  have scope: "scope_ok (js ''http://h/'')" by code_simp
  have key: "key_ok (js ''k'')" by code_simp
  have id: "optional_id example_runtime (js ''http://h/'') (str_member ''id'' ?input) = Inr ?i" by code_simp
  have n: "?n = [(js ''type'', JStr (js ''http://h/t'')), (js ''id'', JStr (js ''http://h/a'')),
      (js ''properties'', JObj []), (js ''metadata'', JObj [])]" by code_simp
  note ok = create_normalized_ok [OF scope id create_input_ok [OF example_create_input]]
  obtain t where t: "create_identity ?n = Inr t" "t \<noteq> []" using create_identity_total [OF ok] by blast
  let ?v = "map_jv literal_decimal (JObj ?n)"
  have a: "admitJsonNumbers (JObj ?n) numeric_budget = Inr (Admitted ?v)"
    unfolding admitted_iff n by (simp add: numeric_budget_def limit_ok_def safe_integer_def)
  have "catch_all malformed (optional_provenance (map (map_prod id (map_jv literal_decimal)) ?n)) = Inr None"
    unfolding n by (simp add: optional_provenance_def obj_get_def)
  moreover have "snapshotJsonValue ?v = Inr ?v" by (rule snapshot_ok) (rule admitted_value_ok [OF ok])
  ultimately have p: "\<exists>p. create_admitted (js ''http://h/'') (js ''k'') t ?i ?v = Inr p \<and> pc_provenance p = None \<and>
      cap_names (pc_captured p) = []"
    using prepared_total [OF t(2)] by (fastforce simp: create_admitted_def record_of_def)
  then obtain p where p: "create_admitted (js ''http://h/'') (js ''k'') t ?i ?v = Inr p" "pc_provenance p = None"
    "cap_names (pc_captured p) = []" by blast
  then have "create_admitted (js ''http://h/'') (js ''k'') t ?i (JObj (map (map_prod id (map_jv literal_decimal)) ?n)) = Inr p"
    by (simp add: case_prod_unfold map_prod_def)
  note f = create_admitted_fields [OF this]
  have "pc_type p = JStr (js ''http://h/t'') \<and> pc_properties p = [] \<and> pc_metadata p = []"
    using f unfolding n by (simp add: obj_get_def object_member_def)
  then show ?thesis
    using create_body [OF key example_create_input id t(1)] a p f by auto
qed


text \<open>The admission of a creation, an update or a delete fails in documented ways only: every
  error is \<open>malformed-request\<close>, or the error of the diagnostic byte budget; a delete, which has no
  numbers, only ever answers \<open>malformed-request\<close>.\<close>

theorem admission_errors:
  assumes "scope_ok scope"
  shows "(prepareCreate rt scope text key = Inl e \<longrightarrow> e = malformed \<or> (\<exists>m. e = BudgetError m)) \<and>
    (prepareSelectedUpdate rt scope text key historical = Inl e \<longrightarrow> e = malformed \<or> (\<exists>m. e = BudgetError m)) \<and>
    (prepareDelete rt scope text key = Inl e \<longrightarrow> e = malformed)"
  using create_error [OF assms] update_error [OF assms] delete_error [OF assms]
  by (auto simp: admission_error_def)

lemma admission_errors_witness:
  "\<exists>e. prepareDelete example_runtime (js ''http://h/'') (js ''[]'') (js ''k'') = Inl e \<and> e = malformed"
proof -
  have s: "scope_ok (js ''http://h/'')" by code_simp
  have "prepareDelete example_runtime (js ''http://h/'') (js ''[]'') (js ''k'') = Inl malformed"
  proof -
    have "delete_input (js ''[]'') = Inl malformed" "key_ok (js ''k'')" by code_simp+
    then show ?thesis by (simp add: prepareDelete_def)
  qed
  then show ?thesis using admission_errors [OF s] by blast
qed

text \<open>
  The comment of \<open>numericDiagnostic\<close> bounds a pointer to 1024 bytes so that one entry always fits the
  4096 bytes of the list.  The bound counts the raw pointer; the printed one escapes every control
  character to six bytes, and one entry can exceed the list bound, which is an error of the server.
\<close>

lemma length_le_bytes: "length s \<le> byte_length s"
proof (induction s rule: byte_length.induct)
  case (2 c s)
  show ?case
  proof (cases "is_high_surrogate c")
    case True
    then show ?thesis using 2(1,2) [OF True]
      by (cases s; cases "is_low_surrogate (hd s)") (fastforce simp: byte_length.simps(2) [of c])+
  next
    case False
    then show ?thesis using 2(3) [OF False] by (simp add: byte_length.simps(2) [of c])
  qed
qed simp

lemma quote_controls: "length (quote_units (replicate n 1)) = 6 * n"
proof (induction n)
  case (Suc n)
  have q: "length (quote_unit 1) = 6" by (simp add: quote_unit_def unicode_escape_def)
  have "\<not> is_high_surrogate 1" by (simp add: unit_class_defs)
  with Suc q show ?case by (cases n) simp_all
qed simp

definition long_pointer_document :: lossless where
  "long_pointer_document = JObj [(js ''properties'', JObj [(replicate 1023 1, JNum (js ''1e309''))])]"

lemma long_pointer: "pointer [replicate n 1, js ''properties''] = js ''/properties/'' @ replicate n 1"
proof -
  have "escape_token (replicate n 1) = replicate n 1"
    by (induction n) (simp_all add: escape_token_def)
  moreover have "escape_token (js ''properties'') = js ''properties''" by code_simp
  ultimately show ?thesis by (simp add: pointer_def js_def)
qed

lemma long_pointer_bytes: "byte_length (0x2F # replicate n 1) = Suc n"
  by (induction n) (simp_all add: byte_length_ascii)

lemma long_pointer_location:
  assumes "byte_length (0x2F # k) \<le> 1024"
  shows "diag_instanceLocation (numericDiagnostic (js ''/properties/'' @ k)) = Some (0x2F # k)"
proof -
  have e: "js ''/properties/'' @ k = js ''/properties'' @ 0x2F # k" by (simp add: js_def)
  have m: "\<not> prefix (js ''/metadata'') (js ''/properties'' @ t)" for t by (simp add: js_def)
  have p: "prefix (js ''/properties'' @ [0x2F]) (js ''/properties'' @ 0x2F # k)" by simp
  have d: "drop (length (js ''/properties'')) (js ''/properties'' @ 0x2F # k) = 0x2F # k" by simp
  have s: "''/'' @ ''properties'' = ''/properties''" by simp
  show ?thesis
    unfolding e numericDiagnostic_def Let_def using assms p d
    by (simp only: m if_False s if_True option.case validation_diagnostic.simps)
qed

lemma diagnostic_json_length:
  "diag_instanceLocation d = Some l \<Longrightarrow> length (quote_units l) \<le> byte_length (serialized (diagnostic_json d))"
proof -
  assume l: "diag_instanceLocation d = Some l"
  define xs where "xs = opt_member ''type'' (diag_type d) @ opt_member ''schemaLocation'' (diag_schemaLocation d)"
  define ys where "ys = opt_member ''document'' (diag_document d) @ [(js ''message'', JStr (diag_message d))]"
  have "diagnostic_json d = JObj (xs @ (js ''instanceLocation'', JStr l) # ys)"
    using l by (simp add: diagnostic_json_def xs_def ys_def opt_member_def [of "''instanceLocation''"])
  moreover have "length (quote_units l) \<le> length (commas (map (\<lambda>(k, x). string_text k @ [0x3A] @ json_text num x)
      (xs @ (js ''instanceLocation'', JStr l) # ys)))" for num :: "decimal \<Rightarrow> jstring"
  proof (induction xs)
    case Nil
    show ?case by (cases ys) (auto simp: string_text_def)
  next
    case (Cons x xs)
    then show ?case by (cases "xs @ (js ''instanceLocation'', JStr l) # ys") auto
  qed
  ultimately have "length (quote_units l) \<le> length (serialized (diagnostic_json d))"
    by (simp add: serialized_def print_json_text le_SucI)
  then show ?thesis using length_le_bytes le_trans by blast
qed

lemma long_pointer_diagnostic:
  assumes "n \<le> 1023"
  shows "6 * n \<le> byte_length (serialized (diagnostic_json (numericDiagnostic (js ''/properties/'' @ replicate n 1))))"
proof -
  have q: "6 * n \<le> length (quote_units (0x2F # replicate n 1))"
    using quote_controls [of n] by (cases n) (simp_all add: unit_class_defs)
  have "byte_length (0x2F # replicate n 1) \<le> 1024"
    using assms unfolding long_pointer_bytes by simp
  from diagnostic_json_length [OF long_pointer_location [OF this]] q show ?thesis by simp
qed

lemma first_entry_refused:
  assumes "\<not> isAdmissibleJsonNumber lit"
    "4096 < byte_length (serialized (diagnostic_json (numericDiagnostic (pointer [k, js ''properties'']))))"
  shows "admitJsonNumbers (JObj [(js ''properties'', JObj [(k, JNum lit)])]) numeric_budget =
    Inl (BudgetError ''diagnostic byte bound cannot retain the first entry'')"
  using assms by (simp add: admitJsonNumbers_def mapLosslessJson_fold numeric_budget_def
        limit_ok_def safe_integer_def admit_number_def admit_turn_def admit_refusal_def initial_admission_def within_def)

text \<open>C39: a refused number under a property name of 1023 control characters makes the admission
  throw the error of its byte budget instead of returning the refusal.\<close>

lemma diagnostic_over_budget:
  "admitJsonNumbers long_pointer_document numeric_budget =
     Inl (BudgetError ''diagnostic byte bound cannot retain the first entry'')"
  unfolding long_pointer_document_def
proof (rule first_entry_refused)
  show "\<not> isAdmissibleJsonNumber (js ''1e309'')"
    by (rule huge_inadmissible [where c = 1 and e = 309]) (code_simp, simp_all)
  show "4096 < byte_length (serialized (diagnostic_json (numericDiagnostic (pointer [replicate 1023 1, js ''properties'']))))"
    using long_pointer_diagnostic [of 1023] unfolding long_pointer by linarith
qed

end
