(* ===== verification/Navigation.thy ===== *)
theory Navigation
  imports Contract
begin

text \<open>
  The captured navigation of an owner (\<open>captureNavigation\<close> and \<open>navigationAddresses\<close> of
  \<open>retained-v01/contract.ts\<close>) and its alias namespace (\<open>captureAliasNamespace\<close> of
  \<open>retained-v01/alias-contract.ts\<close>): which addresses are reserved, and which locators can be aliases.
\<close>

section \<open>Operations\<close>

datatype operation =
    CreateBead | UpdateBead | DeleteBead | CreateLink | UpdateLink | DeleteLink | PutAlias | DeleteAlias | Batch

fun operation_name :: "operation \<Rightarrow> string" where
  "operation_name CreateBead = ''createBead''"
| "operation_name UpdateBead = ''updateBead''"
| "operation_name DeleteBead = ''deleteBead''"
| "operation_name CreateLink = ''createLink''"
| "operation_name UpdateLink = ''updateLink''"
| "operation_name DeleteLink = ''deleteLink''"
| "operation_name PutAlias = ''putAlias''"
| "operation_name DeleteAlias = ''deleteAlias''"
| "operation_name Batch = ''batch''"

definition ORDINARY_OPERATIONS :: "operation list" where
  "ORDINARY_OPERATIONS =
     [CreateBead, UpdateBead, DeleteBead, CreateLink, UpdateLink, DeleteLink, PutAlias, DeleteAlias]"

lemma operation_name_inj [simp]: "operation_name a = operation_name b \<longleftrightarrow> a = b"
  by (cases a; cases b) simp_all

section \<open>Navigation\<close>

record navigation =
  nav_scope :: jstring
  nav_description :: jstring
  nav_beads :: jstring
  nav_links :: jstring
  nav_aliases :: jstring
  nav_events :: jstring
  nav_operations :: jstring
  nav_targets :: "(jstring \<times> jstring) list"

definition nav_target :: "navigation \<Rightarrow> operation \<Rightarrow> jstring option" where
  "nav_target nav op = map_of (nav_targets nav) (js (operation_name op))"

definition invalid_url :: js_error where
  "invalid_url = TypeError ''Invalid URL''"

definition new_url :: "url_runtime \<Rightarrow> jstring \<Rightarrow> url_parts result" where
  "new_url rt s = (case parse_url rt s of None \<Rightarrow> Inl invalid_url | Some u \<Rightarrow> Inr u)"

text \<open>One navigation URL: absent members fail the check of the URI grammar.\<close>

definition navigation_url :: "url_runtime \<Rightarrow> jstring option \<Rightarrow> jstring result" where
  "navigation_url rt url =
     bindR (httpUri rt (map_option (\<lambda>s. JStr s :: lossless) url)) (\<lambda>_.
       case url of
         None \<Rightarrow> Inl malformed
       | Some s \<Rightarrow>
           bindR (new_url rt s) (\<lambda>parsed.
             if hash parsed \<noteq> [] \<or> href parsed \<noteq> s then Inl (TypeError ''fixture navigation must be canonical'')
             else Inr s))"

definition navigation_urls :: "navigation \<Rightarrow> jstring option list" where
  "navigation_urls nav =
     [Some (nav_description nav), Some (nav_beads nav), Some (nav_links nav), Some (nav_events nav),
      Some (nav_operations nav)] @ map (nav_target nav) ORDINARY_OPERATIONS"

definition captureNavigation :: "url_runtime \<Rightarrow> navigation \<Rightarrow> navigation result" where
  "captureNavigation rt input =
     bindR (parseCanonicalScope rt (nav_scope input)) (\<lambda>scope.
       if length (nav_targets input) \<noteq> length ORDINARY_OPERATIONS
       then Inl (TypeError ''closed eight-target fixture directory required'')
       else
         bindR (mapR (navigation_url rt) (navigation_urls input @ [Some (nav_aliases input)])) (\<lambda>checked.
           let urls = scope # butlast checked @ (if nav_aliases input = scope then [] else [nav_aliases input])
           in if \<not> distinct urls then Inl (TypeError ''ambiguous fixture navigation'')
              else
                bindR (mapR (new_url rt) urls) (\<lambda>parsed.
                  if \<not> distinct (map (\<lambda>u. host u @ pathname u @ search u) parsed)
                  then Inl (TypeError ''ambiguous fixture transport routes'')
                  else Inr (input \<lparr> nav_scope := scope, nav_targets :=
                    map (\<lambda>op. (js (operation_name op), case nav_target input op of Some t \<Rightarrow> t | None \<Rightarrow> []))
                      ORDINARY_OPERATIONS \<rparr>))))"

text \<open>
  \<open>navigationAddresses\<close>: every address and its address without query and fragment, in insertion
  order without repetition.
\<close>

definition first_occurrences :: "'a list \<Rightarrow> 'a list" where
  "first_occurrences xs = rev (remdups (rev xs))"

lemma set_first_occurrences [simp]: "set (first_occurrences xs) = set xs"
  by (simp add: first_occurrences_def)

lemma distinct_first_occurrences [simp]: "distinct (first_occurrences xs)"
  by (simp add: first_occurrences_def)

definition navigationAddresses :: "url_runtime \<Rightarrow> navigation \<Rightarrow> jstring list result" where
  "navigationAddresses rt nav =
     (let addresses = [nav_scope nav, nav_description nav, nav_beads nav, nav_links nav, nav_aliases nav,
            nav_events nav, nav_operations nav] @ map snd (nav_targets nav)
      in bindR (mapR (new_url rt) addresses) (\<lambda>parsed.
           Inr (first_occurrences (addresses @ map bare_href parsed))))"

section \<open>The alias namespace\<close>

definition alias_prefix :: "jstring \<Rightarrow> jstring" where
  "alias_prefix base = (if suffix [0x2F] base then base else base @ [0x2F])"

definition alias_contains :: "url_runtime \<Rightarrow> jstring \<Rightarrow> jstring \<Rightarrow> jstring \<Rightarrow> bool" where
  "alias_contains rt scope base uri \<longleftrightarrow>
     prefix (alias_prefix base) uri \<and> canonicalCreatedId rt scope uri = Inr uri"

definition captureAliasNamespace :: "url_runtime \<Rightarrow> jstring \<Rightarrow> jstring \<Rightarrow> (jstring \<Rightarrow> bool) result" where
  "captureAliasNamespace rt scope base =
     bindR (parseCanonicalScope rt scope) (\<lambda>s.
       if s \<noteq> scope \<or> \<not> prefix scope base then Inl (TypeError ''canonical in-Scope alias base required'')
       else bindR (parseCanonicalScope rt (alias_prefix base)) (\<lambda>p.
              if p \<noteq> alias_prefix base then Inl (TypeError ''canonical in-Scope alias base required'')
              else Inr (alias_contains rt scope base)))"

section \<open>The owner\<close>

text \<open>
  What \<open>openPrivateRetainedStore\<close> captures: the navigation, its reserved addresses, the alias
  namespace and the selected modes.
\<close>

record owner =
  ow_runtime :: url_runtime
  ow_nav :: navigation
  ow_reserved :: "jstring list"
  ow_contains :: "jstring \<Rightarrow> bool"
  ow_reference :: bool
  ow_batch :: bool
  ow_historical :: bool

abbreviation ow_scope :: "owner \<Rightarrow> jstring" where
  "ow_scope ow \<equiv> nav_scope (ow_nav ow)"

definition openOwner :: "url_runtime \<Rightarrow> navigation \<Rightarrow> bool \<Rightarrow> bool \<Rightarrow> bool \<Rightarrow> owner result" where
  "openOwner rt input reference batch historical =
     (if historical \<and> batch then Inl (TypeError ''historical-update1 and atomicBatch composition is not supported'')
      else if historical \<and> \<not> reference then Inl (TypeError ''historical-update1 requires the explicit reference Core composition'')
      else
        bindR (captureNavigation rt input) (\<lambda>nav.
        bindR (captureAliasNamespace rt (nav_scope nav) (nav_aliases nav)) (\<lambda>inside.
        bindR (navigationAddresses rt nav) (\<lambda>reserved.
          Inr \<lparr> ow_runtime = rt, ow_nav = nav, ow_reserved = reserved, ow_contains = inside,
            ow_reference = reference, ow_batch = batch, ow_historical = historical \<rparr>))))"

definition isReserved :: "owner \<Rightarrow> jstring \<Rightarrow> bool" where
  "isReserved ow uri \<longleftrightarrow>
     uri \<in> set (ow_reserved ow) \<or>
     (ow_reference ow \<and>
       (uri = ow_scope ow @ js ''bdp'' \<or> prefix (ow_scope ow @ js ''bdp/'') uri \<or>
        uri = ow_scope ow @ js ''sys'' \<or> prefix (ow_scope ow @ js ''sys/'') uri))"

section \<open>What a captured owner satisfies\<close>

definition owner_ok :: "owner \<Rightarrow> bool" where
  "owner_ok ow \<longleftrightarrow> scope_ok (ow_scope ow) \<and>
     ow_contains ow = alias_contains (ow_runtime ow) (ow_scope ow) (nav_aliases (ow_nav ow)) \<and>
     captureAliasNamespace (ow_runtime ow) (ow_scope ow) (nav_aliases (ow_nav ow)) = Inr (ow_contains ow) \<and>
     navigationAddresses (ow_runtime ow) (ow_nav ow) = Inr (ow_reserved ow) \<and>
     \<not> (ow_historical ow \<and> ow_batch ow)"

lemma captured_scope: "captureNavigation rt input = Inr nav \<Longrightarrow> parseCanonicalScope rt (nav_scope input) = Inr (nav_scope nav)"
  by (auto simp: captureNavigation_def Let_def split: if_splits)

lemma openOwner_ok:
  assumes "openOwner rt input reference batch historical = Inr ow" "scope_ok (nav_scope (ow_nav ow))"
  shows "owner_ok ow"
  using assms by (auto simp: openOwner_def owner_ok_def captureAliasNamespace_def split: if_splits)

lemma contains_canonical: "owner_ok ow \<Longrightarrow> ow_contains ow uri \<Longrightarrow> canonicalCreatedId (ow_runtime ow) (ow_scope ow) uri = Inr uri"
  by (simp add: owner_ok_def alias_contains_def)

end
