(* ===== verification/Link_Contract.thy ===== *)
theory Link_Contract
  imports Navigation
begin

text \<open>
  Admission of Link operations (\<open>retained-v01/link-contract.ts\<close>) and of alias operations
  (\<open>retained-v01/alias-contract.ts\<close>).
\<close>

section \<open>Links\<close>

record prepared_link =
  pl_scope :: jstring
  pl_key :: jstring
  pl_identity :: jstring
  pl_operation :: operation
  pl_value :: json_object
  pl_refusal :: "json_object option"
  pl_captured :: captured

definition link_endpoint :: "url_runtime \<Rightarrow> jstring \<Rightarrow> lossless \<Rightarrow> endpoint result" where
  "link_endpoint rt scope input =
     (case input of
        JStr s \<Rightarrow> bindR (inputReferenceUri rt scope s) (\<lambda>u. Inr (EUri u))
      | _ \<Rightarrow>
          bindR (record_of (Some input)) (\<lambda>value.
          bindR (closed value [''uri'', ''revision'']) (\<lambda>_.
          bindR (nonempty_string (obj_get (js ''uri'') value)) (\<lambda>uri.
          bindR (nonempty_string (obj_get (js ''revision'') value)) (\<lambda>revision.
          bindR (inputReferenceUri rt scope uri) (\<lambda>u. Inr (EPin u revision)))))))"

definition link_common :: "string list" where
  "link_common = [''type'', ''properties'', ''metadata'', ''revisionProvenance'', ''source'', ''target'']"

definition link_names :: "operation \<Rightarrow> string list" where
  "link_names operation =
     (if operation = CreateLink then ''id'' # link_common
      else if operation = UpdateLink
      then [''link''] @ link_common @ [''expectedRevision'', ''propertiesChange'', ''metadataChange'']
      else [''link'', ''expectedRevision'', ''revisionProvenance''])"

definition link_mutations :: "string list" where
  "link_mutations = [''type'', ''properties'', ''metadata'', ''propertiesChange'', ''metadataChange'', ''source'', ''target'']"

text \<open>The members that depend on the operation.\<close>

definition link_shape :: "url_runtime \<Rightarrow> operation \<Rightarrow> lossless_object \<Rightarrow> unit result" where
  "link_shape rt operation input =
     (if operation = CreateLink then
        bindR (typeReference rt (obj_get (js ''type'') input)) (\<lambda>_.
        bindR (guardR (obj_has (js ''source'') input \<and> obj_has (js ''target'') input) (TypeError ''missing endpoint'')) (\<lambda>_.
          when_present (obj_get (js ''id'') input) (\<lambda>v. nonempty_string (Some v))))
      else
        bindR (nonempty_string (obj_get (js ''link'') input)) (\<lambda>_.
        bindR (when_present (obj_get (js ''expectedRevision'') input) (\<lambda>v. nonempty_string (Some v))) (\<lambda>_.
        bindR (when_present (obj_get (js ''type'') input) (\<lambda>v. typeReference rt (Some v))) (\<lambda>_.
          guardR (operation \<noteq> UpdateLink \<or> list_ex (\<lambda>n. obj_has (js n) input) link_mutations)
            (TypeError ''no mutation member'')))))"

definition optional_endpoint :: "url_runtime \<Rightarrow> jstring \<Rightarrow> lossless option \<Rightarrow> endpoint option result" where
  "optional_endpoint rt scope v = (case v of
     None \<Rightarrow> Inr None
   | Some x \<Rightarrow> bindR (link_endpoint rt scope x) (\<lambda>e. Inr (Some e)))"

definition optional_subject :: "url_runtime \<Rightarrow> jstring \<Rightarrow> jstring option \<Rightarrow> jstring option result" where
  "optional_subject rt scope v = (case v of
     None \<Rightarrow> Inr None
   | Some s \<Rightarrow> bindR (canonicalSubject rt scope s) (\<lambda>u. Inr (Some u)))"

definition opt_field :: "string \<Rightarrow> 'n jv option \<Rightarrow> 'n jobject" where
  "opt_field name v = (case v of None \<Rightarrow> [] | Some x \<Rightarrow> [(js name, x)])"

definition link_normalized ::
  "operation \<Rightarrow> lossless_object \<Rightarrow> jstring option \<Rightarrow> jstring option \<Rightarrow> endpoint option \<Rightarrow> endpoint option \<Rightarrow> lossless_object" where
  "link_normalized operation input ident subject source target =
     obj_spread input
       (opt_field ''id'' (map_option JStr ident) @ opt_field ''link'' (map_option JStr subject) @
        opt_field ''source'' (map_option endpoint_json source) @ opt_field ''target'' (map_option endpoint_json target) @
        (if operation = CreateLink
         then [(js ''properties'', object_or_empty ''properties'' input), (js ''metadata'', object_or_empty ''metadata'' input)]
         else []))"

definition link_input ::
  "url_runtime \<Rightarrow> jstring \<Rightarrow> operation \<Rightarrow> jstring \<Rightarrow> (lossless_object \<times> endpoint option \<times> endpoint option) result" where
  "link_input rt scope operation text =
     catch_others malformed
       (bindR (decodeJsonDocument text) (\<lambda>document.
        bindR (record_of (Some document)) (\<lambda>input.
        bindR (closed input (link_names operation)) (\<lambda>_.
        bindR (link_shape rt operation input) (\<lambda>_.
        bindR (when_present (obj_get (js ''revisionProvenance'') input) provenanceInput) (\<lambda>_.
        bindR (edit_modes input ''properties'') (\<lambda>_.
        bindR (edit_modes input ''metadata'') (\<lambda>_.
        bindR (optional_id rt scope (str_member ''id'' input)) (\<lambda>ident.
        bindR (optional_subject rt scope (str_member ''link'' input)) (\<lambda>subject.
        bindR (optional_endpoint rt scope (obj_get (js ''source'') input)) (\<lambda>source.
        bindR (optional_endpoint rt scope (obj_get (js ''target'') input)) (\<lambda>target.
          Inr (link_normalized operation input ident subject source target, source, target)))))))))))))"

definition link_identity :: "operation \<Rightarrow> lossless_object \<Rightarrow> semantic_slots \<Rightarrow> jstring result" where
  "link_identity operation normalized slots = encodeSemanticValue
     (request_value ''retained-v01-link-1'' RETAINED_MEDIA [] (operation_name operation) (with_slots normalized slots))"

definition link_slots :: "endpoint option \<Rightarrow> endpoint option \<Rightarrow> (slot \<times> endpoint) list" where
  "link_slots source target =
     (case source of None \<Rightarrow> [] | Some e \<Rightarrow> [(SSource, e)]) @ (case target of None \<Rightarrow> [] | Some e \<Rightarrow> [(STarget, e)])"

text \<open>The admitted value and the refusal of the prepared Link.\<close>

definition link_body :: "admission \<Rightarrow> (json_object \<times> json_object option) result" where
  "link_body admission = (case admission of
     Refused os ds truncated \<Rightarrow>
       bindR (snapshotJsonValue (JObj (numeric_refusal ds truncated))) (\<lambda>_. Inr ([], Some (numeric_refusal ds truncated)))
   | Admitted v \<Rightarrow>
       bindR (snapshotJsonValue v) (\<lambda>snapshot. bindR (record_of (Some snapshot)) (\<lambda>value. Inr (value, None))))"

definition prepareLink :: "url_runtime \<Rightarrow> jstring \<Rightarrow> operation \<Rightarrow> jstring \<Rightarrow> jstring \<Rightarrow> prepared_link result" where
  "prepareLink rt scope operation text key =
     (if \<not> key_ok key then Inl malformed
      else
        bindR (link_input rt scope operation text) (\<lambda>(input, source, target).
        bindR (link_identity operation input []) (\<lambda>identity.
        bindR (admitJsonNumbers (JObj input) numeric_budget) (\<lambda>admission.
        bindR (link_body admission) (\<lambda>(value, refused).
        bindR (captureReferenceComparison identity (link_slots source target) (link_identity operation input)) (\<lambda>c.
          Inr \<lparr> pl_scope = scope, pl_key = key, pl_identity = identity, pl_operation = operation, pl_value = value,
            pl_refusal = refused, pl_captured = c \<rparr>))))))"

section \<open>Aliases\<close>

record prepared_alias =
  pa_scope :: jstring
  pa_key :: jstring
  pa_identity :: jstring
  pa_operation :: operation
  pa_alias :: jstring
  pa_target :: "jstring option"
  pa_captured :: captured

definition alias_input :: "url_runtime \<Rightarrow> jstring \<Rightarrow> operation \<Rightarrow> jstring \<Rightarrow> (jstring \<times> jstring option) result" where
  "alias_input rt scope operation text =
     catch_others malformed
       (bindR (decodeJsonDocument text) (\<lambda>document.
        bindR (record_of (Some document)) (\<lambda>input.
        bindR (closed input (if operation = PutAlias then [''alias'', ''target''] else [''alias''])) (\<lambda>_.
        bindR (nonempty_string (obj_get (js ''alias'') input)) (\<lambda>a.
        bindR (inputReferenceUri rt scope a) (\<lambda>alias.
          if operation = PutAlias then
            bindR (nonempty_string (obj_get (js ''target'') input)) (\<lambda>t.
            bindR (inputReferenceUri rt scope t) (\<lambda>target. Inr (alias, Some target)))
          else Inr (alias, None)))))))"

definition alias_identity :: "operation \<Rightarrow> jstring \<Rightarrow> jstring option \<Rightarrow> jstring result" where
  "alias_identity operation alias target = encodeSemanticValue
     (request_value ''retained-v01-alias-1'' RETAINED_MEDIA [] (operation_name operation)
       (JObj ([(js ''alias'', JStr alias)] @ opt_field ''target'' (map_option JStr target))))"

definition prepareAlias :: "url_runtime \<Rightarrow> jstring \<Rightarrow> operation \<Rightarrow> jstring \<Rightarrow> jstring \<Rightarrow> prepared_alias result" where
  "prepareAlias rt scope operation text key =
     bindR (parseCanonicalScope rt scope) (\<lambda>s.
       if s \<noteq> scope then Inl (TypeError ''canonical captured Scope required'')
       else if operation \<noteq> PutAlias \<and> operation \<noteq> DeleteAlias then Inl (TypeError ''unknown alias operation'')
       else if \<not> key_ok key then Inl malformed
       else
         bindR (alias_input rt scope operation text) (\<lambda>(alias, target).
         bindR (alias_identity operation alias target) (\<lambda>identity.
         bindR (captureReferenceComparison identity [] (\<lambda>_. Inr identity)) (\<lambda>c.
           Inr \<lparr> pa_scope = scope, pa_key = key, pa_identity = identity, pa_operation = operation, pa_alias = alias,
             pa_target = target, pa_captured = c \<rparr>))))"

end
