(* ===== verification/Events.thy ===== *)
theory Events
  imports Link_Contract
begin

text \<open>
  Lifecycle facts, incidence and event selection (\<open>retained-v01/events.ts\<close>), and the ISO time text
  of \<open>Date.prototype.toISOString\<close> the facts carry.
\<close>

section \<open>Selection\<close>

datatype event_from = FromRetained | FromNow

record event_selection =
  sel_from :: "event_from option"
  sel_after :: "jstring option"
  sel_limit :: nat

definition invalid_parameter :: js_error where
  "invalid_parameter = RequestError (js ''invalid-parameter'') 400 (js ''never'')"

definition limit_exceeded :: js_error where
  "limit_exceeded = RequestError (js ''limit-exceeded'') 413 (js ''never'')"

definition positive_digits :: "jstring \<Rightarrow> bool" where
  "positive_digits s \<longleftrightarrow> (case s of [] \<Rightarrow> False | c # r \<Rightarrow> is_digit c \<and> c \<noteq> 0x30 \<and> list_all is_digit r)"

text \<open>The parameters of the URL, decoded, in order.\<close>

definition parseEventSelection :: "(jstring \<times> jstring) list \<Rightarrow> bool \<Rightarrow> event_selection result" where
  "parseEventSelection params resource =
     (let allowed = map js ([''from'', ''after'', ''representation'', ''limit''] @ (if resource then [''view''] else []));
          from = map_of params (js ''from''); after = map_of params (js ''after'');
          representation = map_of params (js ''representation'');
          rawLimit = (case map_of params (js ''limit'') of Some l \<Rightarrow> l | None \<Rightarrow> js ''20'')
      in if list_ex (\<lambda>(n, _). n \<notin> set allowed \<or> length (filter (\<lambda>(m, _). m = n) params) \<noteq> 1) params
         then Inl invalid_parameter
         else if resource \<and> map_of params (js ''view'') \<noteq> Some (js ''events'') then Inl invalid_parameter
         else if from \<notin> {None, Some (js ''retained''), Some (js ''now'')} \<or> (from \<noteq> None \<and> after \<noteq> None) \<or>
            after = Some [] \<or> representation \<notin> {None, Some (js ''postimage'')}
         then Inl invalid_parameter
         else if \<not> positive_digits rawLimit \<or> digits_value rawLimit > 2 ^ 53 - 1 then Inl invalid_parameter
         else if digits_value rawLimit > 100 then Inl limit_exceeded
         else Inr \<lparr> sel_from = (case from of None \<Rightarrow> None
                      | Some f \<Rightarrow> Some (if f = js ''now'' then FromNow else FromRetained)),
                    sel_after = after, sel_limit = digits_value rawLimit \<rparr>)"

section \<open>Times\<close>

text \<open>
  The proleptic Gregorian date of a day since 1970-01-01, counted in eras of 400 years that start on
  the first of March; years beyond 9999 print with a sign and six digits.
\<close>

definition pad_left :: "nat \<Rightarrow> jstring \<Rightarrow> jstring" where
  "pad_left n s = replicate (n - length s) 0x30 @ s"

definition month_of_year :: "nat \<Rightarrow> nat" where
  "month_of_year mp = (if mp < 10 then mp + 3 else mp - 9)"

definition civil_of_month :: "nat \<Rightarrow> nat \<Rightarrow> nat \<Rightarrow> nat \<times> nat \<times> nat" where
  "civil_of_month y doy mp =
     (y + (if month_of_year mp \<le> 2 then 1 else 0), month_of_year mp, doy - (153 * mp + 2) div 5 + 1)"

definition civil_of_year :: "nat \<Rightarrow> nat \<Rightarrow> nat \<times> nat \<times> nat" where
  "civil_of_year y doy = civil_of_month y doy ((5 * doy + 2) div 153)"

definition year_of_era :: "nat \<Rightarrow> nat" where
  "year_of_era doe = (doe - doe div 1460 + doe div 36524 - doe div 146096) div 365"

definition civil_of_era :: "nat \<Rightarrow> nat \<Rightarrow> nat \<Rightarrow> nat \<times> nat \<times> nat" where
  "civil_of_era era doe yoe = civil_of_year (yoe + era * 400) (doe - (365 * yoe + yoe div 4 - yoe div 100))"

definition civil_of_days :: "nat \<Rightarrow> nat \<times> nat \<times> nat" where
  "civil_of_days d = civil_of_era ((d + 719468) div 146097) ((d + 719468) mod 146097)
     (year_of_era ((d + 719468) mod 146097))"

definition iso_time :: "nat \<Rightarrow> jstring" where
  "iso_time ms =
     (let (y, m, d) = civil_of_days (ms div 86400000); t = ms mod 86400000
      in (if y > 9999 then 0x2B # pad_left 6 (nat_text y) else pad_left 4 (nat_text y)) @ js ''-'' @
         pad_left 2 (nat_text m) @ js ''-'' @ pad_left 2 (nat_text d) @ js ''T'' @
         pad_left 2 (nat_text (t div 3600000)) @ js '':'' @ pad_left 2 (nat_text (t div 60000 mod 60)) @ js '':'' @
         pad_left 2 (nat_text (t div 1000 mod 60)) @ js ''.'' @ pad_left 3 (nat_text (t mod 1000)) @ js ''Z'')"

section \<open>Facts\<close>

datatype verb = VCreate | VUpdate | VDelete

fun verb_name :: "verb \<Rightarrow> string" where
  "verb_name VCreate = ''create''"
| "verb_name VUpdate = ''update''"
| "verb_name VDelete = ''delete''"

definition fact_operation :: "verb \<Rightarrow> resource_state \<Rightarrow> jstring" where
  "fact_operation verb state = js (verb_name verb @ (if state_kind state = KBead then ''Bead'' else ''Link''))"

definition fact_effect :: "verb \<Rightarrow> resource_state \<Rightarrow> json_object" where
  "fact_effect verb state =
     (let ident = JStr (bead_id (state_resource state)) in
      (js ''operation'', JStr (fact_operation verb state)) #
      (if verb = VCreate then [(js ''id'', ident), (js ''resource'', resource_json state)]
       else (kind_text (state_kind state), ident) #
         (if verb = VDelete then [(js ''deleted'', JObj (eventDeleted state))]
          else [(js ''resource'', resource_json state)])))"

definition lifecycleFact ::
  "verb \<Rightarrow> resource_state \<Rightarrow> jstring \<Rightarrow> jstring \<Rightarrow> jstring \<Rightarrow> jstring \<Rightarrow> jstring option \<Rightarrow> json_object result" where
  "lifecycleFact verb state source ident transaction time previous =
     (if verb = VUpdate \<and> (previous = None \<or> previous = Some [])
      then Inl (TypeError ''update fact requires predecessor'')
      else Inr
        ([(js ''id'', JStr ident), (js ''source'', JStr source), (js ''time'', JStr time), (js ''origin'', JStr (js ''write'')),
          (js ''transaction'', JStr transaction), (js ''representation'', JStr (js ''postimage'')),
          (js ''revision'', JStr (bead_revision (state_resource state)))] @
         (if verb = VUpdate then opt_member ''previousRevision'' previous else []) @
         [(js ''effect'', JObj (fact_effect verb state))]))"

fun state_endpoints :: "resource_state \<Rightarrow> endpoint list" where
  "state_endpoints (BeadState b) = []"
| "state_endpoints (LinkState b s t) = [s, t]"

definition incidentBeads :: "jstring \<Rightarrow> resource_state option list \<Rightarrow> jstring list" where
  "incidentBeads scope states =
     first_occurrences (filter (prefix scope)
       (concat (map (\<lambda>s. case s of None \<Rightarrow> [] | Some st \<Rightarrow> map referenceUri (state_endpoints st)) states)))"

definition minimum_cursor_seconds :: nat where
  "minimum_cursor_seconds = 300"

definition EVENT_POLICY :: json where
  "EVENT_POLICY = JObj
     [(js ''observation'', JStr (js ''committed'')),
      (js ''description'', JStr (js
         ''Private Core-only Resource CRUD fixture; committed transitions from explicit empty provisioning.'')),
      (js ''minimumRetentionSeconds'', json_nat 86400),
      (js ''minimumCursorLifetimeSeconds'', json_nat minimum_cursor_seconds),
      (js ''representations'', JArr [JStr (js ''postimage'')]),
      (js ''maximumPageSize'', json_nat 100)]"

section \<open>Dates and incidence\<close>

lemma civil_dates:
  "civil_of_days 0 = (1970, 1, 1)" "civil_of_days 11016 = (2000, 2, 29)" "civil_of_days 19782 = (2024, 2, 29)"
  "civil_of_days 20453 = (2025, 12, 31)" "civil_of_days 47540 = (2100, 2, 28)" "civil_of_days 47541 = (2100, 3, 1)"
  by (simp_all add: civil_of_days_def civil_of_era_def year_of_era_def civil_of_year_def civil_of_month_def month_of_year_def)

lemma incident_set:
  "set (incidentBeads scope states) =
     {u. prefix scope u \<and> (\<exists>st e. Some st \<in> set states \<and> e \<in> set (state_endpoints st) \<and> u = referenceUri e)}"
  by (auto simp: incidentBeads_def split: option.splits)

lemma incident_distinct [simp]: "distinct (incidentBeads scope states)"
  by (simp add: incidentBeads_def)

end
