(* ===== verification/Store_State.thy ===== *)
theory Store_State
  imports Events "HOL-Library.AList"
begin

text \<open>
  The state of the retained store (\<open>retained-v01/store.ts\<close>): its SQLite tables as typed rows, with the
  constraints of the schema as checks whose failure is the value \<open>SqlError\<close>.  Keyed tables are
  association lists; the laws the operations rely on are the interface \<open>keyed_table\<close>.

  A stored Resource is kept as the typed state its body text serializes, since the text reads back to
  the same value (theorem \<open>stored_text_round_trip\<close>); outcomes keep their response text.
\<close>

section \<open>Keyed tables\<close>

locale keyed_table =
  fixes find_row :: "'t \<Rightarrow> 'k \<Rightarrow> 'v option"
    and put_row :: "'k \<Rightarrow> 'v \<Rightarrow> 't \<Rightarrow> 't"
    and drop_row :: "'k \<Rightarrow> 't \<Rightarrow> 't"
    and sound :: "'t \<Rightarrow> bool"
  assumes find_put: "find_row (put_row k v t) k' = (if k' = k then Some v else find_row t k')"
    and find_drop: "sound t \<Longrightarrow> find_row (drop_row k t) k' = (if k' = k then None else find_row t k')"
    and sound_put: "sound t \<Longrightarrow> sound (put_row k v t)"
    and sound_drop: "sound t \<Longrightarrow> sound (drop_row k t)"
begin

definition add_row :: "js_error \<Rightarrow> 'k \<Rightarrow> 'v \<Rightarrow> 't \<Rightarrow> 't result" where
  "add_row e k v t = (if find_row t k = None then Inr (put_row k v t) else Inl e)"

lemma add_row_Inr:
  "add_row e k v t = Inr t' \<Longrightarrow> find_row t k = None \<and> find_row t' k' = (if k' = k then Some v else find_row t k')"
  by (auto simp: add_row_def find_put split: if_splits)

lemma add_row_sound: "add_row e k v t = Inr t' \<Longrightarrow> sound t \<Longrightarrow> sound t'"
  by (auto simp: add_row_def sound_put split: if_splits)

lemma add_row_fails: "add_row e k v t = Inl e' \<longleftrightarrow> find_row t k \<noteq> None \<and> e' = e"
  by (auto simp: add_row_def)

text \<open>A row that was added and dropped again leaves every lookup as before.\<close>

lemma drop_added:
  assumes "sound t" "add_row e k v t = Inr t'"
  shows "find_row (drop_row k t') k' = find_row t k'"
  using add_row_Inr [OF assms(2), of k'] find_drop [OF add_row_sound [OF assms(2,1)], of k k'] by auto

end

type_synonym ('k, 'v) table = "('k \<times> 'v) list"

definition table_ok :: "('k, 'v) table \<Rightarrow> bool" where
  "table_ok t \<longleftrightarrow> distinct (map fst t)"

interpretation rows: keyed_table map_of AList.update AList.delete table_ok
proof
  fix k k' :: 'k and v :: 'v and t
  show "map_of (AList.update k v t) k' = (if k' = k then Some v else map_of t k')"
    by (simp add: update_conv')
  show "map_of (AList.delete k t) k' = (if k' = k then None else map_of t k')"
    by (simp add: delete_conv')
  show "table_ok t \<Longrightarrow> table_ok (AList.update k v t)"
    by (simp add: table_ok_def distinct_update)
  show "table_ok t \<Longrightarrow> table_ok (AList.delete k t)"
    by (simp add: table_ok_def distinct_delete)
qed

definition constraint :: "string \<Rightarrow> js_error" where
  "constraint name = SqlError name"

text \<open>\<open>INSERT INTO table VALUES (key, ...)\<close> under a primary key.\<close>

definition insert_row :: "string \<Rightarrow> 'k \<Rightarrow> 'v \<Rightarrow> ('k, 'v) table \<Rightarrow> ('k, 'v) table result" where
  "insert_row name k v t = (if map_of t k = None then Inr (AList.update k v t) else Inl (constraint name))"

lemma insert_row_add: "insert_row name k v t = rows.add_row (constraint name) k v t"
  by (simp add: insert_row_def rows.add_row_def)

section \<open>Rows\<close>

record event_row =
  ev_position :: nat
  ev_subject :: jstring
  ev_body :: json_object

record outcome_row =
  oc_decision :: nat
  oc_principal :: jstring
  oc_key :: jstring
  oc_operation :: operation
  oc_identity :: jstring
  oc_witnesses :: jstring
  oc_status :: nat
  oc_body :: jstring
  oc_position :: "nat option"

text \<open>
  A historical version holds a live body, with the context of the historical update that wrote it, or
  the terminal version of a deletion.
\<close>

datatype version_body =
    VLive bead "(jstring \<times> jstring) option"
  | VTerminal jstring jstring jstring

record version_row =
  hv_id :: jstring
  hv_revision :: jstring
  hv_body :: version_body
  hv_position :: nat

datatype cursor_mode = NextPage | Resume

record cursor_row =
  cu_token :: jstring
  cu_principal :: jstring
  cu_source :: jstring
  cu_subject :: jstring
  cu_after :: nat
  cu_through :: nat
  cu_limit :: nat
  cu_mode :: cursor_mode
  cu_expires :: nat

record store =
  st_identities :: "(jstring, resource_kind) table"
  st_resources :: "(jstring, resource_state) table"
  st_aliases :: "(jstring, jstring) table"
  st_events :: "event_row list"
  st_incidence :: "(nat \<times> jstring) list"
  st_outcomes :: "outcome_row list"
  st_decisions :: nat
  st_facts :: "(nat \<times> nat) list"
  st_versions :: "version_row list"
  st_boundaries :: "(nat \<times> jstring) list"
  st_cursors :: "cursor_row list"

text \<open>The new store of an explicit provisioning.\<close>

definition new_store :: "jstring \<Rightarrow> store" where
  "new_store token = \<lparr> st_identities = [], st_resources = [], st_aliases = [], st_events = [], st_incidence = [],
     st_outcomes = [], st_decisions = 0, st_facts = [], st_versions = [], st_boundaries = [(0, token)], st_cursors = [] \<rparr>"

section \<open>Statements\<close>

definition has_identity :: "store \<Rightarrow> jstring \<Rightarrow> bool" where
  "has_identity s i \<longleftrightarrow> map_of (st_identities s) i \<noteq> None"

definition event_at :: "store \<Rightarrow> nat \<Rightarrow> bool" where
  "event_at s p \<longleftrightarrow> p \<in> set (map ev_position (st_events s))"

definition insert_identity :: "jstring \<Rightarrow> resource_kind \<Rightarrow> store \<Rightarrow> store result" where
  "insert_identity i k s =
     bindR (insert_row ''identities.id'' i k (st_identities s)) (\<lambda>t. Inr (s \<lparr> st_identities := t \<rparr>))"

definition insert_resource :: "jstring \<Rightarrow> resource_state \<Rightarrow> store \<Rightarrow> store result" where
  "insert_resource i r s =
     (if \<not> has_identity s i then Inl (constraint ''FOREIGN KEY'')
      else bindR (insert_row ''resources.id'' i r (st_resources s)) (\<lambda>t. Inr (s \<lparr> st_resources := t \<rparr>)))"

definition update_resource :: "jstring \<Rightarrow> resource_state \<Rightarrow> store \<Rightarrow> store" where
  "update_resource i r s =
     (if map_of (st_resources s) i = None then s else s \<lparr> st_resources := AList.update i r (st_resources s) \<rparr>)"

definition delete_resource :: "jstring \<Rightarrow> store \<Rightarrow> store" where
  "delete_resource i s = s \<lparr> st_resources := AList.delete i (st_resources s) \<rparr>"

definition upsert_alias :: "jstring \<Rightarrow> jstring \<Rightarrow> store \<Rightarrow> store result" where
  "upsert_alias l t s =
     (if \<not> has_identity s t then Inl (constraint ''FOREIGN KEY'')
      else Inr (s \<lparr> st_aliases := AList.update l t (st_aliases s) \<rparr>))"

definition delete_alias :: "jstring \<Rightarrow> store \<Rightarrow> store" where
  "delete_alias l s = s \<lparr> st_aliases := AList.delete l (st_aliases s) \<rparr>"

definition insert_event :: "nat \<Rightarrow> jstring \<Rightarrow> json_object \<Rightarrow> store \<Rightarrow> store result" where
  "insert_event p subject body s =
     (if event_at s p then Inl (constraint ''events.position'')
      else if \<not> has_identity s subject then Inl (constraint ''FOREIGN KEY'')
      else Inr (s \<lparr> st_events := st_events s @ [\<lparr> ev_position = p, ev_subject = subject, ev_body = body \<rparr>] \<rparr>))"

definition insert_incidence :: "nat \<Rightarrow> jstring \<Rightarrow> store \<Rightarrow> store result" where
  "insert_incidence p b s =
     (if (p, b) \<in> set (st_incidence s) then Inl (constraint ''incidence'')
      else if \<not> event_at s p \<or> \<not> has_identity s b then Inl (constraint ''FOREIGN KEY'')
      else Inr (s \<lparr> st_incidence := st_incidence s @ [(p, b)] \<rparr>))"

definition insert_boundary :: "nat \<Rightarrow> jstring \<Rightarrow> store \<Rightarrow> store result" where
  "insert_boundary p token s =
     (if p \<in> fst ` set (st_boundaries s) \<or> token \<in> snd ` set (st_boundaries s) then Inl (constraint ''boundaries'')
      else Inr (s \<lparr> st_boundaries := st_boundaries s @ [(p, token)] \<rparr>))"

definition insert_version :: "version_row \<Rightarrow> store \<Rightarrow> store result" where
  "insert_version v s =
     (if list_ex (\<lambda>w. hv_id w = hv_id v \<and> hv_revision w = hv_revision v \<or> hv_position w = hv_position v) (st_versions s)
      then Inl (constraint ''historical_versions'')
      else if \<not> has_identity s (hv_id v) \<or> \<not> event_at s (hv_position v) then Inl (constraint ''FOREIGN KEY'')
      else Inr (s \<lparr> st_versions := st_versions s @ [v] \<rparr>))"

definition insert_outcome :: "outcome_row \<Rightarrow> store \<Rightarrow> store result" where
  "insert_outcome c s =
     (if list_ex (\<lambda>d. oc_decision d = oc_decision c \<or> (oc_principal d = oc_principal c \<and> oc_key d = oc_key c) \<or>
           (oc_position c \<noteq> None \<and> oc_position d = oc_position c)) (st_outcomes s) \<or> oc_decision c = 0
      then Inl (constraint ''outcomes'')
      else if (case oc_position c of None \<Rightarrow> False | Some p \<Rightarrow> \<not> event_at s p) then Inl (constraint ''FOREIGN KEY'')
      else Inr (s \<lparr> st_outcomes := st_outcomes s @ [c] \<rparr>))"

definition insert_fact :: "nat \<Rightarrow> nat \<Rightarrow> store \<Rightarrow> store result" where
  "insert_fact d p s =
     (if p \<in> snd ` set (st_facts s) then Inl (constraint ''decision_facts'')
      else if \<not> event_at s p \<or> d \<notin> set (map oc_decision (st_outcomes s)) then Inl (constraint ''FOREIGN KEY'')
      else Inr (s \<lparr> st_facts := st_facts s @ [(d, p)] \<rparr>))"

definition insert_cursor :: "cursor_row \<Rightarrow> store \<Rightarrow> store result" where
  "insert_cursor c s =
     (if cu_token c \<in> set (map cu_token (st_cursors s)) then Inl (constraint ''cursors.token'')
      else Inr (s \<lparr> st_cursors := st_cursors s @ [c] \<rparr>))"

text \<open>\<open>SELECT COALESCE(MAX(position),0) FROM events\<close> and the boundary of a position.\<close>

definition head :: "store \<Rightarrow> nat" where
  "head s = fold max (map ev_position (st_events s)) 0"

definition boundary :: "store \<Rightarrow> nat \<Rightarrow> jstring result" where
  "boundary s p = (case map_of (st_boundaries s) p of
     Some t \<Rightarrow> Inr t | None \<Rightarrow> Inl (PlainError ''missing coverage boundary''))"

text \<open>Rows joined with their permanent identity.\<close>

definition currentState :: "store \<Rightarrow> jstring \<Rightarrow> resource_kind option \<Rightarrow> resource_state option" where
  "currentState s i kind =
     (case (map_of (st_resources s) i, map_of (st_identities s) i) of
        (Some r, Some k) \<Rightarrow> if kind \<noteq> None \<and> kind \<noteq> Some k then None else Some r
      | _ \<Rightarrow> None)"

definition find_outcome :: "store \<Rightarrow> jstring \<Rightarrow> jstring \<Rightarrow> outcome_row option" where
  "find_outcome s who key = List.find (\<lambda>c. oc_principal c = who \<and> oc_key c = key) (st_outcomes s)"

text \<open>
  What the environment supplies during a call: the identifiers \<open>randomUUID\<close> draws, in order, and the
  readings of the owner's clock.
\<close>

record supplied =
  su_ids :: "nat \<Rightarrow> jstring"
  su_clock :: "nat \<Rightarrow> int"

definition owner_now :: "supplied \<Rightarrow> nat \<Rightarrow> nat result" where
  "owner_now su i =
     (if su_clock su i < 0 \<or> su_clock su i > 8640000000000000 then Inl (PlainError ''invalid owner clock'')
      else Inr (nat (su_clock su i)))"

definition max_safe :: nat where
  "max_safe = 9007199254740991"

end
