(* ===== verification/Store.thy ===== *)
theory Store
  imports Store_State
begin

text \<open>
  The operations of the retained store (\<open>retained-v01/store.ts\<close>) on one resource or alias: decisions by
  key, creation, update, deletion, aliases and reads.  An operation returns its response with the next
  state, or the error that rolls its transaction back; \<open>ids\<close> are counted from the first identifier the
  operation draws.
\<close>

type_synonym response = "nat \<times> jstring"
type_synonym executed = "(response \<times> nat option \<times> store) result"

section \<open>Refusals\<close>

definition json_number_nat :: "json option \<Rightarrow> nat" where
  "json_number_nat v = (case v of Some (JNum (Dec c e)) \<Rightarrow> nat (c * 10 ^ nat e) | _ \<Rightarrow> 0)"

definition refusal :: "json_object \<Rightarrow> response" where
  "refusal value = (json_number_nat (obj_get (js ''status'') value), serialized (JObj value))"

definition refuse :: "json_object \<Rightarrow> store \<Rightarrow> executed" where
  "refuse value s = Inr (refusal value, None, s)"

definition not_found :: json_object where
  "not_found = problem ''resource-not-found'' 404 ''after-state-change''"

definition invalid_with :: "json_object \<Rightarrow> json_object" where
  "invalid_with diagnostic = problem ''validation-failed'' 422 ''never'' @ [(js ''diagnostics'', JArr [JObj diagnostic])]"

definition invalid_message :: "string \<Rightarrow> json_object" where
  "invalid_message m = invalid_with [(js ''message'', JStr (js m))]"

definition conflict :: response where
  "conflict = (409, serialized (JObj (problem ''idempotency-conflict'' 409 ''never'')))"

definition too_large :: json_object where
  "too_large = problem ''limit-exceeded'' 413 ''never''"

section \<open>Aliases and identities\<close>

definition has_alias :: "store \<Rightarrow> jstring \<Rightarrow> bool" where
  "has_alias s l \<longleftrightarrow> map_of (st_aliases s) l \<noteq> None"

definition aliasLookup :: "owner \<Rightarrow> store \<Rightarrow> alias_lookup" where
  "aliasLookup ow s uri =
     (if has_identity s uri \<or> isReserved ow uri then None
      else case map_of (st_aliases s) uri of
             Some t \<Rightarrow> Some (Some t)
           | None \<Rightarrow> if ow_contains ow uri then Some None else None)"

section \<open>Retained witnesses\<close>

definition witness_json :: "witness \<Rightarrow> json" where
  "witness_json w = (case w of (l, t) \<Rightarrow>
     JObj [(js ''locator'', JStr l), (js ''target'', case t of None \<Rightarrow> JNull | Some u \<Rightarrow> JStr u)])"

definition witnesses_text :: "witness list \<Rightarrow> jstring" where
  "witnesses_text ws = serialized (JArr (map witness_json ws))"

definition parse_witness ::
  "owner \<Rightarrow> (jstring \<Rightarrow> bool) \<Rightarrow> jstring list \<Rightarrow> jstring option \<Rightarrow> json \<Rightarrow> witness result" where
  "parse_witness ow inside reserved previous v =
     (case v of
        JObj kvs \<Rightarrow>
          (case (obj_get (js ''locator'') kvs, obj_get (js ''target'') kvs) of
             (Some (JStr l), Some t) \<Rightarrow>
               if length kvs \<noteq> 2 \<or> \<not> inside l \<or> l \<in> set reserved \<or>
                  (case previous of None \<Rightarrow> False | Some p \<Rightarrow> l \<le> p)
               then Inl (PlainError ''invalid retained alias locator witness'')
               else (case t of
                       JNull \<Rightarrow> Inr (l, None)
                     | JStr u \<Rightarrow>
                         if canonicalCreatedId (ow_runtime ow) (ow_scope ow) u = Inr u then Inr (l, Some u)
                         else Inl (PlainError ''invalid retained alias target witness'')
                     | _ \<Rightarrow> Inl (PlainError ''invalid retained alias target witness''))
           | _ \<Rightarrow> Inl (PlainError ''invalid retained alias locator witness''))
      | _ \<Rightarrow> Inl (PlainError ''invalid retained alias locator witness''))"

fun read_witnesses ::
  "owner \<Rightarrow> (jstring \<Rightarrow> bool) \<Rightarrow> jstring list \<Rightarrow> jstring option \<Rightarrow> json list \<Rightarrow> witness list result" where
  "read_witnesses ow inside reserved previous [] = Inr []"
| "read_witnesses ow inside reserved previous (v # vs) =
     bindR (parse_witness ow inside reserved previous v) (\<lambda>w.
     bindR (read_witnesses ow inside reserved (Some (fst w)) vs) (\<lambda>ws. Inr (w # ws)))"

definition readAliasWitnesses :: "owner \<Rightarrow> jstring \<Rightarrow> witness list result" where
  "readAliasWitnesses ow text =
     bindR (json_parse text) (\<lambda>v.
       case v of
         JArr vs \<Rightarrow>
           bindR (captureAliasNamespace (ow_runtime ow) (ow_scope ow) (nav_aliases (ow_nav ow))) (\<lambda>inside.
           bindR (navigationAddresses (ow_runtime ow) (ow_nav ow)) (\<lambda>reserved.
             read_witnesses ow inside reserved None vs))
       | _ \<Rightarrow> Inl (PlainError ''invalid retained alias witnesses''))"

section \<open>Decisions\<close>

definition outcome_of ::
  "store \<Rightarrow> jstring \<Rightarrow> jstring \<Rightarrow> operation \<Rightarrow> comparison \<Rightarrow> response \<Rightarrow> nat option \<Rightarrow> outcome_row" where
  "outcome_of s who key operation cmp r position =
     \<lparr> oc_decision = Suc (st_decisions s), oc_principal = who, oc_key = key, oc_operation = operation,
       oc_identity = cmp_identity cmp, oc_witnesses = witnesses_text (cmp_witnesses cmp), oc_status = fst r,
       oc_body = snd r, oc_position = position \<rparr>"

text \<open>Recording the outcome of a key that was not known.\<close>

definition record_decision ::
  "owner \<Rightarrow> jstring \<Rightarrow> jstring \<Rightarrow> operation \<Rightarrow> comparison \<Rightarrow> response \<times> nat option \<times> store \<Rightarrow> (response \<times> store) result" where
  "record_decision ow who key operation cmp e =
     (case e of (r, position, s) \<Rightarrow>
        if max_safe < Suc (st_decisions s) then Inl (PlainError ''outcome capacity unavailable'')
        else
          bindR (insert_outcome (outcome_of s who key operation cmp r position) s) (\<lambda>s2.
          bindR (case position of
                   Some p \<Rightarrow> if ow_batch ow then insert_fact (Suc (st_decisions s)) p s2 else Inr s2
                 | None \<Rightarrow> Inr s2) (\<lambda>s3.
            Inr (r, s3 \<lparr> st_decisions := Suc (st_decisions s) \<rparr>))))"

definition decide ::
  "owner \<Rightarrow> jstring \<Rightarrow> operation \<Rightarrow> jstring \<Rightarrow> captured \<Rightarrow> (comparison \<Rightarrow> store \<Rightarrow> executed) \<Rightarrow> store \<Rightarrow> (response \<times> store) result" where
  "decide ow who operation key c execute s =
     (if who = [] then Inl (TypeError ''stable authenticated principal required'')
      else case find_outcome s who key of
        Some previous \<Rightarrow>
          if oc_operation previous \<noteq> operation then Inr (conflict, s)
          else
            bindR (readAliasWitnesses ow (oc_witnesses previous)) (\<lambda>prior.
            bindR (compareCapturedReferences c (aliasLookup ow s) (Some prior) []) (\<lambda>cmp.
              if oc_identity previous \<noteq> cmp_identity cmp then Inr (conflict, s)
              else Inr ((oc_status previous, oc_body previous), s)))
      | None \<Rightarrow>
          bindR (compareCapturedReferences c (aliasLookup ow s) None []) (\<lambda>cmp.
          bindR (execute cmp s) (record_decision ow who key operation cmp)))"

section \<open>Endpoints\<close>

fun endpoint_loop :: "owner \<Rightarrow> store \<Rightarrow> (string \<times> endpoint) list \<Rightarrow> bool \<Rightarrow> json_object option" where
  "endpoint_loop ow s [] local =
     (if local then None else Some (invalid_message ''a Link requires at least one in-Scope Bead endpoint''))"
| "endpoint_loop ow s ((name, e) # es) local =
     (if \<not> prefix (ow_scope ow) (referenceUri e) then endpoint_loop ow s es local
      else case currentState s (referenceUri e) None of
             None \<Rightarrow> Some not_found
           | Some st \<Rightarrow>
               if state_kind st \<noteq> KBead
               then Some (invalid_message (name @ '' endpoint must identify a live in-Scope Bead''))
               else endpoint_loop ow s es True)"

definition endpointRefusal :: "owner \<Rightarrow> store \<Rightarrow> resource_state \<Rightarrow> json_object option" where
  "endpointRefusal ow s state = (case state of
     BeadState b \<Rightarrow> None
   | LinkState b src tgt \<Rightarrow> endpoint_loop ow s [(''source'', src), (''target'', tgt)] False)"

definition resourceState ::
  "resource_kind \<Rightarrow> bead \<Rightarrow> endpoint option \<Rightarrow> endpoint option \<Rightarrow> resource_state result" where
  "resourceState kind b source target =
     (if kind = KBead then Inr (BeadState b)
      else case (source, target) of
             (Some src, Some tgt) \<Rightarrow> Inr (LinkState b src tgt)
           | _ \<Rightarrow> Inl (PlainError ''prepared Link has incomplete endpoints''))"

section \<open>Endpoint checks\<close>

text \<open>
  The contract of the two endpoint loops of the program, over the stored graph and over the working
  graph of a batch: sides outside the Scope are skipped, a side inside it must be a live Bead, and at
  least one side must be inside.
\<close>

locale endpoint_checker =
  fixes inside :: "jstring \<Rightarrow> bool"
    and bead_at :: "jstring \<Rightarrow> bool"
    and check :: "(string \<times> endpoint) list \<Rightarrow> bool \<Rightarrow> json_object option"
  assumes check_Nil: "check [] local = None \<longleftrightarrow> local"
    and check_Cons: "check ((side, e) # es) local = None \<longleftrightarrow>
      (if inside (referenceUri e) then bead_at (referenceUri e) \<and> check es True = None else check es local = None)"
begin

lemma check_None:
  "check es local = None \<longleftrightarrow> (local \<or> list_ex (\<lambda>(n, e). inside (referenceUri e)) es) \<and>
     (\<forall>(n, e) \<in> set es. inside (referenceUri e) \<longrightarrow> bead_at (referenceUri e))"
proof (induction es arbitrary: local)
  case (Cons x es)
  obtain n e where "x = (n, e)" by (cases x)
  then show ?case using Cons.IH by (auto simp: check_Cons)
qed (simp add: check_Nil)

lemma check_pair:
  "check [(n, a), (m, b)] False = None \<longleftrightarrow> list_ex (\<lambda>e. inside (referenceUri e)) [a, b] \<and>
     (\<forall>e \<in> set [a, b]. inside (referenceUri e) \<longrightarrow> bead_at (referenceUri e))"
  by (simp add: check_None)

end

definition stored_bead :: "store \<Rightarrow> jstring \<Rightarrow> bool" where
  "stored_bead s u \<longleftrightarrow> (case currentState s u None of None \<Rightarrow> False | Some st \<Rightarrow> state_kind st = KBead)"

interpretation stored: endpoint_checker "prefix (ow_scope ow)" "stored_bead s" "endpoint_loop ow s"
  by unfold_locales (auto simp: stored_bead_def split: option.splits)

section \<open>Completion of a transition\<close>

type_synonym history = "((jstring \<times> jstring) \<times> bool) option"

definition terminal_of :: "owner \<Rightarrow> verb \<Rightarrow> resource_state \<Rightarrow> jstring \<Rightarrow> jstring option" where
  "terminal_of ow verb state token =
     (if ow_historical ow \<and> state_kind state = KBead \<and> verb = VDelete then Some token else None)"

definition fact_of :: "json_object \<Rightarrow> jstring option \<Rightarrow> resource_state \<Rightarrow> json_object" where
  "fact_of lifecycle terminal state = (case terminal of
     None \<Rightarrow> lifecycle
   | Some t \<Rightarrow> obj_spread lifecycle
       [(js ''revision'', JStr t), (js ''previousRevision'', JStr (bead_revision (state_resource state)))])"

definition stage_resource :: "verb \<Rightarrow> bool \<Rightarrow> resource_state \<Rightarrow> store \<Rightarrow> store result" where
  "stage_resource verb recovering state s =
     (let i = bead_id (state_resource state) in
      case verb of
        VCreate \<Rightarrow> bindR (insert_identity i (state_kind state) s) (insert_resource i state)
      | VUpdate \<Rightarrow> if recovering then insert_resource i state s else Inr (update_resource i state s)
      | VDelete \<Rightarrow> Inr (delete_resource i s))"

definition stage_version :: "owner \<Rightarrow> resource_state \<Rightarrow> jstring option \<Rightarrow> history \<Rightarrow> nat \<Rightarrow> store \<Rightarrow> store result" where
  "stage_version ow state terminal hist position s =
     (if ow_historical ow \<and> state_kind state = KBead then
        let b = state_resource state in
        insert_version
          \<lparr> hv_id = bead_id b, hv_revision = (case terminal of Some t \<Rightarrow> t | None \<Rightarrow> bead_revision b),
            hv_body = (case terminal of
              Some t \<Rightarrow> VTerminal (bead_id b) t (bead_revision b) | None \<Rightarrow> VLive b (map_option fst hist)),
            hv_position = position \<rparr> s
      else Inr s)"

definition complete ::
  "owner \<Rightarrow> (nat \<Rightarrow> jstring) \<Rightarrow> verb \<Rightarrow> resource_state \<Rightarrow> resource_state option \<Rightarrow> jstring \<Rightarrow> jstring \<Rightarrow> history \<Rightarrow> store \<Rightarrow> executed" where
  "complete ow ids verb state former time text hist s =
     (let position = Suc (head s); i = bead_id (state_resource state) in
      if max_safe < position then Inl (PlainError ''event ordering capacity unavailable'')
      else
        bindR (lifecycleFact verb state (nav_events (ow_nav ow)) (ids 0) (ids 1) time
          (case hist of Some ((f, p), r) \<Rightarrow> Some p | None \<Rightarrow> map_option (bead_revision \<circ> state_resource) former)) (\<lambda>lifecycle.
          let terminal = terminal_of ow verb state (ids 2); fact = fact_of lifecycle terminal state in
          if byte_length text > 262144 \<or> byte_length (serialized (JObj fact)) > 300000 then refuse too_large s
          else
            bindR (stage_resource verb (case hist of Some (c, r) \<Rightarrow> r | None \<Rightarrow> False) state s) (\<lambda>s1.
            bindR (insert_event position i fact s1) (\<lambda>s2.
            bindR (stage_version ow state terminal hist position s2) (\<lambda>s3.
            bindR (foldR (insert_incidence position)
              (incidentBeads (ow_scope ow) [former, if verb = VDelete then None else Some state]) s3) (\<lambda>s4.
            bindR (insert_boundary position (ids (if terminal = None then 2 else 3)) s4) (\<lambda>s5.
              Inr ((200, text), Some position, s5))))))))"

section \<open>Creation\<close>

record create_fields =
  cf_id :: "jstring option"
  cf_type :: json
  cf_properties :: json_object
  cf_metadata :: json_object
  cf_provenance :: "json_object option"
  cf_source :: "endpoint option"
  cf_target :: "endpoint option"
  cf_refusal :: "json_object option"

text \<open>The allocation loop: at most 32 collisions.\<close>

fun allocate_id :: "owner \<Rightarrow> store \<Rightarrow> (nat \<Rightarrow> jstring) \<Rightarrow> nat \<Rightarrow> nat \<Rightarrow> (jstring \<times> nat) result" where
  "allocate_id ow s ids i remaining =
     (let ident = ow_scope ow @ ids i in
      if has_identity s ident \<or> has_alias s ident \<or> isReserved ow ident
      then case remaining of
             0 \<Rightarrow> Inl (RequestError (js ''temporarily-unavailable'') 503 (js ''after-delay''))
           | Suc r \<Rightarrow> allocate_id ow s ids (Suc i) r
      else Inr (ident, Suc i))"

declare allocate_id.simps [simp del]

definition performCreate :: "owner \<Rightarrow> supplied \<Rightarrow> resource_kind \<Rightarrow> create_fields \<Rightarrow> store \<Rightarrow> executed" where
  "performCreate ow su kind input s =
     (case cf_refusal input of
        Some r \<Rightarrow> refuse r s
      | None \<Rightarrow>
          bindR (case cf_id input of Some u \<Rightarrow> Inr (u, 0) | None \<Rightarrow> allocate_id ow s (su_ids su) 0 32) (\<lambda>(ident, n).
            if has_identity s ident \<or> isReserved ow ident then refuse (problem ''identity-taken'' 409 ''never'') s
            else if has_alias s ident then refuse (problem ''alias-path-taken'' 409 ''after-state-change'') s
            else
              bindR (owner_now su 0) (\<lambda>ms.
              let time = iso_time ms in
              bindR (resourceState kind
                (materializeBead (cf_type input) (cf_properties input) (cf_metadata input) (cf_provenance input)
                  ident (su_ids su n) time) (cf_source input) (cf_target input)) (\<lambda>state.
                case endpointRefusal ow s state of
                  Some r \<Rightarrow> refuse r s
                | None \<Rightarrow>
                    complete ow (\<lambda>k. su_ids su (Suc n + k)) VCreate state None time
                      (serialized (JObj [(js ''outcome'', JStr (js ''created'')), (js ''changed'', JBool True),
                        (js ''resource'', resource_json state)])) None s))))"

section \<open>Update\<close>

record edit_fields =
  ef_type :: "json option"
  ef_properties :: "json_object option"
  ef_metadata :: "json_object option"
  ef_propertiesChange :: "edit list option"
  ef_metadataChange :: "edit list option"
  ef_expectedRevision :: "jstring option"
  ef_fromRevision :: "jstring option"
  ef_provenance :: "json_object option"
  ef_source :: "endpoint option"
  ef_target :: "endpoint option"
  ef_refusal :: "json_object option"

text \<open>The version of a revision, or the version of the greatest position.\<close>

definition latest_version :: "version_row list \<Rightarrow> version_row option" where
  "latest_version vs = (case vs of
     [] \<Rightarrow> None | v # ws \<Rightarrow> Some (foldl (\<lambda>a b. if hv_position a < hv_position b then b else a) v ws))"

definition historicalVersion :: "owner \<Rightarrow> store \<Rightarrow> jstring \<Rightarrow> jstring option \<Rightarrow> version_body option" where
  "historicalVersion ow s i revision =
     (if \<not> ow_historical ow then None
      else map_option hv_body (case revision of
        None \<Rightarrow> latest_version (filter (\<lambda>v. hv_id v = i) (st_versions s))
      | Some r \<Rightarrow> List.find (\<lambda>v. hv_id v = i \<and> hv_revision v = r) (st_versions s)))"

definition edited ::
  "json_object option \<Rightarrow> edit list option \<Rightarrow> json_object \<Rightarrow> json_object result" where
  "edited replacement change source = (case replacement of
     Some p \<Rightarrow> Inr p
   | None \<Rightarrow> (case change of None \<Rightarrow> Inr source | Some c \<Rightarrow> applyObjectChange source c))"

definition edit_diagnostic :: "string \<Rightarrow> jstring \<Rightarrow> jstring \<Rightarrow> json_object" where
  "edit_diagnostic document message ptr = invalid_with
     ((if document = ''metadata'' then [(js ''document'', JStr (js document))] else []) @
      [(js ''instanceLocation'', JStr ptr), (js ''message'', JStr (js (document @ '': '') @ message))])"

text \<open>The edited documents, or the refusal of the edit that failed.\<close>

definition edited_documents ::
  "edit_fields \<Rightarrow> bead \<Rightarrow> (json_object + json_object \<times> json_object) result" where
  "edited_documents input source =
     (case edited (ef_properties input) (ef_propertiesChange input) (bead_properties source) of
        Inl (EditFailure m p) \<Rightarrow> Inr (Inl (edit_diagnostic ''properties'' m p))
      | Inl e \<Rightarrow> Inl e
      | Inr properties \<Rightarrow>
          (case edited (ef_metadata input) (ef_metadataChange input) (bead_metadata source) of
             Inl (EditFailure m p) \<Rightarrow> Inr (Inl (edit_diagnostic ''metadata'' m p))
           | Inl e \<Rightarrow> Inl e
           | Inr metadata \<Rightarrow> Inr (Inr (properties, metadata))))"

text \<open>
  The baseline of an update: the live state, or in a historical update the last live version of a
  deleted Bead, with the revision the update succeeds.
\<close>

definition baseline ::
  "owner \<Rightarrow> store \<Rightarrow> resource_kind \<Rightarrow> jstring \<Rightarrow> bool \<Rightarrow> ((resource_state \<times> jstring \<times> bool) option) result" where
  "baseline ow s kind i selected =
     (case currentState s i (Some kind) of
        Some st \<Rightarrow> Inr (Some (st, bead_revision (state_resource st), False))
      | None \<Rightarrow>
          (case (if selected then historicalVersion ow s i None else None) of
             Some (VTerminal t revision previous) \<Rightarrow>
               (case historicalVersion ow s i (Some previous) of
                  Some (VLive b c) \<Rightarrow> Inr (Some (BeadState b, revision, True))
                | _ \<Rightarrow> Inl (PlainError ''historical current baseline index is inconsistent''))
           | _ \<Rightarrow> Inr None))"

text \<open>The version an update takes its documents from.\<close>

definition update_source ::
  "owner \<Rightarrow> store \<Rightarrow> jstring \<Rightarrow> jstring option \<Rightarrow> bead \<Rightarrow> (json_object + bead) result" where
  "update_source ow s i from former = (case from of
     None \<Rightarrow> Inr (Inr former)
   | Some r \<Rightarrow>
       (case historicalVersion ow s i (Some r) of
          None \<Rightarrow>
            if list_ex (\<lambda>e. ev_subject e = i \<and> obj_get (js ''revision'') (ev_body e) = Some (JStr r)) (st_events s)
            then Inl (PlainError ''historical source index is inconsistent'')
            else Inr (Inl (problem ''revision-unknown'' 404 ''after-state-change''))
        | Some (VTerminal t a b) \<Rightarrow>
            Inr (Inl (invalid_message ''Historical Update source must identify a retained live version''))
        | Some (VLive b c) \<Rightarrow> Inr (Inr b)))"

definition capability_refusal :: json_object where
  "capability_refusal = problem ''capability-not-supported'' 422 ''after-state-change'' @
     [(js ''capability'', JStr HISTORICAL_UPDATE_CAPABILITY), (js ''capabilityVersion'', JStr (js ''1'')),
      (js ''pointer'', JStr (js ''/fromRevision''))]"

definition covered_equal :: "resource_state \<Rightarrow> resource_state \<Rightarrow> bool" where
  "covered_equal candidate former =
     (let a = state_resource candidate; b = state_resource former in
      jsonValueEqual (bead_type a) (bead_type b) \<and>
      jsonValueEqual (JObj (bead_properties a)) (JObj (bead_properties b)) \<and>
      jsonValueEqual (JObj (bead_metadata a)) (JObj (bead_metadata b)) \<and>
      (case (candidate, former) of
         (LinkState x src tgt, LinkState y src' tgt') \<Rightarrow>
           jsonValueEqual (endpoint_json src :: json) (endpoint_json src') \<and>
           jsonValueEqual (endpoint_json tgt :: json) (endpoint_json tgt')
       | _ \<Rightarrow> True))"

definition context_json :: "jstring \<times> jstring \<Rightarrow> json" where
  "context_json c = JObj [(js ''fromRevision'', JStr (fst c)), (js ''previousRevision'', JStr (snd c))]"

definition updated_result :: "bool \<Rightarrow> resource_state \<Rightarrow> json" where
  "updated_result changed state = JObj [(js ''outcome'', JStr (js ''updated'')), (js ''changed'', JBool changed),
     (js ''resource'', resource_json state)]"

definition unchanged_text :: "bool \<Rightarrow> version_body option \<Rightarrow> resource_state \<Rightarrow> jstring" where
  "unchanged_text selected current former = serialized
     (if selected
      then JObj ([(js ''result'', updated_result False former)] @
        (case current of Some (VLive b (Some c)) \<Rightarrow> [(js ''historicalUpdate'', context_json c)] | _ \<Rightarrow> []))
      else updated_result False former)"

definition changed_text :: "(jstring \<times> jstring) option \<Rightarrow> resource_state \<Rightarrow> jstring" where
  "changed_text context state = serialized (case context of
     None \<Rightarrow> updated_result True state
   | Some c \<Rightarrow> JObj [(js ''result'', updated_result True state), (js ''historicalUpdate'', context_json c)])"

definition with_documents :: "resource_state \<Rightarrow> edit_fields \<Rightarrow> json_object \<Rightarrow> json_object \<Rightarrow> bead" where
  "with_documents former input properties metadata = (state_resource former)
     \<lparr> bead_type := (case ef_type input of Some t \<Rightarrow> t | None \<Rightarrow> bead_type (state_resource former)),
       bead_properties := properties, bead_metadata := metadata \<rparr>"

definition or_else :: "'a option \<Rightarrow> 'a option \<Rightarrow> 'a option" where
  "or_else a b = (case a of None \<Rightarrow> b | Some x \<Rightarrow> Some x)"

definition update_endpoints :: "resource_state \<Rightarrow> edit_fields \<Rightarrow> endpoint option \<times> endpoint option" where
  "update_endpoints former input = (case former of
     LinkState b src tgt \<Rightarrow> (or_else (ef_source input) (Some src), or_else (ef_target input) (Some tgt))
   | BeadState b \<Rightarrow> (None, None))"

text \<open>The transition of an update whose candidate differs.\<close>

definition commit_update ::
  "owner \<Rightarrow> supplied \<Rightarrow> resource_kind \<Rightarrow> jstring \<Rightarrow> edit_fields \<Rightarrow> resource_state \<Rightarrow> bead \<Rightarrow> jstring \<Rightarrow> bool \<Rightarrow> store \<Rightarrow> executed" where
  "commit_update ow su kind i input former candidate previousRevision recovering s =
     bindR (owner_now su 0) (\<lambda>ms.
     let time = iso_time ms; (source, target) = update_endpoints former input;
         context = map_option (\<lambda>r. (r, previousRevision)) (ef_fromRevision input) in
     bindR (resourceState kind
       (materializeBead (bead_type candidate) (bead_properties candidate) (bead_metadata candidate) (ef_provenance input)
         i (su_ids su 0) time) source target) (\<lambda>state.
       complete ow (\<lambda>k. su_ids su (Suc k)) VUpdate state (Some former) time (changed_text context state)
         (map_option (\<lambda>c. (c, recovering)) context) s))"

text \<open>The steps of an update, from the last to the first: the candidate, its documents, its baseline.\<close>

definition update_candidate ::
  "owner \<Rightarrow> supplied \<Rightarrow> resource_kind \<Rightarrow> jstring \<Rightarrow> edit_fields \<Rightarrow> resource_state \<Rightarrow> jstring \<Rightarrow> bool \<Rightarrow> json_object \<times> json_object \<Rightarrow> store \<Rightarrow> executed" where
  "update_candidate ow su kind i input former previousRevision recovering docs s =
     (let candidate = with_documents former input (fst docs) (snd docs); selected = ef_fromRevision input \<noteq> None in
      bindR (resourceState kind candidate (fst (update_endpoints former input)) (snd (update_endpoints former input))) (\<lambda>cand.
        case endpointRefusal ow s cand of
          Some r \<Rightarrow> refuse r s
        | None \<Rightarrow>
            if \<not> recovering \<and> covered_equal cand former
            then Inr ((200, unchanged_text selected (if selected then historicalVersion ow s i None else None) former), None, s)
            else commit_update ow su kind i input former candidate previousRevision recovering s))"

definition update_edited ::
  "owner \<Rightarrow> supplied \<Rightarrow> resource_kind \<Rightarrow> jstring \<Rightarrow> edit_fields \<Rightarrow> resource_state \<Rightarrow> jstring \<Rightarrow> bool \<Rightarrow> bead \<Rightarrow> store \<Rightarrow> executed" where
  "update_edited ow su kind i input former previousRevision recovering source s =
     (if exceedsEditLimits
           [case ef_propertiesChange input of Some c \<Rightarrow> c | None \<Rightarrow> [],
            case ef_metadataChange input of Some c \<Rightarrow> c | None \<Rightarrow> []]
      then refuse too_large s
      else
        bindR (edited_documents input source) (\<lambda>docs.
          case docs of
            Inl r \<Rightarrow> refuse r s
          | Inr d \<Rightarrow> update_candidate ow su kind i input former previousRevision recovering d s))"

definition update_guarded ::
  "owner \<Rightarrow> supplied \<Rightarrow> resource_kind \<Rightarrow> jstring \<Rightarrow> edit_fields \<Rightarrow> resource_state \<Rightarrow> jstring \<Rightarrow> bool \<Rightarrow> store \<Rightarrow> executed" where
  "update_guarded ow su kind i input former previousRevision recovering s =
     (if ef_expectedRevision input \<noteq> None \<and> ef_expectedRevision input \<noteq> Some previousRevision
      then refuse (problem ''revision-mismatch'' 409 ''after-state-change'') s
      else
        bindR (update_source ow s i (ef_fromRevision input) (state_resource former)) (\<lambda>src.
          case src of
            Inl r \<Rightarrow> refuse r s
          | Inr source \<Rightarrow> update_edited ow su kind i input former previousRevision recovering source s))"

definition performUpdate ::
  "owner \<Rightarrow> supplied \<Rightarrow> resource_kind \<Rightarrow> jstring \<Rightarrow> edit_fields \<Rightarrow> store \<Rightarrow> executed" where
  "performUpdate ow su kind i input s =
     (case ef_refusal input of
        Some r \<Rightarrow> refuse r s
      | None \<Rightarrow>
          let selected = ef_fromRevision input \<noteq> None in
          if selected \<and> \<not> ow_historical ow then refuse capability_refusal s
          else
            bindR (baseline ow s kind i selected) (\<lambda>base.
              case base of
                None \<Rightarrow> refuse not_found s
              | Some (former, previousRevision, recovering) \<Rightarrow>
                  update_guarded ow su kind i input former previousRevision recovering s))"

section \<open>Deletion\<close>

definition incident :: "jstring \<Rightarrow> resource_state \<Rightarrow> bool" where
  "incident i st = list_ex (\<lambda>e. referenceUri e = i) (state_endpoints st)"

definition has_incident_link :: "store \<Rightarrow> jstring \<Rightarrow> bool" where
  "has_incident_link s i =
     list_ex (\<lambda>(j, st). map_of (st_identities s) j = Some KLink \<and> incident i st) (st_resources s)"

definition performDelete ::
  "owner \<Rightarrow> supplied \<Rightarrow> resource_kind \<Rightarrow> jstring \<Rightarrow> jstring option \<Rightarrow> store \<Rightarrow> executed" where
  "performDelete ow su kind i expected s =
     (case currentState s i (Some kind) of
        None \<Rightarrow> refuse not_found s
      | Some former \<Rightarrow>
          if expected \<noteq> None \<and> expected \<noteq> Some (bead_revision (state_resource former))
          then refuse (problem ''revision-mismatch'' 409 ''after-state-change'') s
          else if kind = KBead \<and> has_incident_link s i
          then refuse (problem ''incident-links-exist'' 409 ''after-state-change'') s
          else
            bindR (owner_now su 0) (\<lambda>ms.
              complete ow (su_ids su) VDelete former (Some former) (iso_time ms)
                (serialized (JObj [(js ''outcome'', JStr (js ''deleted'')), (js ''changed'', JBool True),
                  (js ''deleted'', JObj (deletedIdentity former))])) None s))"

end
