(* ===== verification/Store_Turns.thy ===== *)
theory Store_Turns
  imports Store
begin

text \<open>
  The turns of the owner (\<open>openPrivateRetainedStore\<close> of \<open>retained-v01/store.ts\<close>): the public operations
  over decisions, the reads, the pages of events, and the transaction that commits, rolls back or
  fences.
\<close>

section \<open>Beads\<close>

definition create_bead_fields :: "prepared_create \<Rightarrow> create_fields" where
  "create_bead_fields p = \<lparr> cf_id = pc_id p, cf_type = pc_type p, cf_properties = pc_properties p,
     cf_metadata = pc_metadata p, cf_provenance = pc_provenance p, cf_source = None, cf_target = None,
     cf_refusal = pc_refusal p \<rparr>"

definition create_bead :: "owner \<Rightarrow> supplied \<Rightarrow> jstring \<Rightarrow> prepared_create \<Rightarrow> store \<Rightarrow> (response \<times> store) result" where
  "create_bead ow su who p s =
     (if pc_scope p \<noteq> ow_scope ow then Inl (TypeError ''foreign or forged prepared invocation'')
      else decide ow who CreateBead (pc_key p) (pc_captured p)
             (\<lambda>cmp. performCreate ow su KBead (create_bead_fields p)) s)"

definition update_bead_fields :: "prepared_update \<Rightarrow> edit_fields" where
  "update_bead_fields p = \<lparr> ef_type = pu_type p, ef_properties = pu_properties p, ef_metadata = pu_metadata p,
     ef_propertiesChange = pu_propertiesChange p, ef_metadataChange = pu_metadataChange p,
     ef_expectedRevision = pu_expectedRevision p, ef_fromRevision = pu_fromRevision p,
     ef_provenance = pu_provenance p, ef_source = None, ef_target = None, ef_refusal = pu_refusal p \<rparr>"

text \<open>The Bead an invocation resolved to.\<close>

definition on_subject :: "comparison \<Rightarrow> jstring \<Rightarrow> (jstring \<Rightarrow> store \<Rightarrow> executed) \<Rightarrow> store \<Rightarrow> executed" where
  "on_subject cmp given f s = (case map_of (cmp_references cmp) SBead of
     Some (RMissing l p) \<Rightarrow> refuse not_found s
   | Some (RValue (EPin u r)) \<Rightarrow> Inl (PlainError ''prepared Bead subject unexpectedly pinned'')
   | Some (RValue (EUri u)) \<Rightarrow> f u s
   | None \<Rightarrow> f given s)"

definition update_bead :: "owner \<Rightarrow> supplied \<Rightarrow> jstring \<Rightarrow> prepared_update \<Rightarrow> store \<Rightarrow> (response \<times> store) result" where
  "update_bead ow su who p s =
     (if pu_scope p \<noteq> ow_scope ow then Inl (TypeError ''foreign or forged prepared invocation'')
      else decide ow who UpdateBead (pu_key p) (pu_captured p)
             (\<lambda>cmp s. case pu_refusal p of
                Some r \<Rightarrow> refuse r s
              | None \<Rightarrow> on_subject cmp (pu_bead p) (\<lambda>u. performUpdate ow su KBead u (update_bead_fields p)) s) s)"

definition delete_bead :: "owner \<Rightarrow> supplied \<Rightarrow> jstring \<Rightarrow> prepared_delete \<Rightarrow> store \<Rightarrow> (response \<times> store) result" where
  "delete_bead ow su who p s =
     (if pd_scope p \<noteq> ow_scope ow then Inl (TypeError ''foreign or forged prepared invocation'')
      else decide ow who DeleteBead (pd_key p) (pd_captured p)
             (\<lambda>cmp. on_subject cmp (pd_bead p) (\<lambda>u. performDelete ow su KBead u (pd_expectedRevision p))) s)"

section \<open>Links\<close>

definition linkFields :: "prepared_link \<Rightarrow> edit_fields result" where
  "linkFields p =
     (let value = pl_value p in
      bindR (optional_provenance value) (\<lambda>provenance.
        Inr \<lparr> ef_type = obj_get (js ''type'') value, ef_properties = obj_member ''properties'' value,
          ef_metadata = obj_member ''metadata'' value,
          ef_propertiesChange = edit_member_of ''propertiesChange'' value,
          ef_metadataChange = edit_member_of ''metadataChange'' value,
          ef_expectedRevision = str_member ''expectedRevision'' value, ef_fromRevision = None,
          ef_provenance = provenance,
          ef_source = Option.bind (obj_get (js ''source'') value) json_endpoint,
          ef_target = Option.bind (obj_get (js ''target'') value) json_endpoint, ef_refusal = None \<rparr>))"

text \<open>The endpoints through the comparison: \<open>None\<close> for a missing alias.\<close>

definition resolved_endpoint :: "comparison \<Rightarrow> slot \<Rightarrow> endpoint option \<Rightarrow> endpoint option option" where
  "resolved_endpoint cmp n given = (case map_of (cmp_references cmp) n of
     Some (RMissing l p) \<Rightarrow> None
   | Some (RValue r) \<Rightarrow> Some (Some r)
   | None \<Rightarrow> Some given)"

definition create_link_fields :: "prepared_link \<Rightarrow> edit_fields \<Rightarrow> create_fields" where
  "create_link_fields p f = \<lparr> cf_id = str_member ''id'' (pl_value p),
     cf_type = (case obj_get (js ''type'') (pl_value p) of Some t \<Rightarrow> t | None \<Rightarrow> JNull),
     cf_properties = object_member ''properties'' (pl_value p), cf_metadata = object_member ''metadata'' (pl_value p),
     cf_provenance = ef_provenance f, cf_source = ef_source f, cf_target = ef_target f, cf_refusal = None \<rparr>"

definition link_subject :: "prepared_link \<Rightarrow> jstring" where
  "link_subject p = (case str_member ''link'' (pl_value p) of Some u \<Rightarrow> u | None \<Rightarrow> [])"

definition execute_link :: "owner \<Rightarrow> supplied \<Rightarrow> prepared_link \<Rightarrow> operation \<Rightarrow> comparison \<Rightarrow> store \<Rightarrow> executed" where
  "execute_link ow su p operation cmp s =
     (case pl_refusal p of
        Some r \<Rightarrow> refuse r s
      | None \<Rightarrow>
          bindR (linkFields p) (\<lambda>f.
            case (resolved_endpoint cmp SSource (ef_source f), resolved_endpoint cmp STarget (ef_target f)) of
              (Some src, Some tgt) \<Rightarrow>
                (let g = f \<lparr> ef_source := src, ef_target := tgt \<rparr> in
                 case operation of
                   CreateLink \<Rightarrow> performCreate ow su KLink (create_link_fields p g) s
                 | UpdateLink \<Rightarrow> performUpdate ow su KLink (link_subject p) g s
                 | _ \<Rightarrow> performDelete ow su KLink (link_subject p) (ef_expectedRevision g) s)
            | _ \<Rightarrow> refuse not_found s))"

definition applyLink :: "owner \<Rightarrow> supplied \<Rightarrow> jstring \<Rightarrow> prepared_link \<Rightarrow> operation \<Rightarrow> store \<Rightarrow> (response \<times> store) result" where
  "applyLink ow su who p operation s =
     (if pl_scope p \<noteq> ow_scope ow \<or> pl_operation p \<noteq> operation
      then Inl (TypeError ''foreign or forged prepared Link invocation'')
      else decide ow who operation (pl_key p) (pl_captured p) (execute_link ow su p operation) s)"

section \<open>Aliases\<close>

definition alias_target_refusal :: json_object where
  "alias_target_refusal = invalid_message ''alias target must be a canonical in-Scope Bead URL''"

definition delete_alias_turn :: "prepared_alias \<Rightarrow> store \<Rightarrow> executed" where
  "delete_alias_turn p s =
     (if \<not> has_alias s (pa_alias p) then refuse not_found s
      else
        let text = serialized (JObj [(js ''outcome'', JStr (js ''deleted'')), (js ''alias'', JStr (pa_alias p))]) in
        if byte_length text > 262144 then refuse too_large s
        else Inr ((200, text), None, delete_alias (pa_alias p) s))"

definition put_alias_turn :: "owner \<Rightarrow> prepared_alias \<Rightarrow> jstring \<Rightarrow> store \<Rightarrow> executed" where
  "put_alias_turn ow p target s =
     (if \<not> prefix (ow_scope ow) target \<or> has_alias s target then refuse alias_target_refusal s
      else if map_of (st_identities s) target = Some KLink then refuse alias_target_refusal s
      else if currentState s target (Some KBead) = None then refuse not_found s
      else
        let text = serialized (JObj [(js ''outcome'', JStr (js (if has_alias s (pa_alias p) then ''updated'' else ''created''))),
              (js ''alias'', JStr (pa_alias p)), (js ''target'', JStr target)])
        in if byte_length text > 262144 then refuse too_large s
           else bindR (upsert_alias (pa_alias p) target s) (\<lambda>s1. Inr ((200, text), None, s1)))"

definition execute_alias :: "owner \<Rightarrow> prepared_alias \<Rightarrow> operation \<Rightarrow> store \<Rightarrow> executed" where
  "execute_alias ow p operation s =
     (if \<not> ow_contains ow (pa_alias p) then refuse not_found s
      else if operation = PutAlias \<and> (has_identity s (pa_alias p) \<or> isReserved ow (pa_alias p))
      then refuse (problem ''identity-taken'' 409 ''never'') s
      else if operation = DeleteAlias then delete_alias_turn p s
      else case pa_target p of
             Some target \<Rightarrow> put_alias_turn ow p target s
           | None \<Rightarrow> Inl (PlainError ''prepared alias operation mismatch''))"

definition applyAlias :: "owner \<Rightarrow> jstring \<Rightarrow> prepared_alias \<Rightarrow> operation \<Rightarrow> store \<Rightarrow> (response \<times> store) result" where
  "applyAlias ow who p operation s =
     (if pa_scope p \<noteq> ow_scope ow \<or> pa_operation p \<noteq> operation
      then Inl (TypeError ''foreign or forged prepared alias invocation'')
      else decide ow who operation (pa_key p) (pa_captured p) (\<lambda>cmp. execute_alias ow p operation) s)"

section \<open>Reads\<close>

text \<open>Namespace classification; an operand that is no local reference is undefined.\<close>

definition resolveAlias :: "owner \<Rightarrow> jstring \<Rightarrow> store \<Rightarrow> jstring option option" where
  "resolveAlias ow i s = (case canonicalLocalReference (ow_runtime ow) (ow_scope ow) i of
     Inl e \<Rightarrow> None | Inr l \<Rightarrow> aliasLookup ow s l)"

definition resource_bytes :: "resource_state \<Rightarrow> nat" where
  "resource_bytes st = byte_length (serialized (resource_json st))"

definition list_turn :: "resource_state \<Rightarrow> nat \<times> json list \<Rightarrow> (nat \<times> json list) result" where
  "list_turn st acc =
     (let bytes = fst acc + resource_bytes st in
      if bytes > 32 * 1024 * 1024 then Inl limit_exceeded else Inr (bytes, snd acc @ [resource_json st]))"

definition listRecords :: "resource_kind \<Rightarrow> store \<Rightarrow> json list result" where
  "listRecords kind s =
     bindR (foldR list_turn
       (map snd (sort_key fst (filter (\<lambda>(i, st). map_of (st_identities s) i = Some kind) (st_resources s)))) (0, []))
       (\<lambda>acc. Inr (snd acc))"

definition readRecord :: "jstring \<Rightarrow> store \<Rightarrow> (resource_kind \<times> jstring) option" where
  "readRecord i s = (case (map_of (st_resources s) i, map_of (st_identities s) i) of
     (Some st, Some k) \<Rightarrow> Some (k, serialized (resource_json st)) | _ \<Rightarrow> None)"

definition read_body :: "jstring \<Rightarrow> store \<Rightarrow> jstring option" where
  "read_body i s = map_option (\<lambda>st. serialized (resource_json st)) (map_of (st_resources s) i)"

section \<open>Events\<close>

definition saveCursor ::
  "supplied \<Rightarrow> jstring \<Rightarrow> nat \<Rightarrow> jstring \<Rightarrow> jstring \<Rightarrow> jstring \<Rightarrow> nat \<Rightarrow> nat \<Rightarrow> nat \<Rightarrow> cursor_mode \<Rightarrow> store \<Rightarrow> store result" where
  "saveCursor su token tick who source subject after through limit mode s =
     bindR (owner_now su tick) (\<lambda>ms.
       insert_cursor \<lparr> cu_token = token, cu_principal = who, cu_source = source, cu_subject = subject,
         cu_after = after, cu_through = through, cu_limit = limit, cu_mode = mode,
         cu_expires = ms + minimum_cursor_seconds * 1000 \<rparr> s)"

definition event_selected :: "store \<Rightarrow> jstring \<Rightarrow> event_row \<Rightarrow> bool" where
  "event_selected s subject e \<longleftrightarrow>
     subject = [] \<or> ev_subject e = subject \<or> (ev_position e, subject) \<in> set (st_incidence s)"

definition event_rows :: "store \<Rightarrow> jstring \<Rightarrow> nat \<Rightarrow> nat \<Rightarrow> event_row list" where
  "event_rows s subject after through =
     sort_key ev_position
       (filter (\<lambda>e. after < ev_position e \<and> ev_position e \<le> through \<and> event_selected s subject e) (st_events s))"

text \<open>
  The page of a selection.  The answer carries the token of the next page; the code writes it with the
  representation and the limit into the query of the source URL.
\<close>

record event_page =
  pg_source :: jstring
  pg_subject :: jstring
  pg_start :: jstring
  pg_through :: jstring
  pg_events :: "json_object list"
  pg_cursor :: jstring
  pg_next :: "jstring option"

text \<open>The interval a selection reads and the clock readings it has used.\<close>

definition event_window ::
  "supplied \<Rightarrow> jstring \<Rightarrow> jstring \<Rightarrow> jstring \<Rightarrow> event_selection \<Rightarrow> store \<Rightarrow> (nat \<times> nat \<times> nat) result" where
  "event_window su who source subject sel s =
     (case sel_after sel of
        None \<Rightarrow> Inr (if sel_from sel = Some FromNow then head s else 0, head s, 0)
      | Some token \<Rightarrow>
          (case List.find (\<lambda>c. cu_token c = token) (st_cursors s) of
             None \<Rightarrow> Inl (RequestError (js ''foreign-view'') 409 (js ''after-state-change''))
           | Some c \<Rightarrow>
               if cu_principal c \<noteq> who \<or> cu_source c \<noteq> source \<or> cu_subject c \<noteq> subject \<or> cu_limit c \<noteq> sel_limit sel
               then Inl (RequestError (js ''foreign-view'') 409 (js ''after-state-change''))
               else bindR (owner_now su 0) (\<lambda>ms.
                      if cu_expires c \<le> ms
                      then Inl (RequestError (js ''cursor-expired'') 410 (js ''after-state-change''))
                      else Inr (cu_after c, if cu_mode c = NextPage then cu_through c else head s, 1))))"

definition read_events ::
  "supplied \<Rightarrow> jstring \<Rightarrow> jstring \<Rightarrow> jstring \<Rightarrow> event_selection \<Rightarrow> store \<Rightarrow> (event_page \<times> store) result" where
  "read_events su who source subject sel s =
     (if subject \<noteq> [] \<and> \<not> has_identity s subject
      then Inl (RequestError (js ''resource-not-found'') 404 (js ''after-state-change''))
      else
        bindR (event_window su who source subject sel s) (\<lambda>(after, through, tick).
          let rows = take (Suc (sel_limit sel)) (event_rows s subject after through);
              overflow = length rows > sel_limit sel;
              selected = take (sel_limit sel) rows;
              scanned = (if overflow then ev_position (last selected) else through) in
          bindR (saveCursor su (su_ids su 0) tick who source subject scanned through (sel_limit sel) Resume s) (\<lambda>s1.
          bindR (if overflow
                 then saveCursor su (su_ids su 1) (Suc tick) who source subject scanned through (sel_limit sel) NextPage s1
                 else Inr s1) (\<lambda>s2.
          bindR (boundary s2 0) (\<lambda>start.
          bindR (boundary s2 through) (\<lambda>end.
            Inr (\<lparr> pg_source = source, pg_subject = subject, pg_start = start, pg_through = end,
                   pg_events = map (\<lambda>e. obj_spread (ev_body e) [(js ''source'', JStr source)]) selected,
                   pg_cursor = su_ids su 0, pg_next = (if overflow then Some (su_ids su 1) else None) \<rparr>, s2)))))))"

section \<open>Transactions\<close>

text \<open>
  A session of the owner.  A turn of a fenced or closed session fails; an error of the turn rolls back
  and leaves the tables as they were; an error with a code that is not a request error, here a
  violated constraint, fences the session.  The failure of \<open>COMMIT\<close> or \<open>ROLLBACK\<close> itself is an input.
\<close>

record session =
  ss_store :: store
  ss_fenced :: bool
  ss_closed :: bool

fun has_code :: "js_error \<Rightarrow> bool" where
  "has_code (SqlError m) = True"
| "has_code _ = False"

definition transaction ::
  "bool \<Rightarrow> (store \<Rightarrow> ('a \<times> store) result) \<Rightarrow> session \<Rightarrow> 'a result \<times> session" where
  "transaction commits callback ss =
     (if ss_closed ss \<or> ss_fenced ss then (Inl (PlainError ''store closed, fenced or nested''), ss)
      else case callback (ss_store ss) of
             Inr (r, s) \<Rightarrow>
               if commits then (Inr r, ss \<lparr> ss_store := s \<rparr>)
               else (Inl (SqlError ''COMMIT''), ss \<lparr> ss_fenced := True \<rparr>)
           | Inl e \<Rightarrow> (Inl e, ss \<lparr> ss_fenced := has_code e \<rparr>))"

end
