(* ===== verification/Store_Laws.thy ===== *)
theory Store_Laws
  imports Store_Turns
begin

text \<open>
  What the statements and the completion of a transition do to the tables: the equations of each
  insert, the abstract transition \<open>committed\<close> that \<open>complete\<close> refines, and the outcome of every
  operation in terms of it.
\<close>

named_theorems row_laws

section \<open>Statements\<close>

lemma insert_row_Inr [row_laws]:
  "insert_row n k v t = Inr t' \<longleftrightarrow> map_of t k = None \<and> t' = AList.update k v t"
  by (auto simp: insert_row_def)

lemma insert_identity_Inr [row_laws]:
  "insert_identity i k s = Inr s' \<longleftrightarrow>
     \<not> has_identity s i \<and> s' = s \<lparr> st_identities := AList.update i k (st_identities s) \<rparr>"
  by (auto simp: insert_identity_def row_laws has_identity_def)

lemma insert_resource_Inr [row_laws]:
  "insert_resource i r s = Inr s' \<longleftrightarrow>
     has_identity s i \<and> map_of (st_resources s) i = None \<and>
     s' = s \<lparr> st_resources := AList.update i r (st_resources s) \<rparr>"
  by (auto simp: insert_resource_def row_laws)

lemma insert_event_Inr [row_laws]:
  "insert_event p subject body s = Inr s' \<longleftrightarrow> \<not> event_at s p \<and> has_identity s subject \<and>
     s' = s \<lparr> st_events := st_events s @ [\<lparr> ev_position = p, ev_subject = subject, ev_body = body \<rparr>] \<rparr>"
  by (auto simp: insert_event_def)

lemma insert_incidence_Inr [row_laws]:
  "insert_incidence p b s = Inr s' \<longleftrightarrow> (p, b) \<notin> set (st_incidence s) \<and> event_at s p \<and> has_identity s b \<and>
     s' = s \<lparr> st_incidence := st_incidence s @ [(p, b)] \<rparr>"
  by (auto simp: insert_incidence_def)

lemma insert_boundary_Inr [row_laws]:
  "insert_boundary p t s = Inr s' \<longleftrightarrow> p \<notin> fst ` set (st_boundaries s) \<and> t \<notin> snd ` set (st_boundaries s) \<and>
     s' = s \<lparr> st_boundaries := st_boundaries s @ [(p, t)] \<rparr>"
  by (auto simp: insert_boundary_def)

lemma insert_version_Inr [row_laws]:
  "insert_version v s = Inr s' \<longleftrightarrow>
     \<not> list_ex (\<lambda>w. hv_id w = hv_id v \<and> hv_revision w = hv_revision v \<or> hv_position w = hv_position v) (st_versions s) \<and>
     has_identity s (hv_id v) \<and> event_at s (hv_position v) \<and> s' = s \<lparr> st_versions := st_versions s @ [v] \<rparr>"
  by (auto simp: insert_version_def)

lemma insert_fact_Inr [row_laws]:
  "insert_fact d p s = Inr s' \<longleftrightarrow> p \<notin> snd ` set (st_facts s) \<and> event_at s p \<and> d \<in> set (map oc_decision (st_outcomes s)) \<and>
     s' = s \<lparr> st_facts := st_facts s @ [(d, p)] \<rparr>"
  by (auto simp: insert_fact_def)

lemma insert_cursor_Inr [row_laws]:
  "insert_cursor c s = Inr s' \<longleftrightarrow> cu_token c \<notin> set (map cu_token (st_cursors s)) \<and>
     s' = s \<lparr> st_cursors := st_cursors s @ [c] \<rparr>"
  by (auto simp: insert_cursor_def)

lemma insert_outcome_Inr [row_laws]:
  "insert_outcome c s = Inr s' \<longleftrightarrow>
     \<not> list_ex (\<lambda>d. oc_decision d = oc_decision c \<or> (oc_principal d = oc_principal c \<and> oc_key d = oc_key c) \<or>
           (oc_position c \<noteq> None \<and> oc_position d = oc_position c)) (st_outcomes s) \<and> oc_decision c \<noteq> 0 \<and>
     (\<forall>p. oc_position c = Some p \<longrightarrow> event_at s p) \<and> s' = s \<lparr> st_outcomes := st_outcomes s @ [c] \<rparr>"
  by (auto simp: insert_outcome_def split: option.splits)

lemma has_identity_simps [simp]:
  "has_identity (s \<lparr> st_resources := x1 \<rparr>) i = has_identity s i"
  "has_identity (s \<lparr> st_aliases := x2 \<rparr>) i = has_identity s i"
  "has_identity (s \<lparr> st_events := x3 \<rparr>) i = has_identity s i"
  "has_identity (s \<lparr> st_incidence := x4 \<rparr>) i = has_identity s i"
  "has_identity (s \<lparr> st_versions := x5 \<rparr>) i = has_identity s i"
  "has_identity (s \<lparr> st_boundaries := x6 \<rparr>) i = has_identity s i"
  by (simp_all add: has_identity_def)

lemma event_at_simps [simp]:
  "event_at (s \<lparr> st_resources := x1 \<rparr>) p = event_at s p"
  "event_at (s \<lparr> st_identities := x2 \<rparr>) p = event_at s p"
  "event_at (s \<lparr> st_incidence := x3 \<rparr>) p = event_at s p"
  "event_at (s \<lparr> st_versions := x4 \<rparr>) p = event_at s p"
  "event_at (s \<lparr> st_boundaries := x5 \<rparr>) p = event_at s p"
  "event_at (s \<lparr> st_outcomes := x6 \<rparr>) p = event_at s p"
  by (simp_all add: event_at_def)

lemma fold_incidence:
  "foldR (insert_incidence p) bs s = Inr s' \<longleftrightarrow>
     distinct bs \<and> (\<forall>b \<in> set bs. (p, b) \<notin> set (st_incidence s) \<and> has_identity s b) \<and> (bs \<noteq> [] \<longrightarrow> event_at s p) \<and>
     s' = s \<lparr> st_incidence := st_incidence s @ map (Pair p) bs \<rparr>"
proof (induction bs arbitrary: s)
  case (Cons b bs)
  show ?case by (auto simp: row_laws Cons.IH)
qed auto

section \<open>The abstract transition\<close>

text \<open>
  A transition writes the tables of identities and resources, one event with its incidence and
  boundary, and at most one historical version.
\<close>

definition staged_identities :: "verb \<Rightarrow> resource_state \<Rightarrow> store \<Rightarrow> (jstring, resource_kind) table" where
  "staged_identities verb state s =
     (if verb = VCreate then AList.update (bead_id (state_resource state)) (state_kind state) (st_identities s)
      else st_identities s)"

definition staged_resources :: "verb \<Rightarrow> resource_state \<Rightarrow> store \<Rightarrow> (jstring, resource_state) table" where
  "staged_resources verb state s =
     (if verb = VDelete then AList.delete (bead_id (state_resource state)) (st_resources s)
      else AList.update (bead_id (state_resource state)) state (st_resources s))"

definition committed ::
  "verb \<Rightarrow> resource_state \<Rightarrow> json_object \<Rightarrow> jstring list \<Rightarrow> jstring \<Rightarrow> version_row list \<Rightarrow> store \<Rightarrow> store" where
  "committed verb state body beads token vs s = s \<lparr>
     st_identities := staged_identities verb state s,
     st_resources := staged_resources verb state s,
     st_events := st_events s @ [\<lparr> ev_position = Suc (head s), ev_subject = bead_id (state_resource state), ev_body = body \<rparr>],
     st_incidence := st_incidence s @ map (Pair (Suc (head s))) beads,
     st_boundaries := st_boundaries s @ [(Suc (head s), token)],
     st_versions := st_versions s @ vs \<rparr>"

definition version_rows :: "owner \<Rightarrow> resource_state \<Rightarrow> jstring option \<Rightarrow> history \<Rightarrow> nat \<Rightarrow> version_row list" where
  "version_rows ow state terminal hist position =
     (if ow_historical ow \<and> state_kind state = KBead then
        let b = state_resource state in
        [\<lparr> hv_id = bead_id b, hv_revision = (case terminal of Some t \<Rightarrow> t | None \<Rightarrow> bead_revision b),
           hv_body = (case terminal of Some t \<Rightarrow> VTerminal (bead_id b) t (bead_revision b) | None \<Rightarrow> VLive b (map_option fst hist)),
           hv_position = position \<rparr>]
      else [])"

lemma stage_version_Inr:
  "stage_version ow state terminal hist p s = Inr s' \<Longrightarrow>
     s' = s \<lparr> st_versions := st_versions s @ version_rows ow state terminal hist p \<rparr>"
  by (auto simp: stage_version_def version_rows_def row_laws Let_def split: if_splits)

text \<open>The resource of an update is live, or, in a recovery, it is not.\<close>

definition update_target :: "verb \<Rightarrow> history \<Rightarrow> resource_state \<Rightarrow> store \<Rightarrow> bool" where
  "update_target verb hist state s \<longleftrightarrow> verb = VUpdate \<longrightarrow>
     (case hist of Some (c, r) \<Rightarrow> r | None \<Rightarrow> False) \<or> map_of (st_resources s) (bead_id (state_resource state)) \<noteq> None"

lemma stage_resource_Inr:
  assumes "stage_resource verb r state s = Inr s'"
    "verb = VUpdate \<longrightarrow> r \<or> map_of (st_resources s) (bead_id (state_resource state)) \<noteq> None"
  shows "s' = s \<lparr> st_identities := staged_identities verb state s, st_resources := staged_resources verb state s \<rparr>"
  using assms
  by (cases verb)
    (auto simp: stage_resource_def staged_identities_def staged_resources_def row_laws update_resource_def
      delete_resource_def Let_def split: if_splits)

abbreviation recovers :: "history \<Rightarrow> bool" where
  "recovers hist \<equiv> (case hist of Some (c, r) \<Rightarrow> r | None \<Rightarrow> False)"

definition next_beads :: "owner \<Rightarrow> verb \<Rightarrow> resource_state \<Rightarrow> resource_state option \<Rightarrow> jstring list" where
  "next_beads ow verb state former = incidentBeads (ow_scope ow) [former, if verb = VDelete then None else Some state]"

text \<open>\<open>complete\<close> refuses, leaving the tables alone, or performs the abstract transition.\<close>

lemma complete_Inr:
  assumes "complete ow ids verb state former time text hist s = Inr (r, pos, s')" "update_target verb hist state s"
  shows "r = refusal too_large \<and> pos = None \<and> s' = s \<or>
    (\<exists>lifecycle. r = (200, text) \<and> pos = Some (Suc (head s)) \<and> Suc (head s) \<le> max_safe \<and>
      byte_length text \<le> 262144 \<and>
      lifecycleFact verb state (nav_events (ow_nav ow)) (ids 0) (ids 1) time
          (case hist of Some ((f, p), r) \<Rightarrow> Some p | None \<Rightarrow> map_option (bead_revision \<circ> state_resource) former) = Inr lifecycle \<and>
      s' = committed verb state (fact_of lifecycle (terminal_of ow verb state (ids 2)) state)
        (next_beads ow verb state former) (ids (if terminal_of ow verb state (ids 2) = None then 2 else 3))
        (version_rows ow state (terminal_of ow verb state (ids 2)) hist (Suc (head s))) s)"
proof -
  let ?p = "Suc (head s)"
  let ?t = "terminal_of ow verb state (ids 2)"
  from assms(1) have safe: "\<not> max_safe < ?p" by (auto simp: complete_def Let_def split: if_splits)
  from assms(1) safe obtain lifecycle where l: "lifecycleFact verb state (nav_events (ow_nav ow)) (ids 0) (ids 1) time
      (case hist of Some ((f, p), r) \<Rightarrow> Some p | None \<Rightarrow> map_option (bead_revision \<circ> state_resource) former) = Inr lifecycle"
    by (auto simp: complete_def Let_def)
  let ?big = "byte_length text > 262144 \<or> byte_length (serialized (JObj (fact_of lifecycle ?t state))) > 300000"
  show ?thesis
  proof (cases ?big)
    case True
    have "complete ow ids verb state former time text hist s = refuse too_large s"
      unfolding complete_def Let_def l bindR.simps if_not_P [OF safe] if_P [OF True] ..
    with assms(1) show ?thesis by (simp add: refuse_def)
  next
    case False
    from assms(1) have c: "bindR (stage_resource verb (recovers hist) state s) (\<lambda>s1.
        bindR (insert_event ?p (bead_id (state_resource state)) (fact_of lifecycle ?t state) s1) (\<lambda>s2.
        bindR (stage_version ow state ?t hist ?p s2) (\<lambda>s3.
        bindR (foldR (insert_incidence ?p) (next_beads ow verb state former) s3) (\<lambda>s4.
        bindR (insert_boundary ?p (ids (if ?t = None then 2 else 3)) s4) (\<lambda>s5.
          Inr ((200, text), Some ?p, s5)))))) = Inr (r, pos, s')"
      unfolding complete_def Let_def l bindR.simps if_not_P [OF safe] if_not_P [OF False] next_beads_def .
    then obtain s1 s2 s3 s4 where s: "stage_resource verb (recovers hist) state s = Inr s1"
      "insert_event ?p (bead_id (state_resource state)) (fact_of lifecycle ?t state) s1 = Inr s2"
      "stage_version ow state ?t hist ?p s2 = Inr s3"
      "foldR (insert_incidence ?p) (next_beads ow verb state former) s3 = Inr s4"
      "insert_boundary ?p (ids (if ?t = None then 2 else 3)) s4 = Inr s'" "r = (200, text)" "pos = Some ?p"
      by auto
    have s1: "s1 = s \<lparr> st_identities := staged_identities verb state s, st_resources := staged_resources verb state s \<rparr>"
      using stage_resource_Inr [OF s(1)] assms(2) by (simp add: update_target_def)
    have "s' = committed verb state (fact_of lifecycle ?t state) (next_beads ow verb state former)
        (ids (if ?t = None then 2 else 3)) (version_rows ow state ?t hist ?p) s"
      using s(2,4,5) stage_version_Inr [OF s(3)] unfolding row_laws fold_incidence committed_def s1 by simp
    then show ?thesis using s(6,7) l safe False by auto
  qed
qed

end
