(* ===== verification/Store_Invariant.thy ===== *)
theory Store_Invariant
  imports Store_Laws
begin

text \<open>
  The invariant of the store and the proof that an admissible transition keeps it: identities are
  permanent, links have live endpoints, aliases and identities are disjoint, events are numbered
  without a gap, every event has its boundary and every version its event.
\<close>

section \<open>The invariant\<close>

definition live_bead :: "store \<Rightarrow> jstring \<Rightarrow> bool" where
  "live_bead s u \<longleftrightarrow> (\<exists>b. map_of (st_resources s) u = Some (BeadState b))"

definition resources_ok :: "store \<Rightarrow> bool" where
  "resources_ok s \<longleftrightarrow> table_ok (st_identities s) \<and> table_ok (st_resources s) \<and>
     (\<forall>i st. map_of (st_resources s) i = Some st \<longrightarrow>
        map_of (st_identities s) i = Some (state_kind st) \<and> bead_id (state_resource st) = i \<and>
        bead_revision (state_resource st) \<noteq> [])"

definition endpoints_ok :: "owner \<Rightarrow> store \<Rightarrow> resource_state \<Rightarrow> bool" where
  "endpoints_ok ow s st \<longleftrightarrow>
     (state_kind st = KLink \<longrightarrow> list_ex (\<lambda>e. prefix (ow_scope ow) (referenceUri e)) (state_endpoints st)) \<and>
     (\<forall>e \<in> set (state_endpoints st). prefix (ow_scope ow) (referenceUri e) \<longrightarrow> live_bead s (referenceUri e))"

definition links_ok :: "owner \<Rightarrow> store \<Rightarrow> bool" where
  "links_ok ow s \<longleftrightarrow> (\<forall>i st. map_of (st_resources s) i = Some st \<longrightarrow> endpoints_ok ow s st)"

definition aliases_ok :: "owner \<Rightarrow> store \<Rightarrow> bool" where
  "aliases_ok ow s \<longleftrightarrow> table_ok (st_aliases s) \<and>
     (\<forall>l t. map_of (st_aliases s) l = Some t \<longrightarrow>
        \<not> has_identity s l \<and> ow_contains ow l \<and> \<not> isReserved ow l \<and> map_of (st_identities s) t = Some KBead)"

definition identities_ok :: "owner \<Rightarrow> store \<Rightarrow> bool" where
  "identities_ok ow s \<longleftrightarrow> (\<forall>i. has_identity s i \<longrightarrow>
     canonicalCreatedId (ow_runtime ow) (ow_scope ow) i = Inr i \<and> \<not> isReserved ow i)"

definition events_ok :: "store \<Rightarrow> bool" where
  "events_ok s \<longleftrightarrow> map ev_position (st_events s) = [1..<Suc (length (st_events s))] \<and>
     (\<forall>e \<in> set (st_events s). has_identity s (ev_subject e)) \<and>
     (\<forall>(p, b) \<in> set (st_incidence s). p \<le> length (st_events s) \<and> has_identity s b)"

definition boundaries_ok :: "store \<Rightarrow> bool" where
  "boundaries_ok s \<longleftrightarrow> map fst (st_boundaries s) = [0..<Suc (length (st_events s))] \<and> distinct (map snd (st_boundaries s))"

definition versions_ok :: "store \<Rightarrow> bool" where
  "versions_ok s \<longleftrightarrow> distinct (map (\<lambda>v. (hv_id v, hv_revision v)) (st_versions s)) \<and> distinct (map hv_position (st_versions s)) \<and>
     (\<forall>v \<in> set (st_versions s). hv_position v \<le> length (st_events s) \<and> map_of (st_identities s) (hv_id v) = Some KBead \<and>
        (\<forall>b c. hv_body v = VLive b c \<longrightarrow> bead_id b = hv_id v))"

text \<open>
  The historical index: versions in the order of their positions, for every Bead a last version that is
  its live state or the terminal of its deletion, and for every event of a Bead the version of its
  revision.
\<close>

definition version_shape :: "version_row \<Rightarrow> bool" where
  "version_shape v \<longleftrightarrow> hv_revision v \<noteq> [] \<and> (case hv_body v of
     VLive b c \<Rightarrow> bead_id b = hv_id v \<and> bead_revision b = hv_revision v
   | VTerminal i r p \<Rightarrow> i = hv_id v \<and> r = hv_revision v)"

definition versions_of :: "store \<Rightarrow> jstring \<Rightarrow> version_row list" where
  "versions_of s i = filter (\<lambda>v. hv_id v = i) (st_versions s)"

definition indexed_bead :: "store \<Rightarrow> jstring \<Rightarrow> bool" where
  "indexed_bead s i \<longleftrightarrow> versions_of s i \<noteq> [] \<and> (case map_of (st_resources s) i of
     Some st \<Rightarrow> \<exists>c. hv_body (last (versions_of s i)) = VLive (state_resource st) c
   | None \<Rightarrow> \<exists>j r p. hv_body (last (versions_of s i)) = VTerminal j r p)"

definition terminal_ok :: "store \<Rightarrow> version_row \<Rightarrow> bool" where
  "terminal_ok s v \<longleftrightarrow> (\<forall>i r p. hv_body v = VTerminal i r p \<longrightarrow>
     (\<exists>w \<in> set (st_versions s). hv_id w = hv_id v \<and> hv_revision w = p \<and> (\<exists>b c. hv_body w = VLive b c)))"

definition event_indexed :: "store \<Rightarrow> event_row \<Rightarrow> bool" where
  "event_indexed s e \<longleftrightarrow> map_of (st_identities s) (ev_subject e) = Some KBead \<longrightarrow>
     (\<exists>v \<in> set (st_versions s). hv_id v = ev_subject e \<and> hv_position v = ev_position e \<and>
        obj_get (js ''revision'') (ev_body e) = Some (JStr (hv_revision v)))"

definition history_ok :: "owner \<Rightarrow> store \<Rightarrow> bool" where
  "history_ok ow s \<longleftrightarrow> ow_historical ow \<longrightarrow>
     sorted_wrt (<) (map hv_position (st_versions s)) \<and>
     (\<forall>v \<in> set (st_versions s). version_shape v \<and> terminal_ok s v) \<and>
     (\<forall>i. map_of (st_identities s) i = Some KBead \<longrightarrow> indexed_bead s i) \<and>
     (\<forall>e \<in> set (st_events s). event_indexed s e)"

lemmas history_defs = history_ok_def terminal_ok_def indexed_bead_def versions_of_def event_indexed_def

definition base_inv :: "owner \<Rightarrow> store \<Rightarrow> bool" where
  "base_inv ow s \<longleftrightarrow> resources_ok s \<and> links_ok ow s \<and> aliases_ok ow s \<and> identities_ok ow s \<and> events_ok s \<and>
     boundaries_ok s \<and> versions_ok s \<and> history_ok ow s"

lemma base_invD:
  assumes "base_inv ow s"
  shows "resources_ok s" "links_ok ow s" "aliases_ok ow s" "identities_ok ow s" "events_ok s" "boundaries_ok s"
    "versions_ok s" "history_ok ow s"
  using assms by (simp_all add: base_inv_def)

section \<open>Positions\<close>

lemma head_length: "events_ok s \<Longrightarrow> head s = length (st_events s)"
proof -
  assume "events_ok s"
  then have m: "map ev_position (st_events s) = [1..<Suc (length (st_events s))]" by (simp add: events_ok_def)
  have "fold max [1..<Suc n] 0 = n" for n :: nat by (induction n) simp_all
  then show ?thesis unfolding head_def m by blast
qed

lemma event_at_iff: "events_ok s \<Longrightarrow> event_at s p \<longleftrightarrow> 1 \<le> p \<and> p \<le> length (st_events s)"
  unfolding events_ok_def event_at_def by auto

lemma boundary_positions: "boundaries_ok s \<Longrightarrow> fst ` set (st_boundaries s) = {0..length (st_events s)}"
proof -
  assume "boundaries_ok s"
  then have "set (map fst (st_boundaries s)) = set [0..<Suc (length (st_events s))]" by (simp add: boundaries_ok_def)
  then show ?thesis by auto
qed

section \<open>Admissible transitions\<close>

definition transition_ok :: "owner \<Rightarrow> store \<Rightarrow> verb \<Rightarrow> resource_state \<Rightarrow> resource_state option \<Rightarrow> bool" where
  "transition_ok ow s verb state former \<longleftrightarrow>
     (let i = bead_id (state_resource state) in
      (verb = VCreate \<longrightarrow> \<not> has_identity s i \<and> canonicalCreatedId (ow_runtime ow) (ow_scope ow) i = Inr i \<and>
         \<not> isReserved ow i \<and> \<not> has_alias s i) \<and>
      (verb = VUpdate \<longrightarrow> map_of (st_identities s) i = Some (state_kind state)) \<and>
      (verb = VDelete \<longrightarrow> map_of (st_resources s) i = Some state \<and> (state_kind state = KBead \<longrightarrow> \<not> has_incident_link s i)) \<and>
      (verb \<noteq> VDelete \<longrightarrow> endpoints_ok ow s state \<and> bead_revision (state_resource state) \<noteq> []) \<and>
      (\<forall>st. former = Some st \<longrightarrow> endpoints_ok ow s st))"

text \<open>The version a transition of a Bead adds in a historical store.\<close>

definition version_fresh :: "owner \<Rightarrow> store \<Rightarrow> verb \<Rightarrow> resource_state \<Rightarrow> json_object \<Rightarrow> version_row list \<Rightarrow> bool" where
  "version_fresh ow s verb state body vs \<longleftrightarrow>
     (if ow_historical ow \<and> state_kind state = KBead then \<exists>v. vs = [v] \<and> hv_id v = bead_id (state_resource state) \<and>
        hv_position v = Suc (head s) \<and> hv_revision v \<notin> hv_revision ` set (st_versions s) \<and> version_shape v \<and>
        obj_get (js ''revision'') body = Some (JStr (hv_revision v)) \<and>
        (if verb = VDelete then \<exists>r. hv_body v = VTerminal (hv_id v) r (bead_revision (state_resource state))
         else \<exists>c. hv_body v = VLive (state_resource state) c)
      else vs = [])"

lemma identities_committed:
  "map_of (st_identities (committed verb state body beads token vs s)) i =
     (if verb = VCreate \<and> i = bead_id (state_resource state) then Some (state_kind state) else map_of (st_identities s) i)"
  by (simp add: committed_def staged_identities_def rows.find_put)

lemma resources_committed:
  assumes "resources_ok s"
  shows "map_of (st_resources (committed verb state body beads token vs s)) i =
     (if i = bead_id (state_resource state) then (if verb = VDelete then None else Some state) else map_of (st_resources s) i)"
  using assms by (simp add: committed_def staged_resources_def rows.find_put rows.find_drop resources_ok_def)

lemma has_identity_committed:
  "has_identity s i \<Longrightarrow> has_identity (committed verb state body beads token vs s) i"
  by (simp add: has_identity_def identities_committed)

lemma resources_ok_committed:
  assumes "resources_ok s" "transition_ok ow s verb state former"
  shows "resources_ok (committed verb state body beads token vs s)"
proof -
  have "table_ok (staged_identities verb state s)" "table_ok (staged_resources verb state s)"
    using assms(1) by (simp_all add: staged_identities_def staged_resources_def resources_ok_def rows.sound_put rows.sound_drop)
  then show ?thesis
    using assms unfolding resources_ok_def [of "committed verb state body beads token vs s"]
    unfolding identities_committed resources_committed [OF assms(1)]
    by (cases verb) (auto simp: committed_def transition_ok_def resources_ok_def has_identity_def Let_def)
qed

lemma incident_iff:
  assumes "resources_ok s"
  shows "has_incident_link s u \<longleftrightarrow>
    (\<exists>i st e. map_of (st_resources s) i = Some st \<and> e \<in> set (state_endpoints st) \<and> referenceUri e = u)"
proof -
  have t: "table_ok (st_resources s)" using assms by (simp add: resources_ok_def)
  have k: "map_of (st_identities s) i = Some KLink" if "map_of (st_resources s) i = Some st" "e \<in> set (state_endpoints st)" for i st e
    using assms that by (cases st) (auto simp: resources_ok_def)
  show ?thesis
    using t k by (fastforce simp: has_incident_link_def incident_def list_ex_iff table_ok_def)
qed

lemma links_ok_committed:
  assumes "resources_ok s" "links_ok ow s" "transition_ok ow s verb state former"
  shows "links_ok ow (committed verb state body beads token vs s)"
proof -
  let ?i = "bead_id (state_resource state)"
  let ?s = "committed verb state body beads token vs s"
  have live: "live_bead ?s u" if l: "live_bead s u"
    and d: "verb = VDelete \<Longrightarrow> u = ?i \<Longrightarrow> False" for u
  proof (cases "u = ?i")
    case True
    have "state_kind state = KBead"
    proof (cases verb)
      case VCreate
      then show ?thesis using assms(1,3) True l
        by (auto simp: transition_ok_def Let_def live_bead_def resources_ok_def has_identity_def)
    next
      case VUpdate
      then show ?thesis using assms(1,3) True l
        by (auto simp: transition_ok_def Let_def live_bead_def resources_ok_def)
    next
      case VDelete
      then show ?thesis using d True by blast
    qed
    then show ?thesis using True d
      by (cases state) (auto simp: live_bead_def resources_committed [OF assms(1)])
  next
    case False
    then show ?thesis using l by (simp add: live_bead_def resources_committed [OF assms(1)])
  qed
  have keep: "endpoints_ok ow ?s st" if e: "endpoints_ok ow s st"
    and d: "verb = VDelete \<Longrightarrow> \<forall>e \<in> set (state_endpoints st). prefix (ow_scope ow) (referenceUri e) \<longrightarrow> referenceUri e \<noteq> ?i" for st
    using e d live unfolding endpoints_ok_def by blast
  show ?thesis
    unfolding links_ok_def
  proof (intro allI impI)
    fix i st
    assume a: "map_of (st_resources ?s) i = Some st"
    show "endpoints_ok ow ?s st"
    proof (cases "i = ?i")
      case True
      with a have "verb \<noteq> VDelete" "st = state" by (auto simp: resources_committed [OF assms(1)] split: if_splits)
      with assms(3) keep [of st] show ?thesis by (simp add: transition_ok_def Let_def)
    next
      case False
      with a have st: "map_of (st_resources s) i = Some st" by (simp add: resources_committed [OF assms(1)])
      have e: "endpoints_ok ow s st" using assms(2) st by (simp add: links_ok_def)
      have "referenceUri x \<noteq> ?i" if v: "verb = VDelete" and x: "x \<in> set (state_endpoints st)" "prefix (ow_scope ow) (referenceUri x)" for x
      proof
        assume u: "referenceUri x = ?i"
        have "live_bead s ?i" using e x u by (auto simp: endpoints_ok_def)
        with assms(3) v have "state_kind state = KBead" "\<not> has_incident_link s ?i"
          by (auto simp: transition_ok_def Let_def live_bead_def)
        with st x(1) u show False by (auto simp: incident_iff [OF assms(1)])
      qed
      then show ?thesis using keep [OF e] by blast
    qed
  qed
qed

lemma aliases_ok_committed:
  assumes "aliases_ok ow s" "transition_ok ow s verb state former"
  shows "aliases_ok ow (committed verb state body beads token vs s)"
proof -
  have "st_aliases (committed verb state body beads token vs s) = st_aliases s" by (simp add: committed_def)
  then show ?thesis
    using assms by (auto simp: aliases_ok_def has_identity_def identities_committed transition_ok_def Let_def has_alias_def)
qed

lemma identities_ok_committed:
  assumes "identities_ok ow s" "transition_ok ow s verb state former"
  shows "identities_ok ow (committed verb state body beads token vs s)"
  using assms by (auto simp: identities_ok_def has_identity_def identities_committed transition_ok_def Let_def)

lemma subject_identity:
  assumes "resources_ok s" "transition_ok ow s verb state former"
  shows "has_identity (committed verb state body beads token vs s) (bead_id (state_resource state))"
  using assms by (cases verb) (auto simp: has_identity_def identities_committed transition_ok_def Let_def resources_ok_def)

lemma next_beads_identity:
  assumes "resources_ok s" "transition_ok ow s verb state former" "b \<in> set (next_beads ow verb state former)"
  shows "has_identity s b"
proof -
  from assms(3) obtain st e where e: "st = state \<and> verb \<noteq> VDelete \<or> former = Some st" "e \<in> set (state_endpoints st)"
    "b = referenceUri e" "prefix (ow_scope ow) b"
    by (auto simp: next_beads_def incident_set split: if_splits)
  then have "endpoints_ok ow s st" using assms(2) by (auto simp: transition_ok_def Let_def)
  with e have "live_bead s b" by (auto simp: endpoints_ok_def)
  with assms(1) show ?thesis by (auto simp: live_bead_def resources_ok_def has_identity_def)
qed

lemma events_ok_committed:
  assumes "events_ok s" "resources_ok s" "transition_ok ow s verb state former" "beads = next_beads ow verb state former"
  shows "events_ok (committed verb state body beads token vs s)"
proof -
  let ?s = "committed verb state body beads token vs s"
  have h: "head s = length (st_events s)" by (rule head_length [OF assms(1)])
  have "map ev_position (st_events ?s) = [1..<Suc (length (st_events ?s))]"
    using assms(1) h by (simp add: committed_def events_ok_def)
  moreover have "\<forall>e \<in> set (st_events ?s). has_identity ?s (ev_subject e)"
  proof
    fix e assume "e \<in> set (st_events ?s)"
    then have "e \<in> set (st_events s) \<or> ev_subject e = bead_id (state_resource state)" by (auto simp: committed_def)
    then show "has_identity ?s (ev_subject e)"
      using subject_identity [OF assms(2,3)] has_identity_committed assms(1) by (auto simp: events_ok_def)
  qed
  moreover have "\<forall>(p, b) \<in> set (st_incidence ?s). p \<le> length (st_events ?s) \<and> has_identity ?s b"
  proof (clarify)
    fix p b assume "(p, b) \<in> set (st_incidence ?s)"
    then have "(p, b) \<in> set (st_incidence s) \<or> p = Suc (head s) \<and> b \<in> set beads" by (auto simp: committed_def)
    then have "p \<le> Suc (length (st_events s)) \<and> has_identity s b"
      using assms(1) h next_beads_identity [OF assms(2,3)] assms(4) by (fastforce simp: events_ok_def)
    then show "p \<le> length (st_events ?s) \<and> has_identity ?s b"
      using has_identity_committed by (simp add: committed_def)
  qed
  ultimately show ?thesis by (simp add: events_ok_def)
qed

lemma boundaries_ok_committed:
  assumes "events_ok s" "boundaries_ok s" "token \<notin> snd ` set (st_boundaries s)"
  shows "boundaries_ok (committed verb state body beads token vs s)"
  using assms head_length [OF assms(1)] by (auto simp: boundaries_ok_def committed_def)

lemma versions_ok_committed:
  assumes "events_ok s" "resources_ok s" "versions_ok s" "transition_ok ow s verb state former"
    "version_fresh ow s verb state body vs"
  shows "versions_ok (committed verb state body beads token vs s)"
proof -
  let ?s = "committed verb state body beads token vs s"
  have h: "head s = length (st_events s)" by (rule head_length [OF assms(1)])
  have old: "hv_position v \<le> length (st_events ?s) \<and> map_of (st_identities ?s) (hv_id v) = Some KBead \<and>
      (\<forall>b c. hv_body v = VLive b c \<longrightarrow> bead_id b = hv_id v)" if "v \<in> set (st_versions s)" for v
  proof -
    have "map_of (st_identities s) (hv_id v) = Some KBead" using assms(3) that by (auto simp: versions_ok_def)
    moreover have "hv_id v = bead_id (state_resource state) \<Longrightarrow> verb = VCreate \<Longrightarrow> False"
      using assms(4) \<open>map_of (st_identities s) (hv_id v) = Some KBead\<close> by (auto simp: transition_ok_def Let_def has_identity_def)
    moreover have "length (st_events ?s) = Suc (length (st_events s))" by (simp add: committed_def)
    ultimately show ?thesis using assms(3) that by (auto simp: versions_ok_def identities_committed)
  qed
  show ?thesis
  proof (cases "vs = []")
    case True
    then show ?thesis using old assms(3) by (auto simp: versions_ok_def committed_def)
  next
    case False
    then have c: "ow_historical ow \<and> state_kind state = KBead"
      using assms(5) unfolding version_fresh_def by presburger
    from assms(5) [unfolded version_fresh_def if_P [OF c]] obtain v where
      v0: "vs = [v]" "hv_id v = bead_id (state_resource state)" "hv_position v = Suc (head s)"
        "hv_revision v \<notin> hv_revision ` set (st_versions s)" "version_shape v" by blast
    then have v: "vs = [v]" "state_kind state = KBead" "hv_id v = bead_id (state_resource state)"
      "hv_position v = Suc (head s)" "hv_revision v \<notin> hv_revision ` set (st_versions s)"
      "\<forall>b c. hv_body v = VLive b c \<longrightarrow> bead_id b = hv_id v"
      using c by (auto simp: version_shape_def)
    have k: "map_of (st_identities ?s) (hv_id v) = Some KBead"
      using assms(2,4) v(2,3) by (cases verb) (auto simp: identities_committed transition_ok_def Let_def resources_ok_def)
    have "hv_position v \<notin> hv_position ` set (st_versions s)"
      using assms(3) v(4) h by (fastforce simp: versions_ok_def)
    then show ?thesis using old assms(3) v k h by (auto simp: versions_ok_def committed_def)
  qed
qed

lemma history_ok_committed:
  assumes "events_ok s" "resources_ok s" "versions_ok s" "history_ok ow s" "transition_ok ow s verb state former"
    "version_fresh ow s verb state body vs"
  shows "history_ok ow (committed verb state body beads token vs s)"
proof (cases "ow_historical ow")
  case True
  let ?i = "bead_id (state_resource state)"
  let ?s = "committed verb state body beads token vs s"
  note h = assms(4) [unfolded history_ok_def, rule_format, OF True]
  have sub: "set (st_versions s) \<subseteq> set (st_versions ?s)" by (simp add: committed_def)
  have kind: "map_of (st_identities s) u = map_of (st_identities ?s) u" if "has_identity s u \<or> u \<noteq> ?i" for u
    using that assms(5) by (auto simp: identities_committed transition_ok_def Let_def)
  have own: "map_of (st_identities ?s) ?i = Some (state_kind state)"
    using assms(2,5) by (cases verb) (auto simp: identities_committed transition_ok_def Let_def resources_ok_def)
  have old_event: "event_indexed ?s e" if "e \<in> set (st_events s)" for e
  proof -
    have "has_identity s (ev_subject e)" using assms(1) that by (auto simp: events_ok_def)
    then have k: "map_of (st_identities ?s) (ev_subject e) = map_of (st_identities s) (ev_subject e)" using kind by simp
    have "event_indexed s e" using h that by blast
    then show ?thesis using sub unfolding event_indexed_def k by blast
  qed
  have old_version: "terminal_ok ?s v" if "v \<in> set (st_versions s)" for v
    using h that sub unfolding terminal_ok_def by blast
  have other: "indexed_bead ?s u" if u: "map_of (st_identities ?s) u = Some KBead" "u \<noteq> ?i" "versions_of ?s u = versions_of s u" for u
    using h u(1) kind [of u] u(2) unfolding indexed_bead_def u(3) by (simp add: resources_committed [OF assms(2)])
  show ?thesis
  proof (cases "state_kind state = KBead")
    case False
    then have vs: "st_versions ?s = st_versions s" using assms(6) by (simp add: version_fresh_def committed_def)
    have "event_indexed ?s e" if "e \<in> set (st_events ?s)" for e
      using that old_event own False by (auto simp: committed_def event_indexed_def)
    moreover have "indexed_bead ?s u" if "map_of (st_identities ?s) u = Some KBead" for u
    proof -
      have "u \<noteq> ?i" using own False that by auto
      then show ?thesis using other [OF that] vs by (simp add: versions_of_def)
    qed
    ultimately show ?thesis using h old_version True by (simp add: history_ok_def vs)
  next
    case bead: True
    from assms(6) [unfolded version_fresh_def if_P [OF conjI [OF True bead]]]
    obtain v where v: "vs = [v]" "hv_id v = ?i" "hv_position v = Suc (head s)" "version_shape v"
      "obj_get (js ''revision'') body = Some (JStr (hv_revision v))"
      "if verb = VDelete then \<exists>r. hv_body v = VTerminal (hv_id v) r (bead_revision (state_resource state))
         else \<exists>c. hv_body v = VLive (state_resource state) c"
      by (elim exE conjE) (rule that)
    have vs: "st_versions ?s = st_versions s @ [v]" by (simp add: committed_def v(1))
    have "hv_position w < hv_position v" if "w \<in> set (st_versions s)" for w
      using that assms(3) head_length [OF assms(1)] v(3) by (auto simp: versions_ok_def)
    then have sorted: "sorted_wrt (<) (map hv_position (st_versions ?s))" using h by (auto simp: vs sorted_wrt_append)
    have events: "event_indexed ?s e" if "e \<in> set (st_events ?s)" for e
    proof (cases "e \<in> set (st_events s)")
      case False
      then have "e = \<lparr> ev_position = Suc (head s), ev_subject = ?i, ev_body = body \<rparr>" using that by (auto simp: committed_def)
      moreover have "v \<in> set (st_versions ?s)" by (simp add: vs)
      ultimately show ?thesis using v(2,3,5) unfolding event_indexed_def by fastforce
    qed (rule old_event)
    have index: "indexed_bead ?s u" if u: "map_of (st_identities ?s) u = Some KBead" for u
    proof (cases "u = ?i")
      case True
      then have "versions_of ?s u = versions_of s u @ [v]" using v(2) by (simp add: versions_of_def vs)
      then show ?thesis using True v(6)
        by (auto simp: indexed_bead_def resources_committed [OF assms(2)] split: if_splits)
    next
      case False
      then have "versions_of ?s u = versions_of s u" using v(2) by (simp add: versions_of_def vs)
      then show ?thesis using other [OF u False] by blast
    qed
    have "terminal_ok ?s v"
      unfolding terminal_ok_def
    proof (intro allI impI)
      fix i r p
      assume "hv_body v = VTerminal i r p"
      with v(6) have "verb = VDelete \<and> p = bead_revision (state_resource state)" by (cases "verb = VDelete") simp_all
      then have d: "verb = VDelete" "p = bead_revision (state_resource state)" by blast+
      then have cur: "map_of (st_resources s) ?i = Some state" using assms(5) by (simp add: transition_ok_def Let_def)
      moreover have "map_of (st_identities s) ?i = Some (state_kind state)"
        using assms(2) cur unfolding resources_ok_def by blast
      ultimately have "map_of (st_identities s) ?i = Some KBead" using bead by simp
      then have "indexed_bead s ?i" using h by blast
      then obtain c where c: "versions_of s ?i \<noteq> []" "hv_body (last (versions_of s ?i)) = VLive (state_resource state) c"
        using cur by (auto simp: indexed_bead_def)
      let ?w = "last (versions_of s ?i)"
      have w: "?w \<in> set (st_versions s)" "hv_id ?w = ?i" using last_in_set [OF c(1)] by (auto simp: versions_of_def)
      then have "hv_revision ?w = p" using h c(2) d(2) by (fastforce simp: version_shape_def)
      then show "\<exists>w \<in> set (st_versions ?s). hv_id w = hv_id v \<and> hv_revision w = p \<and> (\<exists>b c. hv_body w = VLive b c)"
        using w c(2) v(2) sub by auto
    qed
    then have "version_shape w \<and> terminal_ok ?s w" if "w \<in> set (st_versions ?s)" for w
    proof (cases "w = v")
      case False
      then show ?thesis using that h old_version by (simp add: vs)
    qed (simp add: v(4))
    then show ?thesis using sorted events index unfolding history_ok_def by blast
  qed
qed (simp add: history_ok_def)

theorem base_inv_committed:
  assumes "base_inv ow s" "transition_ok ow s verb state former" "version_fresh ow s verb state body vs"
    "token \<notin> snd ` set (st_boundaries s)" "beads = next_beads ow verb state former"
  shows "base_inv ow (committed verb state body beads token vs s)"
proof -
  note i = base_invD [OF assms(1)]
  show ?thesis
    unfolding base_inv_def
    by (intro conjI resources_ok_committed [OF i(1) assms(2)] links_ok_committed [OF i(1,2) assms(2)]
        aliases_ok_committed [OF i(3) assms(2)] identities_ok_committed [OF i(4) assms(2)]
        events_ok_committed [OF i(5,1) assms(2,5)] boundaries_ok_committed [OF i(5,6) assms(4)]
        versions_ok_committed [OF i(5,1,7) assms(2,3)] history_ok_committed [OF i(5,1,7,8) assms(2,3)])
qed

section \<open>Frames\<close>

text \<open>The invariant of the tables depends on seven of them.\<close>

lemma base_inv_cong:
  assumes "st_identities s = st_identities t" "st_resources s = st_resources t" "st_aliases s = st_aliases t"
    "st_events s = st_events t" "st_incidence s = st_incidence t" "st_boundaries s = st_boundaries t"
    "st_versions s = st_versions t"
  shows "base_inv ow s = base_inv ow t"
  unfolding base_inv_def resources_ok_def links_ok_def endpoints_ok_def live_bead_def aliases_ok_def identities_ok_def
    events_ok_def boundaries_ok_def versions_ok_def history_defs has_identity_def assms
  by (rule refl)

lemma base_inv_aliases: "base_inv ow s \<Longrightarrow> aliases_ok ow (s \<lparr> st_aliases := a \<rparr>) \<Longrightarrow> base_inv ow (s \<lparr> st_aliases := a \<rparr>)"
proof -
  have "resources_ok (s \<lparr> st_aliases := a \<rparr>) = resources_ok s" by (simp add: resources_ok_def)
  moreover have "links_ok ow (s \<lparr> st_aliases := a \<rparr>) = links_ok ow s"
    by (simp add: links_ok_def endpoints_ok_def live_bead_def)
  moreover have "identities_ok ow (s \<lparr> st_aliases := a \<rparr>) = identities_ok ow s" by (simp add: identities_ok_def)
  moreover have "events_ok (s \<lparr> st_aliases := a \<rparr>) = events_ok s" by (simp add: events_ok_def)
  moreover have "boundaries_ok (s \<lparr> st_aliases := a \<rparr>) = boundaries_ok s" by (simp add: boundaries_ok_def)
  moreover have "versions_ok (s \<lparr> st_aliases := a \<rparr>) = versions_ok s" by (simp add: versions_ok_def)
  moreover have "history_ok ow (s \<lparr> st_aliases := a \<rparr>) = history_ok ow s" unfolding history_defs by (simp cong: option.case_cong)
  ultimately show "base_inv ow s \<Longrightarrow> aliases_ok ow (s \<lparr> st_aliases := a \<rparr>) \<Longrightarrow> base_inv ow (s \<lparr> st_aliases := a \<rparr>)"
    by (simp add: base_inv_def)
qed

end
