(* ===== verification/Store_Operations.thy ===== *)
theory Store_Operations
  imports Store_Invariant
begin

text \<open>
  Every operation of the store is a refusal, an unchanged update, or an admissible transition, and
  keeps the invariant; an operation on a store that satisfies it violates no constraint.
\<close>

section \<open>Fresh identifiers\<close>

text \<open>
  \<open>randomUUID\<close> draws identifiers that were not drawn before; appended to the Scope they are canonical
  identities.
\<close>

definition fresh_ids :: "store \<Rightarrow> (nat \<Rightarrow> jstring) \<Rightarrow> bool" where
  "fresh_ids s ids \<longleftrightarrow> inj ids \<and> (\<forall>k. ids k \<noteq> [] \<and> ids k \<notin> snd ` set (st_boundaries s) \<and>
     ids k \<notin> cu_token ` set (st_cursors s) \<and> ids k \<notin> hv_revision ` set (st_versions s))"

definition fresh :: "owner \<Rightarrow> store \<Rightarrow> supplied \<Rightarrow> bool" where
  "fresh ow s su \<longleftrightarrow> fresh_ids s (su_ids su) \<and>
     (\<forall>k. canonicalCreatedId (ow_runtime ow) (ow_scope ow) (ow_scope ow @ su_ids su k) = Inr (ow_scope ow @ su_ids su k))"

lemma fresh_ids_shift: "fresh_ids s ids \<Longrightarrow> fresh_ids s (\<lambda>k. ids (n + k))"
  unfolding fresh_ids_def inj_def by (metis add_left_cancel)

lemma fresh_idsD:
  assumes "fresh_ids s ids"
  shows "ids k \<noteq> []" "ids k \<notin> snd ` set (st_boundaries s)" "ids k \<notin> cu_token ` set (st_cursors s)"
    "ids k \<notin> hv_revision ` set (st_versions s)" "ids j = ids k \<longleftrightarrow> j = k"
  using assms by (auto simp: fresh_ids_def inj_eq)

section \<open>Outcomes of an execution\<close>

definition advances :: "owner \<Rightarrow> store \<Rightarrow> nat option \<Rightarrow> store \<Rightarrow> bool" where
  "advances ow s pos s' \<longleftrightarrow> (\<exists>verb state former body token vs.
     pos = Some (Suc (head s)) \<and> Suc (head s) \<le> max_safe \<and> transition_ok ow s verb state former \<and>
     version_fresh ow s verb state body vs \<and>
     token \<notin> snd ` set (st_boundaries s) \<and>
     s' = committed verb state body (next_beads ow verb state former) token vs s)"

definition stays :: "owner \<Rightarrow> store \<Rightarrow> nat option \<Rightarrow> store \<Rightarrow> bool" where
  "stays ow s pos s' \<longleftrightarrow> pos = None \<and> (s' = s \<or> (\<exists>a. s' = s \<lparr> st_aliases := a \<rparr> \<and> aliases_ok ow (s \<lparr> st_aliases := a \<rparr>)))"

definition executed_ok :: "owner \<Rightarrow> store \<Rightarrow> nat option \<Rightarrow> store \<Rightarrow> bool" where
  "executed_ok ow s pos s' \<longleftrightarrow> stays ow s pos s' \<or> advances ow s pos s'"

lemma stays_same [simp]: "stays ow s None s"
  by (simp add: stays_def)

lemma refuse_ok [simp]: "refuse v s = Inr (r, pos, s') \<Longrightarrow> executed_ok ow s pos s'"
  by (simp add: refuse_def executed_ok_def)

lemma obj_get_spread: "obj_get k (obj_spread base xs) = (case map_of (rev xs) k of Some v \<Rightarrow> Some v | None \<Rightarrow> obj_get k base)"
  by (induction xs arbitrary: base) (auto simp: obj_spread_def map_add_def split: option.splits)

lemma fact_revision:
  assumes "lifecycleFact verb state source i tx time previous = Inr lifecycle"
  shows "obj_get (js ''revision'') (fact_of lifecycle t state) =
    Some (JStr (case t of Some r \<Rightarrow> r | None \<Rightarrow> bead_revision (state_resource state)))"
  using assms
  by (auto simp: lifecycleFact_def fact_of_def obj_get_spread split: if_splits option.splits)
    (auto simp: obj_get_def)

lemma version_rows_fresh:
  assumes "lifecycleFact verb state source i tx time previous = Inr lifecycle"
    "token \<notin> hv_revision ` set (st_versions s)" "token \<noteq> []"
    "verb \<noteq> VDelete \<Longrightarrow> bead_revision (state_resource state) \<notin> hv_revision ` set (st_versions s)"
    "verb \<noteq> VDelete \<Longrightarrow> bead_revision (state_resource state) \<noteq> []"
  shows "version_fresh ow s verb state (fact_of lifecycle (terminal_of ow verb state token) state)
    (version_rows ow state (terminal_of ow verb state token) hist (Suc (head s)))"
  using assms(2-5) fact_revision [OF assms(1)]
  by (auto simp: version_fresh_def version_rows_def terminal_of_def version_shape_def Let_def)

lemma complete_ok:
  assumes "complete ow ids verb state former time text hist s = Inr (r, pos, s')"
    "transition_ok ow s verb state former" "update_target verb hist state s" "fresh_ids s ids"
    "verb \<noteq> VDelete \<Longrightarrow> bead_revision (state_resource state) \<notin> hv_revision ` set (st_versions s)"
  shows "executed_ok ow s pos s'"
proof (cases "r = refusal too_large \<and> pos = None \<and> s' = s")
  case False
  let ?t = "terminal_of ow verb state (ids 2)"
  from complete_Inr [OF assms(1,3)] False obtain lifecycle where
    p: "pos = Some (Suc (head s))" "Suc (head s) \<le> max_safe" and
    l: "lifecycleFact verb state (nav_events (ow_nav ow)) (ids 0) (ids 1) time
      (case hist of Some ((f, p), r) \<Rightarrow> Some p | None \<Rightarrow> map_option (bead_revision \<circ> state_resource) former) = Inr lifecycle" and
    s': "s' = committed verb state (fact_of lifecycle ?t state) (next_beads ow verb state former)
        (ids (if ?t = None then 2 else 3)) (version_rows ow state ?t hist (Suc (head s))) s" by blast
  have "version_fresh ow s verb state (fact_of lifecycle ?t state) (version_rows ow state ?t hist (Suc (head s)))"
    using assms(2,5) fresh_idsD(1,4) [OF assms(4)] by (intro version_rows_fresh [OF l]) (simp_all add: transition_ok_def Let_def)
  moreover have "ids (if ?t = None then 2 else 3) \<notin> snd ` set (st_boundaries s)" by (rule fresh_idsD(2) [OF assms(4)])
  ultimately have "advances ow s pos s'"
    unfolding advances_def using assms(2) p s' by blast
  then show ?thesis by (simp add: executed_ok_def)
qed (simp add: executed_ok_def)

section \<open>Endpoints\<close>

lemma currentState_iff:
  assumes "resources_ok s"
  shows "currentState s i kind = Some st \<longleftrightarrow> map_of (st_resources s) i = Some st \<and> (kind = None \<or> kind = Some (state_kind st))"
proof -
  have "map_of (st_resources s) i = Some st \<Longrightarrow> map_of (st_identities s) i = Some (state_kind st)" for st
    using assms by (simp add: resources_ok_def)
  then show ?thesis by (auto simp: currentState_def split: option.splits if_splits)
qed

lemma stored_bead_live:
  assumes "resources_ok s"
  shows "stored_bead s u = live_bead s u"
proof (cases "currentState s u None")
  case None
  then show ?thesis
    using currentState_iff [OF assms, of u None] by (fastforce simp: live_bead_def stored_bead_def)
next
  case (Some st)
  then have "map_of (st_resources s) u = Some st" by (simp add: currentState_iff [OF assms])
  then show ?thesis using Some by (cases st) (auto simp: live_bead_def stored_bead_def)
qed

lemma endpointRefusal_None:
  assumes "resources_ok s"
  shows "endpointRefusal ow s st = None \<longleftrightarrow> endpoints_ok ow s st"
proof (cases st)
  case (LinkState b src tgt)
  show ?thesis
    unfolding endpointRefusal_def LinkState resource_state.case stored.check_pair stored_bead_live [OF assms] endpoints_ok_def
    by simp
qed (simp add: endpointRefusal_def endpoints_ok_def)

lemma endpoints_ok_cong:
  "state_kind st = state_kind st' \<Longrightarrow> state_endpoints st = state_endpoints st' \<Longrightarrow> endpoints_ok ow s st = endpoints_ok ow s st'"
  by (simp add: endpoints_ok_def)

lemma resourceState_Inr:
  "resourceState kind b src tgt = Inr st \<Longrightarrow>
     state_kind st = kind \<and> state_resource st = b \<and>
     (kind = KLink \<longrightarrow> src = Some (hd (state_endpoints st)) \<and> tgt = Some (last (state_endpoints st)) \<and> length (state_endpoints st) = 2)"
  by (cases kind) (auto simp: resourceState_def split: option.splits)

lemma resourceState_endpoints:
  "resourceState kind b src tgt = Inr st \<Longrightarrow> resourceState kind b' src tgt = Inr st' \<Longrightarrow> state_endpoints st = state_endpoints st'"
  by (cases kind) (auto simp: resourceState_def split: option.splits)

lemma materialize_simps [simp]:
  "bead_id (materializeBead t p m v i r time) = i"
  "bead_revision (materializeBead t p m v i r time) = r"
  by (simp_all add: materializeBead_def)

section \<open>Creation\<close>

lemma allocate_id_Inr:
  "allocate_id ow s ids i rem = Inr (u, n) \<Longrightarrow>
     \<not> has_identity s u \<and> \<not> has_alias s u \<and> \<not> isReserved ow u \<and> (\<exists>k. i \<le> k \<and> n = Suc k \<and> u = ow_scope ow @ ids k)"
proof (induction rem arbitrary: i)
  case 0
  then show ?case by (subst (asm) allocate_id.simps) (auto simp: Let_def split: if_splits)
next
  case (Suc rem)
  show ?case
  proof (cases "has_identity s (ow_scope ow @ ids i) \<or> has_alias s (ow_scope ow @ ids i) \<or> isReserved ow (ow_scope ow @ ids i)")
    case True
    then have "allocate_id ow s ids (Suc i) rem = Inr (u, n)"
      using Suc(2) by (subst (asm) allocate_id.simps) (simp add: Let_def)
    from Suc(1) [OF this] show ?thesis by fastforce
  next
    case False
    then show ?thesis using Suc(2) by (subst (asm) allocate_id.simps) (auto simp: Let_def)
  qed
qed

lemma performCreate_ok:
  assumes "performCreate ow su kind input s = Inr (r, pos, s')" "base_inv ow s" "fresh ow s su"
    "\<And>u. cf_id input = Some u \<Longrightarrow> canonicalCreatedId (ow_runtime ow) (ow_scope ow) u = Inr u"
  shows "executed_ok ow s pos s'"
proof (cases "cf_refusal input")
  case (Some v)
  then show ?thesis using assms(1) by (simp add: performCreate_def)
next
  case None
  from assms(1) None obtain u n where u: "(case cf_id input of Some u \<Rightarrow> Inr (u, 0) | None \<Rightarrow> allocate_id ow s (su_ids su) 0 32) = Inr (u, n)"
    by (auto simp: performCreate_def)
  have canon: "canonicalCreatedId (ow_runtime ow) (ow_scope ow) u = Inr u"
    using u assms(3,4) by (auto simp: fresh_def split: option.splits dest!: allocate_id_Inr)
  show ?thesis
  proof (cases "has_identity s u \<or> isReserved ow u \<or> has_alias s u")
    case True
    then show ?thesis using assms(1) None u by (auto simp: performCreate_def split: if_splits)
  next
    case False
    with assms(1) None u obtain ms st where st:
      "resourceState kind (materializeBead (cf_type input) (cf_properties input) (cf_metadata input) (cf_provenance input)
         u (su_ids su n) (iso_time ms)) (cf_source input) (cf_target input) = Inr st"
      "(case endpointRefusal ow s st of Some v \<Rightarrow> refuse v s
        | None \<Rightarrow> complete ow (\<lambda>k. su_ids su (Suc n + k)) VCreate st None (iso_time ms)
            (serialized (JObj [(js ''outcome'', JStr (js ''created'')), (js ''changed'', JBool True),
              (js ''resource'', resource_json st)])) None s) = Inr (r, pos, s')"
      by (auto simp: performCreate_def Let_def)
    show ?thesis
    proof (cases "endpointRefusal ow s st")
      case None
      have b: "bead_id (state_resource st) = u" "bead_revision (state_resource st) = su_ids su n" "state_kind st = kind"
        using resourceState_Inr [OF st(1)] by simp_all
      have f: "fresh_ids s (su_ids su)" using assms(3) by (simp add: fresh_def)
      have "transition_ok ow s VCreate st None"
        using False canon None b fresh_idsD(1) [OF f]
        by (simp add: transition_ok_def Let_def endpointRefusal_None [OF base_invD(1) [OF assms(2)]])
      moreover have "complete ow (\<lambda>k. su_ids su (Suc n + k)) VCreate st None (iso_time ms)
            (serialized (JObj [(js ''outcome'', JStr (js ''created'')), (js ''changed'', JBool True),
              (js ''resource'', resource_json st)])) None s = Inr (r, pos, s')" using st(2) None by simp
      ultimately show ?thesis
        using complete_ok [of ow "\<lambda>k. su_ids su (Suc n + k)" VCreate st None] fresh_ids_shift [OF f, of "Suc n"]
          fresh_idsD(4) [OF f, of n] b by (simp add: update_target_def)
    qed (use st(2) in simp)
  qed
qed

section \<open>Deletion\<close>

lemma performDelete_ok:
  assumes "performDelete ow su kind i expected s = Inr (r, pos, s')" "base_inv ow s" "fresh ow s su"
  shows "executed_ok ow s pos s'"
proof (cases "currentState s i (Some kind)")
  case None
  then show ?thesis using assms(1) by (simp add: performDelete_def)
next
  case (Some former)
  note res = base_invD(1) [OF assms(2)]
  have b: "map_of (st_resources s) i = Some former" "state_kind former = kind" "bead_id (state_resource former) = i"
    using Some res by (auto simp: currentState_iff [OF res] resources_ok_def)
  show ?thesis
  proof (cases "expected \<noteq> None \<and> expected \<noteq> Some (bead_revision (state_resource former)) \<or> kind = KBead \<and> has_incident_link s i")
    case True
    then show ?thesis using assms(1) Some by (auto simp: performDelete_def split: if_splits)
  next
    case False
    with assms(1) Some obtain ms answer where c:
      "complete ow (su_ids su) VDelete former (Some former) (iso_time ms) answer None s = Inr (r, pos, s')"
      by (auto simp: performDelete_def split: if_splits)
    have "transition_ok ow s VDelete former (Some former)"
      using b False base_invD(2) [OF assms(2)] by (auto simp: transition_ok_def Let_def links_ok_def)
    then show ?thesis
      using complete_ok [OF c] assms(3) by (simp add: update_target_def fresh_def)
  qed
qed

section \<open>Update\<close>

lemma latest_version_mem: "latest_version vs = Some v \<Longrightarrow> v \<in> set vs"
proof -
  have "foldl (\<lambda>a b. if hv_position a < hv_position b then b else a) w ws \<in> set (w # ws)" for w ws
  proof (induction ws arbitrary: w)
    case (Cons x ws)
    from Cons [of "if hv_position w < hv_position x then x else w"] show ?case by (auto split: if_splits)
  qed simp
  then show "latest_version vs = Some v \<Longrightarrow> v \<in> set vs" by (auto simp: latest_version_def split: list.splits)
qed

lemma historicalVersion_mem:
  "historicalVersion ow s i r = Some body \<Longrightarrow> \<exists>v \<in> set (st_versions s). hv_id v = i \<and> hv_body v = body"
  by (auto simp: historicalVersion_def find_Some_iff split: if_splits option.splits dest!: latest_version_mem)

lemma baseline_Some:
  assumes "baseline ow s kind i sel = Inr (Some (former, prev, rec))" "base_inv ow s"
  shows "bead_id (state_resource former) = i \<and> endpoints_ok ow s former \<and>
    (\<not> rec \<longrightarrow> map_of (st_resources s) i = Some former \<and> state_kind former = kind \<and> prev = bead_revision (state_resource former)) \<and>
    (rec \<longrightarrow> sel \<and> map_of (st_identities s) i = Some KBead \<and> state_kind former = KBead)"
proof (cases "currentState s i (Some kind)")
  case (Some st)
  note res = base_invD(1) [OF assms(2)]
  have "st = former" "prev = bead_revision (state_resource former)" "\<not> rec" using assms(1) Some by (auto simp: baseline_def)
  with Some res base_invD(2) [OF assms(2)] show ?thesis
    by (auto simp: currentState_iff [OF res] resources_ok_def links_ok_def)
next
  case None
  with assms(1) obtain t p b c where h: "sel" "historicalVersion ow s i None = Some (VTerminal t prev p)"
    "historicalVersion ow s i (Some p) = Some (VLive b c)" "former = BeadState b" "rec"
    by (auto simp: baseline_def split: if_splits option.splits version_body.splits)
  from historicalVersion_mem [OF h(3)] base_invD(7) [OF assms(2)] have "bead_id b = i" "map_of (st_identities s) i = Some KBead"
    by (auto simp: versions_ok_def)
  with h show ?thesis by (simp add: endpoints_ok_def)
qed

text \<open>The transition of an update: its guards, and whether it recovers a deleted Bead.\<close>

lemma update_transition:
  assumes "base_inv ow s" "fresh_ids s (su_ids su)"
    "baseline ow s kind i (ef_fromRevision input \<noteq> None) = Inr (Some (former, prev, rec))"
    "resourceState kind candidate (fst (update_endpoints former input)) (snd (update_endpoints former input)) = Inr cand"
    "endpoints_ok ow s cand"
    "resourceState kind (materializeBead t p m v i (su_ids su 0) time) (fst (update_endpoints former input))
       (snd (update_endpoints former input)) = Inr st"
  shows "transition_ok ow s VUpdate st (Some former)" "bead_id (state_resource st) = i"
    "bead_revision (state_resource st) = su_ids su 0" "rec = (map_of (st_resources s) i = None)"
    "rec \<longrightarrow> ef_fromRevision input \<noteq> None"
proof -
  show b: "bead_id (state_resource st) = i" "bead_revision (state_resource st) = su_ids su 0"
    using resourceState_Inr [OF assms(6)] by simp_all
  have k: "state_kind st = kind" using resourceState_Inr [OF assms(6)] by simp
  have e: "endpoints_ok ow s st"
    using assms(5) endpoints_ok_cong [of st cand] resourceState_endpoints [OF assms(6,4)]
      resourceState_Inr [OF assms(4)] k by simp
  note base = baseline_Some [OF assms(3,1)]
  note res = base_invD(1) [OF assms(1)]
  have kind: "map_of (st_identities s) i = Some kind"
  proof (cases rec)
    case True
    have "kind = KBead"
    proof (rule ccontr)
      assume "kind \<noteq> KBead"
      then have "kind = KLink" by (cases kind) simp_all
      moreover have "update_endpoints former input = (None, None)"
        using base True by (cases former) (simp_all add: update_endpoints_def)
      ultimately show False using assms(4) by (simp add: resourceState_def)
    qed
    then show ?thesis using base True by simp
  next
    case False
    then show ?thesis using base res by (auto simp: resources_ok_def)
  qed
  show "transition_ok ow s VUpdate st (Some former)"
    using b k kind e base fresh_idsD(1) [OF assms(2)] by (simp add: transition_ok_def Let_def)
  show "rec = (map_of (st_resources s) i = None)"
  proof (cases rec)
    case True
    have "map_of (st_resources s) i = None"
    proof (rule ccontr)
      assume "map_of (st_resources s) i \<noteq> None"
      then obtain x where "map_of (st_resources s) i = Some x" by blast
      then have "currentState s i (Some kind) = Some x" using kind by (simp add: currentState_def)
      then show False using assms(3) True by (simp add: baseline_def)
    qed
    then show ?thesis using True by simp
  qed (use base in simp)
  show "rec \<longrightarrow> ef_fromRevision input \<noteq> None" using base by blast
qed

lemma commit_update_ok:
  assumes "commit_update ow su kind i input former candidate prev rec s = Inr (r, pos, s')" "base_inv ow s" "fresh ow s su"
    "baseline ow s kind i (ef_fromRevision input \<noteq> None) = Inr (Some (former, prev, rec))"
    "resourceState kind candidate (fst (update_endpoints former input)) (snd (update_endpoints former input)) = Inr cand"
    "endpoints_ok ow s cand"
  shows "executed_ok ow s pos s'"
proof -
  let ?ctx = "map_option (\<lambda>r. (r, prev)) (ef_fromRevision input)"
  from assms(1) obtain ms st where st:
    "resourceState kind (materializeBead (bead_type candidate) (bead_properties candidate) (bead_metadata candidate)
        (ef_provenance input) i (su_ids su 0) (iso_time ms)) (fst (update_endpoints former input)) (snd (update_endpoints former input)) = Inr st"
    "complete ow (\<lambda>k. su_ids su (Suc k)) VUpdate st (Some former) (iso_time ms) (changed_text ?ctx st)
       (map_option (\<lambda>c. (c, rec)) ?ctx) s = Inr (r, pos, s')"
    by (auto simp: commit_update_def Let_def case_prod_unfold)
  have f: "fresh_ids s (su_ids su)" using assms(3) by (simp add: fresh_def)
  note t = update_transition [OF assms(2) f assms(4-6) st(1)]
  have "update_target VUpdate (map_option (\<lambda>c. (c, rec)) ?ctx) st s"
    using t(2,4,5) by (cases "ef_fromRevision input") (auto simp: update_target_def)
  then show ?thesis
    using complete_ok [OF st(2) t(1)] fresh_ids_shift [OF f, of 1] fresh_idsD(4) [OF f, of 0] t(3) by simp
qed

lemma update_candidate_ok:
  assumes "update_candidate ow su kind i input former prev rec docs s = Inr (r, pos, s')" "base_inv ow s" "fresh ow s su"
    "baseline ow s kind i (ef_fromRevision input \<noteq> None) = Inr (Some (former, prev, rec))"
  shows "executed_ok ow s pos s'"
proof -
  let ?c = "with_documents former input (fst docs) (snd docs)"
  from assms(1) obtain cand where cand:
    "resourceState kind ?c (fst (update_endpoints former input)) (snd (update_endpoints former input)) = Inr cand"
    by (auto simp: update_candidate_def Let_def)
  show ?thesis
  proof (cases "endpointRefusal ow s cand")
    case None
    show ?thesis
    proof (cases "\<not> rec \<and> covered_equal cand former")
      case True
      then show ?thesis using assms(1) cand None by (auto simp: update_candidate_def Let_def executed_ok_def)
    next
      case False
      then have "commit_update ow su kind i input former ?c prev rec s = Inr (r, pos, s')"
        using assms(1) cand None unfolding update_candidate_def Let_def by (simp split: if_splits)
      from commit_update_ok [OF this assms(2-4) cand] None show ?thesis
        by (simp add: endpointRefusal_None [OF base_invD(1) [OF assms(2)]])
    qed
  next
    case (Some v)
    then show ?thesis using assms(1) cand by (simp add: update_candidate_def Let_def)
  qed
qed

lemma update_edited_ok:
  assumes "update_edited ow su kind i input former prev rec src s = Inr (r, pos, s')" "base_inv ow s" "fresh ow s su"
    "baseline ow s kind i (ef_fromRevision input \<noteq> None) = Inr (Some (former, prev, rec))"
  shows "executed_ok ow s pos s'"
proof -
  have "executed_ok ow s pos s'" if "refuse v s = Inr (r, pos, s')" for v using that by simp
  moreover from this assms(1) have "executed_ok ow s pos s' \<or> (\<exists>docs. (case docs of Inl v \<Rightarrow> refuse v s
      | Inr d \<Rightarrow> update_candidate ow su kind i input former prev rec d s) = Inr (r, pos, s'))"
    unfolding update_edited_def by (auto split: if_splits)
  ultimately show ?thesis using update_candidate_ok [OF _ assms(2-4)] by (metis sum.case sumE)
qed

lemma update_guarded_ok:
  assumes "update_guarded ow su kind i input former prev rec s = Inr (r, pos, s')" "base_inv ow s" "fresh ow s su"
    "baseline ow s kind i (ef_fromRevision input \<noteq> None) = Inr (Some (former, prev, rec))"
  shows "executed_ok ow s pos s'"
proof -
  have "executed_ok ow s pos s'" if "refuse v s = Inr (r, pos, s')" for v using that by simp
  moreover from this assms(1) have "executed_ok ow s pos s' \<or> (\<exists>src. (case src of Inl v \<Rightarrow> refuse v s
      | Inr b \<Rightarrow> update_edited ow su kind i input former prev rec b s) = Inr (r, pos, s'))"
    unfolding update_guarded_def by (auto split: if_splits)
  ultimately show ?thesis using update_edited_ok [OF _ assms(2-4)] by (metis sum.case sumE)
qed

lemma performUpdate_ok:
  assumes "performUpdate ow su kind i input s = Inr (r, pos, s')" "base_inv ow s" "fresh ow s su"
  shows "executed_ok ow s pos s'"
proof (cases "ef_refusal input = None \<and> \<not> (ef_fromRevision input \<noteq> None \<and> \<not> ow_historical ow)")
  case True
  with assms(1) obtain base where base: "baseline ow s kind i (ef_fromRevision input \<noteq> None) = Inr base"
    "(case base of None \<Rightarrow> refuse not_found s
      | Some (former, prev, rec) \<Rightarrow> update_guarded ow su kind i input former prev rec s) = Inr (r, pos, s')"
    by (auto simp: performUpdate_def Let_def)
  show ?thesis
  proof (cases base)
    case (Some t)
    obtain former prev rec where t: "t = (former, prev, rec)" by (cases t)
    show ?thesis
      by (rule update_guarded_ok [OF _ assms(2,3) base(1) [unfolded Some t]]) (use base(2) in \<open>simp add: Some t\<close>)
  qed (use base(2) in simp)
next
  case False
  then show ?thesis using assms(1) by (auto simp: performUpdate_def Let_def split: option.splits if_splits)
qed

end
