(* ===== verification/Store_Decisions.thy ===== *)
theory Store_Decisions
  imports Store_Operations
begin

text \<open>
  Decisions: the witnesses of a retained outcome read back, every outcome is recorded once, and a
  retry of a decided invocation answers the retained response without touching the store.
\<close>

section \<open>Witnesses\<close>

definition witness_fact :: "owner \<Rightarrow> witness \<Rightarrow> bool" where
  "witness_fact ow w \<longleftrightarrow> (case w of (l, t) \<Rightarrow> ow_contains ow l \<and> l \<notin> set (ow_reserved ow) \<and>
     (\<forall>u. t = Some u \<longrightarrow> canonicalCreatedId (ow_runtime ow) (ow_scope ow) u = Inr u))"

definition readable :: "owner \<Rightarrow> witness list \<Rightarrow> bool" where
  "readable ow ws \<longleftrightarrow> witnesses_ok ws \<and> list_all (witness_fact ow) ws"

lemma owner_scope: "owner_ok ow \<Longrightarrow> scope_ok (ow_scope ow)"
  by (simp add: owner_ok_def)

lemma witness_fact_scalar:
  assumes "owner_ok ow" "witness_fact ow (l, t)"
  shows "isUnicodeScalarString l \<and> (\<forall>u. t = Some u \<longrightarrow> isUnicodeScalarString u)"
  using assms(2) contains_canonical [OF assms(1)] createdId_ascii [OF owner_scope [OF assms(1)]]
  by (auto simp: witness_fact_def)

lemma witness_json_ok: "owner_ok ow \<Longrightarrow> witness_fact ow w \<Longrightarrow> admitted_ok (witness_json w)"
  using witness_fact_scalar by (cases w) (fastforce simp: witness_json_def obj_ok_Cons unit_class_defs split: option.splits)

lemma parse_witness_json:
  assumes "witness_fact ow (l, t)" "\<And>p. previous = Some p \<Longrightarrow> p < l"
  shows "parse_witness ow (ow_contains ow) (ow_reserved ow) previous (witness_json (l, t)) = Inr (l, t)"
  using assms
  by (auto simp: parse_witness_def witness_json_def witness_fact_def obj_get_def not_le split: option.splits)

lemma read_witnesses_json:
  assumes "list_all (witness_fact ow) ws" "sorted (map fst ws)" "distinct (map fst ws)"
    "\<And>p w. previous = Some p \<Longrightarrow> w \<in> set ws \<Longrightarrow> p < fst w"
  shows "read_witnesses ow (ow_contains ow) (ow_reserved ow) previous (map witness_json ws) = Inr ws"
  using assms
proof (induction ws arbitrary: previous)
  case (Cons w ws)
  obtain l t where w: "w = (l, t)" by (cases w)
  have "p < l" if "previous = Some p" for p
    using Cons.prems(4) [OF that, of w] w by simp
  with Cons.prems(1) w
  have "parse_witness ow (ow_contains ow) (ow_reserved ow) previous (witness_json (l, t)) = Inr (l, t)"
    by (intro parse_witness_json) auto
  moreover have "l < fst v" if "v \<in> set ws" for v
    using Cons.prems(2,3) w that by (auto simp: order.strict_iff_order)
  moreover have "read_witnesses ow (ow_contains ow) (ow_reserved ow) (Some l) (map witness_json ws) = Inr ws"
    using Cons.prems calculation(2) by (intro Cons.IH) auto
  ultimately show ?case using w by simp
qed simp

theorem read_witnesses_text:
  assumes "owner_ok ow" "readable ow ws"
  shows "readAliasWitnesses ow (witnesses_text ws) = Inr ws"
proof -
  have "admitted_ok (JArr (map witness_json ws))"
    using assms witness_json_ok by (auto simp: readable_def list_all_iff)
  then have "json_parse (witnesses_text ws) = Inr (JArr (map witness_json ws))"
    unfolding witnesses_text_def by (rule json_parse_serialized)
  moreover have "read_witnesses ow (ow_contains ow) (ow_reserved ow) None (map witness_json ws) = Inr ws"
    using assms(2) by (intro read_witnesses_json) (auto simp: readable_def witnesses_ok_def)
  ultimately show ?thesis
    using assms(1) by (simp add: readAliasWitnesses_def owner_ok_def)
qed

lemma lookup_fact:
  assumes "base_inv ow s" "aliasLookup ow s u = Some t"
  shows "witness_fact ow (u, t)"
proof -
  note i = base_invD(3,4) [OF assms(1)]
  from assms(2) have "\<not> isReserved ow u" "t = None \<and> ow_contains ow u \<or> (\<exists>v. t = Some v \<and> map_of (st_aliases s) u = Some v)"
    by (cases "map_of (st_aliases s) u"; auto simp: aliasLookup_def split: if_splits)+
  with i show ?thesis by (auto simp: witness_fact_def isReserved_def aliases_ok_def identities_ok_def has_identity_def)
qed

lemma original_witnesses_mem:
  "(l, t) \<in> set (original_witnesses None lookup refs) \<Longrightarrow> lookup l = Some t"
  by (auto simp: original_witnesses_def initial_witnesses_alt)

lemma comparison_readable:
  assumes "base_inv ow s" "compareCapturedReferences c (aliasLookup ow s) None fixed = Inr cmp"
  shows "readable ow (cmp_witnesses cmp)"
proof -
  have "witnesses_ok (cmp_witnesses cmp)"
    using compare_again [OF assms(2), of "aliasLookup ow s"] by simp
  moreover have "\<exists>refs. cmp_witnesses cmp = original_witnesses None (aliasLookup ow s) refs"
    using assms(2) by (auto simp: compareCapturedReferences_def resolveAliasReferences_def Let_def)
  ultimately show ?thesis
    using lookup_fact [OF assms(1)] original_witnesses_mem
    by (auto simp: readable_def list_all_iff)
qed

section \<open>Outcomes\<close>

text \<open>The positions of a sequence of events, and those of a group that extends it.\<close>

definition positions_upto :: "nat \<Rightarrow> nat list" where
  "positions_upto n = [1..<Suc n]"

definition positions_between :: "nat \<Rightarrow> nat \<Rightarrow> nat list" where
  "positions_between a b = [Suc a..<Suc b]"

lemma set_positions_upto [simp]: "set (positions_upto n) = {1..n}"
  by (auto simp: positions_upto_def)

lemma positions_same [simp]: "positions_between a a = []"
  by (simp add: positions_between_def)

lemma positions_Cons: "positions_between a b = p # r \<longleftrightarrow> a < b \<and> p = Suc a \<and> r = positions_between (Suc a) b"
  by (auto simp: upt_eq_Cons_conv positions_between_def simp del: upt_Suc)

lemma positions_next [simp]: "positions_between a (Suc a) = [Suc a]"
  by (simp add: positions_Cons)

lemma length_positions [simp]: "length (positions_between a b) = b - a"
  by (simp add: positions_between_def del: upt_Suc)

lemma positions_Nil [simp]: "positions_between a b = [] \<longleftrightarrow> b \<le> a"
  using length_0_conv [of "positions_between a b"] by simp

lemma positions_first: "(case positions_between a b of [] \<Rightarrow> None | p # r \<Rightarrow> Some p) = (if a < b then Some (Suc a) else None)"
proof (cases "positions_between a b")
  case Nil
  then have "\<not> a < b" by simp
  then show ?thesis unfolding Nil by simp
next
  case (Cons p r)
  then have "a < b" "p = Suc a" using positions_Cons [of a b p r] by simp_all
  with Cons show ?thesis by simp
qed

lemma positions_append: "a \<le> b \<Longrightarrow> positions_upto b = positions_upto a @ positions_between a b"
  using upt_add_eq_append [of 1 "Suc a" "b - a"] by (simp add: positions_upto_def positions_between_def)

definition outcome_positions :: "store \<Rightarrow> nat list" where
  "outcome_positions s = List.map_filter oc_position (st_outcomes s)"

definition outcomes_ok :: "owner \<Rightarrow> store \<Rightarrow> bool" where
  "outcomes_ok ow s \<longleftrightarrow> map oc_decision (st_outcomes s) = positions_upto (st_decisions s) \<and>
     distinct (map (\<lambda>c. (oc_principal c, oc_key c)) (st_outcomes s)) \<and>
     (\<forall>c \<in> set (st_outcomes s). \<exists>ws. oc_witnesses c = witnesses_text ws \<and> readable ow ws)"

text \<open>
  Decisions and events have the same order: the first positions of the transitions increase, and the
  transitions of an owner without batches are the positions, in sequence.  In batch mode the facts of
  the decisions are the positions, in sequence.
\<close>

definition orders_ok :: "owner \<Rightarrow> store \<Rightarrow> bool" where
  "orders_ok ow s \<longleftrightarrow> sorted_wrt (<) (outcome_positions s) \<and>
     (\<forall>p \<in> set (outcome_positions s). p \<le> length (st_events s)) \<and>
     (if ow_batch ow then map snd (st_facts s) = positions_upto (length (st_events s))
      else outcome_positions s = positions_upto (length (st_events s)) \<and> st_facts s = [])"

definition store_inv :: "owner \<Rightarrow> store \<Rightarrow> bool" where
  "store_inv ow s \<longleftrightarrow> base_inv ow s \<and> outcomes_ok ow s \<and> orders_ok ow s"

lemma store_invD: "store_inv ow s \<Longrightarrow> base_inv ow s" "store_inv ow s \<Longrightarrow> outcomes_ok ow s" "store_inv ow s \<Longrightarrow> orders_ok ow s"
  by (simp_all add: store_inv_def)

text \<open>What later states keep of an earlier one.\<close>

definition extends :: "owner \<Rightarrow> store \<Rightarrow> store \<Rightarrow> bool" where
  "extends ow s s' \<longleftrightarrow> prefix (st_outcomes s) (st_outcomes s') \<and> prefix (st_events s) (st_events s') \<and>
     prefix (st_boundaries s) (st_boundaries s') \<and>
     (\<forall>i k. map_of (st_identities s) i = Some k \<longrightarrow> map_of (st_identities s') i = Some k)"

lemma extends_refl [simp]: "extends ow s s"
  by (simp add: extends_def)

lemma extends_trans: "extends ow s t \<Longrightarrow> extends ow t u \<Longrightarrow> extends ow s u"
  by (auto simp: extends_def intro: prefix_order.trans)

text \<open>
  An execution, before its outcome is recorded: it keeps the invariant of the tables, extends them, and
  adds the events of the positions \<open>ps\<close>.
\<close>

definition grouped :: "owner \<Rightarrow> store \<Rightarrow> nat list \<Rightarrow> store \<Rightarrow> bool" where
  "grouped ow s ps s' \<longleftrightarrow> base_inv ow s' \<and> extends ow s s' \<and> st_outcomes s' = st_outcomes s \<and>
     st_decisions s' = st_decisions s \<and> st_facts s' = st_facts s \<and> st_cursors s' = st_cursors s \<and>
     ps = positions_between (length (st_events s)) (length (st_events s'))"

abbreviation position_list :: "nat option \<Rightarrow> nat list" where
  "position_list pos \<equiv> (case pos of None \<Rightarrow> [] | Some p \<Rightarrow> [p])"

lemma executed_extends:
  assumes "executed_ok ow s pos s'"
  shows "extends ow s s'"
  using assms unfolding executed_ok_def
proof
  assume "advances ow s pos s'"
  then obtain verb state former body token vs where t: "transition_ok ow s verb state former"
    "s' = committed verb state body (next_beads ow verb state former) token vs s" by (auto simp: advances_def)
  have "map_of (st_identities s') i = Some k" if "map_of (st_identities s) i = Some k" for i k
    using that t by (auto simp: identities_committed transition_ok_def Let_def has_identity_def)
  with t(2) show ?thesis by (simp add: extends_def committed_def)
qed (auto simp: stays_def extends_def)

lemma executed_base:
  assumes "executed_ok ow s pos s'" "base_inv ow s"
  shows "base_inv ow s'"
  using assms(1) unfolding executed_ok_def
proof
  assume "stays ow s pos s'"
  then show ?thesis using assms(2) base_inv_aliases by (auto simp: stays_def)
next
  assume "advances ow s pos s'"
  then show ?thesis using base_inv_committed [OF assms(2)] by (auto simp: advances_def)
qed

lemma executed_frame:
  assumes "executed_ok ow s pos s'"
  shows "st_outcomes s' = st_outcomes s" "st_decisions s' = st_decisions s" "st_facts s' = st_facts s"
    "st_cursors s' = st_cursors s"
  using assms by (auto simp: executed_ok_def stays_def advances_def committed_def)

lemma executed_events:
  assumes "executed_ok ow s pos s'"
  shows "(case pos of None \<Rightarrow> length (st_events s') = length (st_events s)
     | Some p \<Rightarrow> p = Suc (head s) \<and> length (st_events s') = Suc (length (st_events s)))"
  using assms by (auto simp: executed_ok_def stays_def advances_def committed_def)

lemma executed_grouped:
  assumes "executed_ok ow s pos s'" "base_inv ow s"
  shows "grouped ow s (position_list pos) s'"
proof -
  have "position_list pos = positions_between (length (st_events s)) (length (st_events s'))"
    using executed_events [OF assms(1)] head_length [OF base_invD(5) [OF assms(2)]]
    by (cases pos) simp_all
  then show ?thesis
    using executed_base [OF assms] executed_extends [OF assms(1)] executed_frame [OF assms(1)]
    by (simp add: grouped_def)
qed

text \<open>Recording an outcome violates no constraint and keeps the invariant.\<close>

lemma facts_below: "orders_ok ow s \<Longrightarrow> p \<in> snd ` set (st_facts s) \<Longrightarrow> p \<le> length (st_events s)"
proof -
  assume o: "orders_ok ow s" and p: "p \<in> snd ` set (st_facts s)"
  then have "map snd (st_facts s) = positions_upto (length (st_events s))" by (auto simp: orders_ok_def split: if_splits)
  then have "snd ` set (st_facts s) = {1..length (st_events s)}" by (metis set_map set_positions_upto)
  with p show ?thesis by simp
qed

lemma positions_below: "orders_ok ow s \<Longrightarrow> c \<in> set (st_outcomes s) \<Longrightarrow> oc_position c = Some p \<Longrightarrow> p \<le> length (st_events s)"
proof -
  assume o: "orders_ok ow s" and c: "c \<in> set (st_outcomes s)" "oc_position c = Some p"
  then have "p \<in> set (outcome_positions s)" by (force simp: outcome_positions_def List.map_filter_def)
  with o show ?thesis by (auto simp: orders_ok_def)
qed

lemma find_outcome_None:
  "find_outcome s who key = None \<longleftrightarrow> (\<forall>c \<in> set (st_outcomes s). \<not> (oc_principal c = who \<and> oc_key c = key))"
  by (auto simp: find_outcome_def find_None_iff)

definition recorded :: "owner \<Rightarrow> outcome_row \<Rightarrow> nat list \<Rightarrow> store \<Rightarrow> store" where
  "recorded ow c ps s = s \<lparr> st_outcomes := st_outcomes s @ [c],
     st_facts := st_facts s @ (if ow_batch ow then map (Pair (oc_decision c)) ps else []),
     st_decisions := oc_decision c \<rparr>"

lemma recorded_simps [simp]:
  "st_identities (recorded ow c ps s) = st_identities s" "st_resources (recorded ow c ps s) = st_resources s"
  "st_aliases (recorded ow c ps s) = st_aliases s" "st_events (recorded ow c ps s) = st_events s"
  "st_incidence (recorded ow c ps s) = st_incidence s" "st_boundaries (recorded ow c ps s) = st_boundaries s"
  "st_versions (recorded ow c ps s) = st_versions s" "st_cursors (recorded ow c ps s) = st_cursors s"
  "st_outcomes (recorded ow c ps s) = st_outcomes s @ [c]" "st_decisions (recorded ow c ps s) = oc_decision c"
  by (simp_all add: recorded_def)

lemma record_decision_Inr:
  "record_decision ow who key operation cmp (r, pos, s) = Inr (r', s') \<Longrightarrow>
     r' = r \<and> s' = recorded ow (outcome_of s who key operation cmp r pos) (position_list pos) s"
  by (auto simp: record_decision_def row_laws outcome_of_def recorded_def split: if_splits option.splits)

text \<open>The statements that record an outcome violate no constraint.\<close>

lemma insert_outcome_total:
  assumes "find_outcome s0 who key = None" "store_inv ow s0" "grouped ow s0 ps s"
    "oc_decision c = Suc (st_decisions s)" "oc_principal c = who" "oc_key c = key"
    "oc_position c = (case ps of [] \<Rightarrow> None | p # r \<Rightarrow> Some p)"
  shows "insert_outcome c s = Inr (s \<lparr> st_outcomes := st_outcomes s @ [c] \<rparr>)"
proof -
  note i = store_invD [OF assms(2)]
  have g: "st_outcomes s = st_outcomes s0" "st_decisions s = st_decisions s0" "base_inv ow s"
    "ps = positions_between (length (st_events s0)) (length (st_events s))"
    using assms(3) by (auto simp: grouped_def)
  have dec: "oc_decision d \<le> st_decisions s" if "d \<in> set (st_outcomes s)" for d
  proof -
    have "oc_decision d \<in> set (map oc_decision (st_outcomes s))" using that by simp
    then show ?thesis using i(2) unfolding outcomes_ok_def g(1,2) by (metis set_positions_upto atLeastAtMost_iff)
  qed
  have pos: "p = Suc (length (st_events s0)) \<and> event_at s p" if "oc_position c = Some p" for p
    using that event_at_iff [OF base_invD(5) [OF g(3)], of p] unfolding assms(7) g(4) positions_first
    by (auto split: if_splits)
  have "\<not> list_ex (\<lambda>d. oc_decision d = oc_decision c \<or> (oc_principal d = oc_principal c \<and> oc_key d = oc_key c) \<or>
           (oc_position c \<noteq> None \<and> oc_position d = oc_position c)) (st_outcomes s)"
    using dec assms(1,4-6) pos positions_below [OF i(3)] unfolding g(1) find_outcome_None
    by (fastforce simp: list_ex_iff)
  then show ?thesis using pos assms(4) unfolding insert_outcome_Inr by auto
qed

lemma record_decision_total:
  assumes "find_outcome s0 who key = None" "store_inv ow s0" "executed_ok ow s0 pos s" "\<not> max_safe < Suc (st_decisions s)"
  shows "record_decision ow who key operation cmp (r, pos, s) =
    Inr (r, recorded ow (outcome_of s who key operation cmp r pos) (position_list pos) s)"
proof -
  note i = store_invD [OF assms(2)]
  note g = executed_grouped [OF assms(3) i(1)]
  let ?c = "outcome_of s who key operation cmp r pos"
  have o: "insert_outcome ?c s = Inr (s \<lparr> st_outcomes := st_outcomes s @ [?c] \<rparr>)"
    by (rule insert_outcome_total [OF assms(1,2) g]) (simp_all add: outcome_of_def split: option.splits)
  have "insert_fact (Suc (st_decisions s)) p (s \<lparr> st_outcomes := st_outcomes s @ [?c] \<rparr>) =
      Inr (s \<lparr> st_outcomes := st_outcomes s @ [?c], st_facts := st_facts s @ [(Suc (st_decisions s), p)] \<rparr>)" if "pos = Some p" for p
  proof -
    have "p = Suc (length (st_events s0))" "length (st_events s) = p" "st_facts s = st_facts s0" "events_ok s"
      using g that positions_Cons [of "length (st_events s0)" "length (st_events s)" p "[]"]
        positions_Nil [of "Suc (length (st_events s0))" "length (st_events s)"]
      by (auto simp: grouped_def base_inv_def)
    then show ?thesis
      using facts_below [OF i(3), of p] event_at_iff [of s p] unfolding insert_fact_Inr by (auto simp: outcome_of_def)
  qed
  with o assms(4) show ?thesis
    by (cases pos) (auto simp: record_decision_def recorded_def outcome_of_def)
qed

lemma base_inv_recorded: "base_inv ow (recorded ow c ps s) = base_inv ow s"
  by (rule base_inv_cong) simp_all

lemma positions_recorded:
  "outcome_positions (recorded ow c ps s) = outcome_positions s @ position_list (oc_position c)"
  by (simp add: outcome_positions_def List.map_filter_def split: option.splits)

lemma order_extend:
  assumes "sorted_wrt (<) xs" "\<forall>p \<in> set xs. p \<le> a" "a < b"
  shows "sorted_wrt (<) (xs @ [Suc a]) \<and> (\<forall>p \<in> set (xs @ [Suc a]). p \<le> b)"
  using assms by (auto simp: sorted_wrt_append)

lemma store_inv_recorded:
  assumes "find_outcome s0 who key = None" "store_inv ow s0" "grouped ow s0 ps s"
    "oc_decision c = Suc (st_decisions s)" "oc_principal c = who" "oc_key c = key"
    "oc_position c = (case ps of [] \<Rightarrow> None | p # r \<Rightarrow> Some p)"
    "oc_witnesses c = witnesses_text ws" "readable ow ws" "length ps \<le> 1 \<or> ow_batch ow"
  shows "store_inv ow (recorded ow c ps s)"
proof -
  note i = store_invD [OF assms(2)]
  have g: "st_outcomes s = st_outcomes s0" "st_decisions s = st_decisions s0" "st_facts s = st_facts s0" "base_inv ow s"
    "ps = positions_between (length (st_events s0)) (length (st_events s))" "length (st_events s0) \<le> length (st_events s)"
    using assms(3) by (auto simp: grouped_def extends_def dest: prefix_length_le)
  have "positions_upto (Suc (st_decisions s0)) = positions_upto (st_decisions s0) @ [Suc (st_decisions s0)]"
    using positions_append [of "st_decisions s0" "Suc (st_decisions s0)"] by simp
  then have "outcomes_ok ow (recorded ow c ps s)"
    using i(2) assms(1,4-6,8,9) unfolding outcomes_ok_def find_outcome_None by (auto simp: g)
  moreover have p: "outcome_positions s = outcome_positions s0" by (simp add: outcome_positions_def g)
  have "orders_ok ow (recorded ow c ps s)"
  proof (cases "length (st_events s0) < length (st_events s)")
    case True
    have o: "oc_position c = Some (Suc (length (st_events s0)))"
      using True unfolding assms(7) g(5) positions_first by simp
    have l: "length (st_events s) = Suc (length (st_events s0))" if "\<not> ow_batch ow"
      using True that assms(10) by (simp add: g(5))
    note a = positions_append [OF g(6)]
    have r: "sorted_wrt (<) (outcome_positions s0 @ [Suc (length (st_events s0))]) \<and>
        (\<forall>p \<in> set (outcome_positions s0 @ [Suc (length (st_events s0))]). p \<le> length (st_events s))"
      by (rule order_extend [OF _ _ True]) (use i(3) in \<open>simp_all add: orders_ok_def\<close>)
    show ?thesis
    proof (cases "ow_batch ow")
      case True
      then show ?thesis
        using i(3) r unfolding orders_ok_def positions_recorded p o
        by (simp add: recorded_def g(3,5) a comp_def)
    next
      case False
      from False i(3) have q: "outcome_positions s0 = positions_upto (length (st_events s0))" "st_facts s0 = []"
        by (simp_all add: orders_ok_def)
      have n: "positions_upto (length (st_events s)) = positions_upto (length (st_events s0)) @ [Suc (length (st_events s0))]"
        using positions_append [of "length (st_events s0)" "Suc (length (st_events s0))"] by (simp add: l [OF False])
      have "orders_ok ow (recorded ow c ps s) \<longleftrightarrow> sorted_wrt (<) (outcome_positions s0 @ [Suc (length (st_events s0))]) \<and>
          (\<forall>p \<in> set (outcome_positions s0 @ [Suc (length (st_events s0))]). p \<le> length (st_events s))"
        unfolding orders_ok_def positions_recorded p o using False n q by (simp add: recorded_def g(3))
      with r show ?thesis by blast
    qed
  next
    case False
    then have l: "length (st_events s) = length (st_events s0)" "ps = []" using g(5,6) by simp_all
    then have "oc_position c = None" using assms(7) by simp
    then show ?thesis
      using i(3) l(2) unfolding orders_ok_def positions_recorded p l(1)
      by (simp add: recorded_def g(3) l(1))
  qed
  ultimately show ?thesis using g(4) by (simp add: store_inv_def base_inv_recorded)
qed

section \<open>Decide\<close>

lemma decide_cases:
  assumes "decide ow who operation key c execute s = Inr (r, s')"
  obtains (known) previous where "find_outcome s who key = Some previous" "s' = s"
  | (decided) cmp pos s1 where "find_outcome s who key = None" "who \<noteq> []"
      "compareCapturedReferences c (aliasLookup ow s) None [] = Inr cmp" "execute cmp s = Inr (r, pos, s1)"
      "s' = recorded ow (outcome_of s1 who key operation cmp r pos) (position_list pos) s1"
proof (cases "find_outcome s who key")
  case (Some previous)
  then show ?thesis using assms known by (auto simp: decide_def split: if_splits)
next
  case None
  with assms obtain cmp r1 pos s1 where d: "who \<noteq> []" "compareCapturedReferences c (aliasLookup ow s) None [] = Inr cmp"
    "execute cmp s = Inr (r1, pos, s1)" "record_decision ow who key operation cmp (r1, pos, s1) = Inr (r, s')"
    by (auto simp: decide_def split: if_splits)
  with record_decision_Inr [OF d(4)] None decided show ?thesis by blast
qed

theorem decide_inv:
  assumes "decide ow who operation key c execute s = Inr (r, s')" "store_inv ow s"
    "\<And>cmp r pos s1. compareCapturedReferences c (aliasLookup ow s) None [] = Inr cmp \<Longrightarrow>
       execute cmp s = Inr (r, pos, s1) \<Longrightarrow> executed_ok ow s pos s1"
  shows "store_inv ow s'"
  using assms(1)
proof (cases rule: decide_cases)
  case known
  then show ?thesis using assms(2) by simp
next
  case (decided cmp pos s1)
  show ?thesis unfolding decided(5)
    by (rule store_inv_recorded [OF decided(1) assms(2) executed_grouped [OF assms(3) [OF decided(3,4)] store_invD(1) [OF assms(2)]]
        _ _ _ _ _ comparison_readable [OF store_invD(1) [OF assms(2)] decided(3)]])
      (simp_all add: outcome_of_def split: option.splits)
qed

lemma decide_extends:
  assumes "decide ow who operation key c execute s = Inr (r, s')"
    "\<And>cmp r pos s1. execute cmp s = Inr (r, pos, s1) \<Longrightarrow> executed_ok ow s pos s1"
  shows "extends ow s s'"
  using assms(1)
proof (cases rule: decide_cases)
  case (decided cmp pos s1)
  from executed_extends [OF assms(2) [OF decided(4)]] executed_frame(1) [OF assms(2) [OF decided(4)]] decided(5)
  show ?thesis by (simp add: extends_def)
qed simp

lemma find_outcome_extends:
  assumes "extends ow s s'" "find_outcome s who key = Some c"
  shows "find_outcome s' who key = Some c"
proof -
  have "List.find P (xs @ ys) = Some c" if "List.find P xs = Some c" for P :: "outcome_row \<Rightarrow> bool" and xs ys
    using that by (induction xs) (auto split: if_splits)
  with assms show ?thesis by (auto simp: extends_def find_outcome_def prefix_def)
qed

lemma lookup_direct:
  assumes "base_inv ow s'" "extends ow s s'" "aliasLookup ow s u = None"
  shows "aliasLookup ow s' u = None"
proof (cases "has_identity s u \<or> isReserved ow u")
  case True
  then show ?thesis using assms(2) by (auto simp: aliasLookup_def has_identity_def extends_def)
next
  case False
  then have "\<not> ow_contains ow u" using assms(3) by (auto simp: aliasLookup_def split: option.splits if_splits)
  then have "map_of (st_aliases s') u = None"
    using base_invD(3) [OF assms(1)] by (cases "map_of (st_aliases s') u") (auto simp: aliases_ok_def)
  then show ?thesis using \<open>\<not> ow_contains ow u\<close> by (simp add: aliasLookup_def)
qed

lemma find_appended: "List.find P xs = None \<Longrightarrow> P c \<Longrightarrow> List.find P (xs @ [c]) = Some c"
  by (induction xs) (auto split: if_splits)

lemma find_outcome_recorded:
  assumes "find_outcome s who key = None" "st_outcomes s' = st_outcomes s @ [c]" "oc_principal c = who" "oc_key c = key"
  shows "find_outcome s' who key = Some c"
  using assms find_appended [of "\<lambda>c. oc_principal c = who \<and> oc_key c = key" "st_outcomes s" c] by (simp add: find_outcome_def)

text \<open>A retry of a decided invocation, at any later time.\<close>

theorem decide_again:
  assumes "decide ow who operation key c execute s = Inr (r, s1)" "find_outcome s who key = None"
    and "owner_ok ow" "store_inv ow s" "store_inv ow s2" "extends ow s1 s2"
    and "\<And>cmp r pos s1. execute cmp s = Inr (r, pos, s1) \<Longrightarrow> executed_ok ow s pos s1"
  shows "decide ow who operation key c execute' s2 = Inr (r, s2)"
  using assms(1)
proof (cases rule: decide_cases)
  case (decided cmp pos s')
  let ?o = "outcome_of s' who key operation cmp r pos"
  have "st_outcomes s' = st_outcomes s" using executed_frame(1) [OF assms(7) [OF decided(4)]] .
  then have "find_outcome s1 who key = Some ?o"
    by (intro find_outcome_recorded [OF decided(1)]) (simp_all add: decided(5) outcome_of_def)
  from find_outcome_extends [OF assms(6) this] have o: "find_outcome s2 who key = Some ?o" .
  have ext: "extends ow s s2"
    by (rule extends_trans [OF decide_extends [OF assms(1)] assms(6)]) (rule assms(7))
  have "compareCapturedReferences c (aliasLookup ow s2) (Some (cmp_witnesses cmp)) [] = Inr cmp"
    using compare_again [OF decided(3), of "aliasLookup ow s2"] lookup_direct [OF store_invD(1) [OF assms(5)] ext] by blast
  moreover have "readAliasWitnesses ow (oc_witnesses ?o) = Inr (cmp_witnesses cmp)"
    using read_witnesses_text [OF assms(3) comparison_readable [OF store_invD(1) [OF assms(4)] decided(3)]]
    by (simp add: outcome_of_def)
  ultimately show ?thesis using o decided(2) by (simp add: decide_def outcome_of_def)
qed (use assms(2) in simp)

end
