(* ===== verification/Store_Requests.thy ===== *)
theory Store_Requests
  imports Store_Decisions
begin

text \<open>
  Every public mutation of the owner executes an admissible transition, a refusal or a change of the
  alias table: what the prepared requests promise, carried through the turns of \<open>store.ts\<close>.
\<close>

section \<open>Prepared identities\<close>

lemma optional_id_canonical:
  "scope_ok scope \<Longrightarrow> optional_id rt scope v = Inr (Some u) \<Longrightarrow> canonicalCreatedId rt scope u = Inr u"
  by (auto simp: optional_id_def split: option.splits elim: createdId_again)

lemma prepared_create_id:
  assumes "scope_ok scope" "prepareCreate rt scope text key = Inr p" "pc_id p = Some u"
  shows "canonicalCreatedId rt scope u = Inr u"
proof -
  from assms(2) obtain input i t a where p: "optional_id rt scope (str_member ''id'' input) = Inr i"
    "(case a of Refused os ds truncated \<Rightarrow> create_refused scope key t i input ds truncated
      | Admitted v \<Rightarrow> create_admitted scope key t i v) = Inr p"
    by (rule create_parts)
  have "pc_id p = i"
  proof (cases a)
    case (Admitted v)
    with p(2) show ?thesis by (auto simp: create_admitted_def prepared_def split: if_splits)
  next
    case (Refused os ds tr)
    with p(2) create_refused_fields show ?thesis by fastforce
  qed
  with p(1) assms(1,3) optional_id_canonical show ?thesis by simp
qed


lemma link_normalized_id:
  "obj_get (js ''id'') (link_normalized operation input ident subject source target) =
     (case ident of Some u \<Rightarrow> Some (JStr u) | None \<Rightarrow> obj_get (js ''id'') input)"
  by (auto simp: link_normalized_def obj_get_spread opt_field_def split: option.splits)

lemma str_member_map: "str_member n (map (map_prod id (map_jv f)) kvs) = str_member n kvs"
  by (auto simp: str_member_def obj_get_map split: option.splits jv.splits)

lemma admitted_shape:
  "admitJsonNumbers root b = Inr (Admitted v) \<Longrightarrow> v = map_jv literal_decimal root"
  by (simp add: admitted_iff)

lemma snapshot_same: "snapshotJsonValue v = Inr w \<Longrightarrow> w = v"
  by (auto simp: snapshotJsonValue_def split: if_splits)

lemma prepared_link_id:
  assumes "scope_ok scope" "prepareLink rt scope operation text key = Inr p" "str_member ''id'' (pl_value p) = Some u"
  shows "canonicalCreatedId rt scope u = Inr u"
proof -
  from assms(2) obtain norm source target identity adm val refused where
    n: "link_input rt scope operation text = Inr (norm, source, target)" and
    a: "admitJsonNumbers (JObj norm) numeric_budget = Inr adm" and
    b: "link_body adm = Inr (val, refused)" and v: "pl_value p = val"
    by (auto simp: prepareLink_def split: if_splits)
  from n obtain input ident subject where
    i: "optional_id rt scope (str_member ''id'' input) = Inr ident"
      "norm = link_normalized operation input ident subject source target"
    by (auto simp: link_input_def)
  from assms(3) v b obtain w where w: "adm = Admitted w" "w = JObj val"
    by (cases adm) (auto simp: link_body_def record_of_eq_Inr str_member_def obj_get_def dest!: snapshot_same)
  have "JObj val = map_jv literal_decimal (JObj norm)" using admitted_shape a w by blast
  then have "val = map (map_prod id (map_jv literal_decimal)) norm" by simp
  then have "str_member ''id'' norm = Some u" using assms(3) v by (simp add: str_member_map)
  then have "(case ident of Some x \<Rightarrow> Some x | None \<Rightarrow> str_member ''id'' input) = Some u"
    using i(2) by (cases ident) (simp_all add: str_member_def link_normalized_id)
  moreover have "ident = None \<Longrightarrow> str_member ''id'' input = None"
    using i(1) by (cases "str_member ''id'' input") (auto simp: optional_id_def)
  ultimately have "ident = Some u" by (cases ident) simp_all
  then show ?thesis using optional_id_canonical [OF assms(1)] i(1) by blast
qed

section \<open>Aliases\<close>

lemma aliases_delete: "aliases_ok ow s \<Longrightarrow> aliases_ok ow (delete_alias l s)"
  by (auto simp: aliases_ok_def delete_alias_def rows.find_drop rows.sound_drop has_identity_def split: if_splits)

lemma aliases_upsert:
  assumes "aliases_ok ow s" "upsert_alias l t s = Inr s'" "\<not> has_identity s l" "ow_contains ow l" "\<not> isReserved ow l"
    "map_of (st_identities s) t = Some KBead"
  shows "aliases_ok ow s'"
  using assms by (auto simp: aliases_ok_def upsert_alias_def rows.find_put rows.sound_put has_identity_def split: if_splits)

lemma stays_alias: "aliases_ok ow (s \<lparr> st_aliases := a \<rparr>) \<Longrightarrow> stays ow s None (s \<lparr> st_aliases := a \<rparr>)"
  by (auto simp: stays_def)

lemma delete_alias_ok:
  assumes "delete_alias_turn p s = Inr (r, pos, s')" "aliases_ok ow s"
  shows "executed_ok ow s pos s'"
proof (cases "pos = None \<and> s' = s")
  case False
  then have "pos = None" "s' = delete_alias (pa_alias p) s"
    using assms(1) by (auto simp: delete_alias_turn_def refuse_def Let_def split: if_splits)
  then show ?thesis
    using aliases_delete [OF assms(2), of "pa_alias p"] stays_alias by (auto simp: executed_ok_def delete_alias_def)
qed (simp add: executed_ok_def)

lemma put_alias_ok:
  assumes "put_alias_turn ow p target s = Inr (r, pos, s')" "base_inv ow s"
    "ow_contains ow (pa_alias p)" "\<not> has_identity s (pa_alias p)" "\<not> isReserved ow (pa_alias p)"
  shows "executed_ok ow s pos s'"
proof (cases "pos = None \<and> s' = s")
  case False
  from False assms(1) have u: "pos = None" "upsert_alias (pa_alias p) target s = Inr s'"
    "currentState s target (Some KBead) \<noteq> None"
    by (auto simp: put_alias_turn_def refuse_def Let_def split: if_splits)
  from u(3) obtain st where "currentState s target (Some KBead) = Some st" by blast
  then have "map_of (st_identities s) target = Some KBead"
    by (auto simp: currentState_def split: option.splits if_splits)
  from aliases_upsert [OF base_invD(3) [OF assms(2)] u(2) assms(4,3,5) this] u(1,2) stays_alias
  show ?thesis by (auto simp: executed_ok_def upsert_alias_def split: if_splits)
qed (simp add: executed_ok_def)

lemma execute_alias_ok:
  assumes "execute_alias ow p operation s = Inr (r, pos, s')" "base_inv ow s" "operation = PutAlias \<or> operation = DeleteAlias"
  shows "executed_ok ow s pos s'"
proof (cases "ow_contains ow (pa_alias p) \<and> \<not> (operation = PutAlias \<and> (has_identity s (pa_alias p) \<or> isReserved ow (pa_alias p)))")
  case True
  show ?thesis
  proof (cases "operation = DeleteAlias")
    case del: True
    with True assms(1) have "delete_alias_turn p s = Inr (r, pos, s')"
      unfolding execute_alias_def by (simp only: simp_thms if_True if_False operation.simps)
    then show ?thesis using delete_alias_ok base_invD(3) [OF assms(2)] by blast
  next
    case False
    with True assms obtain t where "put_alias_turn ow p t s = Inr (r, pos, s')"
      by (auto simp: execute_alias_def split: option.splits)
    with True False assms(2,3) put_alias_ok show ?thesis by blast
  qed
next
  case False
  then show ?thesis using assms(1) by (auto simp: execute_alias_def split: if_splits)
qed

section \<open>Beads and Links\<close>

lemma on_subject_ok:
  assumes "on_subject cmp given f s = Inr (r, pos, s')" "\<And>u. f u s = Inr (r, pos, s') \<Longrightarrow> executed_ok ow s pos s'"
  shows "executed_ok ow s pos s'"
  using assms by (auto simp: on_subject_def split: option.splits resolved.splits endpoint.splits)

lemma execute_link_cases:
  obtains (failed) e where "linkFields p = Inl e" "execute_link ow su p operation cmp s = Inl e"
  | (refused) v where "execute_link ow su p operation cmp s = refuse v s"
  | (create) f where "execute_link ow su p operation cmp s = performCreate ow su KLink (create_link_fields p f) s"
  | (update) f where "execute_link ow su p operation cmp s = performUpdate ow su KLink (link_subject p) f s"
  | (delete) f :: edit_fields where "execute_link ow su p operation cmp s = performDelete ow su KLink (link_subject p) (ef_expectedRevision f) s"
proof (cases "pl_refusal p")
  case (Some v)
  then show ?thesis using refused by (simp add: execute_link_def)
next
  case None
  show ?thesis
  proof (cases "linkFields p")
    case (Inl e)
    then show ?thesis using failed None by (simp add: execute_link_def)
  next
    case (Inr f)
    show ?thesis
    proof (cases "resolved_endpoint cmp SSource (ef_source f) = None \<or> resolved_endpoint cmp STarget (ef_target f) = None")
      case True
      then have "execute_link ow su p operation cmp s = refuse not_found s"
        using None Inr by (auto simp: execute_link_def split: option.splits)
      then show ?thesis by (rule refused)
    next
      case False
      then obtain src tgt where e: "resolved_endpoint cmp SSource (ef_source f) = Some src"
        "resolved_endpoint cmp STarget (ef_target f) = Some tgt" by auto
      show ?thesis
        using None Inr e create update delete [of "f \<lparr> ef_source := src, ef_target := tgt \<rparr>"]
        by (cases operation) (simp_all add: execute_link_def Let_def)
    qed
  qed
qed

lemma execute_link_ok:
  assumes "execute_link ow su p operation cmp s = Inr (r, pos, s')" "base_inv ow s" "fresh ow s su"
    "\<And>u. str_member ''id'' (pl_value p) = Some u \<Longrightarrow> canonicalCreatedId (ow_runtime ow) (ow_scope ow) u = Inr u"
  shows "executed_ok ow s pos s'"
proof (cases rule: execute_link_cases [of p ow su operation cmp s])
  case (refused v)
  show ?thesis by (rule refuse_ok [OF assms(1) [unfolded refused]])
next
  case (create f)
  show ?thesis
    by (rule performCreate_ok [OF assms(1) [unfolded create] assms(2,3)]) (simp add: create_link_fields_def assms(4))
next
  case (update f)
  show ?thesis by (rule performUpdate_ok [OF assms(1) [unfolded update] assms(2,3)])
next
  case (delete f)
  show ?thesis by (rule performDelete_ok [OF assms(1) [unfolded delete] assms(2,3)])
qed (use assms(1) in simp_all)

end
