(* ===== verification/Batch_Contract.thy ===== *)
theory Batch_Contract
  imports Events "HOL-Library.AList"
begin

text \<open>
  Admission of a batch (\<open>retained-v01/batch-contract.ts\<close>): its members, prepared as the ordinary
  operations they are, the handles that name earlier creations of the batch, its semantic identity and
  the comparison of a retry.
\<close>

section \<open>Data\<close>

definition BATCH_CAPABILITY :: jstring where
  "BATCH_CAPABILITY = js ''https://github.com/gastownhall/bdp/capabilities/atomic-batch''"

definition BATCH_OPERATIONS :: "operation list" where
  "BATCH_OPERATIONS = [CreateBead, UpdateBead, DeleteBead, CreateLink, UpdateLink, DeleteLink]"

definition maximumOperations :: nat where "maximumOperations = 32"

definition maximumResultBytes :: nat where "maximumResultBytes = 262144"

datatype invocation =
    ICreate prepared_create | IUpdate prepared_update | IDelete prepared_delete | ILink prepared_link

fun invocation_captured :: "invocation \<Rightarrow> captured" where
  "invocation_captured (ICreate p) = pc_captured p"
| "invocation_captured (IUpdate p) = pu_captured p"
| "invocation_captured (IDelete p) = pd_captured p"
| "invocation_captured (ILink p) = pl_captured p"

fun invocation_identity :: "invocation \<Rightarrow> jstring" where
  "invocation_identity (ICreate p) = pc_identity p"
| "invocation_identity (IUpdate p) = pu_identity p"
| "invocation_identity (IDelete p) = pd_identity p"
| "invocation_identity (ILink p) = pl_identity p"

text \<open>The identity an invocation asks to create.\<close>

fun invocation_id :: "invocation \<Rightarrow> jstring option" where
  "invocation_id (ICreate p) = pc_id p"
| "invocation_id (ILink p) = str_member ''id'' (pl_value p)"
| "invocation_id _ = None"

datatype batch_field = FBead | FLink | FSource | FTarget

fun field_name :: "batch_field \<Rightarrow> string" where
  "field_name FBead = ''bead''"
| "field_name FLink = ''link''"
| "field_name FSource = ''source''"
| "field_name FTarget = ''target''"

definition batch_fields :: "batch_field list" where
  "batch_fields = [FBead, FLink, FSource, FTarget]"

fun field_slot :: "batch_field \<Rightarrow> slot option" where
  "field_slot FBead = Some SBead"
| "field_slot FLink = None"
| "field_slot FSource = Some SSource"
| "field_slot FTarget = Some STarget"

record batch_handle =
  bh_index :: nat
  bh_kind :: resource_kind
  bh_placeholder :: jstring

type_synonym batch_handles = "(batch_field \<times> batch_handle) list"
type_synonym batch_names = "(jstring \<times> batch_handle) list"

record batch_member =
  bm_operation :: operation
  bm_name :: "jstring option"
  bm_handles :: batch_handles
  bm_invocation :: invocation

record prepared_batch =
  pb_scope :: jstring
  pb_key :: jstring
  pb_identity :: jstring
  pb_version :: jstring
  pb_members :: "batch_member list"

definition creating :: "operation \<Rightarrow> bool" where
  "creating operation \<longleftrightarrow> operation = CreateBead \<or> operation = CreateLink"

definition operation_kind :: "operation \<Rightarrow> resource_kind" where
  "operation_kind operation = (if operation \<in> {CreateBead, UpdateBead, DeleteBead} then KBead else KLink)"

section \<open>Identity\<close>

text \<open>Handles are a tagged map of their own, so a literal URL never equates to a handle.\<close>

definition memberIdentity :: "batch_member \<Rightarrow> jstring \<Rightarrow> semantic" where
  "memberIdentity m identity = JObj
     [(js ''operation'', JStr (js (operation_name (bm_operation m)))), (js ''identity'', JStr identity),
      (js ''handles'', JObj (map (\<lambda>(f, h). (js (field_name f), JStr (nat_text (bh_index h)))) (bm_handles m)))]"

definition identityFor :: "jstring \<Rightarrow> batch_member list \<Rightarrow> jstring list \<Rightarrow> jstring result" where
  "identityFor scope members identities = encodeSemanticValue (JObj
     [(js ''format'', JStr (js ''retained-v01-batch-1'')), (js ''specification'', JStr RETAINED_SPEC),
      (js ''media'', JStr RETAINED_MEDIA), (js ''capabilities'', JObj [(BATCH_CAPABILITY, JStr (js ''1''))]),
      (js ''scope'', JStr scope), (js ''operation'', JStr (js ''batch'')),
      (js ''input'', JArr (map2 memberIdentity members identities))])"

definition unknown_identity :: "jstring \<Rightarrow> lossless_object \<Rightarrow> jstring result" where
  "unknown_identity scope root = encodeSemanticValue (JObj
     [(js ''format'', JStr (js ''retained-v01-batch-unknown-1'')), (js ''specification'', JStr RETAINED_SPEC),
      (js ''media'', JStr RETAINED_MEDIA), (js ''scope'', JStr scope), (js ''operation'', JStr (js ''batch'')),
      (js ''input'', JObj (sem_fields root))])"

definition batchCapabilityProblem :: "jstring \<Rightarrow> json_object" where
  "batchCapabilityProblem version = problem ''capability-not-supported'' 422 ''after-state-change'' @
     [(js ''capability'', JStr BATCH_CAPABILITY), (js ''capabilityVersion'', JStr version),
      (js ''pointer'', JStr (js ''/capabilityVersion''))]"

definition batchOperationProblem :: "operation \<Rightarrow> nat \<Rightarrow> json_object" where
  "batchOperationProblem operation index = problem ''operation-not-supported'' 422 ''after-state-change'' @
     [(js ''capability'', JStr BATCH_CAPABILITY), (js ''capabilityVersion'', JStr (js ''1'')),
      (js ''operation'', JStr (js (operation_name operation))),
      (js ''pointer'', JStr (js ''/operations/'' @ nat_text index @ js ''/operation''))]"

section \<open>Members\<close>

text \<open>The pattern of a name: a letter, then letters, digits, underscores and hyphens.\<close>

definition validName :: "jstring \<Rightarrow> bool" where
  "validName s = (case s of [] \<Rightarrow> False | c # r \<Rightarrow> is_alpha c \<and> list_all key_unit r)"

definition member_operation :: "lossless_object \<Rightarrow> operation result" where
  "member_operation value = (case str_member ''operation'' value of
     None \<Rightarrow> Inl malformed
   | Some s \<Rightarrow> (case List.find (\<lambda>op. js (operation_name op) = s) BATCH_OPERATIONS of
       None \<Rightarrow> Inl malformed | Some op \<Rightarrow> Inr op))"

definition member_name :: "operation \<Rightarrow> batch_names \<Rightarrow> lossless_object \<Rightarrow> jstring option result" where
  "member_name operation names value = (case obj_get (js ''name'') value of
     None \<Rightarrow> Inr None
   | Some (JStr n) \<Rightarrow>
       if \<not> creating operation \<or> \<not> validName n \<or> map_of names n \<noteq> None then Inl malformed else Inr (Some n)
   | Some _ \<Rightarrow> Inl malformed)"

text \<open>The URI text of a reference that may be a handle, with the pin's members when it is pinned.\<close>

definition reference_parts :: "lossless \<Rightarrow> (lossless_object option \<times> lossless option) result" where
  "reference_parts original = (case original of
     JStr u \<Rightarrow> Inr (None, Some original)
   | _ \<Rightarrow> bindR (record_of (Some original)) (\<lambda>r. Inr (Some r, obj_get (js ''uri'') r)))"

definition named_handle :: "batch_names \<Rightarrow> batch_field \<Rightarrow> jstring \<Rightarrow> batch_handle result" where
  "named_handle names f uri = (case map_of names (tl uri) of
     None \<Rightarrow> Inl malformed
   | Some h \<Rightarrow>
       if \<not> validName (tl uri) \<or> bh_kind h \<noteq> (if f = FLink then KLink else KBead) then Inl malformed else Inr h)"

text \<open>One field: a reference that starts with \<open>@\<close> is replaced by the placeholder of its handle.\<close>

definition bind_handle ::
  "batch_names \<Rightarrow> batch_field \<Rightarrow> lossless_object \<times> batch_handles \<Rightarrow> (lossless_object \<times> batch_handles) result" where
  "bind_handle names f acc = (case obj_get (js (field_name f)) (fst acc) of
     None \<Rightarrow> Inr acc
   | Some original \<Rightarrow>
       bindR (reference_parts original) (\<lambda>(pinned, uri).
         case uri of
           Some (JStr u) \<Rightarrow>
             if \<not> prefix [0x40] u then Inr acc
             else
               bindR (named_handle names f u) (\<lambda>h.
                 let placed = (case pinned of None \<Rightarrow> JStr (bh_placeholder h)
                        | Some r \<Rightarrow> JObj (obj_put (js ''uri'') (JStr (bh_placeholder h)) r))
                 in Inr (obj_put (js (field_name f)) placed (fst acc), snd acc @ [(f, h)]))
         | _ \<Rightarrow> Inr acc))"

definition prepare_member :: "url_runtime \<Rightarrow> jstring \<Rightarrow> jstring \<Rightarrow> operation \<Rightarrow> jstring \<Rightarrow> invocation result" where
  "prepare_member rt scope key operation text =
     (if operation = CreateBead then bindR (prepareCreate rt scope text key) (\<lambda>p. Inr (ICreate p))
      else if operation = UpdateBead then bindR (prepareUpdate rt scope text key) (\<lambda>p. Inr (IUpdate p))
      else if operation = DeleteBead then bindR (prepareDelete rt scope text key) (\<lambda>p. Inr (IDelete p))
      else bindR (prepareLink rt scope operation text key) (\<lambda>p. Inr (ILink p)))"

definition batch_placeholder :: "jstring \<Rightarrow> nat \<Rightarrow> jstring" where
  "batch_placeholder scope index = scope @ js ''batch-binding-'' @ nat_text index"

definition batch_member_at ::
  "url_runtime \<Rightarrow> jstring \<Rightarrow> jstring \<Rightarrow> nat \<Rightarrow> batch_names \<Rightarrow> lossless \<Rightarrow> (batch_member \<times> batch_names) result" where
  "batch_member_at rt scope key index names raw =
     bindR (record_of (Some raw)) (\<lambda>value.
     bindR (member_operation value) (\<lambda>operation.
     bindR (member_name operation names value) (\<lambda>name.
     bindR (foldR (bind_handle names) batch_fields
       (obj_delete (js ''name'') (obj_delete (js ''operation'') value), [])) (\<lambda>(body, handles).
     bindR (prepare_member rt scope key operation (losslessMemberText (JObj body))) (\<lambda>invocation.
       Inr (\<lparr> bm_operation = operation, bm_name = name, bm_handles = handles, bm_invocation = invocation \<rparr>,
            (case name of None \<Rightarrow> names
             | Some n \<Rightarrow> names @ [(n, \<lparr> bh_index = index, bh_kind = operation_kind operation,
                 bh_placeholder = batch_placeholder scope index \<rparr>)])))))))"

fun batch_members ::
  "url_runtime \<Rightarrow> jstring \<Rightarrow> jstring \<Rightarrow> nat \<Rightarrow> batch_names \<Rightarrow> lossless list \<Rightarrow> batch_member list result" where
  "batch_members rt scope key index names [] = Inr []"
| "batch_members rt scope key index names (raw # raws) =
     bindR (batch_member_at rt scope key index names raw) (\<lambda>(m, names').
     bindR (batch_members rt scope key (Suc index) names' raws) (\<lambda>ms. Inr (m # ms)))"

definition batch_root :: "jstring \<Rightarrow> lossless_object result" where
  "batch_root text = catch_all malformed (bindR (decodeJsonDocument text) (\<lambda>d. record_of (Some d)))"

definition prepareBatch :: "url_runtime \<Rightarrow> jstring \<Rightarrow> jstring \<Rightarrow> jstring \<Rightarrow> prepared_batch result" where
  "prepareBatch rt scope text key =
     (if \<not> key_ok key then Inl malformed
      else
        bindR (batch_root text) (\<lambda>root.
        bindR (nonempty_string (obj_get (js ''capabilityVersion'') root)) (\<lambda>version.
          if version \<noteq> js ''1'' then
            bindR (unknown_identity scope root) (\<lambda>identity.
              Inr \<lparr> pb_scope = scope, pb_key = key, pb_identity = identity, pb_version = version, pb_members = [] \<rparr>)
          else
            bindR (closed root [''capabilityVersion'', ''operations'']) (\<lambda>_.
              case obj_get (js ''operations'') root of
                Some (JArr (raw # raws)) \<Rightarrow>
                  bindR (batch_members rt scope key 0 [] (raw # raws)) (\<lambda>members.
                  bindR (identityFor scope members (map (invocation_identity \<circ> bm_invocation) members)) (\<lambda>identity.
                    Inr \<lparr> pb_scope = scope, pb_key = key, pb_identity = identity, pb_version = version,
                      pb_members = members \<rparr>))
              | _ \<Rightarrow> Inl malformed))))"

section \<open>Comparison\<close>

record batch_comparison =
  bc_identity :: jstring
  bc_members :: "comparison list"
  bc_witnesses :: "witness list"

definition fixed_slots :: "batch_member \<Rightarrow> slot list" where
  "fixed_slots m = List.map_filter (field_slot \<circ> fst) (bm_handles m)"

text \<open>A creation that precedes a member is a canonical identity for it, never an alias.\<close>

definition created_lookup :: "jstring list \<Rightarrow> alias_lookup \<Rightarrow> alias_lookup" where
  "created_lookup created lookup l = (if l \<in> set created then None else lookup l)"

definition created_prior :: "jstring list \<Rightarrow> witness list \<Rightarrow> witness list" where
  "created_prior created ws = filter (\<lambda>w. fst w \<notin> set created) ws"

definition created_by :: "batch_member \<Rightarrow> jstring list" where
  "created_by m = (if creating (bm_operation m) then
     (case invocation_id (bm_invocation m) of Some u \<Rightarrow> [u] | None \<Rightarrow> []) else [])"

definition compare_member ::
  "alias_lookup \<Rightarrow> witness list option \<Rightarrow> jstring list \<Rightarrow> batch_member \<Rightarrow> comparison result" where
  "compare_member lookup prior created m =
     compareCapturedReferences (invocation_captured (bm_invocation m)) (created_lookup created lookup)
       (map_option (created_prior created) prior) (fixed_slots m)"

fun compare_members ::
  "alias_lookup \<Rightarrow> witness list option \<Rightarrow> jstring list \<Rightarrow> batch_member list \<Rightarrow> comparison list result" where
  "compare_members lookup prior created [] = Inr []"
| "compare_members lookup prior created (m # ms) =
     bindR (compare_member lookup prior created m) (\<lambda>c.
     bindR (compare_members lookup prior (created @ created_by m) ms) (\<lambda>cs. Inr (c # cs)))"

definition merged_witnesses :: "comparison list \<Rightarrow> witness list" where
  "merged_witnesses cs = sort_key fst (foldl (\<lambda>acc (l, t). AList.update l t acc) [] (concat (map cmp_witnesses cs)))"

definition compareBatch :: "prepared_batch \<Rightarrow> alias_lookup \<Rightarrow> witness list option \<Rightarrow> batch_comparison result" where
  "compareBatch input lookup prior =
     bindR (compare_members lookup prior [] (pb_members input)) (\<lambda>cs.
     bindR (if pb_version input = js ''1'' then identityFor (pb_scope input) (pb_members input) (map cmp_identity cs)
            else Inr (pb_identity input)) (\<lambda>identity.
       Inr \<lparr> bc_identity = identity, bc_members = cs,
         bc_witnesses = (case prior of Some ws \<Rightarrow> ws | None \<Rightarrow> merged_witnesses cs) \<rparr>))"


section \<open>The comparison of a retry\<close>

lemma compare_agree:
  assumes "compareCapturedReferences c lookup None fixed = Inr first" "check_prior ws [] = Inr ()"
    and "\<And>r. r \<in> set (ordinary_references c fixed) \<Longrightarrow>
      map_of ws (referenceUri r) = lookup (referenceUri r) \<and> (lookup (referenceUri r) = None \<longrightarrow> lookup' (referenceUri r) = None)"
  shows "compareCapturedReferences c lookup' (Some ws) fixed = Inr (first \<lparr> cmp_witnesses := ws \<rparr>)"
proof -
  let ?refs = "ordinary_references c fixed"
  from assms(1) obtain rs where rs: "mapR (resolve_one None lookup) ?refs = Inr rs"
    by (auto simp: compareCapturedReferences_def resolveAliasReferences_def Let_def)
  have "resolve_one (Some ws) lookup' r = resolve_one None lookup r" if r: "r \<in> set ?refs" for r
  proof -
    obtain q where "resolve_one None lookup r = Inr q"
      using rs r by (auto simp: mapR_eq_Inr list_all2_conv_all_nth in_set_conv_nth)
    with assms(3) [OF r] show ?thesis
      by (auto simp: resolve_one_def resolve_target_def nonempty_fact_def split: option.splits)
  qed
  then have "mapR (resolve_one (Some ws) lookup') ?refs = Inr rs"
    using rs by (metis mapR_cong)
  then show ?thesis
    using assms(1,2) rs by (auto simp: compareCapturedReferences_def resolveAliasReferences_def original_witnesses_def Let_def)
qed

lemma comparison_witnesses:
  assumes "compareCapturedReferences c lookup None fixed = Inr first"
  shows "witnesses_ok (cmp_witnesses first)"
    "map_of (cmp_witnesses first) u = (if u \<in> referenceUri ` set (ordinary_references c fixed) then lookup u else None)"
proof -
  show "witnesses_ok (cmp_witnesses first)" using compare_again [OF assms, of lookup] by simp
  show "map_of (cmp_witnesses first) u = (if u \<in> referenceUri ` set (ordinary_references c fixed) then lookup u else None)"
    using assms by (auto simp: compareCapturedReferences_def resolveAliasReferences_def map_of_original Let_def)
qed

definition updates :: "witness list \<Rightarrow> witness list \<Rightarrow> witness list" where
  "updates acc ws = foldl (\<lambda>acc (l, t). AList.update l t acc) acc ws"

lemma updates_facts:
  "distinct (map fst acc) \<Longrightarrow> distinct (map fst (updates acc ws))"
  "map_of (updates acc ws) u = Some t \<Longrightarrow> (u, t) \<in> set ws \<or> map_of acc u = Some t"
  "map_of (updates acc ws) u = None \<longleftrightarrow> u \<notin> fst ` set ws \<and> map_of acc u = None"
proof -
  show "distinct (map fst acc) \<Longrightarrow> distinct (map fst (updates acc ws))"
    by (induction ws arbitrary: acc) (auto simp: updates_def distinct_update)
  show "map_of (updates acc ws) u = Some t \<Longrightarrow> (u, t) \<in> set ws \<or> map_of acc u = Some t"
  proof (induction ws arbitrary: acc)
    case (Cons w ws)
    obtain l x where w: "w = (l, x)" by (cases w)
    from Cons.prems w have "map_of (updates (AList.update l x acc) ws) u = Some t" by (simp add: updates_def)
    from Cons.IH [OF this] show ?case by (auto simp: w update_conv' split: if_splits)
  qed (simp add: updates_def)
  show "map_of (updates acc ws) u = None \<longleftrightarrow> u \<notin> fst ` set ws \<and> map_of acc u = None"
  proof (induction ws arbitrary: acc)
    case (Cons w ws)
    obtain l x where w: "w = (l, x)" by (cases w)
    have "updates acc (w # ws) = updates (AList.update l x acc) ws" by (simp add: w updates_def)
    then show ?case using Cons.IH [of "AList.update l x acc"] by (auto simp: w update_conv' split: if_splits)
  qed (simp add: updates_def)
qed

lemma merged_witnesses_updates: "merged_witnesses cs = sort_key fst (updates [] (concat (map cmp_witnesses cs)))"
  by (simp add: merged_witnesses_def updates_def)

lemma merged_distinct: "distinct (map fst (updates [] ws))"
  by (rule updates_facts(1)) simp

lemma map_of_merged: "map_of (merged_witnesses cs) u = map_of (updates [] (concat (map cmp_witnesses cs))) u"
  by (simp add: merged_witnesses_updates map_of_sort merged_distinct)

lemma merged_ok:
  assumes "\<And>c. c \<in> set cs \<Longrightarrow> witnesses_ok (cmp_witnesses c)"
  shows "witnesses_ok (merged_witnesses cs)"
proof -
  have "l \<noteq> [] \<and> t \<noteq> Some []" if "(l, t) \<in> set (updates [] (concat (map cmp_witnesses cs)))" for l t
  proof -
    from that have "map_of (updates [] (concat (map cmp_witnesses cs))) l = Some t"
      using merged_distinct by (simp add: map_of_eq_Some_iff)
    from updates_facts(2) [OF this] obtain c where "c \<in> set cs" "(l, t) \<in> set (cmp_witnesses c)" by auto
    with assms show ?thesis by (fastforce simp: witnesses_ok_def list_all_iff)
  qed
  then show ?thesis
    by (auto simp: witnesses_ok_def merged_witnesses_updates distinct_sort_fst merged_distinct list_all_iff)
qed

text \<open>What the members witnessed, in terms of the lookup of the turn.\<close>

lemma members_witnessed:
  assumes "compare_members lookup None created ms = Inr cs"
  shows "\<forall>c \<in> set cs. witnesses_ok (cmp_witnesses c) \<and> (\<forall>u t. (u, t) \<in> set (cmp_witnesses c) \<longrightarrow> lookup u = Some t)"
  using assms
proof (induction ms arbitrary: created cs)
  case (Cons m ms)
  then obtain c cs' where c: "compare_member lookup None created m = Inr c"
    "compare_members lookup None (created @ created_by m) ms = Inr cs'" "cs = c # cs'" by auto
  note w = comparison_witnesses [OF c(1) [unfolded compare_member_def option.map]]
  have "lookup u = Some t" if "(u, t) \<in> set (cmp_witnesses c)" for u t
  proof -
    have "map_of (cmp_witnesses c) u = Some t" using that w(1) by (simp add: witnesses_ok_def map_of_eq_Some_iff)
    then show ?thesis using w(2) [of u] by (auto simp: created_lookup_def split: if_splits)
  qed
  with w(1) Cons.IH [OF c(2)] c(3) show ?case by auto
qed simp

lemma map_of_filter_key: "map_of (filter (\<lambda>w. fst w \<notin> A) ws) u = (if u \<in> A then None else map_of ws u)"
  by (induction ws) auto

lemma created_prior_check:
  assumes "witnesses_ok ws"
  shows "check_prior (created_prior created ws) [] = Inr ()"
  using assms by (auto simp: check_prior_iff witnesses_ok_def created_prior_def list_all_iff distinct_map_filter)

lemma compare_members_again:
  assumes "compare_members lookup None created ms = Inr cs" "witnesses_ok ws"
    and "\<And>u t. map_of ws u = Some t \<Longrightarrow> lookup u = Some t"
    and "\<And>c u t. c \<in> set cs \<Longrightarrow> (u, t) \<in> set (cmp_witnesses c) \<Longrightarrow> map_of ws u \<noteq> None"
    and "\<And>u. lookup u = None \<Longrightarrow> lookup' u = None"
  shows "\<exists>cs'. compare_members lookup' (Some ws) created ms = Inr cs' \<and> map cmp_identity cs' = map cmp_identity cs \<and>
    map cmp_references cs' = map cmp_references cs"
  using assms(1,4)
proof (induction ms arbitrary: created cs)
  case (Cons m ms)
  from Cons.prems(1) obtain c cs1 where c: "compare_member lookup None created m = Inr c"
    "compare_members lookup None (created @ created_by m) ms = Inr cs1" "cs = c # cs1" by auto
  note c1 = c(1) [unfolded compare_member_def option.map]
  note w = comparison_witnesses [OF c1]
  have agree: "map_of (created_prior created ws) (referenceUri r) = created_lookup created lookup (referenceUri r) \<and>
      (created_lookup created lookup (referenceUri r) = None \<longrightarrow> created_lookup created lookup' (referenceUri r) = None)"
    if r: "r \<in> set (ordinary_references (invocation_captured (bm_invocation m)) (fixed_slots m))" for r
  proof (cases "referenceUri r \<in> set created")
    case True
    then show ?thesis by (simp add: created_prior_def map_of_filter_key created_lookup_def)
  next
    case False
    have "map_of ws (referenceUri r) = lookup (referenceUri r)"
    proof (cases "lookup (referenceUri r)")
      case None
      then show ?thesis using assms(3) by (cases "map_of ws (referenceUri r)") auto
    next
      case (Some t)
      then have "map_of (cmp_witnesses c) (referenceUri r) = Some t" using w(2) r False by (simp add: created_lookup_def)
      then have "(referenceUri r, t) \<in> set (cmp_witnesses c)" by (rule map_of_SomeD)
      with Cons.prems(2) [of c] c(3) have "map_of ws (referenceUri r) \<noteq> None" by simp
      then obtain t' where "map_of ws (referenceUri r) = Some t'" by blast
      with assms(3) [OF this] Some show ?thesis by simp
    qed
    then show ?thesis using False assms(5) by (simp add: created_prior_def map_of_filter_key created_lookup_def)
  qed
  from compare_agree [OF c1 created_prior_check [OF assms(2)] agree]
  have "compare_member lookup' (Some ws) created m = Inr (c \<lparr> cmp_witnesses := created_prior created ws \<rparr>)"
    by (simp add: compare_member_def)
  moreover obtain cs' where "compare_members lookup' (Some ws) (created @ created_by m) ms = Inr cs'"
    "map cmp_identity cs' = map cmp_identity cs1" "map cmp_references cs' = map cmp_references cs1"
    using Cons.IH [OF c(2)] Cons.prems(2) c(3) by (metis list.set_intros(2))
  ultimately show ?case by (simp add: c(3))
qed simp

lemma compareBatch_again:
  assumes "compareBatch input lookup None = Inr first" "\<And>u. lookup u = None \<Longrightarrow> lookup' u = None"
  shows "\<exists>again. compareBatch input lookup' (Some (bc_witnesses first)) = Inr again \<and> bc_identity again = bc_identity first \<and>
    bc_witnesses again = bc_witnesses first \<and> map cmp_references (bc_members again) = map cmp_references (bc_members first)"
    and "witnesses_ok (bc_witnesses first)"
    and "map_of (bc_witnesses first) u = Some t \<Longrightarrow> lookup u = Some t"
proof -
  from assms(1) obtain cs where cs: "compare_members lookup None [] (pb_members input) = Inr cs"
    "bc_witnesses first = merged_witnesses cs" "bc_members first = cs"
    "(if pb_version input = js ''1'' then identityFor (pb_scope input) (pb_members input) (map cmp_identity cs)
            else Inr (pb_identity input)) = Inr (bc_identity first)"
    by (auto simp: compareBatch_def split: if_splits)
  note w = members_witnessed [OF cs(1)]
  show ok: "witnesses_ok (bc_witnesses first)" using w merged_ok cs(2) by simp
  have sound: "lookup u = Some t" if "map_of (merged_witnesses cs) u = Some t" for u t
    using updates_facts(2) [OF that [unfolded map_of_merged]] w by auto
  then show "map_of (bc_witnesses first) u = Some t \<Longrightarrow> lookup u = Some t" by (simp add: cs(2))
  have complete: "map_of (merged_witnesses cs) u \<noteq> None" if "c \<in> set cs" "(u, t) \<in> set (cmp_witnesses c)" for c u t
    using that updates_facts(3) [of "[]" "concat (map cmp_witnesses cs)" u] unfolding map_of_merged by force
  have "\<exists>cs'. compare_members lookup' (Some (merged_witnesses cs)) [] (pb_members input) = Inr cs' \<and>
    map cmp_identity cs' = map cmp_identity cs \<and> map cmp_references cs' = map cmp_references cs"
  proof (rule compare_members_again [OF cs(1) ok [unfolded cs(2)]])
    show "lookup u = Some t" if "map_of (merged_witnesses cs) u = Some t" for u t by (rule sound [OF that])
    show "map_of (merged_witnesses cs) u \<noteq> None" if "c \<in> set cs" "(u, t) \<in> set (cmp_witnesses c)" for c u t
      by (rule complete [OF that])
    show "lookup' u = None" if "lookup u = None" for u by (rule assms(2) [OF that])
  qed
  then obtain cs' where "compare_members lookup' (Some (merged_witnesses cs)) [] (pb_members input) = Inr cs'"
    "map cmp_identity cs' = map cmp_identity cs" "map cmp_references cs' = map cmp_references cs" by blast
  then show "\<exists>again. compareBatch input lookup' (Some (bc_witnesses first)) = Inr again \<and> bc_identity again = bc_identity first \<and>
    bc_witnesses again = bc_witnesses first \<and> map cmp_references (bc_members again) = map cmp_references (bc_members first)"
    using cs by (auto simp: compareBatch_def split: if_splits)
qed

end
