(* ===== verification/Batch_Evaluate.thy ===== *)
theory Batch_Evaluate
  imports Store_Turns Batch_Contract
begin

text \<open>
  The evaluation of a batch over one working graph (\<open>retained-v01/batch-evaluate.ts\<close>): the members in
  order, each over the graph its predecessors left, then the final rows with their effects.  A refusal
  of any member is the refusal of the batch; nothing is written before the evaluation is complete.
\<close>

section \<open>Data\<close>

datatype row_outcome = Created | Updated | Unchanged | Deleted | Allocated

fun outcome_name :: "row_outcome \<Rightarrow> string" where
  "outcome_name Created = ''created''"
| "outcome_name Updated = ''updated''"
| "outcome_name Unchanged = ''unchanged''"
| "outcome_name Deleted = ''deleted''"
| "outcome_name Allocated = ''allocated''"

record batch_row =
  br_id :: jstring
  br_kind :: resource_kind
  br_outcome :: row_outcome
  br_changed :: bool
  br_resource :: "resource_state option"
  br_deleted :: "json_object option"

record batch_effect =
  be_before :: "resource_state option"
  be_after :: "resource_state option"

record evaluation =
  en_status :: nat
  en_text :: jstring
  en_allocations :: "(jstring \<times> resource_kind) list"
  en_rows :: "batch_row list"
  en_effects :: "batch_effect list"
  en_transaction :: "jstring option"
  en_next :: nat

record batch_mapping =
  mp_index :: nat
  mp_operation :: operation
  mp_id :: jstring
  mp_name :: "jstring option"

text \<open>The working graph, with the number of identifiers drawn so far.\<close>

record graph =
  gr_live :: "(jstring, resource_state) table"
  gr_allocated :: "(jstring, resource_kind) table"
  gr_touched :: "(jstring, resource_kind) table"
  gr_mappings :: "batch_mapping list"
  gr_provenance :: "(jstring, json_object list) table"
  gr_seen :: "jstring list"
  gr_next :: nat

text \<open>What the store supplies to the evaluation.\<close>

record batch_env =
  bv_scope :: jstring
  bv_initial :: "(jstring, resource_state) table"
  bv_taken :: "jstring \<Rightarrow> bool"
  bv_aliasTaken :: "jstring \<Rightarrow> bool"
  bv_reserved :: "jstring \<Rightarrow> bool"
  bv_ids :: "nat \<Rightarrow> jstring"
  bv_time :: jstring

text \<open>A stage is an error, the refusal of the batch, or a value.\<close>

type_synonym 'a staged = "(json_object + 'a) result"

definition refuse_batch :: "json_object \<Rightarrow> 'a staged" where
  "refuse_batch r = Inr (Inl r)"

definition bindS :: "'a staged \<Rightarrow> ('a \<Rightarrow> 'b staged) \<Rightarrow> 'b staged" where
  "bindS r f = bindR r (\<lambda>x. case x of Inl v \<Rightarrow> Inr (Inl v) | Inr y \<Rightarrow> f y)"

definition refused_evaluation :: "json_object \<Rightarrow> evaluation" where
  "refused_evaluation body =
     \<lparr> en_status = fst (refusal body), en_text = snd (refusal body), en_allocations = [], en_rows = [],
       en_effects = [], en_transaction = None, en_next = 0 \<rparr>"

section \<open>Fields and references of a member\<close>

record member_fields =
  mf_id :: "jstring option"
  mf_bead :: "jstring option"
  mf_link :: "jstring option"
  mf_edit :: edit_fields
  mf_provenance :: "json option"

definition no_edit :: edit_fields where
  "no_edit = \<lparr> ef_type = None, ef_properties = None, ef_metadata = None, ef_propertiesChange = None,
     ef_metadataChange = None, ef_expectedRevision = None, ef_fromRevision = None, ef_provenance = None,
     ef_source = None, ef_target = None, ef_refusal = None \<rparr>"

definition link_edit :: "json_object \<Rightarrow> edit_fields" where
  "link_edit v = no_edit
     \<lparr> ef_type := obj_get (js ''type'') v, ef_properties := obj_member ''properties'' v,
       ef_metadata := obj_member ''metadata'' v, ef_propertiesChange := edit_member_of ''propertiesChange'' v,
       ef_metadataChange := edit_member_of ''metadataChange'' v,
       ef_expectedRevision := str_member ''expectedRevision'' v,
       ef_source := Option.bind (obj_get (js ''source'') v) json_endpoint,
       ef_target := Option.bind (obj_get (js ''target'') v) json_endpoint \<rparr>"

fun member_fields_of :: "invocation \<Rightarrow> member_fields" where
  "member_fields_of (ICreate p) = \<lparr> mf_id = pc_id p, mf_bead = None, mf_link = None,
     mf_edit = no_edit \<lparr> ef_type := Some (pc_type p), ef_properties := Some (pc_properties p),
       ef_metadata := Some (pc_metadata p) \<rparr>,
     mf_provenance = map_option JObj (pc_provenance p) \<rparr>"
| "member_fields_of (IUpdate p) = \<lparr> mf_id = None, mf_bead = Some (pu_bead p), mf_link = None,
     mf_edit = update_bead_fields p, mf_provenance = map_option JObj (pu_provenance p) \<rparr>"
| "member_fields_of (IDelete p) = \<lparr> mf_id = None, mf_bead = Some (pd_bead p), mf_link = None,
     mf_edit = no_edit \<lparr> ef_expectedRevision := pd_expectedRevision p \<rparr>, mf_provenance = None \<rparr>"
| "member_fields_of (ILink p) = \<lparr> mf_id = str_member ''id'' (pl_value p), mf_bead = None,
     mf_link = str_member ''link'' (pl_value p), mf_edit = link_edit (pl_value p),
     mf_provenance = obj_get (js ''revisionProvenance'') (pl_value p) \<rparr>"

fun invocation_refusal :: "invocation \<Rightarrow> json_object option" where
  "invocation_refusal (ICreate p) = pc_refusal p"
| "invocation_refusal (IUpdate p) = pu_refusal p"
| "invocation_refusal (IDelete p) = None"
| "invocation_refusal (ILink p) = pl_refusal p"

definition supplied_reference :: "member_fields \<Rightarrow> batch_field \<Rightarrow> endpoint option" where
  "supplied_reference f field = (case field of
     FBead \<Rightarrow> map_option EUri (mf_bead f) | FLink \<Rightarrow> map_option EUri (mf_link f)
   | FSource \<Rightarrow> ef_source (mf_edit f) | FTarget \<Rightarrow> ef_target (mf_edit f))"

definition bound_identity :: "batch_mapping list \<Rightarrow> batch_handle \<Rightarrow> jstring result" where
  "bound_identity mappings h =
     (if bh_index h < length mappings \<and> mp_id (mappings ! bh_index h) \<noteq> [] then Inr (mp_id (mappings ! bh_index h))
      else Inl (PlainError ''missing prior batch identity binding''))"

text \<open>A reference: through its handle, through the comparison, or as supplied; \<open>None\<close> when missing.\<close>

definition member_reference ::
  "batch_mapping list \<Rightarrow> batch_member \<Rightarrow> comparison \<Rightarrow> member_fields \<Rightarrow> batch_field \<Rightarrow> endpoint option result" where
  "member_reference mappings m resolved f field =
     (case map_of (bm_handles m) field of
        Some h \<Rightarrow>
          bindR (bound_identity mappings h) (\<lambda>i.
            case supplied_reference f field of
              Some (EUri u) \<Rightarrow> Inr (Some (EUri i))
            | Some (EPin u r) \<Rightarrow> Inr (Some (EPin i r))
            | None \<Rightarrow> Inl (TypeError ''Cannot read properties of undefined''))
      | None \<Rightarrow>
          (case Option.bind (field_slot field) (map_of (cmp_references resolved)) of
             Some (RMissing l p) \<Rightarrow> Inr None
           | Some (RValue r) \<Rightarrow> Inr (Some r)
           | None \<Rightarrow> Inr (supplied_reference f field)))"

section \<open>The graph\<close>

fun graph_endpoints :: "jstring \<Rightarrow> (jstring, resource_state) table \<Rightarrow> (string \<times> endpoint) list \<Rightarrow> bool \<Rightarrow> json_object option" where
  "graph_endpoints scope live [] local =
     (if local then None else Some (invalid_message ''a Link requires at least one in-Scope Bead endpoint''))"
| "graph_endpoints scope live ((side, e) # es) local =
     (if \<not> prefix scope (referenceUri e) then graph_endpoints scope live es local
      else case map_of live (referenceUri e) of
             None \<Rightarrow> Some not_found
           | Some st \<Rightarrow>
               if state_kind st \<noteq> KBead
               then Some (invalid_message (side @ '' endpoint must identify a live in-Scope Bead''))
               else graph_endpoints scope live es True)"

definition graph_bead :: "(jstring, resource_state) table \<Rightarrow> jstring \<Rightarrow> bool" where
  "graph_bead live u \<longleftrightarrow> (case map_of live u of None \<Rightarrow> False | Some st \<Rightarrow> state_kind st = KBead)"

interpretation working: endpoint_checker "prefix scope" "graph_bead live" "graph_endpoints scope live"
  by unfold_locales (auto simp: graph_bead_def split: option.splits)

definition endpointFailure :: "jstring \<Rightarrow> (jstring, resource_state) table \<Rightarrow> resource_state \<Rightarrow> json_object option" where
  "endpointFailure scope live state = (case state of
     BeadState b \<Rightarrow> None
   | LinkState b src tgt \<Rightarrow> graph_endpoints scope live [(''source'', src), (''target'', tgt)] False)"

definition endpoints_checked :: "jstring \<Rightarrow> (jstring, resource_state) table \<Rightarrow> resource_state \<Rightarrow> unit staged" where
  "endpoints_checked scope live state = (case endpointFailure scope live state of
     Some r \<Rightarrow> refuse_batch r | None \<Rightarrow> Inr (Inr ()))"

text \<open>The state of a Bead, or of a Link whose references resolve.\<close>

definition state_with ::
  "resource_kind \<Rightarrow> bead \<Rightarrow> endpoint option \<Rightarrow> endpoint option \<Rightarrow> resource_state staged" where
  "state_with kind b source target =
     (if kind = KBead then Inr (Inr (BeadState b))
      else case (source, target) of
             (Some src, Some tgt) \<Rightarrow> Inr (Inr (LinkState b src tgt))
           | _ \<Rightarrow> refuse_batch not_found)"

section \<open>Members\<close>

definition blocked :: "batch_env \<Rightarrow> graph \<Rightarrow> jstring \<Rightarrow> bool" where
  "blocked env g u \<longleftrightarrow> u \<in> set (gr_seen g) \<or> bv_taken env u \<or> bv_aliasTaken env u \<or> bv_reserved env u"

fun batch_allocate :: "batch_env \<Rightarrow> graph \<Rightarrow> nat \<Rightarrow> nat \<Rightarrow> (jstring \<times> nat) option" where
  "batch_allocate env g i remaining =
     (if blocked env g (bv_scope env @ bv_ids env i)
      then case remaining of 0 \<Rightarrow> None | Suc r \<Rightarrow> batch_allocate env g (Suc i) r
      else Some (bv_scope env @ bv_ids env i, Suc i))"

declare batch_allocate.simps [simp del]

definition member_id :: "batch_env \<Rightarrow> graph \<Rightarrow> member_fields \<Rightarrow> (jstring \<times> nat) staged" where
  "member_id env g f = (case mf_id f of
     Some u \<Rightarrow> Inr (Inr (u, gr_next g))
   | None \<Rightarrow> (case batch_allocate env g (gr_next g) 32 of
       None \<Rightarrow> refuse_batch (problem ''temporarily-unavailable'' 503 ''after-delay'')
     | Some a \<Rightarrow> Inr (Inr a)))"

definition unpublished :: "jstring \<Rightarrow> edit_fields \<Rightarrow> bead" where
  "unpublished u f = \<lparr> bead_id = u, bead_type = (case ef_type f of Some t \<Rightarrow> t | None \<Rightarrow> JNull),
     bead_revision = js ''unpublished'',
     bead_properties = (case ef_properties f of Some p \<Rightarrow> p | None \<Rightarrow> []),
     bead_metadata = (case ef_metadata f of Some p \<Rightarrow> p | None \<Rightarrow> []), bead_provenance = None \<rparr>"

text \<open>The endpoints a created or updated Link asks for; a Bead has none.\<close>

definition created_endpoints ::
  "graph \<Rightarrow> batch_member \<Rightarrow> comparison \<Rightarrow> member_fields \<Rightarrow> (endpoint option \<times> endpoint option) result" where
  "created_endpoints g m resolved f =
     (if operation_kind (bm_operation m) = KBead then Inr (None, None)
      else bindR (member_reference (gr_mappings g) m resolved f FSource) (\<lambda>src.
           bindR (member_reference (gr_mappings g) m resolved f FTarget) (\<lambda>tgt. Inr (src, tgt))))"

definition stage_create ::
  "batch_env \<Rightarrow> batch_member \<Rightarrow> comparison \<Rightarrow> member_fields \<Rightarrow> graph \<Rightarrow> (jstring \<times> graph) staged" where
  "stage_create env m resolved f g =
     bindS (member_id env g f) (\<lambda>(u, n).
       if u \<in> set (gr_seen g) \<or> bv_taken env u \<or> bv_reserved env u
       then refuse_batch (problem ''identity-taken'' 409 ''never'')
       else if bv_aliasTaken env u then refuse_batch (problem ''alias-path-taken'' 409 ''after-state-change'')
       else
         bindR (created_endpoints g m resolved f) (\<lambda>(src, tgt).
         bindS (state_with (operation_kind (bm_operation m)) (unpublished u (mf_edit f)) src tgt) (\<lambda>state.
         bindS (endpoints_checked (bv_scope env) (gr_live g) state) (\<lambda>_.
           Inr (Inr (u, g \<lparr> gr_live := AList.update u state (gr_live g),
             gr_allocated := AList.update u (operation_kind (bm_operation m)) (gr_allocated g),
             gr_seen := gr_seen g @ [u], gr_next := n \<rparr>))))))"

text \<open>The resource an update or deletion is about.\<close>

definition member_subject ::
  "batch_env \<Rightarrow> batch_member \<Rightarrow> comparison \<Rightarrow> member_fields \<Rightarrow> graph \<Rightarrow> (jstring \<times> resource_state) staged" where
  "member_subject env m resolved f g =
     (let kind = operation_kind (bm_operation m) in
      bindR (member_reference (gr_mappings g) m resolved f (if kind = KBead then FBead else FLink)) (\<lambda>r.
        case r of
          Some (EUri u) \<Rightarrow>
            (case map_of (gr_live g) u of
               None \<Rightarrow> refuse_batch not_found
             | Some former \<Rightarrow>
                 if state_kind former \<noteq> kind then refuse_batch not_found
                 else if ef_expectedRevision (mf_edit f) \<noteq> None \<and>
                   ef_expectedRevision (mf_edit f) \<noteq> map_option (bead_revision \<circ> state_resource) (map_of (bv_initial env) u)
                 then refuse_batch (problem ''revision-mismatch'' 409 ''after-state-change'')
                 else Inr (Inr (u, former)))
        | _ \<Rightarrow> refuse_batch not_found))"

definition graph_incident :: "(jstring, resource_state) table \<Rightarrow> jstring \<Rightarrow> bool" where
  "graph_incident live u = list_ex (\<lambda>(i, st). state_kind st = KLink \<and> incident u st) live"

definition stage_delete ::
  "batch_env \<Rightarrow> batch_member \<Rightarrow> comparison \<Rightarrow> member_fields \<Rightarrow> graph \<Rightarrow> (jstring \<times> graph) staged" where
  "stage_delete env m resolved f g =
     bindS (member_subject env m resolved f g) (\<lambda>(u, former).
       if operation_kind (bm_operation m) = KBead \<and> graph_incident (gr_live g) u
       then refuse_batch (problem ''incident-links-exist'' 409 ''after-state-change'')
       else Inr (Inr (u, g \<lparr> gr_live := AList.delete u (gr_live g) \<rparr>)))"

text \<open>An endpoint an update names is resolved; one it does not name is kept.\<close>

definition updated_endpoint ::
  "graph \<Rightarrow> batch_member \<Rightarrow> comparison \<Rightarrow> member_fields \<Rightarrow> batch_field \<Rightarrow> endpoint \<Rightarrow> endpoint option result" where
  "updated_endpoint g m resolved f field kept =
     (if supplied_reference f field = None then Inr (Some kept)
      else member_reference (gr_mappings g) m resolved f field)"

definition updated_endpoints ::
  "graph \<Rightarrow> batch_member \<Rightarrow> comparison \<Rightarrow> member_fields \<Rightarrow> resource_state \<Rightarrow> (endpoint option \<times> endpoint option) result" where
  "updated_endpoints g m resolved f former = (case former of
     BeadState b \<Rightarrow> Inr (None, None)
   | LinkState b src tgt \<Rightarrow>
       bindR (updated_endpoint g m resolved f FSource src) (\<lambda>s.
       bindR (updated_endpoint g m resolved f FTarget tgt) (\<lambda>t. Inr (s, t))))"

definition stage_update ::
  "batch_env \<Rightarrow> batch_member \<Rightarrow> comparison \<Rightarrow> member_fields \<Rightarrow> graph \<Rightarrow> (jstring \<times> graph) staged" where
  "stage_update env m resolved f g =
     bindS (member_subject env m resolved f g) (\<lambda>(u, former).
       if exceedsEditLimits
            [case ef_propertiesChange (mf_edit f) of Some c \<Rightarrow> c | None \<Rightarrow> [],
             case ef_metadataChange (mf_edit f) of Some c \<Rightarrow> c | None \<Rightarrow> []]
       then refuse_batch too_large
       else
         bindS (edited_documents (mf_edit f) (state_resource former)) (\<lambda>(properties, metadata).
         bindR (updated_endpoints g m resolved f former) (\<lambda>(src, tgt).
         bindS (state_with (state_kind former) (with_documents former (mf_edit f) properties metadata) src tgt) (\<lambda>state.
         bindS (endpoints_checked (bv_scope env) (gr_live g) state) (\<lambda>_.
           Inr (Inr (u, g \<lparr> gr_live := AList.update u state (gr_live g) \<rparr>)))))))"

text \<open>The bookkeeping of a staged member: the touched identity, its provenance and its mapping.\<close>

definition mark_member :: "nat \<Rightarrow> batch_member \<Rightarrow> member_fields \<Rightarrow> jstring \<Rightarrow> graph \<Rightarrow> graph result" where
  "mark_member index m f u g =
     bindR (case mf_provenance f of
              None \<Rightarrow> Inr (gr_provenance g)
            | Some p \<Rightarrow> bindR (parseRevisionProvenanceInput p) (\<lambda>q.
                Inr (AList.update u ((case map_of (gr_provenance g) u of Some l \<Rightarrow> l | None \<Rightarrow> []) @ [q]) (gr_provenance g))))
       (\<lambda>provenance.
         Inr (g \<lparr> gr_touched := AList.update u (operation_kind (bm_operation m)) (gr_touched g),
           gr_provenance := provenance,
           gr_mappings := gr_mappings g @ [\<lparr> mp_index = index, mp_operation = bm_operation m, mp_id = u, mp_name = bm_name m \<rparr>] \<rparr>))"

definition evaluate_member :: "batch_env \<Rightarrow> nat \<Rightarrow> batch_member \<Rightarrow> comparison \<Rightarrow> graph \<Rightarrow> graph staged" where
  "evaluate_member env index m resolved g =
     (let f = member_fields_of (bm_invocation m) in
      case invocation_refusal (bm_invocation m) of
        Some r \<Rightarrow> refuse_batch r
      | None \<Rightarrow>
          bindS (if creating (bm_operation m) then stage_create env m resolved f g
                 else if bm_operation m \<in> {DeleteBead, DeleteLink} then stage_delete env m resolved f g
                 else stage_update env m resolved f g)
            (\<lambda>(u, g'). bindR (mark_member index m f u g') (\<lambda>g2. Inr (Inr g2))))"

fun evaluate_members :: "batch_env \<Rightarrow> nat \<Rightarrow> (batch_member \<times> comparison) list \<Rightarrow> graph \<Rightarrow> graph staged" where
  "evaluate_members env index [] g = Inr (Inr g)"
| "evaluate_members env index ((m, resolved) # ms) g =
     bindS (evaluate_member env index m resolved g) (evaluate_members env (Suc index) ms)"

section \<open>Rows\<close>

text \<open>What a revision covers: a row whose covered value is unchanged keeps its revision.\<close>

definition covered :: "resource_state \<Rightarrow> json" where
  "covered st = (let b = state_resource st in
     JObj ([(js ''type'', bead_type b), (js ''properties'', JObj (bead_properties b)), (js ''metadata'', JObj (bead_metadata b))] @
       (case st of
          LinkState l src tgt \<Rightarrow> [(js ''source'', endpoint_json src), (js ''target'', endpoint_json tgt)]
        | BeadState l \<Rightarrow> [])))"

text \<open>A row, its effect and the next identifier.\<close>

type_synonym final_row = "batch_row \<times> batch_effect list \<times> nat"

definition removed_row :: "jstring \<Rightarrow> resource_kind \<Rightarrow> resource_state option \<Rightarrow> nat \<Rightarrow> final_row" where
  "removed_row u kind former n = (case former of
     None \<Rightarrow> (\<lparr> br_id = u, br_kind = kind, br_outcome = Allocated, br_changed = True, br_resource = None,
       br_deleted = None \<rparr>, [], n)
   | Some b \<Rightarrow> (\<lparr> br_id = u, br_kind = kind, br_outcome = Deleted, br_changed = True, br_resource = None,
       br_deleted = Some (deletedIdentity b) \<rparr>, [\<lparr> be_before = Some b, be_after = None \<rparr>], n))"

definition unchanged_row :: "jstring \<Rightarrow> resource_kind \<Rightarrow> resource_state \<Rightarrow> nat \<Rightarrow> final_row" where
  "unchanged_row u kind former n =
     (\<lparr> br_id = u, br_kind = kind, br_outcome = Unchanged, br_changed = False, br_resource = Some former,
        br_deleted = None \<rparr>, [], n)"

definition published :: "resource_state \<Rightarrow> bead \<Rightarrow> resource_state" where
  "published staged b = (case staged of BeadState x \<Rightarrow> BeadState b | LinkState x src tgt \<Rightarrow> LinkState b src tgt)"

definition published_row ::
  "batch_env \<Rightarrow> jstring \<Rightarrow> resource_kind \<Rightarrow> resource_state option \<Rightarrow> resource_state \<Rightarrow> json_object list \<Rightarrow> nat \<Rightarrow> final_row" where
  "published_row env u kind former staged inputs n =
     (let b = state_resource staged;
          after = published staged (materializeBead (bead_type b) (bead_properties b) (bead_metadata b)
            (case inputs of [] \<Rightarrow> None | p # r \<Rightarrow> Some p) u (bv_ids env n) (bv_time env)) in
      (\<lparr> br_id = u, br_kind = kind, br_outcome = (if former = None then Created else Updated), br_changed = True,
         br_resource = Some after, br_deleted = None \<rparr>,
       [\<lparr> be_before = former, be_after = Some after \<rparr>], Suc n))"

definition conflicting :: "json_object list \<Rightarrow> bool" where
  "conflicting inputs = (case inputs of [] \<Rightarrow> False | p # r \<Rightarrow> list_ex (\<lambda>v. \<not> jsonValueEqual (JObj v) (JObj p)) inputs)"

definition final_row :: "batch_env \<Rightarrow> graph \<Rightarrow> jstring \<times> resource_kind \<Rightarrow> nat \<Rightarrow> final_row staged" where
  "final_row env g entry n =
     (let u = fst entry; kind = snd entry; former = map_of (bv_initial env) u;
          inputs = (case map_of (gr_provenance g) u of Some l \<Rightarrow> l | None \<Rightarrow> []) in
      case map_of (gr_live g) u of
        None \<Rightarrow> Inr (Inr (removed_row u kind former n))
      | Some staged \<Rightarrow>
          (case former of
             Some b \<Rightarrow>
               if jsonValueEqual (covered b) (covered staged) then Inr (Inr (unchanged_row u kind b n))
               else if conflicting inputs
               then refuse_batch (invalid_message ''conflicting batch revision provenance inputs'')
               else Inr (Inr (published_row env u kind former staged inputs n))
           | None \<Rightarrow>
               if conflicting inputs
               then refuse_batch (invalid_message ''conflicting batch revision provenance inputs'')
               else Inr (Inr (published_row env u kind former staged inputs n))))"

fun final_rows :: "batch_env \<Rightarrow> graph \<Rightarrow> (jstring \<times> resource_kind) list \<Rightarrow> nat \<Rightarrow> (batch_row list \<times> batch_effect list \<times> nat) staged" where
  "final_rows env g [] n = Inr (Inr ([], [], n))"
| "final_rows env g (e # es) n =
     bindS (final_row env g e n) (\<lambda>(row, effect, n1).
     bindS (final_rows env g es n1) (\<lambda>(rows, effects, n2). Inr (Inr (row # rows, effect @ effects, n2))))"

section \<open>The result\<close>

definition row_json :: "batch_row \<Rightarrow> json" where
  "row_json r = JObj ([(js ''id'', JStr (br_id r)), (js ''resourceKind'', JStr (kind_text (br_kind r))),
     (js ''outcome'', JStr (js (outcome_name (br_outcome r)))), (js ''changed'', JBool (br_changed r))] @
     (case br_resource r of None \<Rightarrow> [] | Some st \<Rightarrow> [(js ''resource'', resource_json st)]) @
     (case br_deleted r of None \<Rightarrow> [] | Some d \<Rightarrow> [(js ''deleted'', JObj d)]))"

definition mapping_json :: "batch_mapping \<Rightarrow> json" where
  "mapping_json m = JObj ([(js ''operationIndex'', json_nat (mp_index m)),
     (js ''operation'', JStr (js (operation_name (mp_operation m)))), (js ''id'', JStr (mp_id m))] @
     (case mp_name m of None \<Rightarrow> [] | Some n \<Rightarrow> [(js ''operationName'', JStr n)]))"

definition batch_result :: "bool \<Rightarrow> jstring option \<Rightarrow> batch_mapping list \<Rightarrow> batch_row list \<Rightarrow> json" where
  "batch_result changed tx mappings rows = JObj
     ([(js ''capabilityVersion'', JStr (js ''1'')), (js ''changed'', JBool changed)] @
      (case tx of None \<Rightarrow> [] | Some t \<Rightarrow> [(js ''transaction'', JStr t)]) @
      [(js ''results'', JArr (map mapping_json mappings)), (js ''resources'', JArr (map row_json rows))])"

definition finish_batch :: "batch_env \<Rightarrow> graph \<Rightarrow> batch_row list \<times> batch_effect list \<times> nat \<Rightarrow> evaluation" where
  "finish_batch env g final = (case final of (rows, effects, n) \<Rightarrow>
     let changed = list_ex br_changed rows; tx = (if changed then Some (bv_ids env n) else None);
         text = serialized (batch_result changed tx (gr_mappings g) rows)
     in if byte_length text > maximumResultBytes then refused_evaluation too_large
        else \<lparr> en_status = 200, en_text = text, en_allocations = gr_allocated g, en_rows = rows,
               en_effects = effects, en_transaction = tx, en_next = (if changed then Suc n else n) \<rparr>)"

definition initial_graph :: "batch_env \<Rightarrow> graph" where
  "initial_graph env = \<lparr> gr_live = bv_initial env, gr_allocated = [], gr_touched = [], gr_mappings = [],
     gr_provenance = [], gr_seen = [], gr_next = 0 \<rparr>"

definition evaluated :: "batch_env \<Rightarrow> prepared_batch \<Rightarrow> batch_comparison \<Rightarrow> (graph \<times> batch_row list \<times> batch_effect list \<times> nat) staged" where
  "evaluated env input cmp =
     bindS (evaluate_members env 0 (zip (pb_members input) (bc_members cmp)) (initial_graph env)) (\<lambda>g.
     bindS (final_rows env g (sort_key fst (gr_touched g)) (gr_next g)) (\<lambda>final. Inr (Inr (g, final))))"

definition evaluateBatch :: "batch_env \<Rightarrow> prepared_batch \<Rightarrow> batch_comparison \<Rightarrow> evaluation result" where
  "evaluateBatch env input cmp =
     bindR (evaluated env input cmp) (\<lambda>r. case r of
       Inl refused \<Rightarrow> Inr (refused_evaluation refused)
     | Inr (g, final) \<Rightarrow> Inr (finish_batch env g final))"

end
