(* ===== verification/Store_Batch.thy ===== *)
theory Store_Batch
  imports Store_Requests Batch_Evaluate
begin

text \<open>
  The batch turn of the owner (\<open>applyBatch\<close> of \<open>retained-v01/store.ts\<close>): the evaluation over the stored
  graph, the writes of its rows, allocations and facts, and the retained outcome of the whole batch.
\<close>

section \<open>Evaluation over the store\<close>

definition failed_evaluation :: "string \<Rightarrow> nat \<Rightarrow> evaluation" where
  "failed_evaluation code status = \<lparr> en_status = status, en_text = serialized (JObj (problem code status ''never'')),
     en_allocations = [], en_rows = [], en_effects = [], en_transaction = None, en_next = 0 \<rparr>"

text \<open>The stored graph: the resources joined with their identities.\<close>

definition batch_initial :: "store \<Rightarrow> (jstring, resource_state) table" where
  "batch_initial s = filter (\<lambda>(i, st). has_identity s i) (st_resources s)"

definition batch_env_of :: "owner \<Rightarrow> supplied \<Rightarrow> jstring \<Rightarrow> store \<Rightarrow> batch_env" where
  "batch_env_of ow su time s = \<lparr> bv_scope = ow_scope ow, bv_initial = batch_initial s, bv_taken = has_identity s,
     bv_aliasTaken = has_alias s, bv_reserved = isReserved ow, bv_ids = su_ids su, bv_time = time \<rparr>"

definition evaluate_store :: "owner \<Rightarrow> supplied \<Rightarrow> prepared_batch \<Rightarrow> batch_comparison \<Rightarrow> store \<Rightarrow> evaluation result" where
  "evaluate_store ow su input cmp s =
     (if length (pb_members input) > maximumOperations then Inr (failed_evaluation ''limit-exceeded'' 413)
      else if sum_list (map (resource_bytes \<circ> snd) (batch_initial s)) > 32 * 1024 * 1024
      then Inr (failed_evaluation ''limit-exceeded'' 413)
      else bindR (owner_now su 0) (\<lambda>ms. evaluateBatch (batch_env_of ow su (iso_time ms) s) input cmp))"

section \<open>Facts\<close>

definition effect_verb :: "batch_effect \<Rightarrow> verb" where
  "effect_verb e = (if be_after e = None then VDelete else if be_before e = None then VCreate else VUpdate)"

definition effect_state :: "batch_effect \<Rightarrow> resource_state" where
  "effect_state e = (case be_after e of Some st \<Rightarrow> st | None \<Rightarrow> the (be_before e))"

definition batch_fact :: "owner \<Rightarrow> supplied \<Rightarrow> evaluation \<Rightarrow> nat \<Rightarrow> batch_effect \<Rightarrow> json_object result" where
  "batch_fact ow su en k e =
     bindR (owner_now su (Suc k)) (\<lambda>ms.
       lifecycleFact (effect_verb e) (effect_state e) (nav_events (ow_nav ow)) (su_ids su (en_next en + k))
         (case en_transaction en of Some t \<Rightarrow> t | None \<Rightarrow> []) (iso_time ms)
         (map_option (bead_revision \<circ> state_resource) (be_before e)))"

fun batch_facts :: "owner \<Rightarrow> supplied \<Rightarrow> evaluation \<Rightarrow> nat \<Rightarrow> batch_effect list \<Rightarrow> (batch_effect \<times> json_object) list result" where
  "batch_facts ow su en k [] = Inr []"
| "batch_facts ow su en k (e # es) =
     bindR (batch_fact ow su en k e) (\<lambda>f. bindR (batch_facts ow su en (Suc k) es) (\<lambda>fs. Inr ((e, f) # fs)))"

text \<open>A fact of more than 300000 bytes fails the batch.\<close>

definition bounded_facts ::
  "evaluation \<Rightarrow> (batch_effect \<times> json_object) list \<Rightarrow> evaluation \<times> (batch_effect \<times> json_object) list" where
  "bounded_facts en fs =
     (if list_ex (\<lambda>(e, f). byte_length (serialized (JObj f)) > 300000) fs
      then (failed_evaluation ''limit-exceeded'' 413, []) else (en, fs))"

section \<open>Writes\<close>

text \<open>\<open>INSERT INTO resources ... ON CONFLICT(id) DO UPDATE\<close>.\<close>

definition upsert_resource :: "jstring \<Rightarrow> resource_state \<Rightarrow> store \<Rightarrow> store result" where
  "upsert_resource i r s =
     (if \<not> has_identity s i then Inl (constraint ''FOREIGN KEY'')
      else Inr (s \<lparr> st_resources := AList.update i r (st_resources s) \<rparr>))"

definition write_allocation :: "jstring \<times> resource_kind \<Rightarrow> store \<Rightarrow> store result" where
  "write_allocation a s = insert_identity (fst a) (snd a) s"

definition write_row :: "batch_row \<Rightarrow> store \<Rightarrow> store result" where
  "write_row r s =
     (if \<not> br_changed r then Inr s
      else case br_resource r of
             Some st \<Rightarrow> upsert_resource (br_id r) st s
           | None \<Rightarrow> Inr (delete_resource (br_id r) s))"

definition write_evaluation :: "evaluation \<Rightarrow> store \<Rightarrow> store result" where
  "write_evaluation en s =
     (if en_status en = 200
      then bindR (foldR write_allocation (en_allocations en) s) (foldR write_row (en_rows en))
      else Inr s)"

definition write_fact :: "owner \<Rightarrow> jstring \<Rightarrow> batch_effect \<times> json_object \<Rightarrow> store \<Rightarrow> (nat \<times> store) result" where
  "write_fact ow token f s =
     (let position = Suc (head s) in
      if max_safe < position then Inl (PlainError ''event ordering capacity unavailable'')
      else
        bindR (insert_event position (bead_id (state_resource (effect_state (fst f)))) (snd f) s) (\<lambda>s1.
        bindR (foldR (insert_incidence position)
          (incidentBeads (ow_scope ow) [be_before (fst f), be_after (fst f)]) s1) (\<lambda>s2.
        bindR (insert_boundary position token s2) (\<lambda>s3. Inr (position, s3)))))"

fun write_facts :: "owner \<Rightarrow> (nat \<Rightarrow> jstring) \<Rightarrow> (batch_effect \<times> json_object) list \<Rightarrow> store \<Rightarrow> (nat list \<times> store) result" where
  "write_facts ow tokens [] s = Inr ([], s)"
| "write_facts ow tokens (f # fs) s =
     bindR (write_fact ow (tokens 0) f s) (\<lambda>(p, s1).
     bindR (write_facts ow (\<lambda>k. tokens (Suc k)) fs s1) (\<lambda>(ps, s2). Inr (p # ps, s2)))"

definition perform_batch ::
  "owner \<Rightarrow> supplied \<Rightarrow> prepared_batch \<Rightarrow> batch_comparison \<Rightarrow> store \<Rightarrow> (response \<times> nat list \<times> store) result" where
  "perform_batch ow su input cmp s =
     bindR (evaluate_store ow su input cmp s) (\<lambda>en0.
     bindR (batch_facts ow su en0 0 (en_effects en0)) (\<lambda>fs0.
       let (en, fs) = bounded_facts en0 fs0 in
       if max_safe < Suc (st_decisions s) then Inl (PlainError ''outcome capacity unavailable'')
       else
         bindR (write_evaluation en s) (\<lambda>s1.
         bindR (write_facts ow (\<lambda>k. su_ids su (en_next en0 + length (en_effects en0) + k)) fs s1) (\<lambda>(ps, s2).
           Inr ((en_status en, en_text en), ps, s2)))))"

definition batch_outcome ::
  "store \<Rightarrow> jstring \<Rightarrow> jstring \<Rightarrow> batch_comparison \<Rightarrow> response \<Rightarrow> nat list \<Rightarrow> outcome_row" where
  "batch_outcome s who key cmp r ps =
     \<lparr> oc_decision = Suc (st_decisions s), oc_principal = who, oc_key = key, oc_operation = Batch,
       oc_identity = bc_identity cmp, oc_witnesses = witnesses_text (bc_witnesses cmp), oc_status = fst r,
       oc_body = snd r, oc_position = (case ps of [] \<Rightarrow> None | p # qs \<Rightarrow> Some p) \<rparr>"

definition record_batch ::
  "jstring \<Rightarrow> jstring \<Rightarrow> batch_comparison \<Rightarrow> response \<times> nat list \<times> store \<Rightarrow> (response \<times> store) result" where
  "record_batch who key cmp e = (case e of (r, ps, s) \<Rightarrow>
     bindR (insert_outcome (batch_outcome s who key cmp r ps) s) (\<lambda>s1.
     bindR (foldR (insert_fact (Suc (st_decisions s))) ps s1) (\<lambda>s2.
       Inr (r, s2 \<lparr> st_decisions := Suc (st_decisions s) \<rparr>))))"

section \<open>Retry\<close>

text \<open>The retained results under the names the retry uses.\<close>

definition project_mapping :: "jstring option \<Rightarrow> json \<Rightarrow> json result" where
  "project_mapping name v = (case v of
     JNull \<Rightarrow> Inl (TypeError ''Cannot read properties of null'')
   | JObj m \<Rightarrow> Inr (JObj (opt_field ''operationIndex'' (obj_get (js ''operationIndex'') m) @
       opt_field ''operation'' (obj_get (js ''operation'') m) @ opt_field ''id'' (obj_get (js ''id'') m) @
       opt_field ''operationName'' (map_option JStr name)))
   | _ \<Rightarrow> Inr (JObj (opt_field ''operationName'' (map_option JStr name))))"

fun project_results :: "batch_member list \<Rightarrow> json list \<Rightarrow> json list result" where
  "project_results ms [] = Inr []"
| "project_results ms (v # vs) =
     bindR (project_mapping (case ms of [] \<Rightarrow> None | m # r \<Rightarrow> bm_name m) v) (\<lambda>x.
     bindR (project_results (tl ms) vs) (\<lambda>xs. Inr (x # xs)))"

definition projected_body :: "prepared_batch \<Rightarrow> jstring \<Rightarrow> jstring result" where
  "projected_body input body =
     bindR (json_parse body) (\<lambda>saved. case saved of
       JObj kvs \<Rightarrow> (case obj_get (js ''results'') kvs of
           Some (JArr results) \<Rightarrow>
             bindR (project_results (pb_members input) results) (\<lambda>xs.
               Inr (serialized (JObj (obj_put (js ''results'') (JArr xs) kvs))))
         | _ \<Rightarrow> Inl (TypeError ''saved.results.map is not a function''))
     | _ \<Rightarrow> Inl (TypeError ''Cannot read properties of undefined''))"

definition batch_retry :: "owner \<Rightarrow> prepared_batch \<Rightarrow> outcome_row \<Rightarrow> store \<Rightarrow> (response \<times> store) result" where
  "batch_retry ow input previous s =
     (if oc_operation previous \<noteq> Batch then Inr (conflict, s)
      else
        bindR (readAliasWitnesses ow (oc_witnesses previous)) (\<lambda>prior.
        bindR (compareBatch input (aliasLookup ow s) (Some prior)) (\<lambda>cmp.
          if oc_identity previous \<noteq> bc_identity cmp then Inr (conflict, s)
          else if oc_status previous \<noteq> 200 then Inr ((oc_status previous, oc_body previous), s)
          else
            bindR (projected_body input (oc_body previous)) (\<lambda>text.
              if byte_length text > maximumResultBytes then Inr ((413, serialized (JObj too_large)), s)
              else Inr ((200, text), s)))))"

definition applyBatch :: "owner \<Rightarrow> supplied \<Rightarrow> jstring \<Rightarrow> prepared_batch \<Rightarrow> store \<Rightarrow> (response \<times> store) result" where
  "applyBatch ow su who input s =
     (if pb_scope input \<noteq> ow_scope ow then Inl (TypeError ''foreign or forged batch'')
      else if who = [] then Inl (TypeError ''stable authenticated principal required'')
      else case find_outcome s who (pb_key input) of
        Some previous \<Rightarrow> batch_retry ow input previous s
      | None \<Rightarrow>
          if \<not> ow_batch ow \<or> pb_version input \<noteq> js ''1''
          then Inr ((422, serialized (JObj (batchCapabilityProblem (pb_version input)))), s)
          else
            bindR (compareBatch input (aliasLookup ow s) None) (\<lambda>cmp.
            bindR (perform_batch ow su input cmp s) (record_batch who (pb_key input) cmp)))"

end
