(* ===== verification/Batch_Graph.thy ===== *)
theory Batch_Graph
  imports Store_Batch
begin

text \<open>
  The working graph of a batch stays a well-formed graph: every member leaves every Link with live
  endpoints, allocates only identities that are free, and touches every identity it changes.
\<close>

named_theorems stage_laws

lemma bindS_Inr [stage_laws]: "bindS r f = Inr (Inr y) \<longleftrightarrow> (\<exists>x. r = Inr (Inr x) \<and> f x = Inr (Inr y))"
proof (cases r)
  case (Inr x)
  then show ?thesis by (cases x) (simp_all add: bindS_def)
qed (simp add: bindS_def)

lemma refuse_batch_Inr [stage_laws]: "refuse_batch r = Inr (Inr y) \<longleftrightarrow> False"
  by (simp add: refuse_batch_def)

section \<open>Well-formed graphs\<close>

definition endpoints_in :: "jstring \<Rightarrow> (jstring, resource_state) table \<Rightarrow> resource_state \<Rightarrow> bool" where
  "endpoints_in scope live st \<longleftrightarrow>
     (state_kind st = KLink \<longrightarrow> list_ex (\<lambda>e. prefix scope (referenceUri e)) (state_endpoints st)) \<and>
     (\<forall>e \<in> set (state_endpoints st). prefix scope (referenceUri e) \<longrightarrow> graph_bead live (referenceUri e))"

lemma endpointFailure_None: "endpointFailure scope live st = None \<longleftrightarrow> endpoints_in scope live st"
  by (cases st) (simp_all only: endpointFailure_def resource_state.case working.check_pair, simp_all add: endpoints_in_def)

lemma endpoints_checked_Inr [stage_laws]:
  "endpoints_checked scope live st = Inr (Inr y) \<longleftrightarrow> endpoints_in scope live st"
  unfolding endpoints_checked_def endpointFailure_None [symmetric] by (auto simp: refuse_batch_def split: option.splits)

definition live_ok :: "jstring \<Rightarrow> (jstring, resource_state) table \<Rightarrow> bool" where
  "live_ok scope live \<longleftrightarrow> table_ok live \<and>
     (\<forall>u st. map_of live u = Some st \<longrightarrow> bead_id (state_resource st) = u \<and> endpoints_in scope live st)"

lemma endpoints_in_mono:
  assumes "endpoints_in scope live st" "\<And>u. graph_bead live u \<Longrightarrow> graph_bead live' u"
  shows "endpoints_in scope live' st"
  using assms by (auto simp: endpoints_in_def)

lemma graph_bead_put:
  "graph_bead (AList.update u st live) v \<longleftrightarrow> (if v = u then state_kind st = KBead else graph_bead live v)"
  by (simp add: graph_bead_def rows.find_put)

lemma graph_bead_drop:
  "table_ok live \<Longrightarrow> graph_bead (AList.delete u live) v \<longleftrightarrow> v \<noteq> u \<and> graph_bead live v"
  by (simp add: graph_bead_def rows.find_drop)

lemma live_ok_put:
  assumes "live_ok scope live" "endpoints_in scope live st" "bead_id (state_resource st) = u"
    "\<And>st0. map_of live u = Some st0 \<Longrightarrow> state_kind st0 = state_kind st"
  shows "live_ok scope (AList.update u st live)"
proof -
  have mono: "graph_bead (AList.update u st live) v" if "graph_bead live v" for v
    using that assms(4) by (auto simp: graph_bead_put) (auto simp: graph_bead_def split: option.splits)
  show ?thesis
    unfolding live_ok_def
  proof (intro conjI allI impI)
    show "table_ok (AList.update u st live)" using assms(1) by (simp add: live_ok_def rows.sound_put)
    fix v st1
    assume "map_of (AList.update u st live) v = Some st1"
    then have "v = u \<and> st1 = st \<or> map_of live v = Some st1" by (auto simp: rows.find_put split: if_splits)
    then have "bead_id (state_resource st1) = v \<and> endpoints_in scope live st1"
      using assms(1-3) by (auto simp: live_ok_def)
    then show "bead_id (state_resource st1) = v" "endpoints_in scope (AList.update u st live) st1"
      using endpoints_in_mono [OF _ mono] by auto
  qed
qed

lemma graph_incident_iff:
  assumes "table_ok live"
  shows "graph_incident live u \<longleftrightarrow> (\<exists>i st e. map_of live i = Some st \<and> e \<in> set (state_endpoints st) \<and> referenceUri e = u)"
proof -
  have "state_kind st = KLink" if "e \<in> set (state_endpoints st)" for e st using that by (cases st) auto
  then show ?thesis
    using assms by (fastforce simp: graph_incident_def incident_def list_ex_iff table_ok_def)
qed

lemma live_ok_drop:
  assumes "live_ok scope live" "map_of live u = Some former" "state_kind former = KBead \<longrightarrow> \<not> graph_incident live u"
  shows "live_ok scope (AList.delete u live)"
proof -
  have t: "table_ok live" using assms(1) by (simp add: live_ok_def)
  show ?thesis
    unfolding live_ok_def
  proof (intro conjI allI impI)
    show "table_ok (AList.delete u live)" using t by (rule rows.sound_drop)
    fix v st
    assume "map_of (AList.delete u live) v = Some st"
    then have v: "v \<noteq> u" "map_of live v = Some st" by (auto simp: rows.find_drop [OF t] split: if_splits)
    then have s: "bead_id (state_resource st) = v" "endpoints_in scope live st" using assms(1) by (auto simp: live_ok_def)
    then show "bead_id (state_resource st) = v" by simp
    have "referenceUri e \<noteq> u" if "e \<in> set (state_endpoints st)" "graph_bead live (referenceUri e)" for e
    proof
      assume "referenceUri e = u"
      then have "state_kind former = KBead" using that(2) assms(2) by (simp add: graph_bead_def)
      with assms(3) have "\<not> graph_incident live u" by simp
      then show False using that(1) v(2) \<open>referenceUri e = u\<close> by (auto simp: graph_incident_iff [OF t])
    qed
    then show "endpoints_in scope (AList.delete u live) st"
      using s(2) by (auto simp: endpoints_in_def graph_bead_drop [OF t])
  qed
qed

section \<open>Stages\<close>

definition free :: "batch_env \<Rightarrow> graph \<Rightarrow> jstring \<Rightarrow> bool" where
  "free env g u \<longleftrightarrow> \<not> blocked env g u"

lemma batch_allocate_free:
  "batch_allocate env g i rem = Some (u, n) \<Longrightarrow> free env g u \<and> (\<exists>k. u = bv_scope env @ bv_ids env k)"
proof (induction rem arbitrary: i)
  case 0
  then show ?case by (subst (asm) batch_allocate.simps) (auto simp: free_def split: if_splits)
next
  case (Suc rem)
  then show ?case by (subst (asm) (2) batch_allocate.simps) (auto simp: free_def split: if_splits)
qed

lemma state_with_Inr [stage_laws]:
  "state_with kind b src tgt = Inr (Inr st) \<longleftrightarrow> state_kind st = kind \<and> state_resource st = b \<and>
     (kind = KLink \<longrightarrow> src = Some (hd (state_endpoints st)) \<and> tgt = Some (last (state_endpoints st)))"
proof (cases kind)
  case KBead
  then show ?thesis by (cases st) (auto simp: state_with_def)
next
  case KLink
  then show ?thesis by (cases st) (auto simp: state_with_def refuse_batch_def split: option.splits)
qed

inductive staged_to :: "batch_env \<Rightarrow> (jstring \<Rightarrow> bool) \<Rightarrow> operation \<Rightarrow> graph \<Rightarrow> jstring \<Rightarrow> graph \<Rightarrow> bool"
  for env canon operation g u where
  allocates: "free env g u \<Longrightarrow> canon u \<Longrightarrow> state_kind st = operation_kind operation \<Longrightarrow>
    bead_id (state_resource st) = u \<Longrightarrow> endpoints_in (bv_scope env) (gr_live g) st \<Longrightarrow>
    staged_to env canon operation g u (g \<lparr> gr_live := AList.update u st (gr_live g),
      gr_allocated := AList.update u (operation_kind operation) (gr_allocated g), gr_seen := gr_seen g @ [u], gr_next := n \<rparr>)"
| replaces: "map_of (gr_live g) u = Some former \<Longrightarrow> state_kind former = operation_kind operation \<Longrightarrow>
    state_kind st = operation_kind operation \<Longrightarrow> bead_id (state_resource st) = u \<Longrightarrow>
    endpoints_in (bv_scope env) (gr_live g) st \<Longrightarrow>
    staged_to env canon operation g u (g \<lparr> gr_live := AList.update u st (gr_live g) \<rparr>)"
| removes: "map_of (gr_live g) u = Some former \<Longrightarrow> state_kind former = operation_kind operation \<Longrightarrow>
    state_kind former = KBead \<longrightarrow> \<not> graph_incident (gr_live g) u \<Longrightarrow>
    staged_to env canon operation g u (g \<lparr> gr_live := AList.delete u (gr_live g) \<rparr>)"

lemma member_subject_Inr:
  "member_subject env m resolved f g = Inr (Inr (u, former)) \<Longrightarrow>
     map_of (gr_live g) u = Some former \<and> state_kind former = operation_kind (bm_operation m)"
proof -
  assume a: "member_subject env m resolved f g = Inr (Inr (u, former))"
  then obtain r where r: "member_reference (gr_mappings g) m resolved f
      (if operation_kind (bm_operation m) = KBead then FBead else FLink) = Inr r"
    by (auto simp: member_subject_def Let_def)
  show ?thesis
  proof (cases "\<exists>v. r = Some (EUri v)")
    case True
    then obtain v where v: "r = Some (EUri v)" by blast
    show ?thesis using a r unfolding v
      by (cases "map_of (gr_live g) v") (auto simp: member_subject_def refuse_batch_Inr Let_def split: if_splits)
  next
    case False
    then show ?thesis using a r
      by (auto simp: member_subject_def refuse_batch_Inr Let_def split: option.splits endpoint.splits)
  qed
qed

lemma stage_create_Inr:
  assumes "stage_create env m resolved f g = Inr (Inr (u, g'))"
    "\<And>v. mf_id f = Some v \<Longrightarrow> canon v" "\<And>k. canon (bv_scope env @ bv_ids env k)"
  shows "staged_to env canon (bm_operation m) g u g'"
proof -
  from assms(1) obtain n st src tgt where n: "member_id env g f = Inr (Inr (u, n))"
    "\<not> (u \<in> set (gr_seen g) \<or> bv_taken env u \<or> bv_reserved env u)" "\<not> bv_aliasTaken env u"
    "state_with (operation_kind (bm_operation m)) (unpublished u (mf_edit f)) src tgt = Inr (Inr st)"
    "endpoints_in (bv_scope env) (gr_live g) st"
    "g' = g \<lparr> gr_live := AList.update u st (gr_live g),
       gr_allocated := AList.update u (operation_kind (bm_operation m)) (gr_allocated g), gr_seen := gr_seen g @ [u], gr_next := n \<rparr>"
    by (auto simp: stage_create_def bindS_Inr refuse_batch_Inr endpoints_checked_Inr split: if_splits)
  have "canon u"
    using n(1) assms(2,3) by (auto simp: member_id_def refuse_batch_def split: option.splits dest!: batch_allocate_free)
  moreover have "free env g u" using n(2,3) by (auto simp: free_def blocked_def)
  ultimately show ?thesis
    using n(4-6) by (auto simp: stage_laws unpublished_def intro!: allocates)
qed

lemma stage_delete_Inr:
  "stage_delete env m resolved f g = Inr (Inr (u, g')) \<Longrightarrow> staged_to env canon (bm_operation m) g u g'"
  by (auto simp: stage_delete_def bindS_Inr refuse_batch_Inr split: if_splits dest!: member_subject_Inr intro!: removes)

lemma stage_update_Inr:
  assumes "stage_update env m resolved f g = Inr (Inr (u, g'))" "live_ok scope (gr_live g)"
  shows "staged_to env canon (bm_operation m) g u g'"
proof -
  from assms(1) obtain former properties metadata src tgt st where n:
    "member_subject env m resolved f g = Inr (Inr (u, former))"
    "state_with (state_kind former) (with_documents former (mf_edit f) properties metadata) src tgt = Inr (Inr st)"
    "endpoints_in (bv_scope env) (gr_live g) st" "g' = g \<lparr> gr_live := AList.update u st (gr_live g) \<rparr>"
    by (auto simp: stage_update_def bindS_Inr refuse_batch_Inr endpoints_checked_Inr split: if_splits)
  note s = member_subject_Inr [OF n(1)]
  have "bead_id (state_resource former) = u" using s assms(2) by (auto simp: live_ok_def)
  then show ?thesis
    using n(2-4) s by (auto simp: stage_laws with_documents_def intro!: replaces)
qed


section \<open>The invariant of the evaluation\<close>

definition kind_at :: "batch_env \<Rightarrow> graph \<Rightarrow> jstring \<Rightarrow> resource_kind option" where
  "kind_at env g u = (case map_of (gr_allocated g) u of
     Some k \<Rightarrow> Some k | None \<Rightarrow> map_option state_kind (map_of (bv_initial env) u))"

definition env_ok :: "batch_env \<Rightarrow> (jstring \<Rightarrow> bool) \<Rightarrow> bool" where
  "env_ok env canon \<longleftrightarrow> live_ok (bv_scope env) (bv_initial env) \<and>
     (\<forall>u st. map_of (bv_initial env) u = Some st \<longrightarrow> bv_taken env u) \<and>
     (\<forall>k. bv_ids env k \<noteq> [] \<and> canon (bv_scope env @ bv_ids env k))"

definition allocated_free :: "batch_env \<Rightarrow> (jstring \<Rightarrow> bool) \<Rightarrow> graph \<Rightarrow> bool" where
  "allocated_free env canon g \<longleftrightarrow> table_ok (gr_allocated g) \<and> set (gr_seen g) = fst ` set (gr_allocated g) \<and>
     (\<forall>u k. map_of (gr_allocated g) u = Some k \<longrightarrow>
        \<not> bv_taken env u \<and> \<not> bv_aliasTaken env u \<and> \<not> bv_reserved env u \<and> canon u)"

definition touched_ok :: "batch_env \<Rightarrow> graph \<Rightarrow> bool" where
  "touched_ok env g \<longleftrightarrow> table_ok (gr_touched g) \<and>
     (\<forall>u k. map_of (gr_touched g) u = Some k \<longrightarrow> kind_at env g u = Some k) \<and>
     (\<forall>u. map_of (gr_touched g) u = None \<longrightarrow> map_of (gr_live g) u = map_of (bv_initial env) u \<and> map_of (gr_allocated g) u = None)"

definition graph_inv :: "batch_env \<Rightarrow> (jstring \<Rightarrow> bool) \<Rightarrow> graph \<Rightarrow> bool" where
  "graph_inv env canon g \<longleftrightarrow> live_ok (bv_scope env) (gr_live g) \<and> allocated_free env canon g \<and> touched_ok env g \<and>
     (\<forall>u st. map_of (gr_live g) u = Some st \<longrightarrow> kind_at env g u = Some (state_kind st))"

lemma graph_inv_initial: "env_ok env canon \<Longrightarrow> graph_inv env canon (initial_graph env)"
  by (simp add: graph_inv_def initial_graph_def env_ok_def allocated_free_def touched_ok_def kind_at_def table_ok_def)

text \<open>A staged member, with its identity marked as touched.\<close>

definition marks :: "operation \<Rightarrow> jstring \<Rightarrow> graph \<Rightarrow> graph \<Rightarrow> bool" where
  "marks operation u g g' \<longleftrightarrow> gr_live g' = gr_live g \<and> gr_allocated g' = gr_allocated g \<and> gr_seen g' = gr_seen g \<and>
     gr_touched g' = AList.update u (operation_kind operation) (gr_touched g)"

lemma mark_member_Inr: "mark_member index m f u g = Inr g' \<Longrightarrow> marks (bm_operation m) u g g'"
  by (auto simp: mark_member_def marks_def)

lemma kind_at_touched: "marks operation u g g' \<Longrightarrow> kind_at env g' v = kind_at env g v"
  by (simp add: marks_def kind_at_def)

lemma graph_inv_marked:
  assumes "graph_inv env canon g" "staged_to env canon operation g u g1" "marks operation u g1 g2" "env_ok env canon"
  shows "graph_inv env canon g2"
  using assms(2)
proof cases
  case (allocates st n)
  have f: "map_of (gr_allocated g) u = None" "map_of (bv_initial env) u = None" "map_of (gr_live g) u = None"
  proof -
    show a: "map_of (gr_allocated g) u = None"
      using assms(1) allocates(2) by (auto simp: graph_inv_def allocated_free_def free_def blocked_def map_of_eq_None_iff)
    show b: "map_of (bv_initial env) u = None"
      using assms(4) allocates(2) by (cases "map_of (bv_initial env) u") (auto simp: env_ok_def free_def blocked_def)
    have "kind_at env g u = None" using a b by (simp add: kind_at_def)
    then show "map_of (gr_live g) u = None"
      using assms(1) by (cases "map_of (gr_live g) u") (auto simp: graph_inv_def)
  qed
  have k: "kind_at env g2 v = (if v = u then Some (operation_kind operation) else kind_at env g v)" for v
    using assms(3) by (simp add: marks_def allocates(1) kind_at_def rows.find_put)
  have "live_ok (bv_scope env) (gr_live g2)"
    using assms(1,3) live_ok_put [of "bv_scope env" "gr_live g" st u] allocates f(3)
    by (simp add: marks_def graph_inv_def)
  moreover have "allocated_free env canon g2"
    using assms(1,3) allocates(1-3)
    by (auto simp: marks_def graph_inv_def allocated_free_def rows.find_put rows.sound_put free_def blocked_def
        dom_update [symmetric] simp flip: dom_map_of_conv_image_fst split: if_splits)
  moreover have "touched_ok env g2"
    using assms(1,3) k by (auto simp: marks_def allocates(1) graph_inv_def touched_ok_def rows.find_put rows.sound_put)
  moreover have "kind_at env g2 v = Some (state_kind st1)" if "map_of (gr_live g2) v = Some st1" for v st1
    using that assms(1,3) k allocates(1,4) by (auto simp: marks_def rows.find_put graph_inv_def split: if_splits)
  ultimately show ?thesis by (simp add: graph_inv_def)
next
  case (replaces former st)
  have k: "kind_at env g2 v = kind_at env g v" for v
    using assms(3) by (simp add: marks_def replaces(1) kind_at_def)
  have u: "kind_at env g u = Some (operation_kind operation)" using assms(1) replaces(2,3) by (auto simp: graph_inv_def)
  have "live_ok (bv_scope env) (gr_live g2)"
    using assms(1,3) live_ok_put [of "bv_scope env" "gr_live g" st u] replaces by (simp add: marks_def graph_inv_def)
  moreover have "allocated_free env canon g2"
    using assms(1,3) by (simp add: marks_def replaces(1) graph_inv_def allocated_free_def)
  moreover have "touched_ok env g2"
    using assms(1,3) k u by (auto simp: marks_def replaces(1) graph_inv_def touched_ok_def rows.find_put rows.sound_put)
  moreover have "kind_at env g2 v = Some (state_kind st1)" if "map_of (gr_live g2) v = Some st1" for v st1
    using that assms(1,3) k u replaces(1,4) by (auto simp: marks_def rows.find_put graph_inv_def split: if_splits)
  ultimately show ?thesis by (simp add: graph_inv_def)
next
  case (removes former)
  have k: "kind_at env g2 v = kind_at env g v" for v
    using assms(3) by (simp add: marks_def removes(1) kind_at_def)
  have u: "kind_at env g u = Some (operation_kind operation)" using assms(1) removes(2,3) by (auto simp: graph_inv_def)
  have t: "table_ok (gr_live g)" using assms(1) by (simp add: graph_inv_def live_ok_def)
  have "live_ok (bv_scope env) (gr_live g2)"
    using assms(1,3) live_ok_drop [of "bv_scope env" "gr_live g" u former] removes by (simp add: marks_def graph_inv_def)
  moreover have "allocated_free env canon g2"
    using assms(1,3) by (simp add: marks_def removes(1) graph_inv_def allocated_free_def)
  moreover have "touched_ok env g2"
    using assms(1,3) k u by (auto simp: marks_def removes(1) graph_inv_def touched_ok_def rows.find_put rows.sound_put rows.find_drop [OF t])
  moreover have "kind_at env g2 v = Some (state_kind st1)" if "map_of (gr_live g2) v = Some st1" for v st1
    using that assms(1,3) k removes(1) by (auto simp: marks_def rows.find_drop [OF t] graph_inv_def split: if_splits)
  ultimately show ?thesis by (simp add: graph_inv_def)
qed

text \<open>The identities members ask for are canonical.\<close>

definition member_canonical :: "(jstring \<Rightarrow> bool) \<Rightarrow> batch_member \<Rightarrow> bool" where
  "member_canonical canon m \<longleftrightarrow> (\<forall>u. invocation_id (bm_invocation m) = Some u \<longrightarrow> canon u)"

lemma fields_id: "mf_id (member_fields_of i) = invocation_id i"
  by (cases i) simp_all

lemma evaluate_member_staged:
  assumes "evaluate_member env index m resolved g = Inr (Inr g')" "live_ok (bv_scope env) (gr_live g)" "env_ok env canon"
    "member_canonical canon m"
  obtains u g1 where "staged_to env canon (bm_operation m) g u g1" "marks (bm_operation m) u g1 g'"
proof -
  let ?f = "member_fields_of (bm_invocation m)"
  from assms(1) have r: "invocation_refusal (bm_invocation m) = None"
    by (cases "invocation_refusal (bm_invocation m)") (simp_all add: evaluate_member_def refuse_batch_Inr)
  with assms(1) obtain u g1 where s: "(if creating (bm_operation m) then stage_create env m resolved ?f g
        else if bm_operation m \<in> {DeleteBead, DeleteLink} then stage_delete env m resolved ?f g
        else stage_update env m resolved ?f g) = Inr (Inr (u, g1))"
    "mark_member index m ?f u g1 = Inr g'"
    by (auto simp: evaluate_member_def Let_def bindS_Inr split: prod.splits)
  have "staged_to env canon (bm_operation m) g u g1"
  proof (cases "creating (bm_operation m)")
    case True
    then show ?thesis
      using s(1) assms(3,4) by (intro stage_create_Inr [of env m resolved ?f]) (auto simp: env_ok_def member_canonical_def fields_id)
  next
    case False
    then show ?thesis using s(1) stage_delete_Inr stage_update_Inr [OF _ assms(2)] by (auto split: if_splits)
  qed
  then show thesis using that mark_member_Inr [OF s(2)] by blast
qed

lemma evaluate_member_inv:
  assumes "evaluate_member env index m resolved g = Inr (Inr g')" "graph_inv env canon g" "env_ok env canon"
    "member_canonical canon m"
  shows "graph_inv env canon g'"
proof -
  have "live_ok (bv_scope env) (gr_live g)" using assms(2) by (simp add: graph_inv_def)
  from evaluate_member_staged [OF assms(1) this assms(3,4)] graph_inv_marked [OF assms(2) _ _ assms(3)]
  show ?thesis by metis
qed

lemma evaluate_members_inv:
  assumes "evaluate_members env index ms g = Inr (Inr g')" "graph_inv env canon g" "env_ok env canon"
    "\<forall>(m, c) \<in> set ms. member_canonical canon m"
  shows "graph_inv env canon g'"
  using assms(1,2,4)
proof (induction ms arbitrary: index g)
  case (Cons x ms)
  obtain m c where x: "x = (m, c)" by (cases x)
  with Cons.prems(1) obtain g1 where g1: "evaluate_member env index m c g = Inr (Inr g1)"
    "evaluate_members env (Suc index) ms g1 = Inr (Inr g')" by (auto simp: bindS_Inr)
  have "graph_inv env canon g1" using evaluate_member_inv [OF g1(1) Cons.prems(2) assms(3)] Cons.prems(3) x by auto
  with Cons.IH [OF g1(2)] Cons.prems(3) show ?case by simp
qed simp


section \<open>Rows\<close>

text \<open>Two states of one shape: the same kind, identity and endpoints.\<close>

definition same_shape :: "resource_state \<Rightarrow> resource_state \<Rightarrow> bool" where
  "same_shape a b \<longleftrightarrow> state_kind a = state_kind b \<and> bead_id (state_resource a) = bead_id (state_resource b) \<and>
     state_endpoints a = state_endpoints b"

text \<open>A published row has the documents of the working graph.\<close>

definition same_documents :: "resource_state \<Rightarrow> resource_state \<Rightarrow> bool" where
  "same_documents a b \<longleftrightarrow> bead_type (state_resource a) = bead_type (state_resource b) \<and>
     bead_properties (state_resource a) = bead_properties (state_resource b) \<and>
     bead_metadata (state_resource a) = bead_metadata (state_resource b)"

definition row_ok :: "batch_env \<Rightarrow> graph \<Rightarrow> jstring \<times> resource_kind \<Rightarrow> batch_row \<Rightarrow> batch_effect list \<Rightarrow> bool" where
  "row_ok env g entry r es \<longleftrightarrow> br_id r = fst entry \<and> br_kind r = snd entry \<and>
     (case map_of (gr_live g) (fst entry) of
        None \<Rightarrow> br_changed r \<and> br_resource r = None \<and>
          es = (case map_of (bv_initial env) (fst entry) of
                  None \<Rightarrow> [] | Some b \<Rightarrow> [\<lparr> be_before = Some b, be_after = None \<rparr>])
      | Some staged \<Rightarrow>
          if br_changed r
          then \<exists>after. br_resource r = Some after \<and> same_shape after staged \<and> same_documents after staged \<and>
            bead_revision (state_resource after) \<noteq> [] \<and>
            es = [\<lparr> be_before = map_of (bv_initial env) (fst entry), be_after = Some after \<rparr>]
          else \<exists>b. map_of (bv_initial env) (fst entry) = Some b \<and> br_resource r = Some b \<and> same_shape b staged \<and>
            jsonValueEqual (covered b) (covered staged) \<and> es = [])"

lemma endpoint_json_eq: "jsonValueEqual (endpoint_json a :: json) (endpoint_json b) \<longleftrightarrow> a = b"
  by (cases a; cases b) (auto simp: jsonValueEqual_eq endpoint_json_def obj_get_def)

lemma json_eq_member:
  assumes "json_eq (JObj f) (JObj g)" "map_of f k = Some x" "map_of g k = Some y"
  shows "json_eq x y"
proof -
  from assms(2) have "(k, x) \<in> set f" by (rule map_of_SomeD)
  with assms(1,3) show ?thesis by (auto simp: list_all_iff obj_get_def)
qed

lemma covered_endpoints:
  assumes "jsonValueEqual (covered a) (covered b)" "state_kind a = state_kind b"
  shows "state_endpoints a = state_endpoints b"
proof (cases a)
  case (LinkState x src tgt)
  with assms(2) obtain y s t where b: "b = LinkState y s t" by (cases b) auto
  note eq = assms(1) [unfolded jsonValueEqual_eq covered_def LinkState b Let_def resource_state.case]
  have "json_eq (endpoint_json src :: json) (endpoint_json s)" by (rule json_eq_member [OF eq, of "js ''source''"]) simp_all
  moreover have "json_eq (endpoint_json tgt :: json) (endpoint_json t)" by (rule json_eq_member [OF eq, of "js ''target''"]) simp_all
  ultimately show ?thesis using LinkState b endpoint_json_eq by (simp add: jsonValueEqual_eq)
next
  case (BeadState x)
  with assms(2) show ?thesis by (cases b) simp_all
qed

lemma published_shape: "bead_id b = bead_id (state_resource staged) \<Longrightarrow> same_shape (published staged b) staged"
  by (cases staged) (simp_all add: same_shape_def published_def)

lemma published_row_ok:
  assumes "map_of (gr_live g) u = Some staged" "bead_id (state_resource staged) = u"
    "published_row env u k (map_of (bv_initial env) u) staged inputs n = (r, es, n')" "env_ok env canon"
  shows "row_ok env g (u, k) r es"
proof -
  let ?b = "materializeBead (bead_type (state_resource staged)) (bead_properties (state_resource staged))
      (bead_metadata (state_resource staged)) (case inputs of [] \<Rightarrow> None | p # r \<Rightarrow> Some p) u (bv_ids env n) (bv_time env)"
  have "same_documents (published staged ?b) staged" "bead_revision (state_resource (published staged ?b)) = bv_ids env n"
    by (cases staged; simp add: same_documents_def published_def materializeBead_def)+
  moreover have "bv_ids env n \<noteq> []" using assms(4) by (simp add: env_ok_def)
  moreover
  have "same_shape (published staged (materializeBead (bead_type (state_resource staged)) (bead_properties (state_resource staged))
      (bead_metadata (state_resource staged)) (case inputs of [] \<Rightarrow> None | p # r \<Rightarrow> Some p) u (bv_ids env n) (bv_time env))) staged"
    by (rule published_shape) (simp add: assms(2))
  ultimately show ?thesis using assms(1,3) by (auto simp: published_row_def row_ok_def Let_def)
qed

lemma final_row_ok:
  assumes "final_row env g (u, k) n = Inr (Inr (r, es, n'))" "graph_inv env canon g" "env_ok env canon"
  shows "row_ok env g (u, k) r es"
proof (cases "map_of (gr_live g) u")
  case None
  then show ?thesis using assms(1)
    by (auto simp: final_row_def removed_row_def row_ok_def Let_def split: option.splits)
next
  case (Some staged)
  have i: "bead_id (state_resource staged) = u" "kind_at env g u = Some (state_kind staged)"
    using assms(2) Some by (auto simp: graph_inv_def live_ok_def)
  let ?inputs = "case map_of (gr_provenance g) u of Some l \<Rightarrow> l | None \<Rightarrow> []"
  show ?thesis
  proof (cases "\<exists>b. map_of (bv_initial env) u = Some b \<and> jsonValueEqual (covered b) (covered staged)")
    case True
    then obtain b where b: "map_of (bv_initial env) u = Some b" "jsonValueEqual (covered b) (covered staged)" by blast
    have "map_of (gr_allocated g) u = None"
      using b(1) assms(2,3) by (cases "map_of (gr_allocated g) u") (auto simp: graph_inv_def allocated_free_def env_ok_def)
    then have "state_kind b = state_kind staged" using i(2) b(1) by (simp add: kind_at_def)
    then have "same_shape b staged"
      using covered_endpoints [OF b(2)] assms(3) b(1) i(1) by (auto simp: same_shape_def env_ok_def live_ok_def)
    then show ?thesis using assms(1) Some b
      by (auto simp: final_row_def unchanged_row_def row_ok_def Let_def)
  next
    case False
    have "\<not> conflicting ?inputs"
    proof
      assume "conflicting ?inputs"
      then show False using assms(1) Some False
        by (auto simp: final_row_def Let_def refuse_batch_Inr split: option.splits if_splits)
    qed
    then have "published_row env u k (map_of (bv_initial env) u) staged ?inputs n = (r, es, n')"
      using assms(1) Some False by (auto simp: final_row_def Let_def split: option.splits)
    then show ?thesis by (rule published_row_ok [OF Some i(1) _ assms(3)])
  qed
qed

fun rows_ok :: "batch_env \<Rightarrow> graph \<Rightarrow> (jstring \<times> resource_kind) list \<Rightarrow> batch_row list \<Rightarrow> batch_effect list \<Rightarrow> bool" where
  "rows_ok env g [] rs es \<longleftrightarrow> rs = [] \<and> es = []"
| "rows_ok env g (x # xs) rs es \<longleftrightarrow>
     (\<exists>r rs' es1 es2. rs = r # rs' \<and> es = es1 @ es2 \<and> row_ok env g x r es1 \<and> rows_ok env g xs rs' es2)"

lemma final_rows_ok:
  assumes "final_rows env g xs n = Inr (Inr (rs, es, n'))" "graph_inv env canon g" "env_ok env canon"
  shows "rows_ok env g xs rs es"
  using assms(1)
proof (induction xs arbitrary: n rs es)
  case (Cons x xs)
  obtain u k where x: "x = (u, k)" by (cases x)
  from Cons.prems obtain r es1 n1 rs2 es2 where r: "final_row env g x n = Inr (Inr (r, es1, n1))"
    "final_rows env g xs n1 = Inr (Inr (rs2, es2, n'))" "rs = r # rs2" "es = es1 @ es2"
    by (auto simp: bindS_Inr)
  then show ?case using final_row_ok [OF r(1) [unfolded x] assms(2,3)] Cons.IH [OF r(2)] x by auto
qed simp

lemma rows_ok_ids: "rows_ok env g xs rs es \<Longrightarrow> map br_id rs = map fst xs"
  by (induction xs arbitrary: rs es) (auto simp: row_ok_def)

lemma rows_ok_mem: "rows_ok env g xs rs es \<Longrightarrow> r \<in> set rs \<Longrightarrow> \<exists>x \<in> set xs. \<exists>es'. row_ok env g x r es' \<and> set es' \<subseteq> set es"
  by (induction xs arbitrary: rs es) (fastforce)+

lemma rows_ok_effect: "rows_ok env g xs rs es \<Longrightarrow> e \<in> set es \<Longrightarrow> \<exists>x \<in> set xs. \<exists>r es'. row_ok env g x r es' \<and> e \<in> set es'"
  by (induction xs arbitrary: rs es) (fastforce)+

end
