(* ===== verification/Batch_Writes.thy ===== *)
theory Batch_Writes
  imports Batch_Graph
begin

text \<open>
  The writes of an evaluated batch: the stored graph becomes the working graph, the allocations become
  permanent identities, and the facts become the next events, so the invariant of the store is kept
  and the batch extends it by one group of positions.
\<close>

section \<open>Allocations and rows\<close>

lemma write_allocations_Inr:
  assumes "foldR write_allocation as s = Inr s'" "distinct (map fst as)"
  shows "s' = s \<lparr> st_identities := st_identities s' \<rparr> \<and>
    (table_ok (st_identities s) \<longrightarrow> table_ok (st_identities s')) \<and>
    (\<forall>i. map_of (st_identities s') i = (case map_of as i of Some k \<Rightarrow> Some k | None \<Rightarrow> map_of (st_identities s) i))"
  using assms
proof (induction as arbitrary: s)
  case (Cons a as)
  obtain u k where a: "a = (u, k)" by (cases a)
  from Cons.prems(1) obtain s1 where w: "write_allocation a s = Inr s1" and f: "foldR write_allocation as s1 = Inr s'" by auto
  from w have "s1 = s \<lparr> st_identities := AList.update u k (st_identities s) \<rparr>"
    by (simp add: write_allocation_def row_laws a)
  note s1 = this f
  from Cons.IH [OF s1(2)] Cons.prems(2) have ih: "s' = s1 \<lparr> st_identities := st_identities s' \<rparr>"
    "table_ok (st_identities s1) \<longrightarrow> table_ok (st_identities s')"
    "\<forall>i. map_of (st_identities s') i = (case map_of as i of Some k \<Rightarrow> Some k | None \<Rightarrow> map_of (st_identities s1) i)"
    by auto
  have "map_of as u = None" using Cons.prems(2) a by (simp add: map_of_eq_None_iff)
  then have "map_of (st_identities s') i = (case map_of (a # as) i of Some k \<Rightarrow> Some k | None \<Rightarrow> map_of (st_identities s) i)" for i
    using ih(3) by (auto simp: a s1(1) rows.find_put split: option.splits)
  moreover have "s' = s \<lparr> st_identities := st_identities s' \<rparr>"
  proof -
    have "s' = (s \<lparr> st_identities := AList.update u k (st_identities s) \<rparr>) \<lparr> st_identities := st_identities s' \<rparr>"
      using ih(1) unfolding s1(1) .
    then show ?thesis by simp
  qed
  ultimately show ?case using ih(2) by (simp add: s1(1) rows.sound_put)
qed simp

lemma write_row_Inr:
  assumes "write_row r s = Inr s'" "table_ok (st_resources s)"
  shows "s' = s \<lparr> st_resources := st_resources s' \<rparr> \<and> table_ok (st_resources s') \<and>
    map_of (st_resources s') u = (if br_changed r \<and> u = br_id r then br_resource r else map_of (st_resources s) u)"
proof (cases "br_changed r")
  case True
  show ?thesis
  proof (cases "br_resource r")
    case None
    then show ?thesis using assms True
      by (auto simp: write_row_def delete_resource_def rows.find_drop [OF assms(2)] rows.sound_drop)
  next
    case (Some st)
    then show ?thesis using assms True
      by (auto simp: write_row_def upsert_resource_def rows.find_put rows.sound_put split: if_splits)
  qed
qed (use assms in \<open>auto simp: write_row_def\<close>)

lemma write_rows_Inr:
  assumes "foldR write_row rs s = Inr s'" "table_ok (st_resources s)" "distinct (map br_id rs)"
  shows "s' = s \<lparr> st_resources := st_resources s' \<rparr> \<and> table_ok (st_resources s') \<and>
    (\<forall>r \<in> set rs. map_of (st_resources s') (br_id r) = (if br_changed r then br_resource r else map_of (st_resources s) (br_id r))) \<and>
    (\<forall>u. u \<notin> br_id ` set rs \<longrightarrow> map_of (st_resources s') u = map_of (st_resources s) u)"
  using assms
proof (induction rs arbitrary: s)
  case (Cons r rs)
  from Cons.prems(1) obtain s1 where s1: "write_row r s = Inr s1" "foldR write_row rs s1 = Inr s'" by auto
  note w = write_row_Inr [OF s1(1) Cons.prems(2)]
  from Cons.IH [OF s1(2)] w Cons.prems(3) have ih: "s' = s1 \<lparr> st_resources := st_resources s' \<rparr>" "table_ok (st_resources s')"
    "\<forall>r \<in> set rs. map_of (st_resources s') (br_id r) = (if br_changed r then br_resource r else map_of (st_resources s1) (br_id r))"
    "\<forall>u. u \<notin> br_id ` set rs \<longrightarrow> map_of (st_resources s') u = map_of (st_resources s1) u" by auto
  have n: "br_id r \<notin> br_id ` set rs" using Cons.prems(3) by simp
  have "s' = s \<lparr> st_resources := st_resources s' \<rparr>"
  proof -
    have "s1 = s \<lparr> st_resources := st_resources s1 \<rparr>" using w by simp
    then have "s' = (s \<lparr> st_resources := st_resources s1 \<rparr>) \<lparr> st_resources := st_resources s' \<rparr>" using ih(1) by metis
    then show ?thesis by simp
  qed
  moreover have "map_of (st_resources s') (br_id q) = (if br_changed q then br_resource q else map_of (st_resources s) (br_id q))"
    if "q \<in> set (r # rs)" for q
  proof (cases "q \<in> set rs")
    case True
    then have "br_id q \<noteq> br_id r" using n by (metis image_eqI)
    then show ?thesis using ih(3) True w by auto
  next
    case False
    then have "q = r" using that by simp
    then show ?thesis using ih(4) n w by auto
  qed
  moreover have "map_of (st_resources s') u = map_of (st_resources s) u" if "u \<notin> br_id ` set (r # rs)" for u
    using that ih(4) w by auto
  ultimately show ?case using ih(2) by blast
qed simp

section \<open>The stored graph after the writes\<close>

lemma batch_initial_same: "resources_ok s \<Longrightarrow> batch_initial s = st_resources s"
proof -
  assume r: "resources_ok s"
  have "has_identity s i" if "(i, st) \<in> set (st_resources s)" for i st
  proof -
    have "map_of (st_resources s) i = Some st" using r that by (simp add: resources_ok_def table_ok_def map_of_eq_Some_iff)
    then show ?thesis using r by (simp add: resources_ok_def has_identity_def)
  qed
  then show ?thesis unfolding batch_initial_def by (intro filter_True) auto
qed

abbreviation owner_canonical :: "owner \<Rightarrow> jstring \<Rightarrow> bool" where
  "owner_canonical ow u \<equiv> canonicalCreatedId (ow_runtime ow) (ow_scope ow) u = Inr u"

lemma endpoints_in_stored: "endpoints_in (ow_scope ow) (st_resources s) st = endpoints_ok ow s st"
proof -
  have "graph_bead (st_resources s) u = live_bead s u" for u
  proof (cases "map_of (st_resources s) u")
    case (Some st)
    then show ?thesis by (cases st) (auto simp: graph_bead_def live_bead_def)
  qed (simp add: graph_bead_def live_bead_def)
  then show ?thesis by (simp add: endpoints_in_def endpoints_ok_def)
qed

lemma batch_env_ok:
  assumes "base_inv ow s" "\<And>k. su_ids su k \<noteq> [] \<and> owner_canonical ow (ow_scope ow @ su_ids su k)"
  shows "env_ok (batch_env_of ow su t s) (owner_canonical ow)"
proof -
  note i = base_invD [OF assms(1)]
  have "live_ok (ow_scope ow) (st_resources s)"
    using i(1,2) by (simp add: live_ok_def resources_ok_def links_ok_def endpoints_in_stored)
  then show ?thesis
    using assms(2) i(1) by (auto simp: env_ok_def batch_env_of_def batch_initial_same resources_ok_def has_identity_def)
qed

text \<open>What the writes need of an evaluation: its graph, and rows that agree with it.\<close>

definition evaluated_ok :: "owner \<Rightarrow> batch_env \<Rightarrow> graph \<Rightarrow> batch_row list \<Rightarrow> batch_effect list \<Rightarrow> bool" where
  "evaluated_ok ow env g rs es \<longleftrightarrow> graph_inv env (owner_canonical ow) g \<and> rows_ok env g (sort_key fst (gr_touched g)) rs es"

lemma rows_distinct:
  assumes "evaluated_ok ow env g rs es"
  shows "distinct (map br_id rs)" "br_id ` set rs = fst ` set (gr_touched g)"
proof -
  have r: "rows_ok env g (sort_key fst (gr_touched g)) rs es" using assms by (simp add: evaluated_ok_def)
  have "distinct (map fst (gr_touched g))" using assms by (simp add: evaluated_ok_def graph_inv_def touched_ok_def table_ok_def)
  then show "distinct (map br_id rs)" using distinct_sort_fst by (simp add: rows_ok_ids [OF r])
  have "set (map br_id rs) = set (map fst (sort_key fst (gr_touched g)))" by (simp add: rows_ok_ids [OF r])
  then show "br_id ` set rs = fst ` set (gr_touched g)" by simp
qed

text \<open>
  The stored graph after the writes is the working graph: the same identities, kinds and endpoints, and
  the same documents, or, in a row that was left unchanged, equal ones.
\<close>

definition same_state :: "resource_state \<Rightarrow> resource_state \<Rightarrow> bool" where
  "same_state a b \<longleftrightarrow> same_shape a b \<and> (same_documents a b \<or> jsonValueEqual (covered a) (covered b))"

lemma written_state:
  assumes "evaluated_ok ow env g rs es" "bv_initial env = st_resources s" "table_ok (st_resources s)"
    "foldR write_row rs s0 = Inr s1" "st_resources s0 = st_resources s"
  shows "rel_option same_state (map_of (st_resources s1) u) (map_of (gr_live g) u)"
proof (cases "u \<in> br_id ` set rs")
  case True
  then obtain r where r: "r \<in> set rs" "u = br_id r" by blast
  from assms(1) r(1) obtain x es' where x: "row_ok env g x r es'"
    using rows_ok_mem by (fastforce simp: evaluated_ok_def)
  have "map_of (st_resources s1) u = (if br_changed r then br_resource r else map_of (st_resources s) u)"
    using write_rows_Inr [OF assms(4) _ rows_distinct(1) [OF assms(1)]] assms(3,5) r by simp
  then show ?thesis
    using x r(2) assms(2) by (cases "map_of (gr_live g) u") (auto simp: row_ok_def same_state_def split: if_splits)
next
  case False
  then have "map_of (gr_touched g) u = None" by (simp add: rows_distinct(2) [OF assms(1)] map_of_eq_None_iff)
  then have "map_of (gr_live g) u = map_of (st_resources s) u"
    using assms(1,2) by (simp add: evaluated_ok_def graph_inv_def touched_ok_def)
  moreover have "map_of (st_resources s1) u = map_of (st_resources s) u"
    using write_rows_Inr [OF assms(4) _ rows_distinct(1) [OF assms(1)]] assms(3,5) False by simp
  moreover have "rel_option same_state x x" for x
    by (cases x) (simp_all add: same_state_def same_shape_def same_documents_def)
  ultimately show ?thesis by simp
qed

lemma written_shape:
  assumes "evaluated_ok ow env g rs es" "bv_initial env = st_resources s" "table_ok (st_resources s)"
    "foldR write_row rs s0 = Inr s1" "st_resources s0 = st_resources s"
  shows "rel_option same_shape (map_of (st_resources s1) u) (map_of (gr_live g) u)"
  using written_state [OF assms, of u] by (auto simp: same_state_def elim!: option.rel_mono_strong)

lemma written_revision:
  assumes "evaluated_ok ow env g rs es" "bv_initial env = st_resources s" "table_ok (st_resources s)"
    "foldR write_row rs s0 = Inr s1" "st_resources s0 = st_resources s"
    "\<And>v st. map_of (st_resources s) v = Some st \<Longrightarrow> bead_revision (state_resource st) \<noteq> []"
    "map_of (st_resources s1) u = Some st"
  shows "bead_revision (state_resource st) \<noteq> []"
proof (cases "u \<in> br_id ` set rs")
  case True
  then obtain r where r: "r \<in> set rs" "u = br_id r" by blast
  from assms(1) r(1) obtain x es' where x: "row_ok env g x r es'"
    using rows_ok_mem by (fastforce simp: evaluated_ok_def)
  have w: "map_of (st_resources s1) u = (if br_changed r then br_resource r else map_of (st_resources s) u)"
    using write_rows_Inr [OF assms(4) _ rows_distinct(1) [OF assms(1)]] assms(3,5) r by simp
  show ?thesis
  proof (cases "br_changed r")
    case True
    then show ?thesis using w assms(7) x by (auto simp: row_ok_def split: option.splits)
  qed (use w assms(6,7) in simp)
next
  case False
  then have "map_of (st_resources s1) u = map_of (st_resources s) u"
    using write_rows_Inr [OF assms(4) _ rows_distinct(1) [OF assms(1)]] assms(3,5) by simp
  then show ?thesis using assms(6,7) by simp
qed

lemma same_shape_bead: "same_shape a b \<Longrightarrow> state_kind a = state_kind b"
  by (simp add: same_shape_def)

lemma shape_Some: "rel_option same_shape (Some a) y \<Longrightarrow> \<exists>b. y = Some b \<and> same_shape a b"
  by (cases y) simp_all

lemma shape_endpoints:
  assumes "\<And>u. rel_option same_shape (map_of r1 u) (map_of r2 u)" "same_shape a b" "endpoints_in scope r2 b"
  shows "endpoints_in scope r1 a"
proof -
  have "graph_bead r1 u = graph_bead r2 u" for u
    using assms(1) [of u] by (auto simp: graph_bead_def same_shape_bead elim!: option.rel_cases)
  then show ?thesis using assms(2,3) by (simp add: endpoints_in_def same_shape_def)
qed


lemma written_base:
  assumes "base_inv ow s" "\<not> ow_historical ow" "evaluated_ok ow env g rs es" "env = batch_env_of ow su t s"
    "foldR write_allocation (gr_allocated g) s = Inr s0" "foldR write_row rs s0 = Inr s1"
  shows "base_inv ow s1 \<and> s1 = s \<lparr> st_identities := st_identities s1, st_resources := st_resources s1 \<rparr> \<and>
    (\<forall>i k. map_of (st_identities s) i = Some k \<longrightarrow> map_of (st_identities s1) i = Some k)"
proof -
  note i = base_invD [OF assms(1)]
  have env: "bv_initial env = st_resources s" "bv_scope env = ow_scope ow" "bv_taken env = has_identity s"
    "bv_aliasTaken env = has_alias s" "bv_reserved env = isReserved ow"
    by (simp_all add: assms(4) batch_env_of_def batch_initial_same [OF i(1)])
  have g: "graph_inv env (owner_canonical ow) g" using assms(3) by (simp add: evaluated_ok_def)
  have tables: "table_ok (st_identities s)" "table_ok (st_resources s)" using i(1) by (simp_all add: resources_ok_def)
  have d: "distinct (map fst (gr_allocated g))" using g by (simp add: graph_inv_def allocated_free_def table_ok_def)
  note w0 = write_allocations_Inr [OF assms(5) d]
  then have r0: "st_resources s0 = st_resources s" by (metis store.select_convs(2) store.surjective store.update_convs(1))
  have frame0: "s0 = s \<lparr> st_identities := st_identities s0 \<rparr>" using w0 by blast
  note w1 = write_rows_Inr [OF assms(6) _ rows_distinct(1) [OF assms(3)]]
  have frame1: "s1 = s0 \<lparr> st_resources := st_resources s1 \<rparr>" "table_ok (st_resources s1)"
    using w1 tables(2) r0 by auto
  have ident: "st_identities s1 = st_identities s0" by (subst frame1(1)) simp
  have frame: "s1 = s \<lparr> st_identities := st_identities s1, st_resources := st_resources s1 \<rparr>"
  proof -
    have "s1 = (s \<lparr> st_identities := st_identities s0 \<rparr>) \<lparr> st_resources := st_resources s1 \<rparr>"
      using frame1(1) frame0 by metis
    then show ?thesis by (simp add: ident)
  qed
  have same: "st_aliases s1 = st_aliases s" "st_events s1 = st_events s" "st_incidence s1 = st_incidence s"
    "st_boundaries s1 = st_boundaries s" "st_versions s1 = st_versions s"
    by (subst frame, simp)+
  have idmap: "map_of (st_identities s1) u = (case map_of (gr_allocated g) u of Some k \<Rightarrow> Some k | None \<Rightarrow> map_of (st_identities s) u)" for u
    using w0 by (simp add: ident)
  have keep: "map_of (st_identities s1) u = Some k" if "map_of (st_identities s) u = Some k" for u k
  proof -
    have "map_of (gr_allocated g) u = None"
      using g that by (cases "map_of (gr_allocated g) u") (auto simp: graph_inv_def allocated_free_def env has_identity_def)
    then show ?thesis using that by (simp add: idmap)
  qed
  then have has: "has_identity s1 u" if "has_identity s u" for u using that by (auto simp: has_identity_def)
  note shape = written_shape [OF assms(3) env(1) tables(2) assms(6) r0]
  have live: "bead_id (state_resource st) = u \<and> kind_at env g u = Some (state_kind st) \<and> endpoints_in (ow_scope ow) (gr_live g) st"
    if "map_of (gr_live g) u = Some st" for u st
    using g that by (auto simp: graph_inv_def live_ok_def env)
  have kind: "map_of (st_identities s1) u = Some k" if "kind_at env g u = Some k" for u k
    using that i(1) by (auto simp: kind_at_def idmap env resources_ok_def split: option.splits)
  have res: "map_of (st_identities s1) u = Some (state_kind st) \<and> bead_id (state_resource st) = u \<and> endpoints_ok ow s1 st"
    if m: "map_of (st_resources s1) u = Some st" for u st
  proof -
    obtain st0 where st0: "map_of (gr_live g) u = Some st0" "same_shape st st0"
      using shape_Some [OF shape [of u, unfolded m]] by blast
    with live [OF st0(1)] kind [of u "state_kind st0"]
    have "map_of (st_identities s1) u = Some (state_kind st) \<and> bead_id (state_resource st) = u"
      by (simp add: same_shape_def)
    moreover have "endpoints_in (ow_scope ow) (st_resources s1) st"
      by (rule shape_endpoints [OF shape st0(2)]) (use live [OF st0(1)] in simp)
    ultimately show ?thesis by (simp add: endpoints_in_stored)
  qed
  have named: "bead_revision (state_resource st) \<noteq> []" if "map_of (st_resources s1) u = Some st" for u st
    by (rule written_revision [OF assms(3) env(1) tables(2) assms(6) r0 _ that]) (use i(1) in \<open>simp add: resources_ok_def\<close>)
  have "resources_ok s1" using res named frame1(2) w0 tables(1) by (simp add: resources_ok_def ident)
  moreover have "links_ok ow s1" using res by (simp add: links_ok_def)
  moreover have "aliases_ok ow s1"
  proof -
    have "\<not> has_identity s1 l" if l: "map_of (st_aliases s) l = Some x" for l x
    proof -
      have "map_of (gr_allocated g) l = None"
        using g l by (cases "map_of (gr_allocated g) l") (auto simp: graph_inv_def allocated_free_def env has_alias_def)
      then show ?thesis using i(3) l by (simp add: aliases_ok_def has_identity_def idmap)
    qed
    then show ?thesis using i(3) keep by (auto simp: aliases_ok_def same)
  qed
  moreover have "identities_ok ow s1"
    using i(4) g by (auto simp: identities_ok_def has_identity_def idmap graph_inv_def allocated_free_def env split: option.splits)
  moreover have "events_ok s1" using i(5) has by (auto simp: events_ok_def same)
  moreover have "boundaries_ok s1" using i(6) by (simp add: boundaries_ok_def same)
  moreover have "versions_ok s1" using i(7) keep by (auto simp: versions_ok_def same)
  moreover have "history_ok ow s1" using assms(2) by (simp add: history_ok_def)
  ultimately show ?thesis using frame keep by (auto simp: base_inv_def)
qed

section \<open>Facts\<close>

lemma base_inv_appended:
  assumes "base_inv ow s" "has_identity s (ev_subject e)" "ev_position e = Suc (length (st_events s))"
    "\<forall>b \<in> set beads. has_identity s b" "token \<notin> snd ` set (st_boundaries s)" "\<not> ow_historical ow"
  shows "base_inv ow (s \<lparr> st_events := st_events s @ [e],
    st_incidence := st_incidence s @ map (Pair (Suc (length (st_events s)))) beads,
    st_boundaries := st_boundaries s @ [(Suc (length (st_events s)), token)] \<rparr>)"
proof -
  note i = base_invD [OF assms(1)]
  let ?s = "s \<lparr> st_events := st_events s @ [e],
    st_incidence := st_incidence s @ map (Pair (Suc (length (st_events s)))) beads,
    st_boundaries := st_boundaries s @ [(Suc (length (st_events s)), token)] \<rparr>"
  have "events_ok ?s" using i(5) assms(2-4) by (fastforce simp: events_ok_def)
  moreover have "boundaries_ok ?s" using i(6) assms(5) by (auto simp: boundaries_ok_def)
  moreover have "versions_ok ?s" using i(7) by (fastforce simp: versions_ok_def)
  ultimately show ?thesis
    using i(1-4) assms(6) by (simp add: base_inv_def resources_ok_def links_ok_def endpoints_ok_def live_bead_def aliases_ok_def
        identities_ok_def has_identity_def history_ok_def)
qed

lemma write_fact_ok:
  assumes "write_fact ow token f s = Inr (p, s')" "base_inv ow s" "\<not> ow_historical ow"
  shows "base_inv ow s' \<and> p = Suc (length (st_events s)) \<and> length (st_events s') = p \<and> extends ow s s' \<and>
    st_outcomes s' = st_outcomes s \<and> st_decisions s' = st_decisions s \<and> st_facts s' = st_facts s \<and> st_cursors s' = st_cursors s"
proof -
  note i = base_invD [OF assms(2)]
  have h: "head s = length (st_events s)" by (rule head_length [OF i(5)])
  let ?p = "Suc (length (st_events s))"
  let ?beads = "incidentBeads (ow_scope ow) [be_before (fst f), be_after (fst f)]"
  let ?e = "\<lparr> ev_position = ?p, ev_subject = bead_id (state_resource (effect_state (fst f))), ev_body = snd f \<rparr>"
  from assms(1) have w: "p = ?p" "has_identity s (ev_subject ?e)" "\<forall>b \<in> set ?beads. has_identity s b"
    "token \<notin> snd ` set (st_boundaries s)"
    "s' = s \<lparr> st_events := st_events s @ [?e], st_incidence := st_incidence s @ map (Pair ?p) ?beads,
      st_boundaries := st_boundaries s @ [(?p, token)] \<rparr>"
    by (auto simp: write_fact_def Let_def h row_laws fold_incidence split: if_splits)
  have "base_inv ow s'" unfolding w(5) by (rule base_inv_appended [OF assms(2) w(2) _ w(3,4) assms(3)]) simp
  then show ?thesis by (simp add: w(1,5) extends_def)
qed

lemma write_facts_ok:
  assumes "write_facts ow tokens fs s = Inr (ps, s')" "base_inv ow s" "\<not> ow_historical ow"
  shows "grouped ow s ps s' \<and> length ps = length fs"
  using assms
proof (induction fs arbitrary: tokens s ps)
  case (Cons f fs)
  from Cons.prems(1) obtain p s1 qs where w: "write_fact ow (tokens 0) f s = Inr (p, s1)"
    "write_facts ow (\<lambda>k. tokens (Suc k)) fs s1 = Inr (qs, s')" "ps = p # qs" by auto
  note one = write_fact_ok [OF w(1) Cons.prems(2,3)]
  with Cons.IH [OF w(2)] Cons.prems(3) have ih: "grouped ow s1 qs s'" "length qs = length fs" by auto
  have "length (st_events s) < length (st_events s')"
    using one ih(1) by (auto simp: grouped_def extends_def dest: prefix_length_le)
  then have "ps = positions_between (length (st_events s)) (length (st_events s'))"
    using one ih(1) w(3) by (simp add: grouped_def) (metis positions_Cons)
  moreover have "extends ow s s'" using one ih(1) extends_trans by (auto simp: grouped_def)
  ultimately have "grouped ow s ps s'" using one ih(1) by (simp add: grouped_def)
  moreover have "length ps = length (f # fs)" using w(3) ih(2) by simp
  ultimately show ?case by blast
qed (simp add: grouped_def)


section \<open>The turn\<close>

lemma evaluateBatch_cases:
  assumes "evaluateBatch env input cmp = Inr en" "env_ok env canon" "\<forall>m \<in> set (pb_members input). member_canonical canon m"
  obtains (refused) "en_allocations en = []" "en_rows en = []" "en_effects en = []"
  | (result) g rs es n where "graph_inv env canon g" "rows_ok env g (sort_key fst (gr_touched g)) rs es"
      "en = finish_batch env g (rs, es, n)" "en_allocations en = gr_allocated g" "en_rows en = rs" "en_effects en = es"
      "evaluate_members env 0 (zip (pb_members input) (bc_members cmp)) (initial_graph env) = Inr (Inr g)"
proof -
  from assms(1) obtain x where x: "evaluated env input cmp = Inr x" by (auto simp: evaluateBatch_def)
  show ?thesis
  proof (cases x)
    case (Inl v)
    then show ?thesis using assms(1) x refused by (auto simp: evaluateBatch_def refused_evaluation_def)
  next
    case (Inr y)
    obtain g rs es n where y: "y = (g, rs, es, n)" by (cases y)
    from x Inr y have e: "evaluate_members env 0 (zip (pb_members input) (bc_members cmp)) (initial_graph env) = Inr (Inr g)"
      "final_rows env g (sort_key fst (gr_touched g)) (gr_next g) = Inr (Inr (rs, es, n))"
      by (auto simp: evaluated_def bindS_Inr)
    have "\<forall>(m, c) \<in> set (zip (pb_members input) (bc_members cmp)). member_canonical canon m"
      using assms(3) by (auto dest: set_zip_leftD)
    then have g: "graph_inv env canon g" by (rule evaluate_members_inv [OF e(1) graph_inv_initial [OF assms(2)] assms(2)])
    have en: "en = finish_batch env g (rs, es, n)" using assms(1) x Inr y by (simp add: evaluateBatch_def)
    show ?thesis
    proof (cases "en = refused_evaluation too_large")
      case True
      then show ?thesis using refused by (simp add: refused_evaluation_def)
    next
      case False
      then have "en_allocations en = gr_allocated g" "en_rows en = rs" "en_effects en = es"
        using en by (simp_all add: finish_batch_def Let_def split: if_splits)
      then show ?thesis using result g final_rows_ok [OF e(2) g assms(2)] en e(1) by blast
    qed
  qed
qed

lemma write_evaluation_ok:
  assumes "write_evaluation en s = Inr s1" "evaluate_store ow su input cmp s = Inr en" "base_inv ow s" "\<not> ow_historical ow"
    "\<And>k. su_ids su k \<noteq> [] \<and> owner_canonical ow (ow_scope ow @ su_ids su k)" "\<forall>m \<in> set (pb_members input). member_canonical (owner_canonical ow) m"
  shows "base_inv ow s1 \<and> s1 = s \<lparr> st_identities := st_identities s1, st_resources := st_resources s1 \<rparr> \<and>
    (\<forall>i k. map_of (st_identities s) i = Some k \<longrightarrow> map_of (st_identities s1) i = Some k)"
proof (cases "en_status en = 200 \<and> (en_allocations en \<noteq> [] \<or> en_rows en \<noteq> [])")
  case False
  then have "s1 = s" using assms(1) by (auto simp: write_evaluation_def split: if_splits)
  then show ?thesis using assms(3) by simp
next
  case True
  then obtain ms where e: "evaluateBatch (batch_env_of ow su (iso_time ms) s) input cmp = Inr en"
    using assms(2) by (auto simp: evaluate_store_def failed_evaluation_def split: if_splits)
  from True assms(1) obtain s0 where w: "foldR write_allocation (en_allocations en) s = Inr s0" "foldR write_row (en_rows en) s0 = Inr s1"
    by (auto simp: write_evaluation_def)
  from e batch_env_ok [OF assms(3,5)] assms(6) show ?thesis
  proof (cases rule: evaluateBatch_cases)
    case refused
    then show ?thesis using True by simp
  next
    case (result g rs es n)
    have "evaluated_ok ow (batch_env_of ow su (iso_time ms) s) g rs es" using result(1,2) by (simp add: evaluated_ok_def)
    from written_base [OF assms(3,4) this refl] w result(4,5) show ?thesis by simp
  qed
qed

lemma perform_batch_grouped:
  assumes "perform_batch ow su input cmp s = Inr (r, ps, s')" "base_inv ow s" "\<not> ow_historical ow"
    "\<And>k. su_ids su k \<noteq> [] \<and> owner_canonical ow (ow_scope ow @ su_ids su k)" "\<forall>m \<in> set (pb_members input). member_canonical (owner_canonical ow) m"
  shows "grouped ow s ps s'"
proof -
  from assms(1) obtain en0 fs0 where e: "evaluate_store ow su input cmp s = Inr en0"
    "batch_facts ow su en0 0 (en_effects en0) = Inr fs0" by (auto simp: perform_batch_def)
  obtain en fs where b: "bounded_facts en0 fs0 = (en, fs)" by (cases "bounded_facts en0 fs0")
  from assms(1) e b obtain s1 where "write_evaluation en s = Inr s1"
    "write_facts ow (\<lambda>k. su_ids su (en_next en0 + length (en_effects en0) + k)) fs s1 = Inr (ps, s')"
    by (auto simp: perform_batch_def split: if_splits)
  note p = e(1) b this
  have s1: "base_inv ow s1 \<and> s1 = s \<lparr> st_identities := st_identities s1, st_resources := st_resources s1 \<rparr> \<and>
    (\<forall>i k. map_of (st_identities s) i = Some k \<longrightarrow> map_of (st_identities s1) i = Some k)"
  proof (cases "en = en0")
    case True
    then show ?thesis using write_evaluation_ok [OF _ p(1) assms(2-5)] p(3) by simp
  next
    case False
    then have "en = failed_evaluation ''limit-exceeded'' 413" using p(2) by (auto simp: bounded_facts_def split: if_splits)
    then have "s1 = s" using p(3) by (simp add: write_evaluation_def failed_evaluation_def)
    then show ?thesis using assms(2) by simp
  qed
  have same: "st_events s1 = st_events s" "st_outcomes s1 = st_outcomes s" "st_decisions s1 = st_decisions s"
    "st_facts s1 = st_facts s" "st_cursors s1 = st_cursors s" "st_boundaries s1 = st_boundaries s"
    by (subst conjunct1 [OF conjunct2 [OF s1]], simp)+
  have "extends ow s s1" using s1 same by (simp add: extends_def)
  moreover have "grouped ow s1 ps s'" using write_facts_ok [OF p(4)] s1 assms(3) by blast
  ultimately show ?thesis using same extends_trans by (auto simp: grouped_def)
qed

lemma insert_facts_Inr:
  "foldR (insert_fact d) ps s = Inr s' \<Longrightarrow> s' = s \<lparr> st_facts := st_facts s @ map (Pair d) ps \<rparr>"
proof (induction ps arbitrary: s)
  case (Cons p ps)
  from Cons.prems obtain s1 where "insert_fact d p s = Inr s1" "foldR (insert_fact d) ps s1 = Inr s'" by auto
  with Cons.IH show ?case by (fastforce simp: row_laws)
qed simp

lemma record_batch_Inr:
  assumes "record_batch who key cmp (r, ps, s) = Inr (r', s')" "ow_batch ow"
  shows "r' = r \<and> s' = recorded ow (batch_outcome s who key cmp r ps) ps s"
  using assms insert_facts_Inr by (fastforce simp: record_batch_def row_laws recorded_def batch_outcome_def)


section \<open>Decisions of batches\<close>

lemma batch_readable:
  assumes "base_inv ow s" "compareBatch input (aliasLookup ow s) None = Inr cmp"
  shows "readable ow (bc_witnesses cmp)"
proof -
  have ok: "witnesses_ok (bc_witnesses cmp)" by (rule compareBatch_again(2) [OF assms(2)]) (assumption)
  have "witness_fact ow (u, t)" if "(u, t) \<in> set (bc_witnesses cmp)" for u t
  proof -
    have "map_of (bc_witnesses cmp) u = Some t" using ok that by (simp add: witnesses_ok_def)
    then have "aliasLookup ow s u = Some t" by (rule compareBatch_again(3) [OF assms(2), rotated]) assumption
    then show ?thesis by (rule lookup_fact [OF assms(1)])
  qed
  then show ?thesis using ok by (auto simp: readable_def list_all_iff)
qed

lemma batch_retry_same: "batch_retry ow input previous s = Inr (r, s') \<Longrightarrow> s' = s"
  by (auto simp: batch_retry_def split: if_splits)

lemma applyBatch_cases:
  assumes "applyBatch ow su who input s = Inr (r, s')"
  obtains (known) previous where "find_outcome s who (pb_key input) = Some previous" "batch_retry ow input previous s = Inr (r, s)" "s' = s"
  | (unsupported) "s' = s" "r = (422, serialized (JObj (batchCapabilityProblem (pb_version input))))"
      "find_outcome s who (pb_key input) = None" "\<not> ow_batch ow \<or> pb_version input \<noteq> js ''1''"
  | (decided) cmp ps s1 where "find_outcome s who (pb_key input) = None" "who \<noteq> []" "ow_batch ow" "pb_scope input = ow_scope ow"
      "pb_version input = js ''1''"
      "compareBatch input (aliasLookup ow s) None = Inr cmp" "perform_batch ow su input cmp s = Inr (r, ps, s1)"
      "s' = recorded ow (batch_outcome s1 who (pb_key input) cmp r ps) ps s1"
proof (cases "find_outcome s who (pb_key input)")
  case (Some previous)
  with assms have b: "batch_retry ow input previous s = Inr (r, s')" by (auto simp: applyBatch_def split: if_splits)
  with known [OF Some] batch_retry_same [OF b] show ?thesis by simp
next
  case None
  show ?thesis
  proof (cases "\<not> ow_batch ow \<or> pb_version input \<noteq> js ''1''")
    case True
    then show ?thesis using assms None unsupported by (auto simp: applyBatch_def split: if_splits)
  next
    case False
    with assms None obtain cmp r1 ps s1 where d: "who \<noteq> []" "pb_scope input = ow_scope ow"
      "compareBatch input (aliasLookup ow s) None = Inr cmp" "perform_batch ow su input cmp s = Inr (r1, ps, s1)"
      "record_batch who (pb_key input) cmp (r1, ps, s1) = Inr (r, s')"
      by (auto simp: applyBatch_def split: if_splits)
    with record_batch_Inr [OF d(5)] None False decided show ?thesis by blast
  qed
qed

definition batch_canonical :: "owner \<Rightarrow> prepared_batch \<Rightarrow> bool" where
  "batch_canonical ow input \<longleftrightarrow> (\<forall>m \<in> set (pb_members input). member_canonical (owner_canonical ow) m)"

lemma applyBatch_grouped:
  assumes "applyBatch ow su who input s = Inr (r, s')" "owner_ok ow" "store_inv ow s" "fresh ow s su" "batch_canonical ow input"
  shows "store_inv ow s' \<and> extends ow s s'"
  using assms(1)
proof (cases rule: applyBatch_cases)
  case (decided cmp ps s1)
  have "\<not> ow_historical ow" using assms(2) decided(3) by (simp add: owner_ok_def)
  then have g: "grouped ow s ps s1"
    using perform_batch_grouped [OF decided(7) store_invD(1) [OF assms(3)]] assms(4,5) by (simp add: fresh_def fresh_ids_def batch_canonical_def)
  have "store_inv ow s'" unfolding decided(8)
    by (rule store_inv_recorded [OF decided(1) assms(3) g _ _ _ _ _ batch_readable [OF store_invD(1) [OF assms(3)] decided(6)]])
      (simp_all add: batch_outcome_def decided(3))
  moreover have "extends ow s s'" using g by (simp add: decided(8) grouped_def extends_def)
  ultimately show ?thesis by blast
qed (use assms(3) in simp_all)

text \<open>A retry of a decided batch: a refusal is repeated, a result is projected to the retry's names.\<close>

lemma applyBatch_again:
  assumes "applyBatch ow su who input s = Inr (r, s1)" "find_outcome s who (pb_key input) = None"
    "ow_batch ow" "pb_version input = js ''1''"
    "owner_ok ow" "store_inv ow s" "fresh ow s su" "batch_canonical ow input" "store_inv ow s2" "extends ow s1 s2"
  shows "applyBatch ow su' who input s2 =
    (if fst r \<noteq> 200 then Inr (r, s2)
     else bindR (projected_body input (snd r)) (\<lambda>text.
       if byte_length text > maximumResultBytes then Inr ((413, serialized (JObj too_large)), s2) else Inr ((200, text), s2)))"
  using assms(1)
proof (cases rule: applyBatch_cases)
  case (decided cmp ps s')
  let ?o = "batch_outcome s' who (pb_key input) cmp r ps"
  have "\<not> ow_historical ow" using assms(5) decided(3) by (simp add: owner_ok_def)
  then have g: "grouped ow s ps s'"
    using perform_batch_grouped [OF decided(7) store_invD(1) [OF assms(6)]] assms(7,8) by (simp add: fresh_def fresh_ids_def batch_canonical_def)
  then have "st_outcomes s' = st_outcomes s" by (simp add: grouped_def)
  then have "find_outcome s1 who (pb_key input) = Some ?o"
    by (intro find_outcome_recorded [OF decided(1)]) (simp_all add: decided(8) batch_outcome_def)
  from find_outcome_extends [OF assms(10) this] have o: "find_outcome s2 who (pb_key input) = Some ?o" .
  have "extends ow s s2"
    using extends_trans applyBatch_grouped [OF assms(1,5-8)] assms(10) by blast
  then have direct: "aliasLookup ow s2 u = None" if "aliasLookup ow s u = None" for u
    using lookup_direct [OF store_invD(1) [OF assms(9)] _ that] by blast
  obtain again where a: "compareBatch input (aliasLookup ow s2) (Some (bc_witnesses cmp)) = Inr again" "bc_identity again = bc_identity cmp"
    using compareBatch_again(1) [OF decided(6), of "aliasLookup ow s2"] direct by blast
  have "readAliasWitnesses ow (oc_witnesses ?o) = Inr (bc_witnesses cmp)"
    using read_witnesses_text [OF assms(5) batch_readable [OF store_invD(1) [OF assms(6)] decided(6)]] by (simp add: batch_outcome_def)
  then show ?thesis
    using o a decided(2,4) by (auto simp: applyBatch_def batch_retry_def batch_outcome_def)
next
  case unsupported
  then show ?thesis using assms(3,4) by simp
qed (use assms(2) in simp)

text \<open>The members of a prepared batch ask for canonical identities.\<close>

lemma prepare_member_canonical:
  assumes "scope_ok scope" "prepare_member rt scope key operation text = Inr i" "invocation_id i = Some u"
  shows "canonicalCreatedId rt scope u = Inr u"
  using assms prepared_create_id [OF assms(1)] prepared_link_id [OF assms(1)]
  by (auto simp: prepare_member_def split: if_splits)

lemma batch_members_canonical:
  assumes "scope_ok scope" "batch_members rt scope key index names raws = Inr ms" "m \<in> set ms"
  shows "member_canonical (\<lambda>u. canonicalCreatedId rt scope u = Inr u) m"
  using assms(2,3)
proof (induction raws arbitrary: index names ms)
  case (Cons raw raws)
  from Cons.prems(1) obtain m0 names' ms0 where b: "batch_member_at rt scope key index names raw = Inr (m0, names')"
    "batch_members rt scope key (Suc index) names' raws = Inr ms0" "ms = m0 # ms0" by auto
  from b(1) have "member_canonical (\<lambda>u. canonicalCreatedId rt scope u = Inr u) m0"
    using prepare_member_canonical [OF assms(1)] by (auto simp: batch_member_at_def member_canonical_def)
  then show ?case using Cons.IH [OF b(2)] Cons.prems(2) b(3) by auto
qed simp

lemma prepareBatch_canonical:
  assumes "owner_ok ow" "prepareBatch (ow_runtime ow) (ow_scope ow) text key = Inr p"
  shows "batch_canonical ow p"
proof -
  have s: "scope_ok (ow_scope ow)" by (rule owner_scope [OF assms(1)])
  have "member_canonical (owner_canonical ow) m" if m: "m \<in> set (pb_members p)" for m
  proof -
    have "pb_members p = [] \<or> (\<exists>raws. batch_members (ow_runtime ow) (ow_scope ow) key 0 [] raws = Inr (pb_members p))"
      using assms(2) by (auto simp: prepareBatch_def simp del: batch_members.simps split: if_splits option.splits jv.splits list.splits)
    with batch_members_canonical [OF s _ m] m show ?thesis by auto
  qed
  then show ?thesis by (simp add: batch_canonical_def)
qed

end
