(* ===== verification/Store_Machine.thy ===== *)
theory Store_Machine
  imports Batch_Writes
begin

text \<open>
  The owner as a machine: admitted requests, one turn per transaction, with freshly drawn identifiers;
  every reachable session satisfies the invariant of the store, and what a turn decided stays decided.
\<close>

section \<open>Requests\<close>

datatype request =
    CreateBeadRequest prepared_create
  | UpdateBeadRequest prepared_update
  | DeleteBeadRequest prepared_delete
  | LinkRequest operation prepared_link
  | AliasRequest operation prepared_alias
  | BatchRequest prepared_batch

text \<open>The routes of \<open>retained-v01/http.ts\<close>: an operation, its request text and its key.\<close>

definition LINK_OPERATIONS :: "operation list" where
  "LINK_OPERATIONS = [CreateLink, UpdateLink, DeleteLink]"

definition prepare_request :: "owner \<Rightarrow> operation \<Rightarrow> bool \<Rightarrow> jstring \<Rightarrow> jstring \<Rightarrow> request result" where
  "prepare_request ow operation historical text key =
     (let rt = ow_runtime ow; scope = ow_scope ow in
      if operation = Batch then bindR (prepareBatch rt scope text key) (\<lambda>p. Inr (BatchRequest p))
      else if operation = CreateBead then bindR (prepareCreate rt scope text key) (\<lambda>p. Inr (CreateBeadRequest p))
      else if operation = UpdateBead
      then bindR ((if historical then prepareHistoricalUpdate else prepareUpdate) rt scope text key) (\<lambda>p. Inr (UpdateBeadRequest p))
      else if operation = DeleteBead then bindR (prepareDelete rt scope text key) (\<lambda>p. Inr (DeleteBeadRequest p))
      else if operation = PutAlias \<or> operation = DeleteAlias
      then bindR (prepareAlias rt scope operation text key) (\<lambda>p. Inr (AliasRequest operation p))
      else bindR (prepareLink rt scope operation text key) (\<lambda>p. Inr (LinkRequest operation p)))"

definition serve :: "owner \<Rightarrow> supplied \<Rightarrow> jstring \<Rightarrow> request \<Rightarrow> store \<Rightarrow> (response \<times> store) result" where
  "serve ow su who req s = (case req of
     CreateBeadRequest p \<Rightarrow> create_bead ow su who p s
   | UpdateBeadRequest p \<Rightarrow> update_bead ow su who p s
   | DeleteBeadRequest p \<Rightarrow> delete_bead ow su who p s
   | LinkRequest operation p \<Rightarrow> applyLink ow su who p operation s
   | AliasRequest operation p \<Rightarrow> applyAlias ow who p operation s
   | BatchRequest p \<Rightarrow> applyBatch ow su who p s)"

fun request_key :: "request \<Rightarrow> jstring" where
  "request_key (CreateBeadRequest p) = pc_key p"
| "request_key (UpdateBeadRequest p) = pu_key p"
| "request_key (DeleteBeadRequest p) = pd_key p"
| "request_key (LinkRequest operation p) = pl_key p"
| "request_key (AliasRequest operation p) = pa_key p"
| "request_key (BatchRequest p) = pb_key p"

fun request_operation :: "request \<Rightarrow> operation" where
  "request_operation (CreateBeadRequest p) = CreateBead"
| "request_operation (UpdateBeadRequest p) = UpdateBead"
| "request_operation (DeleteBeadRequest p) = DeleteBead"
| "request_operation (LinkRequest operation p) = operation"
| "request_operation (AliasRequest operation p) = operation"
| "request_operation (BatchRequest p) = Batch"

definition admitted :: "owner \<Rightarrow> request \<Rightarrow> bool" where
  "admitted ow req \<longleftrightarrow> (\<exists>operation historical text key. prepare_request ow operation historical text key = Inr req)"

text \<open>What the turns need of a request.\<close>

definition request_ok :: "owner \<Rightarrow> request \<Rightarrow> bool" where
  "request_ok ow req \<longleftrightarrow> (case req of
     CreateBeadRequest p \<Rightarrow> \<forall>u. pc_id p = Some u \<longrightarrow> owner_canonical ow u
   | LinkRequest operation p \<Rightarrow> \<forall>u. str_member ''id'' (pl_value p) = Some u \<longrightarrow> owner_canonical ow u
   | AliasRequest operation p \<Rightarrow> operation = PutAlias \<or> operation = DeleteAlias
   | BatchRequest p \<Rightarrow> batch_canonical ow p
   | _ \<Rightarrow> True)"

lemma admitted_ok:
  assumes "owner_ok ow" "prepare_request ow operation historical text key = Inr req"
  shows "request_ok ow req"
  using assms prepared_create_id [OF owner_scope [OF assms(1)]] prepared_link_id [OF owner_scope [OF assms(1)]]
    prepareBatch_canonical [OF assms(1)]
  by (auto simp: prepare_request_def request_ok_def Let_def split: if_splits)

section \<open>A turn keeps the invariant\<close>

definition executes :: "owner \<Rightarrow> supplied \<Rightarrow> request \<Rightarrow> comparison \<Rightarrow> store \<Rightarrow> executed" where
  "executes ow su req cmp s = (case req of
     CreateBeadRequest p \<Rightarrow> performCreate ow su KBead (create_bead_fields p) s
   | UpdateBeadRequest p \<Rightarrow> (case pu_refusal p of
       Some r \<Rightarrow> refuse r s
     | None \<Rightarrow> on_subject cmp (pu_bead p) (\<lambda>u. performUpdate ow su KBead u (update_bead_fields p)) s)
   | DeleteBeadRequest p \<Rightarrow> on_subject cmp (pd_bead p) (\<lambda>u. performDelete ow su KBead u (pd_expectedRevision p)) s
   | LinkRequest operation p \<Rightarrow> execute_link ow su p operation cmp s
   | AliasRequest operation p \<Rightarrow> execute_alias ow p operation s
   | BatchRequest p \<Rightarrow> refuse not_found s)"

fun request_captured :: "request \<Rightarrow> captured" where
  "request_captured (CreateBeadRequest p) = pc_captured p"
| "request_captured (UpdateBeadRequest p) = pu_captured p"
| "request_captured (DeleteBeadRequest p) = pd_captured p"
| "request_captured (LinkRequest operation p) = pl_captured p"
| "request_captured (AliasRequest operation p) = pa_captured p"
| "request_captured (BatchRequest p) = \<lparr> cap_names = [], cap_references = [], cap_identityFor = (\<lambda>_. Inr (pb_identity p)) \<rparr>"

text \<open>A request of another Scope or operation fails; every other one is decided by its key.\<close>

lemma serve_cases:
  assumes "\<forall>p. req \<noteq> BatchRequest p"
  shows "(\<exists>m. \<forall>su s. serve ow su who req s = Inl (TypeError m)) \<or>
    (\<forall>su s. serve ow su who req s =
      decide ow who (request_operation req) (request_key req) (request_captured req) (executes ow su req) s)"
proof (cases req)
  case (CreateBeadRequest p)
  have "(\<lambda>cmp. performCreate ow su KBead (create_bead_fields p)) = executes ow su req" for su
    by (simp add: executes_def CreateBeadRequest fun_eq_iff)
  with CreateBeadRequest show ?thesis by (simp add: serve_def create_bead_def)
next
  case (UpdateBeadRequest p)
  have "(\<lambda>cmp s. case pu_refusal p of Some r \<Rightarrow> refuse r s
      | None \<Rightarrow> on_subject cmp (pu_bead p) (\<lambda>u. performUpdate ow su KBead u (update_bead_fields p)) s) = executes ow su req" for su
    by (simp add: executes_def UpdateBeadRequest fun_eq_iff split: option.splits)
  with UpdateBeadRequest show ?thesis by (simp add: serve_def update_bead_def)
next
  case (DeleteBeadRequest p)
  have "(\<lambda>cmp. on_subject cmp (pd_bead p) (\<lambda>u. performDelete ow su KBead u (pd_expectedRevision p))) = executes ow su req" for su
    by (simp add: executes_def DeleteBeadRequest fun_eq_iff)
  with DeleteBeadRequest show ?thesis by (simp add: serve_def delete_bead_def)
next
  case (LinkRequest operation p)
  have "execute_link ow su p operation = executes ow su req" for su by (simp add: executes_def LinkRequest fun_eq_iff)
  with LinkRequest show ?thesis by (simp add: serve_def applyLink_def)
next
  case (AliasRequest operation p)
  have "(\<lambda>cmp. execute_alias ow p operation) = executes ow su req" for su by (simp add: executes_def AliasRequest fun_eq_iff)
  with AliasRequest show ?thesis by (simp add: serve_def applyAlias_def)
qed (use assms in simp)

lemma serve_decide:
  assumes "serve ow su who req s = Inr (r, s')" "\<forall>p. req \<noteq> BatchRequest p"
  shows "decide ow who (request_operation req) (request_key req) (request_captured req) (executes ow su req) s = Inr (r, s')"
  using serve_cases [OF assms(2), of ow who] assms(1) by (metis sum.distinct(1))

text \<open>A later call of a request that was served once is decided too.\<close>

lemma serve_again:
  assumes "serve ow su who req s = Inr x" "\<forall>p. req \<noteq> BatchRequest p"
  shows "serve ow su' who req s2 =
    decide ow who (request_operation req) (request_key req) (request_captured req) (executes ow su' req) s2"
  using serve_cases [OF assms(2), of ow who] assms(1) by (metis sum.distinct(1))

lemma cf_id_create [simp]: "cf_id (create_bead_fields p) = pc_id p"
  by (simp add: create_bead_fields_def)

lemma executes_ok:
  assumes "executes ow su req cmp s = Inr (r, pos, s')" "base_inv ow s" "fresh ow s su" "request_ok ow req"
  shows "executed_ok ow s pos s'"
proof (cases req)
  case (CreateBeadRequest p)
  then have "performCreate ow su KBead (create_bead_fields p) s = Inr (r, pos, s')" using assms(1) by (simp add: executes_def)
  from performCreate_ok [OF this assms(2,3)] assms(4) CreateBeadRequest show ?thesis by (simp add: request_ok_def)
next
  case (UpdateBeadRequest p)
  show ?thesis
  proof (cases "pu_refusal p")
    case None
    then show ?thesis using assms(1) UpdateBeadRequest
      by (auto simp: executes_def intro: performUpdate_ok [OF _ assms(2,3)] on_subject_ok)
  qed (use assms(1) UpdateBeadRequest in \<open>simp add: executes_def\<close>)
next
  case (DeleteBeadRequest p)
  then show ?thesis using assms(1)
    by (auto simp: executes_def intro: performDelete_ok [OF _ assms(2,3)] on_subject_ok)
next
  case (LinkRequest operation p)
  then have "execute_link ow su p operation cmp s = Inr (r, pos, s')" using assms(1) by (simp add: executes_def)
  from execute_link_ok [OF this assms(2,3)] assms(4) LinkRequest show ?thesis by (simp add: request_ok_def)
next
  case (AliasRequest operation p)
  show ?thesis
    by (rule execute_alias_ok [OF _ assms(2)]) (use assms(1,4) AliasRequest in \<open>simp_all add: executes_def request_ok_def\<close>)
next
  case (BatchRequest p)
  then show ?thesis using assms(1) by (simp add: executes_def)
qed

lemma serve_ok:
  assumes "serve ow su who req s = Inr (r, s')" "owner_ok ow" "store_inv ow s" "fresh ow s su" "request_ok ow req"
  shows "store_inv ow s' \<and> extends ow s s'"
proof (cases "\<exists>p. req = BatchRequest p")
  case True
  then obtain p where p: "req = BatchRequest p" by blast
  show ?thesis
    by (rule applyBatch_grouped [OF _ assms(2-4)]) (use assms(1,5) p in \<open>simp_all add: serve_def request_ok_def\<close>)
next
  case False
  then have d: "decide ow who (request_operation req) (request_key req) (request_captured req) (executes ow su req) s = Inr (r, s')"
    using serve_decide [OF assms(1)] by blast
  note e = executes_ok [OF _ store_invD(1) [OF assms(3)] assms(4,5)]
  have "store_inv ow s'" by (rule decide_inv [OF d assms(3)]) (rule e)
  moreover have "extends ow s s'" by (rule decide_extends [OF d]) (rule e)
  ultimately show ?thesis by blast
qed


section \<open>Reads keep the tables\<close>

lemma read_events_cursors:
  assumes "read_events su who source subject sel s = Inr (page, s')"
  shows "s' = s \<lparr> st_cursors := st_cursors s' \<rparr> \<and> prefix (st_cursors s) (st_cursors s')"
proof -
  have save: "t' = t \<lparr> st_cursors := st_cursors t' \<rparr> \<and> prefix (st_cursors t) (st_cursors t')"
    if "saveCursor su token tick who source subject after through limit mode t = Inr t'" for token tick after through limit mode t t'
    using that by (auto simp: saveCursor_def row_laws)
  from assms have "\<exists>tick scanned through s1. saveCursor su (su_ids su 0) tick who source subject scanned through (sel_limit sel) Resume s = Inr s1 \<and>
    (s' = s1 \<or> (\<exists>token tick' scanned. saveCursor su token tick' who source subject scanned through (sel_limit sel) NextPage s1 = Inr s'))"
    by (auto simp: read_events_def Let_def split: if_splits) blast+
  then obtain tick scanned through s1 where w:
    "saveCursor su (su_ids su 0) tick who source subject scanned through (sel_limit sel) Resume s = Inr s1"
    "s' = s1 \<or> (\<exists>token tick' scanned. saveCursor su token tick' who source subject scanned through (sel_limit sel) NextPage s1 = Inr s')"
    by blast
  note a = save [OF w(1)]
  from w(2) have b: "s' = s1 \<lparr> st_cursors := st_cursors s' \<rparr> \<and> prefix (st_cursors s1) (st_cursors s')"
    using save by auto
  have "s' = s \<lparr> st_cursors := st_cursors s' \<rparr>"
  proof -
    have "s' = (s \<lparr> st_cursors := st_cursors s1 \<rparr>) \<lparr> st_cursors := st_cursors s' \<rparr>" using a b by metis
    then show ?thesis by simp
  qed
  then show ?thesis using a b by (auto intro: prefix_order.trans)
qed

lemma store_inv_cursors: "store_inv ow (s \<lparr> st_cursors := c \<rparr>) = store_inv ow s"
  using base_inv_cong [of "s \<lparr> st_cursors := c \<rparr>" s ow]
  by (simp add: store_inv_def outcomes_ok_def orders_ok_def outcome_positions_def)

lemma extends_cursors: "extends ow s (s \<lparr> st_cursors := c \<rparr>)"
  by (simp add: extends_def)

lemma read_events_ok:
  assumes "read_events su who source subject sel s = Inr (page, s')"
  shows "(store_inv ow s \<longrightarrow> store_inv ow s') \<and> extends ow s s'"
proof -
  from read_events_cursors [OF assms] obtain c where "s' = s \<lparr> st_cursors := c \<rparr>" by blast
  then show ?thesis by (simp add: store_inv_cursors extends_cursors)
qed

section \<open>Sessions\<close>

text \<open>
  One step of a session: a turn in its transaction, or the close.  \<open>commits\<close> is whether the database
  commits the turn, which the owner does not control.
\<close>

inductive session_step :: "owner \<Rightarrow> session \<Rightarrow> session \<Rightarrow> bool" for ow where
  mutation: "prepare_request ow operation historical body key = Inr req \<Longrightarrow> fresh ow (ss_store ss) su \<Longrightarrow>
    session_step ow ss (snd (transaction commits (serve ow su who req) ss))"
| reading: "fresh ow (ss_store ss) su \<Longrightarrow>
    session_step ow ss (snd (transaction commits (read_events su who source subject sel) ss))"
| closing: "session_step ow ss (ss \<lparr> ss_closed := True \<rparr>)"

inductive_cases session_stepE: "session_step ow ss ss'"

inductive reachable :: "owner \<Rightarrow> session \<Rightarrow> bool" for ow where
  provisioned: "reachable ow \<lparr> ss_store = new_store token, ss_fenced = False, ss_closed = False \<rparr>"
| stepped: "reachable ow ss \<Longrightarrow> session_step ow ss ss' \<Longrightarrow> reachable ow ss'"

inductive later :: "owner \<Rightarrow> session \<Rightarrow> session \<Rightarrow> bool" for ow ss where
  same: "later ow ss ss"
| after: "later ow ss ss1 \<Longrightarrow> session_step ow ss1 ss2 \<Longrightarrow> later ow ss ss2"

inductive_simps session_step_closed: "session_step ow ss (ss \<lparr> ss_closed := True \<rparr>)"

lemma transaction_store:
  assumes "transaction commits callback ss = (res, ss')"
  shows "ss_store ss' = ss_store ss \<or> (\<exists>r. callback (ss_store ss) = Inr (r, ss_store ss') \<and> res = Inr r \<and> commits)"
  using assms by (auto simp: transaction_def split: if_splits sum.splits)

lemma new_store_inv: "store_inv ow (new_store token)"
  by (simp add: store_inv_def base_inv_def new_store_def resources_ok_def links_ok_def aliases_ok_def identities_ok_def
      has_identity_def events_ok_def boundaries_ok_def versions_ok_def history_defs outcomes_ok_def orders_ok_def outcome_positions_def
      positions_upto_def table_ok_def List.map_filter_def)

lemma session_step_ok:
  assumes "session_step ow ss ss'" "owner_ok ow" "store_inv ow (ss_store ss)"
  shows "store_inv ow (ss_store ss') \<and> extends ow (ss_store ss) (ss_store ss')"
  using assms(1)
proof cases
  case (mutation operation historical body key req su commits who)
  obtain res where t: "transaction commits (serve ow su who req) ss = (res, ss')" using mutation(1) by (metis prod.collapse)
  show ?thesis
    using transaction_store [OF t] serve_ok [OF _ assms(2,3) mutation(3) admitted_ok [OF assms(2) mutation(2)]] assms(3) by auto
next
  case (reading su commits who source subject sel)
  obtain res where t: "transaction commits (read_events su who source subject sel) ss = (res, ss')"
    using reading(1) by (metis prod.collapse)
  show ?thesis using transaction_store [OF t] read_events_ok assms(3) by auto
qed (use assms(3) in simp)

lemma reachable_inv: "reachable ow ss \<Longrightarrow> owner_ok ow \<Longrightarrow> store_inv ow (ss_store ss)"
  by (induction rule: reachable.induct) (simp_all add: new_store_inv session_step_ok)

lemma later_ok:
  assumes "later ow ss ss'" "owner_ok ow" "store_inv ow (ss_store ss)"
  shows "store_inv ow (ss_store ss') \<and> extends ow (ss_store ss) (ss_store ss')"
  using assms(1)
proof induction
  case (after ss1 ss2)
  then show ?case using session_step_ok [OF after.hyps(2) assms(2)] extends_trans by blast
qed (use assms(3) in simp)

end
