(* ===== verification/Example.thy ===== *)
theory Example
  imports Store_Machine
begin

text \<open>
  A concrete owner, supply and session on which the properties of reachable sessions are evaluated: an
  owner of the Scope \<open>http://h/\<close> whose first turn creates the Bead \<open>http://h/a\<close>.
\<close>

section \<open>The owner\<close>

definition example_nav :: navigation where
  "example_nav = \<lparr> nav_scope = js ''http://h/'', nav_description = js ''http://h/.d'', nav_beads = js ''http://h/.b'',
     nav_links = js ''http://h/.l'', nav_aliases = js ''http://h/.a'', nav_events = js ''http://h/.e'',
     nav_operations = js ''http://h/.o'',
     nav_targets = map (\<lambda>n. (js n, js (''http://h/.'' @ n))) (map operation_name ORDINARY_OPERATIONS) \<rparr>"

definition example_paths :: "string list" where
  "example_paths = [''http://h/'', ''http://h/.d'', ''http://h/.b'', ''http://h/.l'', ''http://h/.a'', ''http://h/.e'',
     ''http://h/.o''] @ map (\<lambda>n. ''http://h/.'' @ n) (map operation_name ORDINARY_OPERATIONS)"

definition example_owner :: owner where
  "example_owner = \<lparr> ow_runtime = example_runtime, ow_nav = example_nav, ow_reserved = map js example_paths,
     ow_contains = alias_contains example_runtime (js ''http://h/'') (js ''http://h/.a''),
     ow_reference = False, ow_batch = False, ow_historical = False \<rparr>"

lemma example_scope: "scope_ok (js ''http://h/'')"
  by code_simp

lemma example_urls:
  "list_all (prefix ''http://h/'') ss \<Longrightarrow>
     \<exists>us. mapR (new_url example_runtime) (map js ss) = Inr us \<and> map bare_href us = map js ss"
proof (induction ss)
  case (Cons s ss)
  then obtain us where us: "mapR (new_url example_runtime) (map js ss) = Inr us" "map bare_href us = map js ss" by auto
  have "\<exists>u. new_url example_runtime (js s) = Inr u \<and> bare_href u = js s"
    using Cons.prems by (simp add: new_url_def example_runtime_def)
  then show ?case using us by auto
qed simp

lemma first_occurrences_twice: "distinct xs \<Longrightarrow> first_occurrences (xs @ xs) = xs"
proof -
  have "set ys \<subseteq> set zs \<Longrightarrow> remdups (ys @ zs) = remdups zs" for ys zs :: "'a list"
    by (induction ys) auto
  then show "distinct xs \<Longrightarrow> first_occurrences (xs @ xs) = xs"
    by (simp add: first_occurrences_def distinct_remdups_id)
qed

lemma example_paths_ok: "list_all (prefix ''http://h/'') example_paths" "distinct example_paths"
  by (simp_all add: example_paths_def ORDINARY_OPERATIONS_def)

lemma example_addresses: "navigationAddresses example_runtime example_nav = Inr (map js example_paths)"
proof -
  have a: "[nav_scope example_nav, nav_description example_nav, nav_beads example_nav, nav_links example_nav,
      nav_aliases example_nav, nav_events example_nav, nav_operations example_nav] @ map snd (nav_targets example_nav) =
      map js example_paths"
    by (simp add: example_nav_def example_paths_def ORDINARY_OPERATIONS_def)
  from example_urls [OF example_paths_ok(1)] obtain us where
    us: "mapR (new_url example_runtime) (map js example_paths) = Inr us" "map bare_href us = map js example_paths" by blast
  have "distinct (map js example_paths)" using example_paths_ok(2) by (simp add: distinct_map inj_on_def)
  then show ?thesis
    unfolding navigationAddresses_def a Let_def us(1) bindR.simps us(2)
    by (simp add: first_occurrences_twice)
qed

lemma example_aliases: "captureAliasNamespace example_runtime (js ''http://h/'') (js ''http://h/.a'') =
    Inr (alias_contains example_runtime (js ''http://h/'') (js ''http://h/.a''))"
proof -
  have "parseCanonicalScope example_runtime (js ''http://h/'') = Inr (js ''http://h/'')" by code_simp
  moreover have "alias_prefix (js ''http://h/.a'') = js ''http://h/.a/''" by code_simp
  moreover have "parseCanonicalScope example_runtime (js ''http://h/.a/'') = Inr (js ''http://h/.a/'')" by code_simp
  ultimately show ?thesis by (simp add: captureAliasNamespace_def)
qed

lemma example_owner_ok: "owner_ok example_owner"
  using example_addresses example_aliases example_scope by (simp add: owner_ok_def example_owner_def example_nav_def)

section \<open>The supply\<close>

text \<open>Identifiers of increasing length, from length \<open>n\<close> on.\<close>

definition example_supply :: "nat \<Rightarrow> supplied" where
  "example_supply n = \<lparr> su_ids = (\<lambda>k. replicate (Suc (n + k)) 0x69), su_clock = (\<lambda>_. 0) \<rparr>"

lemma example_segment: "validateCanonicalIdSegment (replicate (Suc n) 0x69)"
proof -
  have d: "decodeURIComponent (replicate n 0x69) = Some (replicate n 0x69)" for n
    by (induction n) (simp_all add: decode_Nil decode_plain)
  have p: "code_points (replicate n 0x69) = replicate n 0x69" for n
  proof (induction n)
    case (Suc n)
    then show ?case by (cases n) (simp_all add: unit_class_defs)
  qed simp
  have e: "encode_point 0x69 = [0x69]" by code_simp
  have "canonicalPathSegment (replicate n 0x69) = replicate n 0x69" for n
    unfolding canonicalPathSegment_def p by (induction n) (simp_all add: e)
  moreover have "replicate (Suc n) (0x69 :: code_unit) \<noteq> js ''.''" "replicate (Suc n) (0x69 :: code_unit) \<noteq> js ''..''"
    by (simp_all add: js_def)
  moreover have "\<not> list_ex ascii_control (replicate (Suc n) 0x69)" by (simp add: list_ex_iff ascii_control_def)
  ultimately show ?thesis
    unfolding validateCanonicalIdSegment_def d by (simp del: replicate.simps)
qed

lemma example_id:
  "canonicalCreatedId example_runtime (js ''http://h/'') (js ''http://h/'' @ replicate (Suc k) 0x69) =
     Inr (js ''http://h/'' @ replicate (Suc k) 0x69)"
proof -
  have "split_on 0x2F (replicate (Suc k) 0x69) = [replicate (Suc k) 0x69]" by (rule split_plain) simp
  then show ?thesis
    using example_segment [of k]
    by (simp add: canonicalCreatedId_def local_part_scope [OF example_scope] assertCanonicalPathSegments_def example_runtime_def)
qed

lemma example_fresh:
  assumes "\<forall>t \<in> snd ` set (st_boundaries s) \<union> cu_token ` set (st_cursors s) \<union> hv_revision ` set (st_versions s). length t \<le> n"
  shows "fresh example_owner s (example_supply n)"
proof -
  have new: "replicate (Suc (n + k)) (0x69 :: code_unit) \<noteq> t" if "length t \<le> n" for k t using that by auto
  have "replicate (Suc (n + j)) (0x69 :: code_unit) = replicate (Suc (n + k)) 0x69 \<longleftrightarrow> j = k" for j k
    using arg_cong [of "replicate (Suc (n + j)) (0x69 :: code_unit)" "replicate (Suc (n + k)) 0x69" length] by auto
  then have "inj (su_ids (example_supply n))" by (simp add: inj_def example_supply_def del: replicate.simps)
  moreover have "su_ids (example_supply n) k \<noteq> t" if "length t \<le> n" for k t
    using new [OF that] by (simp add: example_supply_def del: replicate.simps)
  moreover have "su_ids (example_supply n) k \<noteq> []" for k by (simp add: example_supply_def)
  ultimately have "fresh_ids s (su_ids (example_supply n))"
    using assms unfolding fresh_ids_def by blast
  moreover have "canonicalCreatedId (ow_runtime example_owner) (ow_scope example_owner)
      (ow_scope example_owner @ su_ids (example_supply n) k) = Inr (ow_scope example_owner @ su_ids (example_supply n) k)" for k
    using example_id [of "n + k"] by (simp add: example_supply_def example_owner_def example_nav_def del: replicate.simps)
  ultimately show ?thesis unfolding fresh_def by blast
qed

end
