(* ===== verification/Store_Commits.thy ===== *)
theory Store_Commits
  imports Store_Machine
begin

text \<open>
  Liveness of a transition: on a store that satisfies the invariant, with fresh identifiers, no statement
  of \<open>complete\<close> violates a constraint, and the operations answer exactly as their guards decide.
\<close>

section \<open>No statement of a transition fails\<close>

lemma stage_resource_total:
  assumes "resources_ok s" "transition_ok ow s verb state former"
    "verb = VUpdate \<Longrightarrow> rec = (map_of (st_resources s) (bead_id (state_resource state)) = None)"
  shows "stage_resource verb rec state s =
    Inr (s \<lparr> st_identities := staged_identities verb state s, st_resources := staged_resources verb state s \<rparr>)"
proof (cases verb)
  case VCreate
  then have n: "\<not> has_identity s (bead_id (state_resource state))" using assms(2) by (simp add: transition_ok_def Let_def)
  then have "map_of (st_resources s) (bead_id (state_resource state)) = None"
    using assms(1) by (cases "map_of (st_resources s) (bead_id (state_resource state))") (auto simp: resources_ok_def has_identity_def)
  then show ?thesis using n VCreate
    by (simp add: stage_resource_def insert_identity_def insert_resource_def insert_row_def has_identity_def rows.find_put
        staged_identities_def staged_resources_def Let_def)
next
  case VUpdate
  then have "has_identity s (bead_id (state_resource state))" using assms(2) by (simp add: transition_ok_def Let_def has_identity_def)
  then show ?thesis using VUpdate assms(3)
    by (cases rec) (auto simp: stage_resource_def insert_resource_def insert_row_def update_resource_def Let_def
        staged_identities_def staged_resources_def)
next
  case VDelete
  then show ?thesis
    by (simp add: stage_resource_def delete_resource_def Let_def staged_identities_def staged_resources_def)
qed

lemma stage_version_total:
  assumes "version_fresh ow s0 verb state body (version_rows ow state terminal hist p)" "p = Suc (head s0)" "versions_ok s0"
    "head s0 = length (st_events s0)" "st_versions s = st_versions s0" "has_identity s (bead_id (state_resource state))" "event_at s p"
  shows "stage_version ow state terminal hist p s =
    Inr (s \<lparr> st_versions := st_versions s @ version_rows ow state terminal hist p \<rparr>)"
proof (cases "ow_historical ow \<and> state_kind state = KBead")
  case True
  then obtain v where v: "version_rows ow state terminal hist p = [v]" "hv_id v = bead_id (state_resource state)" "hv_position v = p"
    "hv_revision v \<notin> hv_revision ` set (st_versions s0)"
    using assms(1,2) unfolding version_fresh_def if_P [OF True] by blast
  have "hv_position w \<noteq> p" if "w \<in> set (st_versions s0)" for w
    using assms(2-4) that by (fastforce simp: versions_ok_def)
  then have "\<not> list_ex (\<lambda>w. hv_id w = hv_id v \<and> hv_revision w = hv_revision v \<or> hv_position w = hv_position v) (st_versions s)"
    using v(3,4) unfolding assms(5) list_ex_iff by (metis image_eqI)
  then have "insert_version v s = Inr (s \<lparr> st_versions := st_versions s @ [v] \<rparr>)"
    using v(2,3) assms(6,7) by (auto simp: insert_version_Inr)
  moreover have "stage_version ow state terminal hist p s = insert_version v s"
    using True v(1) by (simp add: stage_version_def version_rows_def Let_def)
  ultimately show ?thesis using v(1) by simp
next
  case False
  then have "stage_version ow state terminal hist p s = Inr s" "version_rows ow state terminal hist p = []"
    by (auto simp: stage_version_def version_rows_def)
  then show ?thesis by simp
qed

text \<open>\<open>complete\<close> decides by size between the refusal and the abstract transition.\<close>

lemma complete_total:
  assumes "base_inv ow s" "transition_ok ow s verb state former" "fresh_ids s ids" "Suc (head s) \<le> max_safe"
    "verb = VUpdate \<Longrightarrow> recovers hist = (map_of (st_resources s) (bead_id (state_resource state)) = None)"
    "verb \<noteq> VDelete \<Longrightarrow> bead_revision (state_resource state) \<notin> hv_revision ` set (st_versions s)"
    "lifecycleFact verb state (nav_events (ow_nav ow)) (ids 0) (ids 1) time
      (case hist of Some ((f, p), r) \<Rightarrow> Some p | None \<Rightarrow> map_option (bead_revision \<circ> state_resource) former) = Inr lifecycle"
  defines "t \<equiv> terminal_of ow verb state (ids 2)"
  defines "body \<equiv> fact_of lifecycle t state"
  shows "complete ow ids verb state former time text hist s =
    (if byte_length text > 262144 \<or> byte_length (serialized (JObj body)) > 300000 then refuse too_large s
     else Inr ((200, text), Some (Suc (head s)), committed verb state body (next_beads ow verb state former)
       (ids (if t = None then 2 else 3)) (version_rows ow state t hist (Suc (head s))) s))"
proof (cases "byte_length text > 262144 \<or> byte_length (serialized (JObj body)) > 300000")
  case True
  then show ?thesis using assms(4,7) by (simp add: complete_def Let_def body_def t_def)
next
  case False
  note i = base_invD [OF assms(1)]
  let ?p = "Suc (head s)"
  let ?s1 = "s \<lparr> st_identities := staged_identities verb state s, st_resources := staged_resources verb state s \<rparr>"
  let ?ev = "\<lparr> ev_position = ?p, ev_subject = bead_id (state_resource state), ev_body = body \<rparr>"
  let ?s2 = "?s1 \<lparr> st_events := st_events s @ [?ev] \<rparr>"
  let ?vs = "version_rows ow state t hist ?p"
  let ?s3 = "?s2 \<lparr> st_versions := st_versions s @ ?vs \<rparr>"
  let ?beads = "next_beads ow verb state former"
  let ?s4 = "?s3 \<lparr> st_incidence := st_incidence s @ map (Pair ?p) ?beads \<rparr>"
  let ?token = "ids (if t = None then 2 else 3)"
  have h: "head s = length (st_events s)" by (rule head_length [OF i(5)])
  have id: "has_identity ?s1 b" if "has_identity s b \<or> b = bead_id (state_resource state)" for b
    using that assms(2) subject_identity [OF i(1) assms(2)]
    by (auto simp: has_identity_def staged_identities_def rows.find_put identities_committed)
  have e1: "\<not> event_at ?s1 ?p" using event_at_iff [OF i(5)] h by simp
  have s2: "insert_event ?p (bead_id (state_resource state)) body ?s1 = Inr ?s2"
    using e1 id by (simp add: insert_event_Inr)
  have e2: "event_at ?s2 ?p" by (simp add: event_at_def)
  have "version_fresh ow s verb state body ?vs"
    unfolding body_def t_def using assms(2,6) fresh_idsD(1,4) [OF assms(3)]
    by (intro version_rows_fresh [OF assms(7)]) (simp_all add: transition_ok_def Let_def)
  then have s3: "stage_version ow state t hist ?p ?s2 = Inr ?s3"
    using stage_version_total [of ow s verb state body t hist ?p ?s2] i(7) h e2 id by simp
  have "(?p, b) \<notin> set (st_incidence s)" for b using i(5) h by (fastforce simp: events_ok_def)
  moreover have "has_identity ?s3 b" if "b \<in> set ?beads" for b
    using next_beads_identity [OF i(1) assms(2) that] id [of b] by simp
  ultimately have s4: "foldR (insert_incidence ?p) ?beads ?s3 = Inr ?s4"
    using e2 unfolding fold_incidence by (auto simp: next_beads_def)
  have "?p \<notin> fst ` set (st_boundaries s)" "?token \<notin> snd ` set (st_boundaries s)"
    using boundary_positions [OF i(6)] h fresh_idsD(2) [OF assms(3)] by simp_all
  then have s5: "insert_boundary ?p ?token ?s4 = Inr (?s4 \<lparr> st_boundaries := st_boundaries s @ [(?p, ?token)] \<rparr>)"
    by (simp add: insert_boundary_Inr)
  have s1: "stage_resource verb (recovers hist) state s = Inr ?s1"
    by (rule stage_resource_total [OF i(1) assms(2)]) (use assms(5) in simp)
  have safe: "\<not> max_safe < ?p" using assms(4) by simp
  show ?thesis
    unfolding complete_def Let_def assms(7) bindR.simps if_not_P [OF safe] t_def [symmetric] body_def [symmetric]
      if_not_P [OF False] s1 s2 s3 next_beads_def [symmetric] s4 s5
    by (simp add: committed_def)
qed

end
