(* ===== verification/Store_Effects.thy ===== *)
theory Store_Effects
  imports Store_Commits
begin

text \<open>
  The exact effect of each operation on a store that satisfies the invariant: its guards decide between
  a refusal, which leaves the tables alone, and the committed transition.
\<close>

section \<open>Creation\<close>

definition clock_ok :: "supplied \<Rightarrow> bool" where
  "clock_ok su \<longleftrightarrow> (\<forall>i. 0 \<le> su_clock su i \<and> su_clock su i \<le> 8640000000000000)"

lemma owner_now_ok: "clock_ok su \<Longrightarrow> owner_now su i = Inr (nat (su_clock su i))"
  by (auto simp: owner_now_def clock_ok_def not_less)

definition created_text :: "resource_state \<Rightarrow> jstring" where
  "created_text st = serialized (JObj [(js ''outcome'', JStr (js ''created'')), (js ''changed'', JBool True),
     (js ''resource'', resource_json st)])"

definition created_fact :: "owner \<Rightarrow> supplied \<Rightarrow> resource_state \<Rightarrow> json_object" where
  "created_fact ow su st =
     [(js ''id'', JStr (su_ids su 1)), (js ''source'', JStr (nav_events (ow_nav ow))),
      (js ''time'', JStr (iso_time (nat (su_clock su 0)))), (js ''origin'', JStr (js ''write'')),
      (js ''transaction'', JStr (su_ids su 2)), (js ''representation'', JStr (js ''postimage'')),
      (js ''revision'', JStr (bead_revision (state_resource st))), (js ''effect'', JObj (fact_effect VCreate st))]"

definition created_bead :: "supplied \<Rightarrow> create_fields \<Rightarrow> jstring \<Rightarrow> bead" where
  "created_bead su input u = materializeBead (cf_type input) (cf_properties input) (cf_metadata input)
     (cf_provenance input) u (su_ids su 0) (iso_time (nat (su_clock su 0)))"

text \<open>The creation of a Bead with a given identity: exactly its guards decide.\<close>

lemma create_given:
  assumes "base_inv ow s" "fresh ow s su" "clock_ok su" "Suc (head s) \<le> max_safe"
    "cf_refusal input = None" "cf_id input = Some u" "owner_canonical ow u"
  shows "performCreate ow su KBead input s =
    (let st = BeadState (created_bead su input u) in
     if has_identity s u \<or> isReserved ow u then refuse (problem ''identity-taken'' 409 ''never'') s
     else if has_alias s u then refuse (problem ''alias-path-taken'' 409 ''after-state-change'') s
     else if byte_length (created_text st) > 262144 \<or> byte_length (serialized (JObj (created_fact ow su st))) > 300000
     then refuse too_large s
     else Inr ((200, created_text st), Some (Suc (head s)),
       committed VCreate st (created_fact ow su st) [] (su_ids su 3) (version_rows ow st None None (Suc (head s))) s))"
proof (cases "has_identity s u \<or> isReserved ow u \<or> has_alias s u")
  case True
  then show ?thesis using assms(5,6) by (auto simp: performCreate_def Let_def)
next
  case False
  define st where "st = BeadState (created_bead su input u)"
  have b: "bead_id (state_resource st) = u" "state_kind st = KBead" "bead_revision (state_resource st) = su_ids su 0"
    by (simp_all add: st_def created_bead_def)
  have f: "fresh_ids s (su_ids su)" using assms(2) by (simp add: fresh_def)
  have tr: "transition_ok ow s VCreate st None"
    using False assms(7) b fresh_idsD(1) [OF f] by (simp add: transition_ok_def Let_def st_def endpoints_ok_def)
  have lc: "lifecycleFact VCreate st (nav_events (ow_nav ow)) (su_ids su (Suc 0 + 0)) (su_ids su (Suc 0 + 1))
      (iso_time (nat (su_clock su 0))) None = Inr (created_fact ow su st)"
    by (simp add: lifecycleFact_def created_fact_def numeral_2_eq_2)
  have t: "terminal_of ow VCreate st x = None" for x by (simp add: terminal_of_def)
  have n: "next_beads ow VCreate st None = []" by (simp add: next_beads_def incidentBeads_def st_def first_occurrences_def)
  have "complete ow (\<lambda>k. su_ids su (Suc 0 + k)) VCreate st None (iso_time (nat (su_clock su 0))) (created_text st) None s =
    (if byte_length (created_text st) > 262144 \<or> byte_length (serialized (JObj (created_fact ow su st))) > 300000 then refuse too_large s
     else Inr ((200, created_text st), Some (Suc (head s)),
       committed VCreate st (created_fact ow su st) [] (su_ids su 3) (version_rows ow st None None (Suc (head s))) s))"
    using complete_total [OF assms(1) tr fresh_ids_shift [OF f, of "Suc 0"] assms(4), of None "iso_time (nat (su_clock su 0))"
        "created_fact ow su st" "created_text st"] lc fresh_idsD(4) [OF f, of 0]
    by (simp add: t n b fact_of_def numeral_3_eq_3)
  moreover have "endpointRefusal ow s st = None" by (simp add: endpointRefusal_def st_def)
  ultimately show ?thesis
    using False assms(5,6) owner_now_ok [OF assms(3)] unfolding Let_def st_def [symmetric]
    by (simp add: performCreate_def resourceState_def created_text_def created_bead_def [symmetric] st_def)
qed

section \<open>Deletion\<close>

definition deleted_text :: "resource_state \<Rightarrow> jstring" where
  "deleted_text st = serialized (JObj [(js ''outcome'', JStr (js ''deleted'')), (js ''changed'', JBool True),
     (js ''deleted'', JObj (deletedIdentity st))])"

text \<open>A deletion refuses, or it removes exactly its resource.\<close>

lemma delete_effect:
  assumes "base_inv ow s" "fresh ow s su" "clock_ok su" "Suc (head s) \<le> max_safe"
  obtains (missing) "currentState s i (Some kind) = None" "performDelete ow su kind i expected s = refuse not_found s"
  | (mismatch) former where "currentState s i (Some kind) = Some former"
      "expected \<noteq> None \<and> expected \<noteq> Some (bead_revision (state_resource former))"
      "performDelete ow su kind i expected s = refuse (problem ''revision-mismatch'' 409 ''after-state-change'') s"
  | (incident) former where "currentState s i (Some kind) = Some former"
      "\<not> (expected \<noteq> None \<and> expected \<noteq> Some (bead_revision (state_resource former)))" "kind = KBead" "has_incident_link s i"
      "performDelete ow su kind i expected s = refuse (problem ''incident-links-exist'' 409 ''after-state-change'') s"
  | (large) former where "currentState s i (Some kind) = Some former"
      "\<not> (expected \<noteq> None \<and> expected \<noteq> Some (bead_revision (state_resource former)))"
      "\<not> (kind = KBead \<and> has_incident_link s i)"
      "performDelete ow su kind i expected s = refuse too_large s"
  | (deleted) former body token vs where "currentState s i (Some kind) = Some former"
      "\<not> (expected \<noteq> None \<and> expected \<noteq> Some (bead_revision (state_resource former)))"
      "\<not> (kind = KBead \<and> has_incident_link s i)" "transition_ok ow s VDelete former (Some former)"
      "bead_id (state_resource former) = i"
      "performDelete ow su kind i expected s = Inr ((200, deleted_text former), Some (Suc (head s)),
         committed VDelete former body (next_beads ow VDelete former (Some former)) token vs s)"
proof (cases "currentState s i (Some kind)")
  case None
  then show ?thesis using missing by (simp add: performDelete_def)
next
  case (Some former)
  note res = base_invD(1) [OF assms(1)]
  have b: "map_of (st_resources s) i = Some former" "state_kind former = kind" "bead_id (state_resource former) = i"
    using Some res by (auto simp: currentState_iff [OF res] resources_ok_def)
  show ?thesis
  proof (cases "expected \<noteq> None \<and> expected \<noteq> Some (bead_revision (state_resource former))")
    case True
    then show ?thesis using mismatch [OF Some] Some by (auto simp: performDelete_def)
  next
    case rev: False
    show ?thesis
    proof (cases "kind = KBead \<and> has_incident_link s i")
      case True
      have "performDelete ow su kind i expected s = refuse (problem ''incident-links-exist'' 409 ''after-state-change'') s"
        unfolding performDelete_def Some option.case if_not_P [OF rev] if_P [OF True] ..
      then show ?thesis using incident [OF Some rev] True by blast
    next
      case False
      have tr: "transition_ok ow s VDelete former (Some former)"
        using b False base_invD(2) [OF assms(1)] by (auto simp: transition_ok_def Let_def links_ok_def)
      have f: "fresh_ids s (su_ids su)" using assms(2) by (simp add: fresh_def)
      have d: "performDelete ow su kind i expected s =
          complete ow (su_ids su) VDelete former (Some former) (iso_time (nat (su_clock su 0))) (deleted_text former) None s"
        using Some rev False owner_now_ok [OF assms(3)] by (auto simp: performDelete_def deleted_text_def)
      obtain lifecycle where l: "lifecycleFact VDelete former (nav_events (ow_nav ow)) (su_ids su 0) (su_ids su 1)
          (iso_time (nat (su_clock su 0))) (map_option (bead_revision \<circ> state_resource) (Some former)) = Inr lifecycle"
        by (auto simp: lifecycleFact_def)
      note c = complete_total [OF assms(1) tr f assms(4), of None "iso_time (nat (su_clock su 0))" lifecycle "deleted_text former"]
      show ?thesis
        using c l d large [OF Some rev False] deleted [OF Some rev False tr b(3)] by (simp split: if_splits)
    qed
  qed
qed

lemma committed_delete:
  assumes "resources_ok s" "bead_id (state_resource former) = i"
  shows "currentState (committed VDelete former body beads token vs s) j kind =
    (if j = i then None else currentState s j kind)"
  unfolding currentState_def identities_committed resources_committed [OF assms(1)] using assms(2) by auto

section \<open>Update\<close>

lemma find_version:
  assumes "versions_ok s" "w \<in> set (st_versions s)" "hv_id w = i" "hv_revision w = r"
  shows "List.find (\<lambda>v. hv_id v = i \<and> hv_revision v = r) (st_versions s) = Some w"
proof -
  have "distinct (map (\<lambda>v. (hv_id v, hv_revision v)) vs) \<Longrightarrow> w \<in> set vs \<Longrightarrow>
      List.find (\<lambda>v. hv_id v = i \<and> hv_revision v = r) vs = Some w" for vs
    using assms(3,4) by (induction vs) (auto simp: image_iff)
  then show ?thesis using assms(1,2) by (simp add: versions_ok_def)
qed

text \<open>The errors that announce an inconsistent historical index do not occur.\<close>

lemma baseline_total:
  assumes "base_inv ow s"
  shows "\<exists>base. baseline ow s kind i sel = Inr base"
proof (cases "currentState s i (Some kind)")
  case None
  show ?thesis
  proof (cases "\<exists>t r p. sel \<and> historicalVersion ow s i None = Some (VTerminal t r p)")
    case True
    then obtain t r p where h: "sel" "historicalVersion ow s i None = Some (VTerminal t r p)" by blast
    then have hist: "ow_historical ow" by (simp add: historicalVersion_def split: if_splits)
    from historicalVersion_mem [OF h(2)] obtain v where v: "v \<in> set (st_versions s)" "hv_id v = i" "hv_body v = VTerminal t r p" by blast
    note j = base_invD(7,8) [OF assms]
    have "terminal_ok s v" using j(2) hist v(1) by (simp add: history_ok_def)
    then obtain w b c where w: "w \<in> set (st_versions s)" "hv_id w = i" "hv_revision w = p" "hv_body w = VLive b c"
      using v(2,3) by (auto simp: terminal_ok_def)
    have "historicalVersion ow s i (Some p) = Some (VLive b c)"
      using find_version [OF j(1) w(1-3)] w(4) hist by (simp add: historicalVersion_def)
    then show ?thesis using None h by (simp add: baseline_def)
  next
    case False
    then show ?thesis using None by (auto simp: baseline_def split: option.splits version_body.splits)
  qed
qed (simp add: baseline_def)

lemma update_source_total:
  assumes "base_inv ow s" "map_of (st_identities s) i = Some KBead" "ow_historical ow"
  shows "\<exists>src. update_source ow s i from former = Inr src"
proof (cases "\<exists>r. from = Some r \<and> historicalVersion ow s i (Some r) = None")
  case True
  then obtain r where r: "from = Some r" "historicalVersion ow s i (Some r) = None" by blast
  have "\<not> list_ex (\<lambda>e. ev_subject e = i \<and> obj_get (js ''revision'') (ev_body e) = Some (JStr r)) (st_events s)"
  proof
    assume "list_ex (\<lambda>e. ev_subject e = i \<and> obj_get (js ''revision'') (ev_body e) = Some (JStr r)) (st_events s)"
    then obtain e where e: "e \<in> set (st_events s)" "ev_subject e = i" "obj_get (js ''revision'') (ev_body e) = Some (JStr r)"
      by (auto simp: list_ex_iff)
    have "event_indexed s e" using base_invD(8) [OF assms(1)] assms(3) e(1) by (simp add: history_ok_def)
    then obtain v where v: "v \<in> set (st_versions s)" "hv_id v = i" "hv_revision v = r"
      using assms(2) e(2,3) by (auto simp: event_indexed_def)
    then show False using r(2) assms(3) find_version [OF base_invD(7) [OF assms(1)] v] by (simp add: historicalVersion_def)
  qed
  then show ?thesis using r by (simp add: update_source_def)
next
  case False
  then show ?thesis by (auto simp: update_source_def split: option.splits version_body.splits)
qed

text \<open>An update leaves the tables alone, or it commits the edited documents under a new revision.\<close>

definition updated_state :: "edit_fields \<Rightarrow> resource_state \<Rightarrow> json_object \<times> json_object \<Rightarrow> resource_state \<Rightarrow> bool" where
  "updated_state input former docs st \<longleftrightarrow> state_kind st = state_kind former \<and>
     bead_type (state_resource st) = (case ef_type input of Some t \<Rightarrow> t | None \<Rightarrow> bead_type (state_resource former)) \<and>
     bead_properties (state_resource st) = fst docs \<and> bead_metadata (state_resource st) = snd docs \<and>
     (case st of
        LinkState b src tgt \<Rightarrow> update_endpoints former input = (Some src, Some tgt)
      | BeadState b \<Rightarrow> True)"

lemma update_effect:
  assumes "performUpdate ow su kind i input s = Inr (r, pos, s')" "base_inv ow s" "fresh ow s su"
  obtains (same) "pos = None" "s' = s"
  | (changed) former prev rec src docs st body token vs where
      "baseline ow s kind i (ef_fromRevision input \<noteq> None) = Inr (Some (former, prev, rec))"
      "ef_expectedRevision input = None \<or> ef_expectedRevision input = Some prev"
      "update_source ow s i (ef_fromRevision input) (state_resource former) = Inr (Inr src)"
      "edited_documents input src = Inr (Inr docs)" "updated_state input former docs st" "state_kind st = kind"
      "bead_id (state_resource st) = i" "bead_revision (state_resource st) = su_ids su 0" "endpoints_ok ow s st"
      "fst r = 200" "pos = Some (Suc (head s))"
      "s' = committed VUpdate st body (next_beads ow VUpdate st (Some former)) token vs s"
proof (cases "pos = None \<and> s' = s")
  case True
  then show ?thesis using same by blast
next
  case False
  note res = base_invD(1) [OF assms(2)]
  from assms(1) False obtain base where b0: "baseline ow s kind i (ef_fromRevision input \<noteq> None) = Inr base"
    by (auto simp: performUpdate_def Let_def refuse_def split: option.splits if_splits)
  with assms(1) False obtain former prev rec where b: "base = Some (former, prev, rec)"
    "update_guarded ow su kind i input former prev rec s = Inr (r, pos, s')"
    by (auto simp: performUpdate_def Let_def refuse_def split: option.splits if_splits)
  from b(2) False have g: "ef_expectedRevision input = None \<or> ef_expectedRevision input = Some prev"
    by (auto simp: update_guarded_def refuse_def split: if_splits)
  from b(2) g obtain x where x: "update_source ow s i (ef_fromRevision input) (state_resource former) = Inr x"
    "(case x of Inl v \<Rightarrow> refuse v s | Inr source \<Rightarrow> update_edited ow su kind i input former prev rec source s) = Inr (r, pos, s')"
    by (auto simp: update_guarded_def)
  then obtain src where src: "update_source ow s i (ef_fromRevision input) (state_resource former) = Inr (Inr src)"
    "update_edited ow su kind i input former prev rec src s = Inr (r, pos, s')"
    using False by (cases x) (auto simp: refuse_def)
  from src(2) False obtain y where y: "edited_documents input src = Inr y"
    "(case y of Inl v \<Rightarrow> refuse v s | Inr d \<Rightarrow> update_candidate ow su kind i input former prev rec d s) = Inr (r, pos, s')"
    by (auto simp: update_edited_def refuse_def [of too_large] split: if_splits)
  then obtain docs where docs: "edited_documents input src = Inr (Inr docs)"
    "update_candidate ow su kind i input former prev rec docs s = Inr (r, pos, s')"
    using False by (cases y) (auto simp: refuse_def)
  from docs(2) False obtain cand where cand:
    "resourceState kind (with_documents former input (fst docs) (snd docs)) (fst (update_endpoints former input))
       (snd (update_endpoints former input)) = Inr cand" "endpointRefusal ow s cand = None"
    "commit_update ow su kind i input former (with_documents former input (fst docs) (snd docs)) prev rec s = Inr (r, pos, s')"
    by (auto simp: update_candidate_def Let_def refuse_def split: if_splits option.splits)
  let ?c = "with_documents former input (fst docs) (snd docs)"
  let ?ctx = "map_option (\<lambda>r. (r, prev)) (ef_fromRevision input)"
  from cand(3) obtain ms st where st:
    "resourceState kind (materializeBead (bead_type ?c) (bead_properties ?c) (bead_metadata ?c) (ef_provenance input) i
       (su_ids su 0) (iso_time ms)) (fst (update_endpoints former input)) (snd (update_endpoints former input)) = Inr st"
    "complete ow (\<lambda>k. su_ids su (Suc k)) VUpdate st (Some former) (iso_time ms) (changed_text ?ctx st)
       (map_option (\<lambda>c. (c, rec)) ?ctx) s = Inr (r, pos, s')"
    by (auto simp: commit_update_def Let_def case_prod_unfold)
  note base = baseline_Some [OF b0 [unfolded b(1)] assms(2)]
  note s0 = resourceState_Inr [OF st(1)]
  have kind: "state_kind former = kind"
  proof (cases rec)
    case True
    then have f: "state_kind former = KBead" using base by simp
    then have "update_endpoints former input = (None, None)" by (cases former) (simp_all add: update_endpoints_def)
    then show ?thesis using st(1) f by (cases kind) (simp_all add: resourceState_def)
  qed (use base in simp)
  have e: "endpoints_ok ow s st"
    using cand(2) endpointRefusal_None [OF res] endpoints_ok_cong [of st cand] resourceState_endpoints [OF st(1) cand(1)]
      s0 resourceState_Inr [OF cand(1)] by metis
  have u: "updated_state input former docs st"
  proof -
    have "state_kind st = state_kind former" using s0 kind by simp
    moreover have "bead_type (state_resource st) = bead_type ?c" "bead_properties (state_resource st) = fst docs"
      "bead_metadata (state_resource st) = snd docs"
      using s0 by (simp_all add: materializeBead_def with_documents_def)
    moreover have "case st of LinkState b src tgt \<Rightarrow> update_endpoints former input = (Some src, Some tgt) | BeadState b \<Rightarrow> True"
      using s0 by (cases st) (auto simp: prod_eq_iff)
    ultimately show ?thesis by (simp add: updated_state_def with_documents_def)
  qed
  have t: "update_target VUpdate (map_option (\<lambda>c. (c, rec)) ?ctx) st s"
    using base s0 by (cases rec) (auto simp: update_target_def)
  from complete_Inr [OF st(2) t] False obtain body token vs where c: "fst r = 200" "pos = Some (Suc (head s))"
    "s' = committed VUpdate st body (next_beads ow VUpdate st (Some former)) token vs s"
    by (auto simp: refusal_def)
  show ?thesis
    using changed [OF b0 [unfolded b(1)] g src(1) docs(1) u _ _ _ e c] s0 by simp
qed

end
