(* ===== verification/Example_Session.thy ===== *)
theory Example_Session
  imports Example Store_Effects
begin

text \<open>The first turn of the example owner: the size of its texts, its response and its session.\<close>

section \<open>Sizes\<close>

fun text_bound :: "('n \<Rightarrow> jstring) \<Rightarrow> 'n jv \<Rightarrow> nat" where
  "text_bound num JNull = 4"
| "text_bound num (JBool b) = 5"
| "text_bound num (JStr s) = 2 + 6 * length s"
| "text_bound num (JNum n) = length (num n)"
| "text_bound num (JArr xs) = 2 + sum_list (map (\<lambda>x. Suc (text_bound num x)) xs)"
| "text_bound num (JObj kvs) = 2 + sum_list (map (\<lambda>(k, x). 4 + 6 * length k + text_bound num x) kvs)"

lemma quote_unit_length: "length (quote_unit c) \<le> 6"
  by (simp add: quote_unit_def unicode_escape_def Let_def)

lemma quote_units_length: "length (quote_units s) \<le> 6 * length s"
proof (induction s rule: quote_units.induct)
  case (2 c)
  then show ?case using quote_unit_length [of c] by simp
next
  case (3 c d s)
  then show ?case using quote_unit_length [of c] by (cases "is_high_surrogate c \<and> is_low_surrogate d") auto
qed simp

lemma string_text_length: "length (string_text s) \<le> 2 + 6 * length s"
  using quote_units_length [of s] by (simp add: string_text_def)

lemma commas_length: "length (commas ss) \<le> sum_list (map (\<lambda>s. Suc (length s)) ss)"
  by (induction ss rule: commas.induct) simp_all

lemma text_bound: "length (json_text num v) \<le> text_bound num v"
proof (induction num v rule: json_text.induct)
  case (3 num s)
  then show ?case using string_text_length [of s] by simp
next
  case (5 num xs)
  have "sum_list (map (\<lambda>s. Suc (length s)) (map (json_text num) xs)) \<le> sum_list (map (\<lambda>x. Suc (text_bound num x)) xs)"
    unfolding map_map comp_def by (rule sum_list_mono) (use 5 in simp)
  then show ?case using commas_length [of "map (json_text num) xs"] by simp
next
  case (6 num kvs)
  have "Suc (length (string_text k @ [0x3A] @ json_text num x)) \<le> 4 + 6 * length k + text_bound num x" if "(k, x) \<in> set kvs" for k x
    using 6 [OF that refl] string_text_length [of k] by simp
  then have "sum_list (map (\<lambda>s. Suc (length s)) (map (\<lambda>(k, x). string_text k @ [0x3A] @ json_text num x) kvs)) \<le>
      sum_list (map (\<lambda>(k, x). 4 + 6 * length k + text_bound num x) kvs)"
    unfolding map_map comp_def by (intro sum_list_mono) auto
  then show ?case using commas_length [of "map (\<lambda>(k, x). string_text k @ [0x3A] @ json_text num x) kvs"] by simp
qed simp_all

lemma byte_length_le: "byte_length s \<le> 3 * length s"
proof (induction s rule: byte_length.induct)
  case (2 c s)
  show ?case
  proof (cases "is_high_surrogate c")
    case True
    then show ?thesis using 2(1,2) [OF True]
      by (cases s; cases "is_low_surrogate (hd s)") (fastforce simp: byte_length.simps(2) [of c])+
  next
    case False
    then show ?thesis using 2(3) [OF False] by (simp add: byte_length.simps(2) [of c])
  qed
qed simp

lemma serialized_bound: "3 * text_bound number_text v \<le> n \<Longrightarrow> byte_length (serialized v) \<le> n"
  using text_bound [of number_text v] byte_length_le [of "serialized v"]
  by (simp add: serialized_def print_json_text)

section \<open>The first turn\<close>

definition example_prepared :: prepared_create where
  "example_prepared = (case prepareCreate example_runtime (js ''http://h/'') example_create_text (js ''k'') of Inr p \<Rightarrow> p)"

lemma example_prepared:
  "prepareCreate example_runtime (js ''http://h/'') example_create_text (js ''k'') = Inr example_prepared"
  "pc_scope example_prepared = js ''http://h/''" "pc_key example_prepared = js ''k''"
  "create_bead_fields example_prepared = \<lparr> cf_id = Some (js ''http://h/a''), cf_type = JStr (js ''http://h/t''),
     cf_properties = [], cf_metadata = [], cf_provenance = None, cf_source = None, cf_target = None, cf_refusal = None \<rparr>"
  using example_create by (auto simp: example_prepared_def create_bead_fields_def)

lemma prepared_captured:
  "prepared (\<lambda>c. build c) t = Inr p \<Longrightarrow> \<exists>c. p = build c \<and> cap_names c = [] \<and> cap_references c = [] \<and> cap_identityFor c = (\<lambda>_. Inr t)"
  by (auto simp: prepared_def captureReferenceComparison_def resolveAliasReferences_def semanticSlots_def Let_def split: if_splits)

lemma create_captured:
  assumes "prepareCreate rt scope text key = Inr p"
  shows "\<exists>t. cap_names (pc_captured p) = [] \<and> cap_references (pc_captured p) = [] \<and> cap_identityFor (pc_captured p) = (\<lambda>_. Inr t)"
  using assms
proof (cases rule: create_parts)
  case (1 input i t a)
  then show ?thesis
    by (cases a) (auto simp: create_refused_def create_admitted_def dest!: prepared_captured)
qed

lemma example_compared:
  "\<exists>cmp. compareCapturedReferences (pc_captured example_prepared) lookup None [] = Inr cmp"
proof -
  obtain t where "cap_names (pc_captured example_prepared) = []" "cap_references (pc_captured example_prepared) = []"
    "cap_identityFor (pc_captured example_prepared) = (\<lambda>_. Inr t)"
    using create_captured [OF example_prepared(1)] by blast
  then show ?thesis
    by (simp add: compareCapturedReferences_def resolveAliasReferences_def ordinary_references_def Let_def)
qed


definition example_draws :: supplied where
  "example_draws = example_supply 1"

lemma example_clock: "clock_ok example_draws"
  by (simp add: clock_ok_def example_draws_def example_supply_def)

lemma example_new_fresh: "fresh example_owner (new_store (js ''b'')) example_draws"
  unfolding example_draws_def by (rule example_fresh) (simp add: new_store_def js_def)

lemma example_request:
  "prepare_request example_owner CreateBead False example_create_text (js ''k'') = Inr (CreateBeadRequest example_prepared)"
  using example_prepared(1) by (simp add: prepare_request_def example_owner_def example_nav_def)

lemma example_canonical: "owner_canonical example_owner (js ''http://h/a'')"
  using admitted_ok [OF example_owner_ok example_request] example_prepared(4)
  by (simp add: request_ok_def create_bead_fields_def)

lemma example_reserved: "\<not> isReserved example_owner (js ''http://h/a'')"
  by (simp add: isReserved_def example_owner_def example_paths_def ORDINARY_OPERATIONS_def)


definition example_bead :: bead where
  "example_bead = created_bead example_draws (create_bead_fields example_prepared) (js ''http://h/a'')"

lemma example_bead:
  "example_bead = \<lparr> bead_id = js ''http://h/a'', bead_type = JStr (js ''http://h/t''), bead_revision = js ''ii'',
     bead_properties = [], bead_metadata = [], bead_provenance = None \<rparr>"
  by (simp add: example_bead_def created_bead_def materializeBead_def example_prepared(4) example_draws_def example_supply_def js_def numeral_2_eq_2)

definition example_created :: store where
  "example_created = committed VCreate (BeadState example_bead) (created_fact example_owner example_draws (BeadState example_bead))
     [] (su_ids example_draws 3) (version_rows example_owner (BeadState example_bead) None None (Suc 0)) (new_store (js ''b''))"

lemma example_head: "head (new_store t) = 0"
  by (simp add: head_def new_store_def)

lemma example_time: "iso_time 0 = js ''1970-01-01T00:00:00.000Z''"
proof -
  have "nat_text 0 = js ''0''" "nat_text 1 = js ''1''" "nat_text 1970 = js ''1970''"
    by (simp_all add: nat_text.simps js_def)
  then show ?thesis by (simp add: iso_time_def civil_dates pad_left_def js_def numeral_2_eq_2)
qed

lemma example_text_size: "byte_length (created_text (BeadState example_bead)) \<le> 262144"
proof -
  have "text_bound number_text (resource_json (BeadState example_bead)) \<le> 1000"
    by (simp add: example_bead bead_fields_def)
  then show ?thesis
    unfolding created_text_def by (intro serialized_bound) simp
qed

lemma example_fact_size:
  "byte_length (serialized (JObj (created_fact example_owner example_draws (BeadState example_bead)))) \<le> 300000"
  by (rule serialized_bound)
    (simp add: created_fact_def fact_effect_def fact_operation_def example_bead bead_fields_def example_owner_def
      example_nav_def example_draws_def example_supply_def example_time numeral_2_eq_2 Let_def)

lemma example_performed:
  "performCreate example_owner example_draws KBead (create_bead_fields example_prepared) (new_store (js ''b'')) =
     Inr ((200, created_text (BeadState example_bead)), Some 1, example_created)"
proof -
  have h: "Suc (head (new_store (js ''b''))) \<le> max_safe" by (simp add: example_head max_safe_def)
  have f: "cf_refusal (create_bead_fields example_prepared) = None" "cf_id (create_bead_fields example_prepared) = Some (js ''http://h/a'')"
    unfolding example_prepared(4) by simp_all
  have n: "\<not> has_identity (new_store (js ''b'')) u" "\<not> has_alias (new_store (js ''b'')) u" for u
    by (simp_all add: has_identity_def has_alias_def new_store_def)
  show ?thesis
    using create_given [OF store_invD(1) [OF new_store_inv] example_new_fresh example_clock h f example_canonical]
      n example_reserved example_text_size example_fact_size
    unfolding example_bead_def [symmetric] Let_def by (simp add: example_created_def example_head not_less)
qed

text \<open>The turn that creates the Bead commits, and its store is reachable.\<close>

definition example_turn :: "store \<Rightarrow> (response \<times> store) result" where
  "example_turn = serve example_owner example_draws (js ''p'') (CreateBeadRequest example_prepared)"

definition example_empty :: session where
  "example_empty = \<lparr> ss_store = new_store (js ''b''), ss_fenced = False, ss_closed = False \<rparr>"

definition example_session :: session where
  "example_session = snd (transaction True example_turn example_empty)"

lemma example_decided:
  "\<exists>c. example_turn (new_store (js ''b'')) = Inr ((200, created_text (BeadState example_bead)), recorded example_owner c [1] example_created) \<and>
     oc_principal c = js ''p'' \<and> oc_key c = js ''k'' \<and> oc_operation c = CreateBead \<and> oc_status c = 200 \<and>
     oc_position c = Some 1 \<and> oc_decision c = 1"
proof -
  obtain cmp where c: "compareCapturedReferences (pc_captured example_prepared) (aliasLookup example_owner (new_store (js ''b''))) None [] = Inr cmp"
    using example_compared by blast
  have n: "find_outcome (new_store (js ''b'')) who key = None" for who key by (simp add: find_outcome_def new_store_def)
  have e: "executed_ok example_owner (new_store (js ''b'')) (Some 1) example_created"
    by (rule executes_ok [of _ _ "CreateBeadRequest example_prepared", OF _ store_invD(1) [OF new_store_inv] example_new_fresh
          admitted_ok [OF example_owner_ok example_request]])
      (simp add: executes_def example_performed [unfolded One_nat_def])
  have d: "st_decisions example_created = 0" by (simp add: example_created_def committed_def new_store_def)
  have p: "pc_scope example_prepared = ow_scope example_owner"
    using example_prepared(2) by (simp add: example_owner_def example_nav_def)
  show ?thesis
    using record_decision_total [OF n new_store_inv e, where operation = CreateBead and cmp = cmp and who = "js ''p''" and key = "js ''k''"] p n c d
    by (auto simp: example_turn_def serve_def create_bead_def decide_def example_performed example_prepared(3) max_safe_def
        outcome_of_def)
qed

lemma example_fresh_turn:
  "session_step example_owner example_empty example_session"
proof -
  have "fresh example_owner (ss_store example_empty) example_draws"
    using example_new_fresh by (simp add: example_empty_def)
  from session_step.mutation [OF example_request this, of True "js ''p''"]
  show ?thesis by (simp add: example_session_def example_turn_def [symmetric])
qed

lemma example_reachable: "reachable example_owner example_empty" "reachable example_owner example_session"
  using reachable.provisioned [of example_owner "js ''b''"] reachable.stepped [OF _ example_fresh_turn]
  by (simp_all add: example_empty_def)

definition example_outcome :: outcome_row where
  "example_outcome = last (st_outcomes (ss_store example_session))"

lemma example_stored:
  "ss_store example_session = recorded example_owner example_outcome [1] example_created"
  "oc_principal example_outcome = js ''p''" "oc_key example_outcome = js ''k''" "oc_operation example_outcome = CreateBead"
  "oc_status example_outcome = 200" "oc_position example_outcome = Some 1" "oc_decision example_outcome = 1"
  "\<not> ss_fenced example_session" "\<not> ss_closed example_session"
  "fst (transaction True example_turn example_empty) = Inr (200, created_text (BeadState example_bead))"
proof -
  obtain c where c: "example_turn (new_store (js ''b'')) = Inr ((200, created_text (BeadState example_bead)), recorded example_owner c [1] example_created)"
    "oc_principal c = js ''p''" "oc_key c = js ''k''" "oc_operation c = CreateBead" "oc_status c = 200"
    "oc_position c = Some 1" "oc_decision c = 1"
    using example_decided by blast
  have t: "transaction True example_turn example_empty = (Inr (200, created_text (BeadState example_bead)),
      example_empty \<lparr> ss_store := recorded example_owner c [1] example_created \<rparr>)"
    by (simp add: transaction_def example_empty_def c(1))
  then have s: "ss_store example_session = recorded example_owner c [1] example_created"
    by (simp add: example_session_def)
  then have o: "example_outcome = c" by (simp add: example_outcome_def)
  show "ss_store example_session = recorded example_owner example_outcome [1] example_created"
    "oc_principal example_outcome = js ''p''" "oc_key example_outcome = js ''k''" "oc_operation example_outcome = CreateBead"
    "oc_status example_outcome = 200" "oc_position example_outcome = Some 1" "oc_decision example_outcome = 1"
    using s c unfolding o by blast+
  show "\<not> ss_fenced example_session" "\<not> ss_closed example_session"
    "fst (transaction True example_turn example_empty) = Inr (200, created_text (BeadState example_bead))"
    unfolding example_session_def t by (simp_all add: example_empty_def)
qed

lemma example_tables:
  "st_resources (ss_store example_session) = [(js ''http://h/a'', BeadState example_bead)]"
  "st_identities (ss_store example_session) = [(js ''http://h/a'', KBead)]"
  "map ev_position (st_events (ss_store example_session)) = [1]"
  "st_boundaries (ss_store example_session) = [(0, js ''b''), (1, js ''iiiii'')]"
proof -
  have b: "bead_id example_bead = js ''http://h/a''" by (simp add: example_bead)
  show "st_resources (ss_store example_session) = [(js ''http://h/a'', BeadState example_bead)]"
    "st_identities (ss_store example_session) = [(js ''http://h/a'', KBead)]"
    "map ev_position (st_events (ss_store example_session)) = [1]"
    "st_boundaries (ss_store example_session) = [(0, js ''b''), (1, js ''iiiii'')]"
    unfolding example_stored(1) recorded_simps example_created_def committed_def
    by (simp_all add: staged_resources_def staged_identities_def new_store_def b example_head [unfolded new_store_def]
        example_draws_def example_supply_def js_def numeral_3_eq_3)
qed

end
