(* ===== verification/Store_Properties.thy ===== *)
theory Store_Properties
  imports Example_Session
begin

text \<open>
  The properties of the store: what every reachable session keeps, what later turns keep of earlier
  ones, and what the turns on single resources decide.
\<close>

section \<open>Reachable sessions\<close>

lemma reachable_base: "owner_ok ow \<Longrightarrow> reachable ow ss \<Longrightarrow> base_inv ow (ss_store ss)"
  using reachable_inv store_invD(1) by blast

lemma base_graph:
  assumes "base_inv ow s" "map_of (st_resources s) i = Some st"
  shows "map_of (st_identities s) i = Some (state_kind st)" "bead_id (state_resource st) = i"
    "bead_revision (state_resource st) \<noteq> []" "canonicalCreatedId (ow_runtime ow) (ow_scope ow) i = Inr i"
    "\<not> isReserved ow i" "\<not> has_alias s i" "endpoints_ok ow s st"
proof -
  note inv = base_invD [OF assms(1)]
  show a: "map_of (st_identities s) i = Some (state_kind st)" "bead_id (state_resource st) = i"
    "bead_revision (state_resource st) \<noteq> []"
    using inv(1) assms(2) by (auto simp: resources_ok_def)
  then have h: "has_identity s i" by (simp add: has_identity_def)
  then show "canonicalCreatedId (ow_runtime ow) (ow_scope ow) i = Inr i" "\<not> isReserved ow i"
    using inv(4) by (auto simp: identities_ok_def)
  show "\<not> has_alias s i" using h inv(3) by (cases "map_of (st_aliases s) i") (auto simp: has_alias_def aliases_ok_def)
  show "endpoints_ok ow s st" using inv(2) assms(2) by (simp add: links_ok_def)
qed

text \<open>C2: the graph of every reachable session is sound: a stored resource has the permanent identity of
  its kind, its own canonical, unreserved id that is no alias, a nonempty revision, and every endpoint
  of a Link that is in the Scope is a live Bead, one of the two at least.\<close>

theorem reachable_graph_sound:
  assumes "owner_ok ow" "reachable ow ss" "map_of (st_resources (ss_store ss)) i = Some st"
  shows "map_of (st_identities (ss_store ss)) i = Some (state_kind st) \<and> bead_id (state_resource st) = i \<and>
    bead_revision (state_resource st) \<noteq> [] \<and> canonicalCreatedId (ow_runtime ow) (ow_scope ow) i = Inr i \<and>
    \<not> isReserved ow i \<and> \<not> has_alias (ss_store ss) i \<and>
    (\<forall>e \<in> set (state_endpoints st). prefix (ow_scope ow) (referenceUri e) \<longrightarrow>
       (\<exists>b. map_of (st_resources (ss_store ss)) (referenceUri e) = Some (BeadState b))) \<and>
    (state_kind st = KLink \<longrightarrow> (\<exists>e \<in> set (state_endpoints st). prefix (ow_scope ow) (referenceUri e)))"
  using base_graph [OF reachable_base [OF assms(1,2)] assms(3)]
  by (auto simp: endpoints_ok_def live_bead_def list_ex_iff)

theorem reachable_graph_sound_witness:
  "map_of (st_resources (ss_store example_session)) (js ''http://h/a'') = Some (BeadState example_bead) \<and>
   bead_revision example_bead = js ''ii'' \<and>
   canonicalCreatedId example_runtime (js ''http://h/'') (js ''http://h/a'') = Inr (js ''http://h/a'') \<and>
   \<not> has_alias (ss_store example_session) (js ''http://h/a'')"
proof -
  have m: "map_of (st_resources (ss_store example_session)) (js ''http://h/a'') = Some (BeadState example_bead)"
    by (simp add: example_tables)
  from reachable_graph_sound [OF example_owner_ok example_reachable(2) m] m show ?thesis
    by (simp add: example_bead example_owner_def example_nav_def)
qed

text \<open>C23: the events of every reachable session are numbered from one without a gap, the position that
  the next transition takes is one more than their number, every event and every incidence names a
  permanent identity, and every position has its own coverage boundary.\<close>

theorem reachable_events_contiguous:
  assumes "owner_ok ow" "reachable ow ss"
  shows "map ev_position (st_events (ss_store ss)) = [1..<Suc (length (st_events (ss_store ss)))] \<and>
    head (ss_store ss) = length (st_events (ss_store ss)) \<and>
    list_all (\<lambda>e. has_identity (ss_store ss) (ev_subject e)) (st_events (ss_store ss)) \<and>
    list_all (\<lambda>(p, b). p \<le> head (ss_store ss) \<and> has_identity (ss_store ss) b) (st_incidence (ss_store ss)) \<and>
    map fst (st_boundaries (ss_store ss)) = [0..<Suc (head (ss_store ss))] \<and>
    distinct (map snd (st_boundaries (ss_store ss))) \<and> (\<exists>token. boundary (ss_store ss) (head (ss_store ss)) = Inr token)"
proof -
  note inv = base_invD [OF reachable_base [OF assms]]
  note h = head_length [OF inv(5)]
  have b: "map fst (st_boundaries (ss_store ss)) = [0..<Suc (head (ss_store ss))]"
    using inv(6) h by (simp add: boundaries_ok_def)
  have "head (ss_store ss) \<in> set (map fst (st_boundaries (ss_store ss)))" unfolding b by simp
  then have "map_of (st_boundaries (ss_store ss)) (head (ss_store ss)) \<noteq> None"
    by (metis map_of_eq_None_iff set_map)
  then have "\<exists>token. boundary (ss_store ss) (head (ss_store ss)) = Inr token" by (auto simp: boundary_def)
  then show ?thesis using inv(5,6) h b by (auto simp: events_ok_def boundaries_ok_def list_all_iff)
qed

theorem reachable_events_contiguous_witness:
  "map ev_position (st_events (ss_store example_session)) = [1] \<and> head (ss_store example_session) = 1 \<and>
   (\<exists>token. boundary (ss_store example_session) 1 = Inr token)"
proof -
  have "length (st_events (ss_store example_session)) = 1"
    using arg_cong [OF example_tables(3), of length] by simp
  then show ?thesis
    using reachable_events_contiguous [OF example_owner_ok example_reachable(2)] example_tables(3) by auto
qed

text \<open>C6: the ledger of decisions of every reachable session: its outcomes are numbered in order from one,
  no two have the same principal and key, and the positions they name are ascending; an owner without
  batches has one outcome for each event, an owner with batches one fact for each event, in order.\<close>

theorem reachable_ledger:
  assumes "owner_ok ow" "reachable ow ss"
  shows "map oc_decision (st_outcomes (ss_store ss)) = [1..<Suc (st_decisions (ss_store ss))] \<and>
    distinct (map (\<lambda>c. (oc_principal c, oc_key c)) (st_outcomes (ss_store ss))) \<and>
    sorted_wrt (<) (outcome_positions (ss_store ss)) \<and>
    (if ow_batch ow then map snd (st_facts (ss_store ss)) = [1..<Suc (head (ss_store ss))]
     else outcome_positions (ss_store ss) = [1..<Suc (head (ss_store ss))])"
proof -
  note inv = reachable_inv [OF assms(2,1)]
  have p: "positions_upto n = [1..<Suc n]" for n unfolding positions_upto_def ..
  note h = head_length [OF base_invD(5) [OF store_invD(1) [OF inv]]]
  have "map oc_decision (st_outcomes (ss_store ss)) = [1..<Suc (st_decisions (ss_store ss))]"
    "distinct (map (\<lambda>c. (oc_principal c, oc_key c)) (st_outcomes (ss_store ss)))"
    using store_invD(2) [OF inv] unfolding outcomes_ok_def p by blast+
  moreover have "sorted_wrt (<) (outcome_positions (ss_store ss))"
    "if ow_batch ow then map snd (st_facts (ss_store ss)) = [1..<Suc (head (ss_store ss))]
     else outcome_positions (ss_store ss) = [1..<Suc (head (ss_store ss))]"
    using store_invD(3) [OF inv] unfolding orders_ok_def p h by (meson, meson)
  ultimately show ?thesis by blast
qed

theorem reachable_ledger_witness:
  "map oc_decision (st_outcomes (ss_store example_session)) = [1..<Suc (st_decisions (ss_store example_session))] \<and>
   outcome_positions (ss_store example_session) = [1]"
proof -
  have "head (ss_store example_session) = 1"
    using example_tables(3) by (simp add: head_def)
  then show ?thesis using reachable_ledger [OF example_owner_ok example_reachable(2)]
    by (simp add: example_owner_def)
qed


section \<open>Later sessions\<close>

lemma later_reachable: "later ow ss ss' \<Longrightarrow> reachable ow ss \<Longrightarrow> reachable ow ss'"
  by (induction rule: later.induct) (auto intro: reachable.stepped)

text \<open>C5: history is append-only: whatever turns follow, the outcomes, the events and the coverage
  boundaries of a reachable session stay a prefix of the later ones, an identity keeps its kind for
  ever, also after its resource was deleted, and a decided key keeps its outcome.\<close>

theorem later_keeps_history:
  assumes "owner_ok ow" "reachable ow ss" "later ow ss ss'"
  shows "prefix (st_outcomes (ss_store ss)) (st_outcomes (ss_store ss')) \<and>
    prefix (st_events (ss_store ss)) (st_events (ss_store ss')) \<and>
    prefix (st_boundaries (ss_store ss)) (st_boundaries (ss_store ss')) \<and>
    (\<forall>i k. map_of (st_identities (ss_store ss)) i = Some k \<longrightarrow> map_of (st_identities (ss_store ss')) i = Some k) \<and>
    (\<forall>who key c. find_outcome (ss_store ss) who key = Some c \<longrightarrow> find_outcome (ss_store ss') who key = Some c)"
proof -
  have "extends ow (ss_store ss) (ss_store ss')"
    using later_ok [OF assms(3,1)] reachable_inv [OF assms(2,1)] by blast
  then show ?thesis using find_outcome_extends [of ow "ss_store ss" "ss_store ss'"] by (auto simp: extends_def)
qed

lemma example_found: "find_outcome (ss_store example_session) (js ''p'') (js ''k'') = Some example_outcome"
proof -
  have "st_outcomes (ss_store example_session) = [example_outcome]"
    by (simp add: example_stored(1) example_created_def committed_def new_store_def)
  then show ?thesis by (simp add: find_outcome_def example_stored(2,3))
qed

definition example_closed :: session where
  "example_closed = example_session \<lparr> ss_closed := True \<rparr>"

lemma example_later: "later example_owner example_session example_closed" "later example_owner example_empty example_session"
  unfolding example_closed_def
  by (rule later.after [OF later.same session_step.closing], rule later.after [OF later.same example_fresh_turn])

theorem later_keeps_history_witness:
  "find_outcome (ss_store example_closed) (js ''p'') (js ''k'') = Some example_outcome \<and>
   map_of (st_identities (ss_store example_closed)) (js ''http://h/a'') = Some KBead"
  using later_keeps_history [OF example_owner_ok example_reachable(2) example_later(1)] example_found
  by (simp add: example_tables)


lemma fenced_step:
  assumes "session_step ow ss ss'" "ss_fenced ss \<or> ss_closed ss"
  shows "ss_store ss' = ss_store ss \<and> (ss_fenced ss' \<or> ss_closed ss')"
  using assms by (cases rule: session_stepE) (auto simp: transaction_def)

text \<open>A fence is final: once a session is fenced by an error of the database, or closed, no later
  turn changes its tables and every turn fails.\<close>

theorem fence_final:
  assumes "later ow ss ss'" "ss_fenced ss \<or> ss_closed ss"
  shows "ss_store ss' = ss_store ss \<and>
    transaction commits callback ss' = (Inl (PlainError ''store closed, fenced or nested''), ss')"
proof -
  have "ss_store ss' = ss_store ss \<and> (ss_fenced ss' \<or> ss_closed ss')"
    using assms(1)
  proof induction
    case same
    then show ?case using assms(2) by simp
  next
    case (after ss1 ss2)
    then show ?case using fenced_step by metis
  qed
  then show ?thesis by (auto simp: transaction_def)
qed

theorem fence_final_witness:
  "transaction True (serve example_owner example_draws (js ''p'') (CreateBeadRequest example_prepared)) (example_closed \<lparr> ss_closed := True \<rparr>) =
     (Inl (PlainError ''store closed, fenced or nested''), example_closed \<lparr> ss_closed := True \<rparr>)"
  using fence_final [OF later.after [OF later.same session_step.closing], of example_closed] by (simp add: example_closed_def)

section \<open>Retries and conflicts\<close>

lemma serve_recorded:
  assumes "serve ow su who req s = Inr (r, s1)" "\<forall>p. req \<noteq> BatchRequest p"
    "find_outcome s who (request_key req) = None" "owner_ok ow" "store_inv ow s" "fresh ow s su" "request_ok ow req"
  obtains c where "find_outcome s1 who (request_key req) = Some c" "oc_operation c = request_operation req"
    "oc_status c = fst r" "oc_body c = snd r"
  using serve_decide [OF assms(1,2)]
proof (cases rule: decide_cases)
  case (decided cmp pos s')
  have "st_outcomes s' = st_outcomes s"
    using executed_frame(1) executes_ok [OF decided(4) store_invD(1) [OF assms(5)] assms(6,7)] by blast
  then have "find_outcome s1 who (request_key req) = Some (outcome_of s' who (request_key req) (request_operation req) cmp r pos)"
    by (intro find_outcome_recorded [OF decided(1)]) (simp_all add: decided(5) outcome_of_def)
  from that [OF this] show ?thesis by (simp add: outcome_of_def)
qed (use assms(3) in simp)


lemma example_transaction:
  "transaction True (serve example_owner example_draws (js ''p'') (CreateBeadRequest example_prepared)) example_empty =
     (Inr (200, created_text (BeadState example_bead)), example_session)"
  using example_stored(10) by (simp add: prod_eq_iff example_session_def example_turn_def)


text \<open>A key is bound to its first invocation: in every reachable session a request whose principal
  and key already have an outcome writes nothing, and it answers the recorded response or the
  idempotency conflict 409; the conflict when the operation or the semantic identity differs.\<close>

theorem key_bound:
  assumes "serve ow su who req s = Inr (r, s')" "\<forall>p. req \<noteq> BatchRequest p"
    "find_outcome s who (request_key req) = Some c"
  shows "s' = s \<and> (r = (oc_status c, oc_body c) \<or> r = conflict) \<and>
    (oc_operation c \<noteq> request_operation req \<longrightarrow> r = conflict) \<and>
    (\<forall>prior cmp. readAliasWitnesses ow (oc_witnesses c) = Inr prior \<longrightarrow>
       compareCapturedReferences (request_captured req) (aliasLookup ow s) (Some prior) [] = Inr cmp \<longrightarrow>
       oc_operation c = request_operation req \<longrightarrow>
       r = (if cmp_identity cmp = oc_identity c then (oc_status c, oc_body c) else conflict))"
  using serve_decide [OF assms(1,2)] assms(3)
  by (auto simp: decide_def split: if_splits)

definition example_delete :: prepared_delete where
  "example_delete = \<lparr> pd_scope = js ''http://h/'', pd_key = js ''k'', pd_identity = js ''d'', pd_bead = js ''http://h/a'',
     pd_expectedRevision = None,
     pd_captured = \<lparr> cap_names = [], cap_references = [], cap_identityFor = (\<lambda>_. Inr (js ''d'')) \<rparr> \<rparr>"

theorem key_bound_witness:
  "serve example_owner example_draws (js ''p'') (DeleteBeadRequest example_delete) (ss_store example_session) =
     Inr (conflict, ss_store example_session)"
proof -
  let ?r = "DeleteBeadRequest example_delete"
  have f: "find_outcome (ss_store example_session) (js ''p'') (request_key ?r) = Some example_outcome"
    using example_found by (simp add: example_delete_def)
  have "\<exists>r s'. serve example_owner example_draws (js ''p'') ?r (ss_store example_session) = Inr (r, s')"
    using example_found
    by (simp add: serve_def delete_bead_def decide_def example_delete_def example_owner_def example_nav_def example_stored(4) js_def)
  then obtain r s' where s: "serve example_owner example_draws (js ''p'') ?r (ss_store example_session) = Inr (r, s')" by blast
  show ?thesis using key_bound [OF s _ f] s by (simp add: example_stored(4))
qed

end
