(* ===== verification/Graph_Machine.thy ===== *)
theory Graph_Machine
  imports Store_Properties
begin

text \<open>
  The abstract specification of the owner: a graph of permanent identities, live resources and aliases,
  with one rule for each kind of transition, and the proof that every turn of an owner without batches
  refines it.
\<close>

section \<open>The abstract graph\<close>

record abstract_graph =
  g_kind :: "jstring \<Rightarrow> resource_kind option"
  g_state :: "jstring \<Rightarrow> resource_state option"
  g_alias :: "jstring \<Rightarrow> jstring option"

definition graph_of :: "store \<Rightarrow> abstract_graph" where
  "graph_of s = \<lparr> g_kind = map_of (st_identities s), g_state = map_of (st_resources s), g_alias = map_of (st_aliases s) \<rparr>"

definition endpoints_live :: "owner \<Rightarrow> abstract_graph \<Rightarrow> resource_state \<Rightarrow> bool" where
  "endpoints_live ow g st \<longleftrightarrow>
     (state_kind st = KLink \<longrightarrow> (\<exists>e \<in> set (state_endpoints st). prefix (ow_scope ow) (referenceUri e))) \<and>
     (\<forall>e \<in> set (state_endpoints st). prefix (ow_scope ow) (referenceUri e) \<longrightarrow>
        (\<exists>b. g_state g (referenceUri e) = Some (BeadState b)))"

definition links_to :: "abstract_graph \<Rightarrow> jstring \<Rightarrow> bool" where
  "links_to g i \<longleftrightarrow> (\<exists>j st e. g_state g j = Some st \<and> e \<in> set (state_endpoints st) \<and> referenceUri e = i)"

text \<open>
  An identity is taken once and for ever; a Link is created or updated onto live Beads; a Bead is deleted
  when no Link names it; an alias names a live Bead and is no identity.
\<close>

inductive graph_step :: "owner \<Rightarrow> abstract_graph \<Rightarrow> abstract_graph \<Rightarrow> bool" for ow where
  create: "bead_id (state_resource st) = i \<Longrightarrow> g_kind g i = None \<Longrightarrow> g_alias g i = None \<Longrightarrow> \<not> isReserved ow i \<Longrightarrow>
    canonicalCreatedId (ow_runtime ow) (ow_scope ow) i = Inr i \<Longrightarrow> endpoints_live ow g st \<Longrightarrow>
    graph_step ow g (g \<lparr> g_kind := (g_kind g)(i \<mapsto> state_kind st), g_state := (g_state g)(i \<mapsto> st) \<rparr>)"
| update: "bead_id (state_resource st) = i \<Longrightarrow> g_kind g i = Some (state_kind st) \<Longrightarrow> endpoints_live ow g st \<Longrightarrow>
    graph_step ow g (g \<lparr> g_state := (g_state g)(i \<mapsto> st) \<rparr>)"
| remove: "g_state g i = Some st \<Longrightarrow> state_kind st = KBead \<longrightarrow> \<not> links_to g i \<Longrightarrow>
    graph_step ow g (g \<lparr> g_state := (g_state g)(i := None) \<rparr>)"
| put_alias: "g_kind g l = None \<Longrightarrow> ow_contains ow l \<Longrightarrow> \<not> isReserved ow l \<Longrightarrow> g_state g t = Some (BeadState b) \<Longrightarrow>
    graph_step ow g (g \<lparr> g_alias := (g_alias g)(l \<mapsto> t) \<rparr>)"
| drop_alias: "g_alias g l = Some t \<Longrightarrow> graph_step ow g (g \<lparr> g_alias := (g_alias g)(l := None) \<rparr>)"

section \<open>Transitions refine it\<close>

lemma graph_of_simps [simp]:
  "g_kind (graph_of s) = map_of (st_identities s)" "g_state (graph_of s) = map_of (st_resources s)"
  "g_alias (graph_of s) = map_of (st_aliases s)"
  by (simp_all add: graph_of_def)

lemma endpoints_live_iff: "endpoints_live ow (graph_of s) st \<longleftrightarrow> endpoints_ok ow s st"
  by (auto simp: endpoints_live_def endpoints_ok_def live_bead_def list_ex_iff)

lemma links_to_iff: "resources_ok s \<Longrightarrow> links_to (graph_of s) i \<longleftrightarrow> has_incident_link s i"
  by (simp add: links_to_def incident_iff)

lemma graph_eqI: "g_kind g = g_kind h \<Longrightarrow> g_state g = g_state h \<Longrightarrow> g_alias g = g_alias h \<Longrightarrow> g = (h :: abstract_graph)"
  by simp

lemma committed_graph:
  assumes "resources_ok s"
  shows "graph_of (committed verb st body beads token vs s) = (let i = bead_id (state_resource st); g = graph_of s in
    case verb of
      VCreate \<Rightarrow> g \<lparr> g_kind := (g_kind g)(i \<mapsto> state_kind st), g_state := (g_state g)(i \<mapsto> st) \<rparr>
    | VUpdate \<Rightarrow> g \<lparr> g_state := (g_state g)(i \<mapsto> st) \<rparr>
    | VDelete \<Rightarrow> g \<lparr> g_state := (g_state g)(i := None) \<rparr>)"
proof -
  have "map_of (st_aliases (committed verb st body beads token vs s)) = map_of (st_aliases s)"
    by (simp add: committed_def)
  then show ?thesis
    unfolding Let_def by (cases verb; intro graph_eqI)
      (simp_all add: fun_eq_iff identities_committed resources_committed [OF assms])
qed

lemma advances_step:
  assumes "advances ow s pos s'" "base_inv ow s"
  shows "graph_step ow (graph_of s) (graph_of s')"
proof -
  note res = base_invD(1) [OF assms(2)]
  from assms(1) obtain verb st former body token vs where t: "transition_ok ow s verb st former"
    "s' = committed verb st body (next_beads ow verb st former) token vs s" by (auto simp: advances_def)
  let ?i = "bead_id (state_resource st)"
  show ?thesis
  proof (cases verb)
    case VCreate
    then show ?thesis using t(1) unfolding t(2) committed_graph [OF res] Let_def
      using graph_step.create [of st ?i "graph_of s" ow]
      by (simp add: transition_ok_def Let_def endpoints_live_iff has_identity_def has_alias_def)
  next
    case VUpdate
    then show ?thesis using t(1) unfolding t(2) committed_graph [OF res] Let_def
      using graph_step.update [of st ?i "graph_of s" ow] by (simp add: transition_ok_def Let_def endpoints_live_iff)
  next
    case VDelete
    then show ?thesis using t(1) unfolding t(2) committed_graph [OF res] Let_def
      using graph_step.remove [of "graph_of s" ?i st ow] by (simp add: transition_ok_def Let_def links_to_iff [OF res])
  qed
qed

text \<open>The effect of an alias operation.\<close>

lemma execute_alias_cases:
  assumes "execute_alias ow p operation s = Inr (r, pos, s')" "operation = PutAlias \<or> operation = DeleteAlias"
  obtains (same) "s' = s"
  | (put) t where "operation = PutAlias" "pa_target p = Some t" "ow_contains ow (pa_alias p)" "\<not> has_identity s (pa_alias p)"
      "\<not> isReserved ow (pa_alias p)" "currentState s t (Some KBead) \<noteq> None"
      "s' = s \<lparr> st_aliases := AList.update (pa_alias p) t (st_aliases s) \<rparr>" "fst r = 200"
  | (drop) "operation = DeleteAlias" "ow_contains ow (pa_alias p)" "has_alias s (pa_alias p)" "s' = delete_alias (pa_alias p) s"
      "fst r = 200"
proof (cases "operation = DeleteAlias")
  case True
  then show ?thesis using assms(1) same drop
    by (auto simp: execute_alias_def delete_alias_turn_def refuse_def Let_def split: if_splits)
next
  case False
  show ?thesis
  proof (cases "s' = s")
    case changed: False
    with False assms obtain t where t: "pa_target p = Some t" "put_alias_turn ow p t s = Inr (r, pos, s')"
      "ow_contains ow (pa_alias p)" "\<not> has_identity s (pa_alias p)" "\<not> isReserved ow (pa_alias p)"
      by (auto simp: execute_alias_def refuse_def split: option.splits if_splits)
    from t(2) changed have "currentState s t (Some KBead) \<noteq> None" "upsert_alias (pa_alias p) t s = Inr s'" "fst r = 200"
      by (auto simp: put_alias_turn_def refuse_def Let_def split: if_splits)
    with put [OF _ t(1,3-5)] False assms(2) show ?thesis by (auto simp: upsert_alias_def split: if_splits)
  qed (rule same)
qed

lemma alias_step:
  assumes "execute_alias ow p operation s = Inr (r, pos, s')" "base_inv ow s" "operation = PutAlias \<or> operation = DeleteAlias"
  shows "graph_of s' = graph_of s \<or> graph_step ow (graph_of s) (graph_of s')"
  using assms(1,3)
proof (cases rule: execute_alias_cases)
  case (put t)
  note res = base_invD(1) [OF assms(2)]
  obtain st where "currentState s t (Some KBead) = Some st" using put(6) by blast
  then have "map_of (st_resources s) t = Some st" "state_kind st = KBead" by (auto simp: currentState_iff [OF res])
  then obtain b where "g_state (graph_of s) t = Some (BeadState b)" by (cases st) auto
  moreover have "graph_of s' = graph_of s \<lparr> g_alias := (g_alias (graph_of s))(pa_alias p \<mapsto> t) \<rparr>"
    by (simp add: put(7) graph_of_def rows.find_put fun_eq_iff)
  ultimately show ?thesis using graph_step.put_alias [of "graph_of s" "pa_alias p" ow t] put(3-5) by (simp add: has_identity_def)
next
  case drop
  then obtain t where "g_alias (graph_of s) (pa_alias p) = Some t" by (auto simp: has_alias_def)
  moreover have "graph_of s' = graph_of s \<lparr> g_alias := (g_alias (graph_of s))(pa_alias p := None) \<rparr>"
    using base_invD(3) [OF assms(2)] by (simp add: drop(4) delete_alias_def graph_of_def rows.find_drop fun_eq_iff aliases_ok_def)
  ultimately show ?thesis using graph_step.drop_alias [of "graph_of s"] by simp
qed simp

text \<open>The other operations leave the aliases alone.\<close>

lemma stage_resource_aliases: "stage_resource verb rec st s = Inr s' \<Longrightarrow> st_aliases s' = st_aliases s"
  by (cases verb) (auto simp: stage_resource_def row_laws update_resource_def delete_resource_def Let_def split: if_splits)

lemma complete_aliases:
  assumes "complete ow ids verb st former time text hist s = Inr (r, pos, s')"
  shows "st_aliases s' = st_aliases s"
  using assms
  by (auto simp: complete_def refuse_def row_laws fold_incidence Let_def split: if_splits
      dest!: stage_resource_aliases stage_version_Inr)

lemma create_aliases: "performCreate ow su kind input s = Inr (r, pos, s') \<Longrightarrow> st_aliases s' = st_aliases s"
  by (auto simp: performCreate_def refuse_def Let_def split: option.splits if_splits dest!: complete_aliases)

lemma delete_aliases: "performDelete ow su kind i e s = Inr (r, pos, s') \<Longrightarrow> st_aliases s' = st_aliases s"
  by (auto simp: performDelete_def refuse_def Let_def split: option.splits if_splits dest!: complete_aliases)

lemma update_aliases:
  assumes "performUpdate ow su kind i input s = Inr (r, pos, s')" "base_inv ow s" "fresh ow s su"
  shows "st_aliases s' = st_aliases s"
  using assms by (cases rule: update_effect) (simp_all add: committed_def)


lemma on_subject_aliases:
  assumes "on_subject cmp given f s = Inr (r, pos, s')" "\<And>u. f u s = Inr (r, pos, s') \<Longrightarrow> st_aliases s' = st_aliases s"
  shows "st_aliases s' = st_aliases s"
  using assms by (auto simp: on_subject_def refuse_def split: option.splits resolved.splits endpoint.splits)

lemma link_aliases:
  assumes "execute_link ow su p operation cmp s = Inr (r, pos, s')" "base_inv ow s" "fresh ow s su"
  shows "st_aliases s' = st_aliases s"
proof (cases rule: execute_link_cases [of p ow su operation cmp s])
  case (update f)
  show ?thesis by (rule update_aliases [OF assms(1) [unfolded update] assms(2,3)])
next
  case (create f)
  show ?thesis by (rule create_aliases [OF assms(1) [unfolded create]])
next
  case (delete f)
  show ?thesis by (rule delete_aliases [OF assms(1) [unfolded delete]])
qed (use assms(1) in \<open>simp_all add: refuse_def\<close>)

lemma stays_graph: "stays ow s pos s' \<Longrightarrow> st_aliases s' = st_aliases s \<Longrightarrow> graph_of s' = graph_of s"
  by (auto simp: stays_def graph_of_def)

lemma executes_aliases:
  assumes "executes ow su req cmp s = Inr (r, pos, s')" "base_inv ow s" "fresh ow s su" "\<forall>operation p. req \<noteq> AliasRequest operation p"
  shows "st_aliases s' = st_aliases s"
proof (cases req)
  case (CreateBeadRequest p)
  then show ?thesis using assms(1) create_aliases by (simp add: executes_def)
next
  case (UpdateBeadRequest p)
  then show ?thesis using assms(1)
    by (auto simp: executes_def refuse_def intro: on_subject_aliases update_aliases [OF _ assms(2,3)] split: option.splits)
next
  case (DeleteBeadRequest p)
  then show ?thesis using assms(1) by (auto simp: executes_def intro: on_subject_aliases delete_aliases)
next
  case (LinkRequest operation p)
  then show ?thesis using assms(1) link_aliases [OF _ assms(2,3)] by (simp add: executes_def)
qed (use assms(1,4) in \<open>simp_all add: executes_def refuse_def\<close>)

lemma executes_step:
  assumes "executes ow su req cmp s = Inr (r, pos, s')" "base_inv ow s" "fresh ow s su" "request_ok ow req"
  shows "graph_of s' = graph_of s \<or> graph_step ow (graph_of s) (graph_of s')"
proof (cases "\<exists>operation p. req = AliasRequest operation p")
  case True
  then obtain operation p where a: "req = AliasRequest operation p" by blast
  have "execute_alias ow p operation s = Inr (r, pos, s')" "operation = PutAlias \<or> operation = DeleteAlias"
    using assms(1,4) by (simp_all add: a executes_def request_ok_def)
  from alias_step [OF this(1) assms(2) this(2)] show ?thesis .
next
  case False
  have "st_aliases s' = st_aliases s" by (rule executes_aliases [OF assms(1-3)]) (use False in blast)
  then show ?thesis
    using executes_ok [OF assms] stays_graph advances_step [OF _ assms(2)] by (auto simp: executed_ok_def)
qed

lemma graph_of_recorded [simp]: "graph_of (recorded ow c ps s) = graph_of s"
  by (simp add: graph_of_def)

lemma serve_step:
  assumes "serve ow su who req s = Inr (r, s')" "base_inv ow s" "fresh ow s su" "request_ok ow req" "\<not> ow_batch ow"
  shows "graph_of s' = graph_of s \<or> graph_step ow (graph_of s) (graph_of s')"
proof (cases "\<exists>p. req = BatchRequest p")
  case True
  then obtain p where "applyBatch ow su who p s = Inr (r, s')" using assms(1) by (auto simp: serve_def)
  then have "s' = s" by (cases rule: applyBatch_cases) (use assms(5) in simp_all)
  then show ?thesis by simp
next
  case False
  then have "\<forall>p. req \<noteq> BatchRequest p" by blast
  from serve_decide [OF assms(1) this] show ?thesis
  proof (cases rule: decide_cases)
    case (decided cmp pos s1)
    from executes_step [OF decided(4) assms(2-4)] show ?thesis by (simp add: decided(5))
  qed simp
qed

section \<open>Refinement\<close>



end
