(* ===== verification/Store_Safety.thy ===== *)
theory Store_Safety
  imports Graph_Machine
begin

text \<open>
  The constraints of the database are never violated: on a reachable store no operation fails with an
  error of a constraint, so no turn is rolled back and fenced for one.
\<close>

section \<open>Errors without a code\<close>

definition unviolated :: "'a result \<Rightarrow> bool" where
  "unviolated r \<longleftrightarrow> (\<forall>e. r = Inl e \<longrightarrow> \<not> has_code e)"

named_theorems unviolated_intros

lemma unviolated_Inr [unviolated_intros, simp]: "unviolated (Inr x)"
  by (simp add: unviolated_def)

lemma unviolated_Inl [simp]: "unviolated (Inl e) \<longleftrightarrow> \<not> has_code e"
  by (simp add: unviolated_def)

lemma unviolated_bind [unviolated_intros]: "unviolated r \<Longrightarrow> (\<And>x. r = Inr x \<Longrightarrow> unviolated (f x)) \<Longrightarrow> unviolated (bindR r f)"
  by (cases r) simp_all

lemma unviolated_fold: "(\<And>x s. x \<in> set xs \<Longrightarrow> unviolated (f x s)) \<Longrightarrow> unviolated (foldR f xs s)"
  by (auto simp: unviolated_def foldR_Inl) blast

lemma unviolated_refuse [unviolated_intros, simp]: "unviolated (refuse v s)"
  by (simp add: refuse_def)

lemma unviolated_owner_now [unviolated_intros]: "unviolated (owner_now su i)"
  by (simp add: owner_now_def)

section \<open>Documents\<close>

lemma unviolated_string [unviolated_intros]: "unviolated (decode_string s)"
  by (simp add: decode_string_def split: option.splits)

lemma unviolated_value [unviolated_intros]: "unviolated (decode_value s)"
  by (auto simp: decode_value_def Let_def intro!: unviolated_intros split: option.splits)

lemma unviolated_key [unviolated_intros]: "unviolated (decode_key f s)"
  by (auto simp: decode_key_def Let_def intro!: unviolated_intros split: frame.splits)

lemma unviolated_loop [unviolated_intros]: "unviolated (decode_loop f fs s)"
proof (induction f fs s rule: decode_loop.induct)
  case (1 f fs s)
  consider (closing) "prefix [frame_close f] (skip_ws s) \<and> state_of_frame f \<noteq> Next"
    | (comma) "\<not> (prefix [frame_close f] (skip_ws s) \<and> state_of_frame f \<noteq> Next)" "state_of_frame f = After"
    | (member) "\<not> (prefix [frame_close f] (skip_ws s) \<and> state_of_frame f \<noteq> Next)" "state_of_frame f \<noteq> After"
    by blast
  then show ?case
  proof cases
    case closing
    then show ?thesis using 1(1) [OF refl] by (subst decode_loop.simps) (simp add: Let_def split: list.splits)
  next
    case comma
    then show ?thesis using 1(2) [OF refl] by (subst decode_loop.simps) (simp add: Let_def)
  next
    case member
    have "unviolated (bindR (decode_key f (skip_ws s)) (\<lambda>(f', r). bindR (decode_value r) (\<lambda>(child, r').
        case child of Leaf v \<Rightarrow> decode_loop (attach v (set_state After f')) fs r'
        | Opened g \<Rightarrow> decode_loop g (set_state After f' # fs) r')))"
      using 1(3,4) [OF refl] member
      by (auto intro!: unviolated_bind unviolated_key unviolated_value split: opened.splits)
    then show ?thesis using member by (subst decode_loop.simps) (simp only: Let_def if_False)
  qed
qed

lemma unviolated_parse [unviolated_intros]: "unviolated (json_parse t)"
  unfolding json_parse_def decodeJsonDocument_def decode_root_def
  by (intro unviolated_intros; clarsimp split: opened.splits) (intro unviolated_intros)+

lemma unviolated_snapshot [unviolated_intros]: "unviolated (snapshotJsonValue v)"
  by (auto simp: unviolated_def snapshotJsonValue_def)

lemma unviolated_copy [unviolated_intros]: "unviolated (copy_json v)"
  unfolding copy_json_def by (intro unviolated_intros)

lemma unviolated_edit_target: "unviolated (edit_target ch name v)"
  by (auto simp: edit_target_def edit_array_def edit_object_def intro!: unviolated_intros split: jv.splits option.splits edit.splits)

lemma unviolated_edit_under: "unviolated (edit_under ch ts name v)"
  by (induction ch ts name v rule: edit_under.induct)
    (auto intro!: unviolated_intros unviolated_edit_target split: option.splits)

lemma unviolated_edit_turn: "unviolated (edit_turn ch v)"
  by (auto simp: edit_turn_def edit_root_def Let_def intro!: unviolated_intros unviolated_edit_under split: option.splits edit.splits)

lemma unviolated_change [unviolated_intros]: "unviolated (applyObjectChange former changes)"
  unfolding applyObjectChange_def
  by (intro unviolated_bind unviolated_copy unviolated_fold unviolated_edit_turn)
    (auto intro!: unviolated_intros split: option.splits jv.splits)

lemma unviolated_edited [unviolated_intros]: "unviolated (edited replacement change source)"
  by (auto simp: edited_def intro!: unviolated_intros split: option.splits)

lemma unviolated_documents [unviolated_intros]: "unviolated (edited_documents input source)"
  using unviolated_edited [of "ef_properties input" "ef_propertiesChange input" "bead_properties source"]
    unviolated_edited [of "ef_metadata input" "ef_metadataChange input" "bead_metadata source"]
  by (auto simp: edited_documents_def split: sum.splits js_error.splits)

lemma unviolated_linkFields [unviolated_intros]: "unviolated (linkFields p)"
  by (auto simp: linkFields_def optional_provenance_def parseRevisionProvenanceInput_def Let_def
      intro!: unviolated_intros split: option.splits jv.splits)

section \<open>Operations\<close>

lemma unviolated_complete:
  assumes "base_inv ow s" "transition_ok ow s verb state former" "fresh_ids s ids"
    "verb = VUpdate \<Longrightarrow> recovers hist = (map_of (st_resources s) (bead_id (state_resource state)) = None)"
    "verb \<noteq> VDelete \<Longrightarrow> bead_revision (state_resource state) \<notin> hv_revision ` set (st_versions s)"
  shows "unviolated (complete ow ids verb state former time text hist s)"
proof (cases "Suc (head s) \<le> max_safe")
  case True
  let ?l = "lifecycleFact verb state (nav_events (ow_nav ow)) (ids 0) (ids 1) time
      (case hist of Some ((f, p), r) \<Rightarrow> Some p | None \<Rightarrow> map_option (bead_revision \<circ> state_resource) former)"
  show ?thesis
  proof (cases ?l)
    case (Inl e)
    then have "\<not> has_code e" by (auto simp: lifecycleFact_def split: if_splits)
    then show ?thesis using Inl True by (simp add: complete_def Let_def)
  next
    case (Inr lifecycle)
    from complete_total [OF assms(1-3) True assms(4,5) Inr, of "text"] show ?thesis by simp
  qed
qed (simp add: complete_def Let_def)

lemma unviolated_resourceState [unviolated_intros]: "unviolated (resourceState kind b src tgt)"
  by (auto simp: resourceState_def split: option.splits)

lemma unviolated_allocate: "unviolated (allocate_id ow s ids i n)"
  by (induction ow s ids i n rule: allocate_id.induct) (subst allocate_id.simps, auto simp: Let_def split: nat.splits)


lemma unviolated_create:
  assumes "base_inv ow s" "fresh ow s su"
    "\<And>u. cf_id input = Some u \<Longrightarrow> canonicalCreatedId (ow_runtime ow) (ow_scope ow) u = Inr u"
  shows "unviolated (performCreate ow su kind input s)"
proof (cases "cf_refusal input")
  case None
  have f: "fresh_ids s (su_ids su)" using assms(2) by (simp add: fresh_def)
  have c: "unviolated (complete ow (\<lambda>k. su_ids su (Suc (n + k))) VCreate st None time answer None s)"
    if n: "(case cf_id input of None \<Rightarrow> allocate_id ow s (su_ids su) 0 32 | Some u \<Rightarrow> Inr (u, 0)) = Inr (u, n)"
      and g: "\<not> has_identity s u" "\<not> isReserved ow u" "\<not> has_alias s u"
      and st: "resourceState kind (materializeBead (cf_type input) (cf_properties input) (cf_metadata input) (cf_provenance input)
        u (su_ids su n) time) (cf_source input) (cf_target input) = Inr st" "endpointRefusal ow s st = None"
    for u n time st answer
  proof -
    have "canonicalCreatedId (ow_runtime ow) (ow_scope ow) u = Inr u"
      using n assms(2,3) by (auto simp: fresh_def split: option.splits dest!: allocate_id_Inr)
    then have "transition_ok ow s VCreate st None"
      using g resourceState_Inr [OF st(1)] fresh_idsD(1) [OF f] st(2)
      by (simp add: transition_ok_def Let_def endpointRefusal_None [OF base_invD(1) [OF assms(1)]])
    from unviolated_complete [OF assms(1) this fresh_ids_shift [OF f, of "Suc n"]] show ?thesis
      using fresh_idsD(4) [OF f] resourceState_Inr [OF st(1)] by simp
  qed
  show ?thesis
    unfolding performCreate_def None option.case
  proof (rule unviolated_bind, goal_cases)
    case 1
    then show ?case by (simp add: unviolated_allocate split: option.splits)
  next
    case (2 x)
    obtain u n where x: "x = (u, n)" by (cases x)
    show ?case
    proof (cases "has_identity s u \<or> isReserved ow u \<or> has_alias s u")
      case False
      then show ?thesis
        using c [OF 2 [unfolded x]] unfolding x by (auto simp: Let_def intro!: unviolated_intros split: option.splits)
    qed (auto simp: x)
  qed
qed (simp add: performCreate_def)

lemma unviolated_delete:
  assumes "base_inv ow s" "fresh ow s su"
  shows "unviolated (performDelete ow su kind i expected s)"
proof (cases "currentState s i (Some kind)")
  case (Some former)
  note res = base_invD(1) [OF assms(1)]
  have b: "map_of (st_resources s) i = Some former" "state_kind former = kind" "bead_id (state_resource former) = i"
    using Some res by (auto simp: currentState_iff [OF res] resources_ok_def)
  have "unviolated (complete ow (su_ids su) VDelete former (Some former) time answer None s)"
    if "\<not> (kind = KBead \<and> has_incident_link s i)" for time answer
  proof (rule unviolated_complete [OF assms(1)])
    show "transition_ok ow s VDelete former (Some former)"
      using b that base_invD(2) [OF assms(1)] by (auto simp: transition_ok_def Let_def links_ok_def)
  qed (use assms(2) in \<open>simp_all add: fresh_def\<close>)
  then show ?thesis using Some by (auto simp: performDelete_def intro!: unviolated_intros)
qed (simp add: performDelete_def)

lemma unviolated_commit_update:
  assumes "base_inv ow s" "fresh ow s su"
    "baseline ow s kind i (ef_fromRevision input \<noteq> None) = Inr (Some (former, prev, rec))"
    "resourceState kind candidate (fst (update_endpoints former input)) (snd (update_endpoints former input)) = Inr cand"
    "endpoints_ok ow s cand"
  shows "unviolated (commit_update ow su kind i input former candidate prev rec s)"
proof -
  have f: "fresh_ids s (su_ids su)" using assms(2) by (simp add: fresh_def)
  let ?ctx = "map_option (\<lambda>r. (r, prev)) (ef_fromRevision input)"
  have "unviolated (complete ow (\<lambda>k. su_ids su (Suc k)) VUpdate st (Some former) time (changed_text ?ctx st)
      (map_option (\<lambda>c. (c, rec)) ?ctx) s)"
    if st: "resourceState kind (materializeBead (bead_type candidate) (bead_properties candidate) (bead_metadata candidate)
        (ef_provenance input) i (su_ids su 0) time) (fst (update_endpoints former input)) (snd (update_endpoints former input)) = Inr st"
    for st time
  proof -
    note t = update_transition [OF assms(1) f assms(3-5) st]
    show ?thesis
      by (rule unviolated_complete [OF assms(1) t(1)])
        (use t(2-5) fresh_ids_shift [OF f, of 1] fresh_idsD(4) [OF f, of 0] in
          \<open>cases "ef_fromRevision input"; simp\<close>)+
  qed
  then show ?thesis
    by (auto simp: commit_update_def Let_def case_prod_unfold intro!: unviolated_intros)
qed

lemma unviolated_update:
  assumes "base_inv ow s" "fresh ow s su"
  shows "unviolated (performUpdate ow su kind i input s)"
proof -
  have cand: "unviolated (update_candidate ow su kind i input former prev rec docs s)"
    if "baseline ow s kind i (ef_fromRevision input \<noteq> None) = Inr (Some (former, prev, rec))" for former prev rec docs
    using unviolated_commit_update [OF assms that] endpointRefusal_None [OF base_invD(1) [OF assms(1)]]
    by (auto simp: update_candidate_def Let_def intro!: unviolated_intros split: option.splits)
  have guarded: "unviolated (update_guarded ow su kind i input former prev rec s)"
    if "baseline ow s kind i (ef_fromRevision input \<noteq> None) = Inr (Some (former, prev, rec))" for former prev rec
    using cand [OF that]
    by (auto simp: update_guarded_def update_source_def update_edited_def intro!: unviolated_intros
        split: option.splits version_body.splits sum.splits)
  obtain base where "baseline ow s kind i (ef_fromRevision input \<noteq> None) = Inr base" using baseline_total [OF assms(1)] by blast
  then show ?thesis using guarded by (auto simp: performUpdate_def Let_def split: option.splits)
qed


section \<open>Requests\<close>

lemma unviolated_alias:
  assumes "base_inv ow s"
  shows "unviolated (execute_alias ow p operation s)"
proof -
  have "has_identity s t" if "currentState s t (Some KBead) = Some st" for t st
    using that by (auto simp: currentState_def has_identity_def split: option.splits)
  then show ?thesis
    by (auto simp: execute_alias_def delete_alias_turn_def put_alias_turn_def upsert_alias_def Let_def
        intro!: unviolated_intros split: option.splits)
qed

lemma unviolated_subject:
  assumes "\<And>u. unviolated (f u s)"
  shows "unviolated (on_subject cmp given f s)"
  using assms by (auto simp: on_subject_def split: option.splits resolved.splits endpoint.splits)

lemma unviolated_executes:
  assumes "base_inv ow s" "fresh ow s su" "request_ok ow req"
  shows "unviolated (executes ow su req cmp s)"
proof (cases req)
  case (CreateBeadRequest p)
  then show ?thesis using assms(3) by (auto simp: executes_def request_ok_def intro!: unviolated_create [OF assms(1,2)])
next
  case (UpdateBeadRequest p)
  then show ?thesis
    by (auto simp: executes_def intro!: unviolated_subject unviolated_update [OF assms(1,2)] split: option.splits)
next
  case (DeleteBeadRequest p)
  then show ?thesis by (auto simp: executes_def intro!: unviolated_subject unviolated_delete [OF assms(1,2)])
next
  case (LinkRequest operation p)
  have "unviolated (execute_link ow su p operation cmp s)"
  proof (cases rule: execute_link_cases [of p ow su operation cmp s])
    case (failed e)
    then show ?thesis using unviolated_linkFields [of p] by simp
  next
    case (create f)
    then show ?thesis using assms(3) LinkRequest
      by (auto simp: request_ok_def create_link_fields_def intro!: unviolated_create [OF assms(1,2)])
  qed (simp_all add: unviolated_update [OF assms(1,2)] unviolated_delete [OF assms(1,2)])
  then show ?thesis by (simp add: executes_def LinkRequest)
qed (simp_all add: executes_def unviolated_alias [OF assms(1)])

section \<open>Comparisons\<close>

lemma unviolated_scalar [unviolated_intros]: "unviolated (scalar_text s)"
  by (simp add: scalar_text_def)

lemma unviolated_object_work [unviolated_intros]: "unviolated (object_work kvs)"
  by (induction kvs rule: object_work.induct) (auto intro!: unviolated_intros)

lemma unviolated_number [unviolated_intros]: "unviolated (exactNumber lit)"
  by (auto simp: exactNumber_def Let_def split: option.splits prod.splits)

lemma unviolated_turn: "unviolated (encode_turn v)"
  by (cases v rule: encode_turn.cases) (auto intro!: unviolated_intros)

lemma unviolated_encode: "unviolated (encodeSemanticValue v)"
proof -
  have "unviolated (encode_loop ws out)" for ws out
  proof (induction ws out rule: encode_loop.induct)
    case (3 v pending out)
    then show ?case using unviolated_turn [of v] by (auto split: sum.splits)
  qed simp_all
  then show ?thesis unfolding encodeSemanticValue_def by (intro unviolated_intros)
qed

lemma unviolated_map: "(\<And>x. x \<in> set xs \<Longrightarrow> unviolated (f x)) \<Longrightarrow> unviolated (mapR f xs)"
  by (induction xs) (auto intro!: unviolated_intros)

lemma unviolated_fact [unviolated_intros]: "unviolated (nonempty_fact s)"
  by (simp add: nonempty_fact_def guardR_def fact_error_def)

lemma unviolated_prior [unviolated_intros]: "unviolated (check_prior ws seen)"
  by (induction ws seen rule: check_prior.induct) (auto intro!: unviolated_intros split: option.splits)

lemma unviolated_resolve [unviolated_intros]: "unviolated (resolveAliasReferences refs lookup prior)"
  unfolding resolveAliasReferences_def
  by (intro unviolated_intros unviolated_map)
    (auto simp: resolve_one_def resolve_target_def intro!: unviolated_intros split: option.splits)

lemma unviolated_compare:
  assumes "\<And>x. unviolated (cap_identityFor c x)"
  shows "unviolated (compareCapturedReferences c lookup prior fixed)"
  unfolding compareCapturedReferences_def
  by (intro unviolated_bind unviolated_resolve) (auto simp: Let_def intro!: unviolated_intros assms)

lemma captured_identity:
  "captureReferenceComparison t slots f = Inr c \<Longrightarrow> cap_identityFor c = f"
  by (auto simp: captureReferenceComparison_def Let_def split: if_splits)

lemma prepared_identity: "prepared build t = Inr p \<Longrightarrow> \<exists>c. p = build c \<and> cap_identityFor c = (\<lambda>_. Inr t)"
  by (auto simp: prepared_def dest!: captured_identity)

lemma update_body_captured: "update_body scope key t b h input a = Inr build \<Longrightarrow> pu_captured (build c) = c"
  by (cases a) (auto simp: update_body_def blank_update_def)

lemma admitted_identity:
  assumes "prepare_request ow operation historical body key = Inr req" "operation \<noteq> Batch"
  shows "unviolated (cap_identityFor (request_captured req) x)"
proof -
  have "unviolated (cap_identityFor (pc_captured p) x)" if "prepareCreate rt scope t k = Inr p" for rt scope t k p
    using that by (rule create_parts) (auto simp: create_refused_def create_admitted_def split: admission.splits dest!: prepared_identity)
  moreover have "unviolated (cap_identityFor (pu_captured p) x)" if "prepareSelectedUpdate rt scope t k h = Inr p" for rt scope t k h p
  proof -
    from that obtain input b t' a build c where u: "update_body scope k t' b h input a = Inr build" "p = build c"
      "captureReferenceComparison t' [(SBead, EUri b)] (update_identity h (obj_put (js ''bead'') (JStr b) input)) = Inr c"
      by (auto simp: prepareSelectedUpdate_def Let_def split: if_splits)
    show ?thesis unfolding u(2) update_body_captured [OF u(1)] captured_identity [OF u(3)] update_identity_def
      by (rule unviolated_encode)
  qed
  moreover have "unviolated (cap_identityFor (pd_captured p) x)" if "prepareDelete rt scope t k = Inr p" for rt scope t k p
    using that by (auto simp: prepareDelete_def delete_identity_def Let_def
        intro!: unviolated_encode split: if_splits dest!: captured_identity)
  moreover have "unviolated (cap_identityFor (pl_captured p) x)" if "prepareLink rt scope operation t k = Inr p" for rt scope t k p
    using that by (auto simp: prepareLink_def link_identity_def Let_def
        intro!: unviolated_encode split: if_splits dest!: captured_identity)
  moreover have "unviolated (cap_identityFor (pa_captured p) x)" if "prepareAlias rt scope operation t k = Inr p" for rt scope t k p
    using that by (auto simp: prepareAlias_def Let_def split: if_splits dest!: captured_identity)
  ultimately show ?thesis using assms
    by (auto simp: prepare_request_def prepareUpdate_def prepareHistoricalUpdate_def Let_def split: if_splits)
qed


section \<open>Turns\<close>

lemma unviolated_decide:
  assumes "owner_ok ow" "store_inv ow s" "\<And>x. unviolated (cap_identityFor c x)" "\<And>cmp. unviolated (execute cmp s)"
    "\<And>cmp r pos s1. execute cmp s = Inr (r, pos, s1) \<Longrightarrow> executed_ok ow s pos s1"
  shows "unviolated (decide ow who operation key c execute s)"
proof (cases "find_outcome s who key")
  case (Some previous)
  then have "previous \<in> set (st_outcomes s)" by (auto simp: find_outcome_def find_Some_iff)
  then obtain ws where "oc_witnesses previous = witnesses_text ws" "readable ow ws"
    using store_invD(2) [OF assms(2)] by (auto simp: outcomes_ok_def)
  then have "readAliasWitnesses ow (oc_witnesses previous) = Inr ws" using read_witnesses_text [OF assms(1)] by simp
  then show ?thesis
    by (auto simp: decide_def Some intro!: unviolated_bind unviolated_compare assms(3))
next
  case None
  have "unviolated (record_decision ow who key operation cmp e)" if "execute cmp s = Inr e" for cmp e
  proof -
    obtain r pos s1 where e: "e = (r, pos, s1)" by (cases e)
    show ?thesis
    proof (cases "max_safe < Suc (st_decisions s1)")
      case True
      then show ?thesis by (simp add: e record_decision_def)
    next
      case False
      then show ?thesis
        using record_decision_total [OF None assms(2) assms(5) [OF that [unfolded e]]] executed_frame(2) [OF assms(5) [OF that [unfolded e]]]
        by (simp add: e)
    qed
  qed
  then show ?thesis
    by (auto simp: decide_def None intro!: unviolated_bind unviolated_compare assms(3,4))
qed

lemma unviolated_serve:
  assumes "owner_ok ow" "store_inv ow s" "fresh ow s su" "prepare_request ow operation historical body key = Inr req"
    "operation \<noteq> Batch"
  shows "unviolated (serve ow su who req s)"
proof -
  have nb: "\<forall>p. req \<noteq> BatchRequest p"
    using assms(4,5) by (auto simp: prepare_request_def Let_def split: if_splits)
  note ok = admitted_ok [OF assms(1,4)]
  note base = store_invD(1) [OF assms(2)]
  have "unviolated (decide ow who (request_operation req) (request_key req) (request_captured req) (executes ow su req) s)"
    using unviolated_decide [OF assms(1,2), of "request_captured req" "executes ow su req"]
      admitted_identity [OF assms(4,5)] unviolated_executes [OF base assms(3) ok] executes_ok [OF _ base assms(3) ok] by blast
  then show ?thesis using serve_cases [OF nb, of ow who] by auto
qed

lemma unviolated_read:
  assumes "base_inv ow s" "fresh ow s su"
  shows "unviolated (read_events su who source subject sel s)"
proof -
  have f: "fresh_ids s (su_ids su)" using assms(2) by (simp add: fresh_def)
  have first: "unviolated (saveCursor su (su_ids su 0) tick who source subject a t l m s)" for tick a t l m
    using fresh_idsD(3) [OF f, of 0] by (auto simp: saveCursor_def insert_cursor_def intro!: unviolated_intros)
  have second: "unviolated (saveCursor su (su_ids su 1) tick' who source subject a' t' l' m' s1)"
    if "saveCursor su (su_ids su 0) tick who source subject a t l m s = Inr s1" for tick a t l m s1 tick' a' t' l' m'
  proof -
    have "set (map cu_token (st_cursors s1)) = insert (su_ids su 0) (set (map cu_token (st_cursors s)))"
      using that by (auto simp: saveCursor_def row_laws)
    then show ?thesis using fresh_idsD(3) [OF f, of 1] fresh_idsD(5) [OF f, of 1 0]
      by (auto simp: saveCursor_def insert_cursor_def intro!: unviolated_intros)
  qed
  have bnd: "unviolated (boundary s2 p)" for s2 p by (simp add: boundary_def split: option.splits)
  have win: "unviolated (event_window su who source subject sel s)"
    by (auto simp: event_window_def intro!: unviolated_intros split: option.splits)
  show ?thesis
    unfolding read_events_def Let_def using first second bnd win
    by (auto intro!: unviolated_bind)
qed

section \<open>Properties\<close>



end
