(* ===== verification/Store_Behaviour.thy ===== *)
theory Store_Behaviour
  imports Store_Safety
begin

text \<open>
  What the operations of the store decide: the exact outcome of a creation, a deletion, an update and an
  alias, the allocation of identities, and the historical index behind an update.
\<close>

section \<open>Creation\<close>

lemma committed_current:
  assumes "resources_ok s"
  shows "currentState (committed verb st body beads token vs s) j None =
    (if j = bead_id (state_resource st)
     then (if verb = VDelete then None else if verb = VCreate \<or> has_identity s j then Some st else None)
     else currentState s j None)"
  unfolding currentState_def identities_committed resources_committed [OF assms]
  by (auto simp: has_identity_def split: option.splits)

text \<open>C20: a creation under a given identity does exactly what its guards say: 409 when the identity was
  ever taken or is reserved, 409 when it is an alias, 413 when the answer or the fact is too large, and
  otherwise 200 with the materialized Bead, which is then the current state of its identity, at the
  next position, while every other resource stays as it was.\<close>

theorem creation_decided:
  assumes "owner_ok ow" "reachable ow ss" "fresh ow (ss_store ss) su" "clock_ok su" "Suc (head (ss_store ss)) \<le> max_safe"
    "cf_refusal input = None" "cf_id input = Some u" "owner_canonical ow u"
  shows "\<exists>r pos s'. performCreate ow su KBead input (ss_store ss) = Inr (r, pos, s') \<and>
    (let st = BeadState (created_bead su input u) in
     if has_identity (ss_store ss) u \<or> isReserved ow u
     then r = refusal (problem ''identity-taken'' 409 ''never'') \<and> pos = None \<and> s' = ss_store ss
     else if has_alias (ss_store ss) u
     then r = refusal (problem ''alias-path-taken'' 409 ''after-state-change'') \<and> pos = None \<and> s' = ss_store ss
     else if byte_length (created_text st) > 262144 \<or> byte_length (serialized (JObj (created_fact ow su st))) > 300000
     then r = refusal too_large \<and> pos = None \<and> s' = ss_store ss
     else r = (200, created_text st) \<and> pos = Some (Suc (head (ss_store ss))) \<and> head s' = Suc (head (ss_store ss)) \<and>
       (\<forall>j. currentState s' j None = (if j = u then Some st else currentState (ss_store ss) j None)))"
proof -
  note base = reachable_base [OF assms(1,2)]
  note created = create_given [OF base assms(3-8)]
  let ?st = "BeadState (created_bead su input u)"
  have u: "bead_id (created_bead su input u) = u" by (simp add: created_bead_def)
  have "head (committed VCreate ?st body beads token vs (ss_store ss)) = Suc (head (ss_store ss))" for body beads token vs
    by (simp add: committed_def head_def)
  moreover have "currentState (committed VCreate ?st body beads token vs (ss_store ss)) j None =
      (if j = u then Some ?st else currentState (ss_store ss) j None)" for j body beads token vs
    by (simp add: committed_current [OF base_invD(1) [OF base]] u)
  ultimately show ?thesis unfolding created refuse_def Let_def by (simp del: split_paired_Ex)
qed

theorem creation_decided_witness:
  "\<exists>s'. performCreate example_owner example_draws KBead (create_bead_fields example_prepared) (ss_store example_empty) =
     Inr ((200, created_text (BeadState example_bead)), Some 1, s') \<and>
   currentState s' (js ''http://h/a'') None = Some (BeadState example_bead)"
proof -
  have f: "fresh example_owner (ss_store example_empty) example_draws" using example_new_fresh by (simp add: example_empty_def)
  have h: "Suc (head (ss_store example_empty)) \<le> max_safe" by (simp add: example_empty_def example_head max_safe_def)
  have c: "cf_refusal (create_bead_fields example_prepared) = None" "cf_id (create_bead_fields example_prepared) = Some (js ''http://h/a'')"
    unfolding example_prepared(4) by simp_all
  have n: "\<not> has_identity (ss_store example_empty) (js ''http://h/a'')" "\<not> has_alias (ss_store example_empty) (js ''http://h/a'')"
    "head (ss_store example_empty) = 0"
    by (simp_all add: has_identity_def has_alias_def new_store_def example_empty_def head_def)
  from creation_decided [OF example_owner_ok example_reachable(1) f example_clock h c example_canonical]
  show ?thesis
    using n example_reserved example_text_size example_fact_size
    unfolding example_bead_def [symmetric] Let_def by (auto simp: not_less)
qed

lemma allocate_id_bound:
  "case allocate_id ow s ids i n of
     Inr (u, k) \<Rightarrow> i < k \<and> k \<le> i + Suc n \<and> u = ow_scope ow @ ids (k - 1) \<and>
       \<not> has_identity s u \<and> \<not> has_alias s u \<and> \<not> isReserved ow u
   | Inl e \<Rightarrow> e = RequestError (js ''temporarily-unavailable'') 503 (js ''after-delay'') \<and>
       (\<forall>k. i \<le> k \<longrightarrow> k \<le> i + n \<longrightarrow> has_identity s (ow_scope ow @ ids k) \<or> has_alias s (ow_scope ow @ ids k) \<or> isReserved ow (ow_scope ow @ ids k))"
proof (induction n arbitrary: i)
  case 0
  show ?case by (subst allocate_id.simps) (simp add: Let_def)
next
  case (Suc n)
  show ?case
  proof (cases "has_identity s (ow_scope ow @ ids i) \<or> has_alias s (ow_scope ow @ ids i) \<or> isReserved ow (ow_scope ow @ ids i)")
    case True
    then have e: "allocate_id ow s ids i (Suc n) = allocate_id ow s ids (Suc i) n" by (subst allocate_id.simps) (simp add: Let_def)
    show ?thesis
    proof (cases "allocate_id ow s ids (Suc i) n")
      case (Inl x)
      have "has_identity s (ow_scope ow @ ids k) \<or> has_alias s (ow_scope ow @ ids k) \<or> isReserved ow (ow_scope ow @ ids k)"
        if "i \<le> k" "k \<le> i + Suc n" for k
        using Suc.IH [of "Suc i"] Inl True that by (cases "k = i") auto
      then show ?thesis using Suc.IH [of "Suc i"] Inl by (simp add: e)
    next
      case (Inr x)
      then show ?thesis using Suc.IH [of "Suc i"] by (auto simp: e)
    qed
  next
    case False
    then have "allocate_id ow s ids i (Suc n) = Inr (ow_scope ow @ ids i, Suc i)" by (subst allocate_id.simps) (simp add: Let_def)
    then show ?thesis using False by simp
  qed
qed

text \<open>C27: the allocation of an identity ends after at most 33 draws: it answers an identity that is free,
  canonical and below the Scope, made of one of the first 33 drawn identifiers, and it fails only with
  503 when all of them were taken.\<close>

theorem allocation_bounded:
  "case allocate_id ow s (su_ids su) 0 32 of
     Inr (u, k) \<Rightarrow> 0 < k \<and> k \<le> 33 \<and> u = ow_scope ow @ su_ids su (k - 1) \<and>
       \<not> has_identity s u \<and> \<not> has_alias s u \<and> \<not> isReserved ow u
   | Inl e \<Rightarrow> e = RequestError (js ''temporarily-unavailable'') 503 (js ''after-delay'') \<and>
       list_all (\<lambda>k. has_identity s (ow_scope ow @ su_ids su k) \<or> has_alias s (ow_scope ow @ su_ids su k) \<or>
         isReserved ow (ow_scope ow @ su_ids su k)) [0..<33]"
  using allocate_id_bound [where i = 0 and n = 32 and ids = "su_ids su" and ow = ow and s = s] by (auto simp: list_all_iff split: sum.splits)


section \<open>Deletion\<close>


lemma example_next_fresh: "fresh example_owner (ss_store example_session) (example_supply 5)"
  by (rule example_fresh) (auto simp: example_tables(4) example_stored(1) example_created_def committed_def new_store_def
      version_rows_def example_owner_def js_def example_draws_def example_supply_def)

lemma example_next_clock: "clock_ok (example_supply n)"
  by (simp add: clock_ok_def example_supply_def)

lemma example_at: "head (ss_store example_session) = 1" "Suc (head (ss_store example_session)) \<le> max_safe"
  "currentState (ss_store example_session) (js ''http://h/a'') (Some KBead) = Some (BeadState example_bead)"
proof -
  show "head (ss_store example_session) = 1" using example_tables(3) by (simp add: head_def)
  then show "Suc (head (ss_store example_session)) \<le> max_safe" by (simp add: max_safe_def)
qed (simp add: currentState_def example_tables)


section \<open>Update\<close>



definition example_edit :: edit_fields where
  "example_edit = \<lparr> ef_type = None, ef_properties = None, ef_metadata = Some [(js ''n'', JBool True)],
     ef_propertiesChange = None, ef_metadataChange = None, ef_expectedRevision = Some (js ''ii''), ef_fromRevision = None,
     ef_provenance = None, ef_source = None, ef_target = None, ef_refusal = None \<rparr>"

definition example_edited :: bead where
  "example_edited = materializeBead (JStr (js ''http://h/t'')) [] [(js ''n'', JBool True)] None (js ''http://h/a'')
     (su_ids (example_supply 5) 0) (iso_time 0)"

lemma example_edit_commits:
  "performUpdate example_owner (example_supply 5) KBead (js ''http://h/a'') example_edit (ss_store example_session) =
     commit_update example_owner (example_supply 5) KBead (js ''http://h/a'') example_edit (BeadState example_bead)
       (example_bead \<lparr> bead_metadata := [(js ''n'', JBool True)] \<rparr>) (js ''ii'') False (ss_store example_session)"
proof -
  have "\<not> jsonValueEqual (JObj [(js ''n'', JBool True)]) (JObj [] :: json)" by code_simp
  then have "\<not> covered_equal (BeadState (example_bead \<lparr> bead_metadata := [(js ''n'', JBool True)] \<rparr>)) (BeadState example_bead)"
    by (simp add: covered_equal_def example_bead)
  then show ?thesis
    by (simp add: performUpdate_def baseline_def example_at(3) update_guarded_def update_source_def update_edited_def
        exceedsEditLimits_def edited_documents_def edited_def update_candidate_def with_documents_def update_endpoints_def
        resourceState_def endpointRefusal_def example_edit_def example_bead)
qed

lemma example_update:
  "\<exists>s'. performUpdate example_owner (example_supply 5) KBead (js ''http://h/a'') example_edit (ss_store example_session) =
     Inr ((200, changed_text None (BeadState example_edited)), Some 2, s')"
proof -
  let ?s = "ss_store example_session"
  let ?c = "example_bead \<lparr> bead_metadata := [(js ''n'', JBool True)] \<rparr>"
  note base = reachable_base [OF example_owner_ok example_reachable(2)]
  have f: "fresh_ids ?s (su_ids (example_supply 5))" using example_next_fresh by (simp add: fresh_def)
  have b: "baseline example_owner ?s KBead (js ''http://h/a'') (ef_fromRevision example_edit \<noteq> None) =
      Inr (Some (BeadState example_bead, js ''ii'', False))"
    by (simp add: baseline_def example_at(3) example_edit_def example_bead)
  have r: "resourceState KBead ?c (fst (update_endpoints (BeadState example_bead) example_edit))
      (snd (update_endpoints (BeadState example_bead) example_edit)) = Inr (BeadState ?c)"
    by (simp add: resourceState_def)
  have st: "resourceState KBead (materializeBead (JStr (js ''http://h/t'')) [] [(js ''n'', JBool True)] None (js ''http://h/a'')
      (su_ids (example_supply 5) 0) (iso_time 0)) (fst (update_endpoints (BeadState example_bead) example_edit))
      (snd (update_endpoints (BeadState example_bead) example_edit)) = Inr (BeadState example_edited)"
    by (simp add: resourceState_def example_edited_def)
  have e: "endpoints_ok example_owner ?s (BeadState ?c)" by (simp add: endpoints_ok_def)
  note t = update_transition [OF base f b r e st]
  obtain lifecycle where l: "lifecycleFact VUpdate (BeadState example_edited) (nav_events (ow_nav example_owner))
      (su_ids (example_supply 5) (Suc 0)) (su_ids (example_supply 5) (Suc (Suc 0))) (iso_time 0) (Some (js ''ii'')) = Inr lifecycle"
    by (simp add: lifecycleFact_def)
  have size: "byte_length (changed_text None (BeadState example_edited)) \<le> 262144"
    unfolding changed_text_def option.case
    by (rule serialized_bound) (simp add: updated_result_def example_edited_def materializeBead_def bead_fields_def example_supply_def)
  have "byte_length (serialized (JObj lifecycle)) \<le> 300000"
    by (rule serialized_bound)
      (use l in \<open>auto simp: lifecycleFact_def fact_effect_def fact_operation_def example_edited_def materializeBead_def
        bead_fields_def example_owner_def example_nav_def example_supply_def example_time opt_member_def Let_def\<close>)
  moreover have "recovers None = (map_of (st_resources ?s) (bead_id (state_resource (BeadState example_edited))) = None)"
    "bead_revision (state_resource (BeadState example_edited)) \<notin> hv_revision ` set (st_versions ?s)"
    using t fresh_idsD(4) [OF f, of 0] by simp_all
  moreover have "terminal_of example_owner VUpdate (BeadState example_edited) x = None" for x by (simp add: terminal_of_def)
  moreover have "bead_revision example_bead = js ''ii''" by (simp add: example_bead)
  ultimately have c: "\<exists>s'. complete example_owner (\<lambda>k. su_ids (example_supply 5) (Suc k)) VUpdate (BeadState example_edited)
      (Some (BeadState example_bead)) (iso_time 0) (changed_text None (BeadState example_edited)) None ?s =
      Inr ((200, changed_text None (BeadState example_edited)), Some (Suc (head ?s)), s')"
    using complete_total [OF base t(1) fresh_ids_shift [OF f, of 1] example_at(2), where hist = None and time = "iso_time 0"
        and lifecycle = lifecycle] size l by (simp add: fact_of_def)
  have now: "owner_now (example_supply 5) 0 = Inr 0" by (simp add: owner_now_def example_supply_def)
  have "Suc (head ?s) = 2" by (simp add: example_at(1))
  then show ?thesis
    using c st unfolding example_edit_commits
    by (simp add: commit_update_def now example_edit_def case_prod_unfold example_bead numeral_2_eq_2)
qed



section \<open>Aliases\<close>

lemma alias_lookup_put:
  assumes "\<not> has_identity s l" "\<not> isReserved ow l"
  shows "aliasLookup ow (s \<lparr> st_aliases := AList.update l t (st_aliases s) \<rparr>) u =
    (if u = l then Some (Some t) else aliasLookup ow s u)"
  using assms by (auto simp: aliasLookup_def has_identity_def rows.find_put)

lemma alias_lookup_drop:
  assumes "aliases_ok ow s" "has_alias s l"
  shows "aliasLookup ow (delete_alias l s) u = (if u = l then Some None else aliasLookup ow s u)"
proof -
  obtain t where t: "map_of (st_aliases s) l = Some t" using assms(2) by (auto simp: has_alias_def)
  then have l: "\<not> has_identity s l" "ow_contains ow l" "\<not> isReserved ow l" using assms(1) by (auto simp: aliases_ok_def)
  have "has_identity (delete_alias l s) u = has_identity s u" by (simp add: has_identity_def delete_alias_def)
  moreover have "map_of (st_aliases (delete_alias l s)) u = (if u = l then None else map_of (st_aliases s) u)"
    using assms(1) by (simp add: delete_alias_def rows.find_drop aliases_ok_def)
  ultimately show ?thesis using l by (auto simp: aliasLookup_def)
qed

text \<open>C21: an alias operation that does not answer 200 changes nothing, and one that does changes exactly
  what its alias resolves to: a put, to the given target, which is a live Bead; a delete, of an alias
  that was bound, to the unbound alias; every other URI resolves as before and no other table changes.\<close>

theorem alias_decided:
  assumes "owner_ok ow" "reachable ow ss" "operation = PutAlias \<or> operation = DeleteAlias"
    "execute_alias ow p operation (ss_store ss) = Inr (r, pos, s')"
  shows "s' = (ss_store ss) \<lparr> st_aliases := st_aliases s' \<rparr> \<and>
    (s' = ss_store ss \<or> fst r = 200 \<and>
      (if operation = PutAlias
       then \<exists>t b. pa_target p = Some t \<and> map_of (st_resources s') t = Some (BeadState b) \<and>
         (\<forall>u. aliasLookup ow s' u = (if u = pa_alias p then Some (Some t) else aliasLookup ow (ss_store ss) u))
       else has_alias (ss_store ss) (pa_alias p) \<and>
         (\<forall>u. aliasLookup ow s' u = (if u = pa_alias p then Some None else aliasLookup ow (ss_store ss) u))))"
proof -
  note base = reachable_base [OF assms(1,2)]
  from assms(4,3) show ?thesis
  proof (cases rule: execute_alias_cases)
    case (put t)
    obtain st where "currentState (ss_store ss) t (Some KBead) = Some st" using put(6) by blast
    then obtain b where "map_of (st_resources (ss_store ss)) t = Some (BeadState b)"
      by (cases st) (auto simp: currentState_iff [OF base_invD(1) [OF base]])
    then show ?thesis using put alias_lookup_put [OF put(4,5), of t] by simp
  next
    case drop
    then show ?thesis using alias_lookup_drop [OF base_invD(3) [OF base] drop(3)] by (simp add: delete_alias_def)
  qed simp
qed

definition example_alias :: prepared_alias where
  "example_alias = \<lparr> pa_scope = js ''http://h/'', pa_key = js ''a'', pa_identity = js ''i'', pa_operation = PutAlias,
     pa_alias = js ''http://h/.a/x'', pa_target = Some (js ''http://h/a''),
     pa_captured = \<lparr> cap_names = [], cap_references = [], cap_identityFor = (\<lambda>_. Inr (js ''i'')) \<rparr> \<rparr>"

lemma example_alias_inside: "ow_contains example_owner (js ''http://h/.a/x'')"
proof -
  have "alias_contains example_runtime (js ''http://h/'') (js ''http://h/.a'') (js ''http://h/.a/x'')" by code_simp
  then show ?thesis by (simp add: example_owner_def)
qed

theorem alias_decided_witness:
  "\<exists>r s'. execute_alias example_owner example_alias PutAlias (ss_store example_session) = Inr (r, None, s') \<and>
     aliasLookup example_owner s' (js ''http://h/.a/x'') = Some (Some (js ''http://h/a'')) \<and>
     aliasLookup example_owner (ss_store example_session) (js ''http://h/.a/x'') = Some None"
proof -
  let ?s = "ss_store example_session"
  have f: "pa_alias example_alias = js ''http://h/.a/x''" "pa_target example_alias = Some (js ''http://h/a'')"
    by (simp_all add: example_alias_def)
  have a: "st_aliases ?s = []" by (simp add: example_stored(1) example_created_def committed_def new_store_def)
  then have n: "\<not> has_identity ?s (js ''http://h/.a/x'')" "\<not> isReserved example_owner (js ''http://h/.a/x'')"
    "st_aliases ?s = []" "\<not> has_alias ?s u" for u
    by (simp_all add: has_identity_def has_alias_def example_tables isReserved_def example_owner_def example_paths_def
        ORDINARY_OPERATIONS_def)
  have "byte_length (serialized (JObj [(js ''outcome'', JStr (js o')), (js ''alias'', JStr (js ''http://h/.a/x'')),
      (js ''target'', JStr (js ''http://h/a''))])) \<le> 262144" if "o' = ''created''" for o'
    by (rule serialized_bound) (simp add: that)
  then have "\<exists>r s'. execute_alias example_owner example_alias PutAlias ?s = Inr (r, None, s') \<and> s' \<noteq> ?s"
    using n f example_alias_inside example_at(3)
    by (auto simp: execute_alias_def put_alias_turn_def upsert_alias_def Let_def not_less has_identity_def example_tables
        example_owner_def example_nav_def dest!: arg_cong [where f = st_aliases])
  then obtain r s' where e: "execute_alias example_owner example_alias PutAlias ?s = Inr (r, None, s')" "s' \<noteq> ?s" by blast
  from alias_decided [OF example_owner_ok example_reachable(2) _ e(1)] e(2) f
  have "aliasLookup example_owner s' (js ''http://h/.a/x'') = Some (Some (js ''http://h/a''))" by auto
  moreover have "aliasLookup example_owner ?s (js ''http://h/.a/x'') = Some None"
    using n example_alias_inside by (simp add: aliasLookup_def)
  ultimately show ?thesis using e(1) by blast
qed


section \<open>The historical index\<close>

lemma latest_last:
  assumes "sorted_wrt (<) (map hv_position vs)" "vs \<noteq> []"
  shows "latest_version vs = Some (last vs)"
proof -
  have "foldl (\<lambda>a b. if hv_position a < hv_position b then b else a) v ws = last (v # ws)"
    if "sorted_wrt (<) (map hv_position (v # ws))" for v ws
    using that by (induction ws arbitrary: v) (auto split: if_splits)
  then have "latest_version (v # ws) = Some (last (v # ws))" if "sorted_wrt (<) (map hv_position (v # ws))" for v ws
    using that unfolding latest_version_def list.case by blast
  then show ?thesis using assms by (cases vs) blast+
qed

lemma versions_sorted: "sorted_wrt (<) (map hv_position vs) \<Longrightarrow> sorted_wrt (<) (map hv_position (filter P vs))"
  by (induction vs) auto

lemma historical_current:
  assumes "base_inv ow s" "ow_historical ow" "map_of (st_identities s) i = Some KBead"
  shows "case map_of (st_resources s) i of
      Some st \<Rightarrow> \<exists>c. historicalVersion ow s i None = Some (VLive (state_resource st) c)
    | None \<Rightarrow> \<exists>r p. historicalVersion ow s i None = Some (VTerminal i r p)"
proof -
  have h: "sorted_wrt (<) (map hv_position (st_versions s))" "indexed_bead s i"
    "\<forall>v \<in> set (st_versions s). version_shape v"
    using base_invD(8) [OF assms(1)] assms(2,3) by (simp_all add: history_ok_def)
  then have v: "historicalVersion ow s i None = Some (hv_body (last (versions_of s i)))" "versions_of s i \<noteq> []"
    using latest_last [OF versions_sorted [OF h(1)], of "\<lambda>v. hv_id v = i"] assms(2)
    by (simp_all add: historicalVersion_def versions_of_def indexed_bead_def)
  have "last (versions_of s i) \<in> set (versions_of s i)" using v(2) by simp
  then have m: "hv_id (last (versions_of s i)) = i" "version_shape (last (versions_of s i))"
    using h(3) by (auto simp: versions_of_def)
  show ?thesis
    using h(2) v(1) m by (auto simp: indexed_bead_def version_shape_def split: option.splits)
qed

text \<open>C24: the historical index of every reachable session is consistent, so the errors that announce an
  inconsistency never happen: the baseline of an update is always decided; with a historical owner the
  source of an update of a Bead is too, the latest version of a live Bead is its current state, and the
  latest version of a deleted Bead is the terminal of its deletion.\<close>

theorem historical_index_consistent:
  assumes "owner_ok ow" "reachable ow ss"
  shows "(\<exists>base. baseline ow (ss_store ss) kind i selected = Inr base) \<and>
    (ow_historical ow \<longrightarrow> map_of (st_identities (ss_store ss)) i = Some KBead \<longrightarrow>
      (\<exists>src. update_source ow (ss_store ss) i from former = Inr src) \<and>
      (case map_of (st_resources (ss_store ss)) i of
         Some st \<Rightarrow> \<exists>c. historicalVersion ow (ss_store ss) i None = Some (VLive (state_resource st) c)
       | None \<Rightarrow> \<exists>r p. historicalVersion ow (ss_store ss) i None = Some (VTerminal i r p)))"
  using baseline_total [OF reachable_base [OF assms]] update_source_total [OF reachable_base [OF assms]]
    historical_current [OF reachable_base [OF assms]] by blast

text \<open>The example under a historical owner.\<close>

definition example_historian :: owner where
  "example_historian = example_owner \<lparr> ow_historical := True \<rparr>"

lemma example_historian:
  "owner_ok example_historian" "ow_runtime example_historian = ow_runtime example_owner"
  "ow_scope example_historian = ow_scope example_owner" "ow_nav example_historian = ow_nav example_owner"
  "isReserved example_historian = isReserved example_owner" "ow_historical example_historian" "ow_batch example_historian = False"
  "fresh example_historian (new_store (js ''b'')) example_draws"
  using example_owner_ok example_new_fresh
  by (simp_all add: example_historian_def owner_ok_def fresh_def isReserved_def fun_eq_iff example_owner_def)

lemma example_recorded:
  "\<exists>ss. session_step example_historian example_empty ss \<and>
     map_of (st_resources (ss_store ss)) (js ''http://h/a'') = Some (BeadState example_bead) \<and>
     map_of (st_identities (ss_store ss)) (js ''http://h/a'') = Some KBead"
proof -
  let ?s = "new_store (js ''b'')"
  note h = example_historian
  have req: "prepare_request example_historian CreateBead False example_create_text (js ''k'') = Inr (CreateBeadRequest example_prepared)"
    using example_request by (simp add: prepare_request_def h)
  have head: "Suc (head ?s) \<le> max_safe" by (simp add: example_head max_safe_def)
  have f: "cf_refusal (create_bead_fields example_prepared) = None" "cf_id (create_bead_fields example_prepared) = Some (js ''http://h/a'')"
    unfolding example_prepared(4) by simp_all
  have canon: "owner_canonical example_historian (js ''http://h/a'')" using example_canonical by (simp add: h)
  have fact: "created_fact example_historian su st = created_fact example_owner su st" for su st
    by (simp add: created_fact_def h)
  have n: "\<not> has_identity ?s u" "\<not> has_alias ?s u" "find_outcome ?s who key = None" for u who key
    by (simp_all add: has_identity_def has_alias_def new_store_def find_outcome_def)
  obtain body token vs where p: "performCreate example_historian example_draws KBead (create_bead_fields example_prepared) ?s =
      Inr ((200, created_text (BeadState example_bead)), Some 1, committed VCreate (BeadState example_bead) body [] token vs ?s)"
    using create_given [OF store_invD(1) [OF new_store_inv] h(8) example_clock head f canon]
      n example_reserved example_text_size example_fact_size
    unfolding example_bead_def [symmetric] Let_def fact by (simp add: example_head not_less h)
  let ?s' = "committed VCreate (BeadState example_bead) body [] token vs ?s"
  obtain cmp where c: "compareCapturedReferences (pc_captured example_prepared) (aliasLookup example_historian ?s) None [] = Inr cmp"
    using example_compared by blast
  have e: "executed_ok example_historian ?s (Some 1) ?s'"
    by (rule executes_ok [of _ _ "CreateBeadRequest example_prepared", OF _ store_invD(1) [OF new_store_inv] h(8) admitted_ok [OF h(1) req]])
      (simp add: executes_def p [unfolded One_nat_def])
  have d: "st_decisions ?s' = 0" by (simp add: committed_def new_store_def)
  have sc: "pc_scope example_prepared = ow_scope example_historian"
    using example_prepared(2) by (simp add: h example_owner_def example_nav_def)
  obtain r o' where v: "serve example_historian example_draws (js ''p'') (CreateBeadRequest example_prepared) ?s = Inr (r, recorded example_historian o' [1] ?s')"
    using record_decision_total [OF n(3) new_store_inv e, where operation = CreateBead and cmp = cmp and who = "js ''p''" and key = "js ''k''"]
      sc n(3) c d
    by (auto simp: serve_def create_bead_def decide_def p example_prepared(3) max_safe_def)
  let ?ss = "snd (transaction True (serve example_historian example_draws (js ''p'') (CreateBeadRequest example_prepared)) example_empty)"
  have "session_step example_historian example_empty ?ss"
    by (rule session_step.mutation [OF req]) (use h(8) in \<open>simp add: example_empty_def\<close>)
  moreover have "ss_store ?ss = recorded example_historian o' [1] ?s'" by (simp add: transaction_def example_empty_def v)
  moreover have "resources_ok ?s" using base_invD(1) [OF store_invD(1) [OF new_store_inv]] .
  ultimately show ?thesis
    by (intro exI [of _ ?ss]) (simp add: resources_committed identities_committed example_bead)
qed

theorem historical_index_consistent_witness:
  "\<exists>ss st c. reachable example_historian ss \<and> map_of (st_resources (ss_store ss)) (js ''http://h/a'') = Some st \<and>
     historicalVersion example_historian (ss_store ss) (js ''http://h/a'') None = Some (VLive (state_resource st) c)"
proof -
  obtain ss where ss: "session_step example_historian example_empty ss"
    "map_of (st_resources (ss_store ss)) (js ''http://h/a'') = Some (BeadState example_bead)"
    "map_of (st_identities (ss_store ss)) (js ''http://h/a'') = Some KBead" using example_recorded by blast
  have r: "reachable example_historian ss"
    using reachable.stepped [OF _ ss(1)] reachable.provisioned [of example_historian "js ''b''"] by (simp add: example_empty_def)
  from historical_index_consistent [OF example_historian(1) r, of KBead "js ''http://h/a''"] ss(2,3) example_historian(6) r
  show ?thesis by fastforce
qed

end
