(* ===== verification/Store_Reads.thy ===== *)
theory Store_Reads
  imports Store_Behaviour
begin

text \<open>
  Reads: pages of events lose and repeat nothing and a client that follows them gets to the end; a
  listing is sorted, complete and bounded.
\<close>

section \<open>Pages of events\<close>

lemma event_rows_filter:
  assumes "events_ok s"
  shows "event_rows s subject a t =
    filter (\<lambda>e. a < ev_position e \<and> ev_position e \<le> t \<and> event_selected s subject e) (st_events s)" (is "_ = ?es")
    "sorted_wrt (<) (map ev_position (event_rows s subject a t))"
proof -
  have "sorted_wrt (<) (map ev_position (st_events s))" using assms by (simp add: events_ok_def del: upt_Suc)
  then have f: "sorted_wrt (<) (map ev_position ?es)" by (simp add: sorted_wrt_map sorted_wrt_filter)
  then show e: "event_rows s subject a t = ?es"
    unfolding event_rows_def by (intro sort_key_id_if_sorted) (simp add: strict_sorted_imp_sorted)
  show "sorted_wrt (<) (map ev_position (event_rows s subject a t))" unfolding e by (rule f)
qed

text \<open>The rows after a page are the rows beyond its last position.\<close>

lemma rows_rest:
  assumes "events_ok s" "0 < n" "n < length (event_rows s subject a t)"
  shows "event_rows s subject (ev_position (last (take n (event_rows s subject a t)))) t = drop n (event_rows s subject a t)"
proof -
  let ?es = "\<lambda>b. filter (\<lambda>e. b < ev_position e \<and> ev_position e \<le> t \<and> event_selected s subject e) (st_events s)"
  note rows = event_rows_filter(1) [OF assms(1)]
  let ?rows = "event_rows s subject a t"
  let ?p = "ev_position (last (take n ?rows))"
  have s: "sorted_wrt (\<lambda>x y. ev_position x < ev_position y) (take n ?rows @ drop n ?rows)"
    using event_rows_filter(2) [OF assms(1), of subject a t] by (simp add: sorted_wrt_map)
  have ne: "take n ?rows \<noteq> []" using assms(2,3) by auto
  have "a \<le> ?p"
    using ne last_in_set [OF ne] set_take_subset [of n ?rows] unfolding rows by fastforce
  then have "?es ?p = filter (\<lambda>e. ?p < ev_position e) (?es a)" by (auto intro!: filter_cong simp: filter_filter)
  also have "\<dots> = filter (\<lambda>e. ?p < ev_position e) (take n ?rows @ drop n ?rows)" by (simp add: rows)
  also have "\<dots> = drop n ?rows"
  proof -
    have low: "\<not> ?p < ev_position x" if "x \<in> set (take n ?rows)" for x
    proof -
      have "take n ?rows = butlast (take n ?rows) @ [last (take n ?rows)]" using ne by simp
      then have "sorted_wrt (\<lambda>x y. ev_position x < ev_position y) (butlast (take n ?rows) @ [last (take n ?rows)])"
        using s by (simp add: sorted_wrt_append)
      moreover have "x \<in> set (butlast (take n ?rows)) \<or> x = last (take n ?rows)"
        using that ne by (metis in_set_butlast_appendI append_butlast_last_id in_set_conv_decomp not_in_set_insert rotate1.simps(2) set_ConsD set_rotate1)
      ultimately show ?thesis by (auto simp: sorted_wrt_append)
    qed
    have high: "?p < ev_position y" if "y \<in> set (drop n ?rows)" for y
      using s that last_in_set [OF ne] unfolding sorted_wrt_append by blast
    show ?thesis unfolding filter_append using low high by (simp add: filter_empty_conv filter_id_conv)
  qed
  finally show ?thesis by (simp add: rows)
qed


text \<open>What a page answers, and the cursors it leaves.\<close>

definition cursor_at :: "jstring \<Rightarrow> jstring \<Rightarrow> jstring \<Rightarrow> jstring \<Rightarrow> nat \<Rightarrow> nat \<Rightarrow> nat \<Rightarrow> cursor_mode \<Rightarrow> nat \<Rightarrow> cursor_row" where
  "cursor_at token who source subject after through limit mode ms =
     \<lparr> cu_token = token, cu_principal = who, cu_source = source, cu_subject = subject, cu_after = after,
       cu_through = through, cu_limit = limit, cu_mode = mode, cu_expires = ms + minimum_cursor_seconds * 1000 \<rparr>"

lemma saveCursor_Inr:
  "saveCursor su token tick who source subject a t n mode s = Inr s' \<longleftrightarrow>
     (\<exists>ms. owner_now su tick = Inr ms \<and> token \<notin> cu_token ` set (st_cursors s) \<and>
        s' = s \<lparr> st_cursors := st_cursors s @ [cursor_at token who source subject a t n mode ms] \<rparr>)"
  by (auto simp: saveCursor_def insert_cursor_def cursor_at_def)

lemma event_rows_cursors [simp]: "event_rows (s \<lparr> st_cursors := c \<rparr>) subject a t = event_rows s subject a t"
  by (simp add: event_rows_def event_selected_def)

lemma read_events_Inr:
  assumes "read_events su who source subject sel s = Inr (page, s')"
    "event_window su who source subject sel s = Inr (a, t, tick)"
  defines "rows \<equiv> event_rows s subject a t" and "n \<equiv> sel_limit sel"
  defines "scanned \<equiv> (if n < length rows then ev_position (last (take n rows)) else t)"
  obtains ms ms' c where "owner_now su tick = Inr ms"
    "pg_events page = map (\<lambda>e. obj_spread (ev_body e) [(js ''source'', JStr source)]) (take n rows)"
    "pg_cursor page = su_ids su 0" "pg_next page = (if n < length rows then Some (su_ids su 1) else None)"
    "s' = s \<lparr> st_cursors := st_cursors s @ cursor_at (su_ids su 0) who source subject scanned t n Resume ms # c \<rparr>"
    "if n < length rows then owner_now su (Suc tick) = Inr ms' \<and> c = [cursor_at (su_ids su 1) who source subject scanned t n NextPage ms']
     else c = []"
proof -
  have o: "n < length (take (Suc n) rows) \<longleftrightarrow> n < length rows" "take n (take (Suc n) rows) = take n rows" by auto
  from assms(1) obtain s1 s2 where s: "saveCursor su (su_ids su 0) tick who source subject scanned t n Resume s = Inr s1"
    "(if n < length rows then saveCursor su (su_ids su 1) (Suc tick) who source subject scanned t n NextPage s1 else Inr s1) = Inr s2"
    "s' = s2" "pg_events page = map (\<lambda>e. obj_spread (ev_body e) [(js ''source'', JStr source)]) (take n rows)"
    "pg_cursor page = su_ids su 0" "pg_next page = (if n < length rows then Some (su_ids su 1) else None)"
    unfolding read_events_def assms(2) bindR.simps Let_def prod.case rows_def [symmetric] n_def [symmetric] o scanned_def [symmetric]
    by (auto split: if_splits)
  from s(1) obtain ms where ms: "owner_now su tick = Inr ms"
    "s1 = s \<lparr> st_cursors := st_cursors s @ [cursor_at (su_ids su 0) who source subject scanned t n Resume ms] \<rparr>"
    unfolding saveCursor_Inr by blast
  show ?thesis
  proof (cases "n < length rows")
    case True
    with s(2) obtain ms' where "owner_now su (Suc tick) = Inr ms'"
      "s2 = s1 \<lparr> st_cursors := st_cursors s1 @ [cursor_at (su_ids su 1) who source subject scanned t n NextPage ms'] \<rparr>"
      by (auto simp: saveCursor_Inr)
    then show ?thesis using that [OF ms(1) s(4-6)] ms(2) s(3) True by simp
  next
    case False
    then show ?thesis using that [OF ms(1) s(4-6)] ms(2) s(2,3) by simp
  qed
qed

text \<open>The supply of one page: the identifiers from the \<open>k\<close>th on, with a clock that stands still.\<close>

definition draws :: "(nat \<Rightarrow> jstring) \<Rightarrow> nat \<Rightarrow> nat \<Rightarrow> supplied" where
  "draws ids k now = \<lparr> su_ids = (\<lambda>j. ids (k + j)), su_clock = (\<lambda>_. int now) \<rparr>"

lemma boundary_total: "boundaries_ok s \<Longrightarrow> p \<le> length (st_events s) \<Longrightarrow> \<exists>token. boundary s p = Inr token"
proof -
  assume b: "boundaries_ok s" "p \<le> length (st_events s)"
  then have "p \<in> fst ` set (st_boundaries s)" using boundary_positions [OF b(1)] by simp
  then have "map_of (st_boundaries s) p \<noteq> None" by (auto simp: map_of_eq_None_iff)
  then show ?thesis by (auto simp: boundary_def)
qed

lemma read_events_total:
  assumes "event_window (draws ids k now) who source subject sel s = Inr (a, t, tick)" "boundaries_ok s" "t \<le> length (st_events s)"
    "subject = [] \<or> has_identity s subject" "now \<le> 8640000000000000" "fresh_ids s (\<lambda>j. ids (k + j))"
  shows "\<exists>page s'. read_events (draws ids k now) who source subject sel s = Inr (page, s')"
proof -
  have clock: "owner_now (draws ids k now) i = Inr now" for i using assms(5) by (simp add: owner_now_def draws_def)
  have ids: "ids k \<notin> cu_token ` set (st_cursors s)" "ids (Suc k) \<notin> cu_token ` set (st_cursors s)" "ids (Suc k) \<noteq> ids k"
    using fresh_idsD(3) [OF assms(6), of 0] fresh_idsD(3) [OF assms(6), of 1] fresh_idsD(5) [OF assms(6), of 1 0] by simp_all
  obtain b0 bt where b: "boundary s 0 = Inr b0" "boundary s t = Inr bt"
    using boundary_total [OF assms(2)] assms(3) by blast
  have c: "boundary (s \<lparr> st_cursors := x \<rparr>) p = boundary s p" for x p by (simp add: boundary_def)
  show ?thesis
    using assms(1,4) ids b clock
    by (auto simp: read_events_def Let_def saveCursor_def insert_cursor_def draws_def c)
qed

lemma find_beyond: "\<forall>x \<in> set xs. \<not> P x \<Longrightarrow> List.find P (xs @ ys) = List.find P ys"
  by (induction xs) simp_all

text \<open>C8: a page of events loses and repeats nothing: it answers the first events of its interval in the
  order of their positions, at most its limit; it names a next page exactly when events remain, and the
  cursor of the next page, bound to the same principal, source, subject and limit, selects exactly the
  events that remain.\<close>

theorem page_exact:
  assumes "owner_ok ow" "reachable ow ss" "fresh ow (ss_store ss) su" "0 < sel_limit sel"
    "event_window su who source subject sel (ss_store ss) = Inr (a, t, tick)"
    "read_events su who source subject sel (ss_store ss) = Inr (page, s')"
  shows "(let rows = event_rows (ss_store ss) subject a t; n = sel_limit sel in
    sorted_wrt (<) (map ev_position rows) \<and>
    pg_events page = map (\<lambda>e. obj_spread (ev_body e) [(js ''source'', JStr source)]) (take n rows) \<and>
    (if n < length rows
     then \<exists>c \<in> set (st_cursors s'). pg_next page = Some (cu_token c) \<and>
       List.find (\<lambda>d. cu_token d = cu_token c) (st_cursors s') = Some c \<and>
       cu_principal c = who \<and> cu_source c = source \<and> cu_subject c = subject \<and> cu_limit c = n \<and> cu_mode c = NextPage \<and>
       event_rows s' subject (cu_after c) (cu_through c) = drop n rows
     else pg_next page = None))"
proof -
  let ?s = "ss_store ss"
  let ?rows = "event_rows ?s subject a t"
  let ?n = "sel_limit sel"
  note ev = base_invD(5) [OF reachable_base [OF assms(1,2)]]
  have f: "fresh_ids ?s (su_ids su)" using assms(3) by (simp add: fresh_def)
  show ?thesis
    using assms(6,5)
  proof (cases rule: read_events_Inr)
    case (1 ms ms' c)
    show ?thesis
    proof (cases "?n < length ?rows")
      case True
      let ?c = "cursor_at (su_ids su 1) who source subject (ev_position (last (take ?n ?rows))) t ?n NextPage ms'"
      have c: "st_cursors s' = st_cursors ?s @ [cursor_at (su_ids su 0) who source subject
          (ev_position (last (take ?n ?rows))) t ?n Resume ms, ?c]"
        using 1(5,6) True by simp
      have "List.find (\<lambda>d. cu_token d = su_ids su 1) (st_cursors s') = Some ?c"
        unfolding c using fresh_idsD(3) [OF f, of 1] fresh_idsD(5) [OF f, of 0 1]
        by (subst find_beyond) (auto simp: cursor_at_def image_iff)
      moreover have "event_rows s' subject (cu_after ?c) (cu_through ?c) = drop ?n ?rows"
        using rows_rest [OF ev assms(4) True] 1(5) by (simp add: cursor_at_def)
      ultimately show ?thesis
        using 1(2,4) True event_rows_filter(2) [OF ev] c unfolding Let_def
        by (auto simp: cursor_at_def intro!: bexI [of _ ?c])
    next
      case False
      then show ?thesis using 1(2,4) event_rows_filter(2) [OF ev] by (simp add: Let_def)
    qed
  qed
qed


definition example_selection :: event_selection where
  "example_selection = \<lparr> sel_from = None, sel_after = None, sel_limit = 1 \<rparr>"

lemma example_rows:
  "event_rows (ss_store example_session) [] 0 1 = st_events (ss_store example_session)"
  "length (st_events (ss_store example_session)) = 1"
proof -
  show l: "length (st_events (ss_store example_session)) = 1"
    using arg_cong [OF example_tables(3), of length] by simp
  then obtain e where "st_events (ss_store example_session) = [e]" by (metis One_nat_def length_0_conv length_Suc_conv)
  then show "event_rows (ss_store example_session) [] 0 1 = st_events (ss_store example_session)"
    using example_tables(3) by (simp add: event_rows_def event_selected_def)
qed

theorem page_exact_witness:
  "\<exists>page s'. read_events (draws (su_ids (example_supply 5)) 0 0) (js ''p'') (js ''http://h/.e'') [] example_selection (ss_store example_session) =
      Inr (page, s') \<and> length (pg_events page) = 1 \<and> pg_next page = None"
proof -
  let ?su = "draws (su_ids (example_supply 5)) 0 0"
  have f: "fresh example_owner (ss_store example_session) ?su"
    using example_next_fresh by (simp add: fresh_def draws_def example_supply_def)
  have w: "event_window ?su (js ''p'') (js ''http://h/.e'') [] example_selection (ss_store example_session) = Inr (0, 1, 0)"
    by (simp add: event_window_def example_selection_def example_at(1))
  note base = base_invD [OF reachable_base [OF example_owner_ok example_reachable(2)]]
  obtain page s' where r: "read_events ?su (js ''p'') (js ''http://h/.e'') [] example_selection (ss_store example_session) = Inr (page, s')"
    using read_events_total [OF w base(6)] f example_rows(2) by (auto simp: fresh_def draws_def)
  show ?thesis
    using page_exact [OF example_owner_ok example_reachable(2) f _ w r] r example_rows
    by (auto simp: example_selection_def Let_def)
qed


section \<open>Following the pages\<close>

text \<open>
  A client that follows the next pages; every page draws two identifiers.  The fuel is the number of
  pages it asks for at most.
\<close>

primrec drain ::
  "nat \<Rightarrow> (nat \<Rightarrow> jstring) \<Rightarrow> nat \<Rightarrow> nat \<Rightarrow> jstring \<Rightarrow> jstring \<Rightarrow> jstring \<Rightarrow> event_selection \<Rightarrow> store \<Rightarrow> (json_object list \<times> store) result" where
  "drain 0 ids k now who source subject sel s = Inl (PlainError ''out of fuel'')"
| "drain (Suc n) ids k now who source subject sel s =
     bindR (read_events (draws ids k now) who source subject sel s) (\<lambda>(page, s1).
       case pg_next page of
         None \<Rightarrow> Inr (pg_events page, s1)
       | Some token \<Rightarrow>
           bindR (drain n ids (k + 2) now who source subject (sel \<lparr> sel_from := None, sel_after := Some token \<rparr>) s1) (\<lambda>(es, s2).
             Inr (pg_events page @ es, s2)))"

lemma drain_rows:
  assumes "event_window (draws ids k now) who source subject sel s = Inr (a, t, tick)" "events_ok s" "boundaries_ok s"
    "t \<le> length (st_events s)" "subject = [] \<or> has_identity s subject" "now \<le> 8640000000000000"
    "fresh_ids s (\<lambda>j. ids (k + j))" "0 < sel_limit sel" "length (event_rows s subject a t) < n"
  shows "\<exists>s'. drain n ids k now who source subject sel s =
    Inr (map (\<lambda>e. obj_spread (ev_body e) [(js ''source'', JStr source)]) (event_rows s subject a t), s')"
  using assms
proof (induction n arbitrary: k sel s a tick)
  case (Suc n)
  let ?rows = "event_rows s subject a t"
  let ?l = "sel_limit sel"
  obtain page s1 where r: "read_events (draws ids k now) who source subject sel s = Inr (page, s1)"
    using read_events_total [OF Suc.prems(1,3-7)] by blast
  from r Suc.prems(1) show ?case
  proof (cases rule: read_events_Inr)
    case (1 ms ms' c)
    show ?thesis
    proof (cases "?l < length ?rows")
      case True
      let ?p = "ev_position (last (take ?l ?rows))"
      let ?sel = "sel \<lparr> sel_from := None, sel_after := Some (ids (Suc k)) \<rparr>"
      let ?c1 = "cursor_at (ids k) who source subject ?p t ?l Resume ms"
      let ?c2 = "cursor_at (ids (Suc k)) who source subject ?p t ?l NextPage ms'"
      have now: "ms' = now" using 1(6) True Suc.prems(6) by (simp add: owner_now_def draws_def)
      have s1: "s1 = s \<lparr> st_cursors := st_cursors s @ [?c1, ?c2] \<rparr>" using 1(5,6) True by (simp add: draws_def)
      have "List.find (\<lambda>c. cu_token c = ids (Suc k)) (st_cursors s @ [?c1, ?c2]) = Some ?c2"
        using fresh_idsD(3) [OF Suc.prems(7), of 1] fresh_idsD(5) [OF Suc.prems(7), of 0 1]
        by (subst find_beyond) (auto simp: cursor_at_def image_iff)
      then have w: "event_window (draws ids (k + 2) now) who source subject ?sel s1 = Inr (?p, t, 1)"
        using Suc.prems(6) now
        by (simp add: event_window_def s1 cursor_at_def owner_now_def draws_def minimum_cursor_seconds_def)
      have rest: "event_rows s1 subject ?p t = drop ?l ?rows"
        using rows_rest [OF Suc.prems(2,8) True] by (simp add: s1)
      have fr: "fresh_ids s1 (\<lambda>j. ids (k + 2 + j))"
      proof -
        have "fresh_ids s (\<lambda>j. ids (k + (2 + j)))" by (rule fresh_ids_shift [OF Suc.prems(7)])
        moreover have "ids (k + (2 + j)) \<noteq> ids (k + 0)" "ids (k + (2 + j)) \<noteq> ids (k + 1)" for j
          using fresh_idsD(5) [OF Suc.prems(7), of "2 + j" 0] fresh_idsD(5) [OF Suc.prems(7), of "2 + j" 1] by simp_all
        ultimately show ?thesis by (simp add: fresh_ids_def s1 cursor_at_def add.assoc)
      qed
      have "\<exists>s'. drain n ids (k + 2) now who source subject ?sel s1 =
          Inr (map (\<lambda>e. obj_spread (ev_body e) [(js ''source'', JStr source)]) (event_rows s1 subject ?p t), s')"
      proof (rule Suc.IH [OF w _ _ _ _ Suc.prems(6) fr])
        show "events_ok s1" "boundaries_ok s1" "t \<le> length (st_events s1)" "subject = [] \<or> has_identity s1 subject"
          using Suc.prems(2-5) by (simp_all add: s1 events_ok_def boundaries_ok_def has_identity_def del: upt_Suc)
        show "length (event_rows s1 subject ?p t) < n" using Suc.prems(8,9) True by (simp add: rest)
      qed (use Suc.prems(8) in simp)
      then show ?thesis
        using r 1(2,4) True by (auto simp: rest draws_def simp flip: map_append)
    next
      case False
      then show ?thesis using r 1(2,4) by simp
    qed
  qed
qed simp


text \<open>C9: paging ends and delivers everything: a client that starts without a cursor and follows the next
  pages, before the cursors expire, ends after at most one page more than there are events, and it has
  received exactly the selected events of its interval, each once, in the order of their positions.\<close>

theorem paging_complete:
  assumes "owner_ok ow" "reachable ow ss" "fresh_ids (ss_store ss) ids" "now \<le> 8640000000000000" "0 < sel_limit sel"
    "sel_after sel = None" "subject = [] \<or> has_identity (ss_store ss) subject"
  shows "(let rows = event_rows (ss_store ss) subject (if sel_from sel = Some FromNow then head (ss_store ss) else 0) (head (ss_store ss)) in
    \<exists>s'. drain (Suc (length rows)) ids 0 now who source subject sel (ss_store ss) =
      Inr (map (\<lambda>e. obj_spread (ev_body e) [(js ''source'', JStr source)]) rows, s'))"
proof -
  note base = base_invD [OF reachable_base [OF assms(1,2)]]
  have w: "event_window (draws ids 0 now) who source subject sel (ss_store ss) =
      Inr (if sel_from sel = Some FromNow then head (ss_store ss) else 0, head (ss_store ss), 0)"
    using assms(6) by (simp add: event_window_def)
  show ?thesis unfolding Let_def
    by (rule drain_rows [OF w base(5,6) _ assms(7,4) _ assms(5)])
      (use head_length [OF base(5)] assms(3) in simp_all)
qed

theorem paging_complete_witness:
  "\<exists>e s'. drain 2 (su_ids (example_supply 5)) 0 0 (js ''p'') (js ''http://h/.e'') [] example_selection (ss_store example_session) =
      Inr ([e], s')"
proof -
  have f: "fresh_ids (ss_store example_session) (su_ids (example_supply 5))" using example_next_fresh by (simp add: fresh_def)
  obtain e where "st_events (ss_store example_session) = [e]"
    using example_rows(2) by (metis One_nat_def length_0_conv length_Suc_conv)
  then show ?thesis
    using paging_complete [OF example_owner_ok example_reachable(2) f, of 0 example_selection "[]" "js ''p''" "js ''http://h/.e''"]
      example_rows(1) example_at(1)
    by (simp add: example_selection_def numeral_2_eq_2 Let_def del: drain.simps) blast
qed


section \<open>Listings\<close>

definition listed :: "resource_kind \<Rightarrow> store \<Rightarrow> resource_state list" where
  "listed kind s = map snd (sort_key fst (filter (\<lambda>(i, st). map_of (st_identities s) i = Some kind) (st_resources s)))"

lemma list_fold:
  "b \<le> 32 * 1024 * 1024 \<Longrightarrow> foldR list_turn sts (b, vs) =
     (if b + sum_list (map resource_bytes sts) \<le> 32 * 1024 * 1024
      then Inr (b + sum_list (map resource_bytes sts), vs @ map resource_json sts) else Inl limit_exceeded)"
proof (induction sts arbitrary: b vs)
  case (Cons st sts)
  then show ?case by (cases "b + resource_bytes st \<le> 32 * 1024 * 1024") (auto simp: list_turn_def Let_def add.assoc)
qed simp

lemma listed_states:
  assumes "resources_ok s"
  shows "set (listed kind s) = {st. \<exists>i. currentState s i (Some kind) = Some st}"
    "sorted (map (bead_id \<circ> state_resource) (listed kind s))" "distinct (map (bead_id \<circ> state_resource) (listed kind s))"
proof -
  have t: "table_ok (st_resources s)" using assms by (simp add: resources_ok_def)
  have mem: "(i, st) \<in> set (st_resources s) \<longleftrightarrow> map_of (st_resources s) i = Some st" for i st
    using t by (simp add: table_ok_def)
  have own: "bead_id (state_resource st) = i" if "(i, st) \<in> set (st_resources s)" for i st
    using that assms by (simp add: mem resources_ok_def)
  let ?rows = "sort_key fst (filter (\<lambda>(i, st). map_of (st_identities s) i = Some kind) (st_resources s))"
  have ids: "map (bead_id \<circ> state_resource) (listed kind s) = map fst ?rows"
    using own by (auto simp: listed_def)
  show "sorted (map (bead_id \<circ> state_resource) (listed kind s))" unfolding ids by simp
  have "distinct (map fst (filter (\<lambda>(i, st). map_of (st_identities s) i = Some kind) (st_resources s)))"
    using t by (simp add: table_ok_def distinct_map_filter)
  then show "distinct (map (bead_id \<circ> state_resource) (listed kind s))"
    unfolding ids by (simp add: distinct_map)
  show "set (listed kind s) = {st. \<exists>i. currentState s i (Some kind) = Some st}"
    by (force simp: listed_def currentState_def mem split: option.splits)
qed

text \<open>C26: a listing is exact and bounded: it answers every live resource of the kind once, in the order of
  the ids, when their texts have at most 32 MiB together, and otherwise it fails with 413.\<close>

theorem listing_exact:
  assumes "owner_ok ow" "reachable ow ss"
  shows "listRecords kind (ss_store ss) =
      (if sum_list (map resource_bytes (listed kind (ss_store ss))) \<le> 32 * 1024 * 1024
       then Inr (map resource_json (listed kind (ss_store ss))) else Inl limit_exceeded) \<and>
    set (listed kind (ss_store ss)) = {st. \<exists>i. currentState (ss_store ss) i (Some kind) = Some st} \<and>
    sorted (map (bead_id \<circ> state_resource) (listed kind (ss_store ss))) \<and>
    distinct (map (bead_id \<circ> state_resource) (listed kind (ss_store ss)))"
  using listed_states [OF base_invD(1) [OF reachable_base [OF assms]]]
  by (simp add: listRecords_def list_fold listed_def [symmetric])

theorem listing_exact_witness:
  "listRecords KBead (ss_store example_session) = Inr [resource_json (BeadState example_bead)] \<and>
   listRecords KLink (ss_store example_session) = Inr []"
proof -
  have l: "listed KBead (ss_store example_session) = [BeadState example_bead]" "listed KLink (ss_store example_session) = []"
    by (simp_all add: listed_def example_tables)
  have "resource_bytes (BeadState example_bead) \<le> 32 * 1024 * 1024"
    unfolding resource_bytes_def by (rule serialized_bound) (simp add: example_bead bead_fields_def)
  then show ?thesis using listing_exact [OF example_owner_ok example_reachable(2)] by (simp add: l)
qed

end
