(* ===== verification/Batch_Properties.thy ===== *)
theory Batch_Properties
  imports Store_Reads
begin

text \<open>
  The properties of batches: a batch is a sequence of ordinary steps that is committed as a whole or not at
  all, its facts are one group of consecutive positions, and a retry of it repeats its outcome.
\<close>

section \<open>The working graph\<close>

definition working_graph :: "store \<Rightarrow> graph \<Rightarrow> abstract_graph" where
  "working_graph s g = \<lparr> g_kind = (\<lambda>u. case map_of (gr_allocated g) u of Some k \<Rightarrow> Some k | None \<Rightarrow> map_of (st_identities s) u),
     g_state = map_of (gr_live g), g_alias = map_of (st_aliases s) \<rparr>"

lemma working_simps [simp]:
  "g_kind (working_graph s g) u = (case map_of (gr_allocated g) u of Some k \<Rightarrow> Some k | None \<Rightarrow> map_of (st_identities s) u)"
  "g_state (working_graph s g) = map_of (gr_live g)" "g_alias (working_graph s g) = map_of (st_aliases s)"
  by (simp_all add: working_graph_def)

lemma endpoints_live_working: "endpoints_live ow (working_graph s g) st \<longleftrightarrow> endpoints_in (ow_scope ow) (gr_live g) st"
proof -
  have "graph_bead (gr_live g) u \<longleftrightarrow> (\<exists>b. map_of (gr_live g) u = Some (BeadState b))" for u
  proof (cases "map_of (gr_live g) u")
    case (Some x)
    then show ?thesis by (cases x) (auto simp: graph_bead_def)
  qed (simp add: graph_bead_def)
  then show ?thesis by (auto simp: endpoints_live_def endpoints_in_def list_ex_iff)
qed

text \<open>A staged member is one step of the abstract graph.\<close>

lemma staged_step:
  assumes "staged_to env (owner_canonical ow) operation g u g1" "graph_inv env (owner_canonical ow) g"
    "env = batch_env_of ow su t s" "base_inv ow s"
  shows "graph_step ow (working_graph s g) (working_graph s g1)"
proof -
  note i = base_invD [OF assms(4)]
  have env: "bv_initial env = st_resources s" "bv_scope env = ow_scope ow" "bv_taken env = has_identity s"
    "bv_aliasTaken env = has_alias s" "bv_reserved env = isReserved ow"
    by (simp_all add: assms(3) batch_env_of_def batch_initial_same [OF i(1)])
  have kind: "g_kind (working_graph s g) v = Some k" if "kind_at env g v = Some k" for v k
    using that i(1) by (auto simp: kind_at_def env resources_ok_def split: option.splits)
  have live: "kind_at env g v = Some (state_kind st)" if "map_of (gr_live g) v = Some st" for v st
    using that assms(2) by (auto simp: graph_inv_def)
  from assms(1) show ?thesis
  proof cases
    case (allocates st n)
    have "map_of (gr_allocated g) u = None"
      using assms(2) allocates(2) by (auto simp: graph_inv_def allocated_free_def free_def blocked_def map_of_eq_None_iff)
    then have "g_kind (working_graph s g) u = None" "g_alias (working_graph s g) u = None" "\<not> isReserved ow u"
      using allocates(2) by (simp_all add: free_def blocked_def env has_identity_def has_alias_def)
    note step = graph_step.create [OF allocates(5) this allocates(3), unfolded endpoints_live_working, OF allocates(6) [unfolded env]]
    have "working_graph s g1 = working_graph s g
        \<lparr> g_kind := (g_kind (working_graph s g))(u \<mapsto> state_kind st), g_state := (g_state (working_graph s g))(u \<mapsto> st) \<rparr>"
      by (intro graph_eqI) (auto simp: allocates(1,4) rows.find_put fun_eq_iff)
    then show ?thesis using step by simp
  next
    case (replaces former st)
    have "g_kind (working_graph s g) u = Some (state_kind st)"
      using kind [OF live [OF replaces(2)]] replaces(3,4) by simp
    note step = graph_step.update [OF replaces(5) this, unfolded endpoints_live_working, OF replaces(6) [unfolded env]]
    have "working_graph s g1 = working_graph s g \<lparr> g_state := (g_state (working_graph s g))(u \<mapsto> st) \<rparr>"
      by (intro graph_eqI) (auto simp: replaces(1) rows.find_put fun_eq_iff)
    then show ?thesis using step by simp
  next
    case (removes former)
    have t: "table_ok (gr_live g)" using assms(2) by (simp add: graph_inv_def live_ok_def)
    have "state_kind former = KBead \<longrightarrow> \<not> links_to (working_graph s g) u"
      using removes(4) by (simp add: links_to_def graph_incident_iff [OF t])
    note step = graph_step.remove [of "working_graph s g" u former ow, OF _ this]
    have "working_graph s g1 = working_graph s g \<lparr> g_state := (g_state (working_graph s g))(u := None) \<rparr>"
      by (intro graph_eqI) (auto simp: removes(1) rows.find_drop [OF t] fun_eq_iff)
    then show ?thesis using step removes(2) by simp
  qed
qed

lemma working_marked: "marks operation u g g' \<Longrightarrow> working_graph s g' = working_graph s g"
  by (simp add: marks_def working_graph_def)


lemma evaluate_members_steps:
  assumes "evaluate_members env index ms g = Inr (Inr g')" "graph_inv env (owner_canonical ow) g"
    "env = batch_env_of ow su t s" "env_ok env (owner_canonical ow)" "base_inv ow s"
    "\<forall>(m, c) \<in> set ms. member_canonical (owner_canonical ow) m"
  shows "(graph_step ow ^^ length ms) (working_graph s g) (working_graph s g')"
  using assms(1,2,6)
proof (induction ms arbitrary: index g)
  case (Cons x ms)
  obtain m c where x: "x = (m, c)" by (cases x)
  with Cons.prems(1) obtain g1 where g1: "evaluate_member env index m c g = Inr (Inr g1)"
    "evaluate_members env (Suc index) ms g1 = Inr (Inr g')" by (auto simp: bindS_Inr)
  have m: "member_canonical (owner_canonical ow) m" using Cons.prems(3) x by simp
  have "live_ok (bv_scope env) (gr_live g)" using Cons.prems(2) by (simp add: graph_inv_def)
  from evaluate_member_staged [OF g1(1) this assms(4) m] obtain u g0 where
    s: "staged_to env (owner_canonical ow) (bm_operation m) g u g0" "marks (bm_operation m) u g0 g1" .
  have "graph_step ow (working_graph s g) (working_graph s g1)"
    using staged_step [OF s(1) Cons.prems(2) assms(3,5)] working_marked [OF s(2)] by simp
  moreover have "(graph_step ow ^^ length ms) (working_graph s g1) (working_graph s g')"
    using Cons.IH [OF g1(2) evaluate_member_inv [OF g1(1) Cons.prems(2) assms(4) m]] Cons.prems(3) by simp
  ultimately show ?case unfolding list.size(4) add_Suc_right add_0_right by (rule relpowp_Suc_I2)
qed simp

lemma compare_members_length: "compare_members lookup prior created ms = Inr cs \<Longrightarrow> length cs = length ms"
  by (induction ms arbitrary: created cs) auto

section \<open>The committed batch\<close>

text \<open>A stored graph agrees with a working graph up to the revisions and the values that compare equal.\<close>

definition published_as :: "abstract_graph \<Rightarrow> abstract_graph \<Rightarrow> bool" where
  "published_as stored working \<longleftrightarrow> g_kind stored = g_kind working \<and> g_alias stored = g_alias working \<and>
     (\<forall>u. rel_option same_state (g_state stored u) (g_state working u))"

lemma write_facts_graph: "write_facts ow tokens fs s = Inr (ps, s') \<Longrightarrow> graph_of s' = graph_of s"
proof (induction fs arbitrary: tokens s ps)
  case (Cons f fs)
  from Cons.prems obtain p s1 qs where w: "write_fact ow (tokens 0) f s = Inr (p, s1)"
    "write_facts ow (\<lambda>k. tokens (Suc k)) fs s1 = Inr (qs, s')" by auto
  have "graph_of s1 = graph_of s"
    using w(1) by (auto simp: write_fact_def Let_def row_laws fold_incidence graph_of_def split: if_splits)
  then show ?case using Cons.IH [OF w(2)] by simp
qed simp

lemma written_graph:
  assumes "write_evaluation en s = Inr s1" "evaluate_store ow su input cmp s = Inr en" "base_inv ow s" "\<not> ow_historical ow"
    "\<And>k. su_ids su k \<noteq> [] \<and> owner_canonical ow (ow_scope ow @ su_ids su k)" "\<forall>m \<in> set (pb_members input). member_canonical (owner_canonical ow) m"
    "length (bc_members cmp) = length (pb_members input)" "graph_of s1 \<noteq> graph_of s"
  shows "\<exists>g. (graph_step ow ^^ length (pb_members input)) (graph_of s) g \<and> published_as (graph_of s1) g"
proof -
  have c: "en_status en = 200" "en_allocations en \<noteq> [] \<or> en_rows en \<noteq> []"
    using assms(1,8) by (auto simp: write_evaluation_def split: if_splits)
  note i = base_invD [OF assms(3)]
  from c obtain ms where e: "evaluateBatch (batch_env_of ow su (iso_time ms) s) input cmp = Inr en"
    using assms(2) by (auto simp: evaluate_store_def failed_evaluation_def split: if_splits)
  let ?env = "batch_env_of ow su (iso_time ms) s"
  note env = batch_env_ok [OF assms(3,5), of "iso_time ms"]
  from c assms(1) obtain s0 where w: "foldR write_allocation (en_allocations en) s = Inr s0" "foldR write_row (en_rows en) s0 = Inr s1"
    by (auto simp: write_evaluation_def)
  from e env assms(6) show ?thesis
  proof (cases rule: evaluateBatch_cases)
    case refused
    then show ?thesis using c by simp
  next
    case (result g rs es n)
    have ev: "evaluated_ok ow ?env g rs es" using result(1,2) by (simp add: evaluated_ok_def)
    have ini: "bv_initial ?env = st_resources s" by (simp add: batch_env_of_def batch_initial_same [OF i(1)])
    have d: "distinct (map fst (gr_allocated g))" using result(1) by (simp add: graph_inv_def allocated_free_def table_ok_def)
    note w0 = write_allocations_Inr [OF w(1) [unfolded result(4)] d]
    then have r0: "st_resources s0 = st_resources s" by (metis store.select_convs(2) store.surjective store.update_convs(1))
    have t: "table_ok (st_resources s)" using i(1) by (simp add: resources_ok_def)
    note state = written_state [OF ev ini t w(2) [unfolded result(5)] r0]
    note base = written_base [OF assms(3,4) ev refl w [unfolded result(4,5)]]
    have frame: "st_aliases s1 = st_aliases s" by (subst base [THEN conjunct2, THEN conjunct1]) simp
    have ids: "st_identities s1 = st_identities s0"
    proof -
      have "s1 = s0 \<lparr> st_resources := st_resources s1 \<rparr>"
        using write_rows_Inr [OF w(2) [unfolded result(5)] _ rows_distinct(1) [OF ev]] t r0 by auto
      then show ?thesis by (metis store.select_convs(1) store.surjective store.update_convs(2))
    qed
    have "(graph_step ow ^^ length (zip (pb_members input) (bc_members cmp)))
        (working_graph s (initial_graph ?env)) (working_graph s g)"
      by (rule evaluate_members_steps [OF result(7) graph_inv_initial [OF env] refl env assms(3)])
        (use assms(6) in \<open>auto dest: set_zip_leftD\<close>)
    moreover have "working_graph s (initial_graph ?env) = graph_of s"
      by (intro graph_eqI) (simp_all add: initial_graph_def ini fun_eq_iff)
    moreover have "published_as (graph_of s1) (working_graph s g)"
      using state w0 by (simp add: published_as_def frame ids fun_eq_iff)
    ultimately show ?thesis using assms(7) by auto
  qed
qed


lemma refused_effects:
  assumes "evaluate_store ow su input cmp s = Inr en" "en_status en \<noteq> 200"
  shows "en_effects en = []"
proof -
  have "(\<exists>b. en = refused_evaluation b) \<or> (\<exists>c n. en = failed_evaluation c n) \<or> (\<exists>env g final. en = finish_batch env g final)"
  proof (cases "\<exists>c n. en = failed_evaluation c n")
    case False
    then obtain env where "evaluateBatch env input cmp = Inr en"
      using assms(1) by (auto simp: evaluate_store_def split: if_splits)
    then obtain x where x: "evaluated env input cmp = Inr x"
      "(case x of Inl b \<Rightarrow> Inr (refused_evaluation b) | Inr (g, final) \<Rightarrow> Inr (finish_batch env g final)) = (Inr en :: evaluation result)"
      by (auto simp: evaluateBatch_def)
    then show ?thesis by (cases x) (clarsimp split: prod.splits; blast)+
  qed simp
  then show ?thesis
    using assms(2) by (auto simp: refused_evaluation_def failed_evaluation_def finish_batch_def Let_def split: if_splits)
qed

text \<open>The bound on facts either keeps the evaluation or fails the batch.\<close>

lemma perform_batch_parts:
  assumes "perform_batch ow su input cmp s = Inr (r, ps, s')"
  obtains en fs s1 where "evaluate_store ow su input cmp s = Inr en \<or> en = failed_evaluation ''limit-exceeded'' 413"
    "r = (en_status en, en_text en)" "en_status en \<noteq> 200 \<longrightarrow> fs = []"
    "write_evaluation en s = Inr s1" "\<exists>tokens. write_facts ow tokens fs s1 = Inr (ps, s')"
proof -
  from assms obtain en0 fs0 where e: "evaluate_store ow su input cmp s = Inr en0"
    "batch_facts ow su en0 0 (en_effects en0) = Inr fs0" by (auto simp: perform_batch_def)
  obtain en fs where b: "bounded_facts en0 fs0 = (en, fs)" by (cases "bounded_facts en0 fs0")
  from assms e b obtain s1 where s1: "r = (en_status en, en_text en)" "write_evaluation en s = Inr s1"
    "write_facts ow (\<lambda>k. su_ids su (en_next en0 + length (en_effects en0) + k)) fs s1 = Inr (ps, s')"
    by (auto simp: perform_batch_def split: if_splits)
  have "fs = []" if "en_status en \<noteq> 200"
    using b e(2) refused_effects [OF e(1)] that by (auto simp: bounded_facts_def split: if_splits)
  with that [OF _ s1(1) _ s1(2)] s1(3) e(1) b show ?thesis
    by (force simp: bounded_facts_def split: if_splits)
qed

section \<open>An example\<close>

text \<open>The batch of one creation, sent to the example owner with the batch capability.\<close>

definition example_batcher :: owner where
  "example_batcher = example_owner \<lparr> ow_batch := True \<rparr>"

definition example_member :: prepared_create where
  "example_member = example_prepared
     \<lparr> pc_captured := \<lparr> cap_names = [], cap_references = [], cap_identityFor = (\<lambda>_. Inr (js ''i'')) \<rparr> \<rparr>"

definition example_batch :: prepared_batch where
  "example_batch = \<lparr> pb_scope = js ''http://h/'', pb_key = js ''k'', pb_identity = [], pb_version = js ''1'',
     pb_members = [\<lparr> bm_operation = CreateBead, bm_name = None, bm_handles = [], bm_invocation = ICreate example_member \<rparr>] \<rparr>"

lemma example_fields:
  "pc_id example_member = Some (js ''http://h/a'')" "pc_type example_member = JStr (js ''http://h/t'')"
  "pc_properties example_member = []" "pc_metadata example_member = []" "pc_provenance example_member = None"
  "pc_refusal example_member = None"
  using example_prepared(4) by (simp_all add: create_bead_fields_def example_member_def)

lemma example_batcher:
  "owner_ok example_batcher" "fresh example_batcher s su = fresh example_owner s su" "batch_canonical example_batcher example_batch"
  "reachable example_batcher example_empty" "ow_batch example_batcher"
proof -
  show "owner_ok example_batcher" using example_owner_ok by (simp add: owner_ok_def example_batcher_def example_owner_def)
  show "fresh example_batcher s su = fresh example_owner s su" by (simp add: fresh_def example_batcher_def)
  show "batch_canonical example_batcher example_batch"
    using example_canonical example_fields(1)
    by (simp add: batch_canonical_def example_batch_def example_batcher_def member_canonical_def)
  show "reachable example_batcher example_empty" unfolding example_empty_def by (rule reachable.provisioned)
  show "ow_batch example_batcher" by (simp add: example_batcher_def)
qed

text \<open>The evaluation: one created row over the empty graph.\<close>

definition example_env :: batch_env where
  "example_env = batch_env_of example_batcher example_draws (iso_time 0) (new_store (js ''b''))"

definition example_staged :: graph where
  "example_staged = (let u = js ''http://h/a'' in \<lparr> gr_live = [(u, BeadState (unpublished u (mf_edit (member_fields_of (ICreate example_member)))))],
     gr_allocated = [(u, KBead)], gr_touched = [(u, KBead)],
     gr_mappings = [\<lparr> mp_index = 0, mp_operation = CreateBead, mp_id = u, mp_name = None \<rparr>], gr_provenance = [], gr_seen = [u], gr_next = 0 \<rparr>)"

definition example_published :: resource_state where
  "example_published = BeadState \<lparr> bead_id = js ''http://h/a'', bead_type = JStr (js ''http://h/t''), bead_revision = js ''ii'',
     bead_properties = [], bead_metadata = [], bead_provenance = None \<rparr>"

definition example_row :: batch_row where
  "example_row = \<lparr> br_id = js ''http://h/a'', br_kind = KBead, br_outcome = Created, br_changed = True,
     br_resource = Some example_published, br_deleted = None \<rparr>"

lemma example_env_simps:
  "bv_initial example_env = []" "bv_scope example_env = js ''http://h/''" "bv_ids example_env = su_ids example_draws"
  "\<not> bv_taken example_env u" "\<not> bv_aliasTaken example_env u" "\<not> bv_reserved example_env (js ''http://h/a'')"
  using example_reserved
  by (simp_all add: example_env_def batch_env_of_def batch_initial_def new_store_def has_identity_def has_alias_def
      example_batcher_def isReserved_def) (simp_all add: example_owner_def example_nav_def)

lemma example_evaluated_members:
  "evaluate_members example_env 0 (zip (pb_members example_batch) [c]) (initial_graph example_env) = Inr (Inr example_staged)"
  by (simp add: example_batch_def evaluate_member_def example_fields creating_def stage_create_def member_id_def
      initial_graph_def example_env_simps created_endpoints_def operation_kind_def state_with_def endpoints_checked_def
      endpointFailure_def mark_member_def bindS_def example_staged_def Let_def)

lemma example_final_rows:
  "final_rows example_env example_staged (sort_key fst (gr_touched example_staged)) (gr_next example_staged) =
     Inr (Inr ([example_row], [\<lparr> be_before = None, be_after = Some example_published \<rparr>], 1))"
  by (simp add: example_staged_def Let_def final_row_def example_env_simps conflicting_def published_row_def published_def
      example_fields unpublished_def no_edit_def materializeBead_def example_row_def example_published_def bindS_def
      example_draws_def example_supply_def js_def numeral_2_eq_2)

definition example_tx :: jstring where
  "example_tx = su_ids example_draws 1"

lemma example_finished:
  "finish_batch example_env example_staged ([example_row], [\<lparr> be_before = None, be_after = Some example_published \<rparr>], 1) =
     \<lparr> en_status = 200, en_text = serialized (batch_result True (Some example_tx) (gr_mappings example_staged) [example_row]),
       en_allocations = [(js ''http://h/a'', KBead)], en_rows = [example_row],
       en_effects = [\<lparr> be_before = None, be_after = Some example_published \<rparr>], en_transaction = Some example_tx, en_next = 2 \<rparr>"
proof -
  have zero: "number_text (normal_decimal 0 0) = js ''0''" by code_simp
  have "byte_length (serialized (batch_result True (Some example_tx) (gr_mappings example_staged) [example_row])) \<le> maximumResultBytes"
    by (rule serialized_bound)
      (simp add: zero batch_result_def example_staged_def example_row_def example_published_def row_json_def mapping_json_def json_nat_def
        bead_fields_def example_tx_def example_draws_def example_supply_def maximumResultBytes_def numeral_2_eq_2 Let_def)
  then show ?thesis
    by (simp add: finish_batch_def Let_def example_env_simps example_tx_def) (simp add: example_row_def example_staged_def Let_def)
qed

lemma example_compared_batch:
  "\<exists>cmp. compareBatch example_batch lookup None = Inr cmp \<and> length (bc_members cmp) = 1"
proof -
  let ?c = "\<lparr> cmp_identity = js ''i'', cmp_references = [], cmp_witnesses = [] \<rparr>"
  have "compare_members lookup None [] (pb_members example_batch) = Inr [?c]"
    by (simp add: example_batch_def compare_member_def fixed_slots_def map_filter_simps example_member_def
        compareCapturedReferences_def resolveAliasReferences_def ordinary_references_def original_witnesses_def semanticSlots_def
        initial_witnesses_def merged_witnesses_def Let_def)
  moreover have "\<exists>i. identityFor (js ''http://h/'') (pb_members example_batch) [js ''i''] = Inr i"
  proof -
    have "map2 memberIdentity (pb_members example_batch) [js ''i''] = [JObj [(js ''operation'', JStr (js ''createBead'')),
        (js ''identity'', JStr (js ''i'')), (js ''handles'', JObj [])]]"
      by (simp add: memberIdentity_def example_batch_def)
    moreover have "sem_ok (JObj [(js ''format'', JStr (js ''retained-v01-batch-1'')), (js ''specification'', JStr RETAINED_SPEC),
      (js ''media'', JStr RETAINED_MEDIA), (js ''capabilities'', JObj [(BATCH_CAPABILITY, JStr (js ''1''))]),
      (js ''scope'', JStr (js ''http://h/'')), (js ''operation'', JStr (js ''batch'')),
      (js ''input'', JArr [JObj [(js ''operation'', JStr (js ''createBead'')), (js ''identity'', JStr (js ''i'')), (js ''handles'', JObj [])]])])"
      by code_simp
    ultimately show ?thesis unfolding identityFor_def by (simp add: encodeSemanticValue_text del: json_ok.simps)
  qed
  ultimately show ?thesis by (auto simp: compareBatch_def) (simp add: example_batch_def)
qed

definition example_batch_fact :: json_object where
  "example_batch_fact = (case lifecycleFact VCreate example_published (nav_events example_nav) (su_ids example_draws 2)
     example_tx (iso_time 0) None of Inr f \<Rightarrow> f)"

definition example_evaluation :: evaluation where
  "example_evaluation = finish_batch example_env example_staged ([example_row], [\<lparr> be_before = None, be_after = Some example_published \<rparr>], 1)"

lemma example_evaluation:
  "en_status example_evaluation = 200" "en_allocations example_evaluation = [(js ''http://h/a'', KBead)]"
  "en_rows example_evaluation = [example_row]" "en_effects example_evaluation = [\<lparr> be_before = None, be_after = Some example_published \<rparr>]"
  "en_transaction example_evaluation = Some example_tx" "en_next example_evaluation = 2"
  unfolding example_evaluation_def example_finished by simp_all

lemma example_now: "owner_now example_draws k = Inr 0"
  by (simp add: owner_now_def example_draws_def example_supply_def)

lemma example_batch_facts:
  "batch_facts example_batcher example_draws example_evaluation 0 (en_effects example_evaluation) =
     Inr [(\<lparr> be_before = None, be_after = Some example_published \<rparr>, example_batch_fact)]"
  "byte_length (serialized (JObj example_batch_fact)) \<le> 300000"
proof -
  have f: "lifecycleFact VCreate example_published (nav_events example_nav) (su_ids example_draws 2)
     example_tx (iso_time 0) None = Inr example_batch_fact"
    by (simp add: example_batch_fact_def lifecycleFact_def)
  then show "batch_facts example_batcher example_draws example_evaluation 0 (en_effects example_evaluation) =
     Inr [(\<lparr> be_before = None, be_after = Some example_published \<rparr>, example_batch_fact)]"
    by (simp add: example_evaluation batch_fact_def effect_verb_def effect_state_def example_now example_batcher_def example_owner_def)
  show "byte_length (serialized (JObj example_batch_fact)) \<le> 300000"
    by (rule serialized_bound)
      (simp add: example_batch_fact_def lifecycleFact_def fact_effect_def fact_operation_def example_published_def bead_fields_def
        example_nav_def example_draws_def example_supply_def example_tx_def example_time numeral_2_eq_2 Let_def)
qed

lemma example_evaluated:
  assumes "length (bc_members cmp) = 1"
  shows "evaluate_store example_batcher example_draws example_batch cmp (new_store (js ''b'')) = Inr example_evaluation"
proof -
  obtain c where c: "bc_members cmp = [c]" using assms by (auto simp: length_Suc_conv)
  have "evaluateBatch example_env example_batch cmp = Inr example_evaluation"
    unfolding evaluateBatch_def evaluated_def c example_evaluated_members bindS_def
    by (simp add: example_final_rows [unfolded One_nat_def] example_evaluation_def)
  then show ?thesis
    by (simp add: evaluate_store_def example_env_def [symmetric] example_now)
      (simp add: example_batch_def batch_initial_def new_store_def maximumOperations_def)
qed

definition example_batched :: store where
  "example_batched = new_store (js ''b'') \<lparr> st_identities := [(js ''http://h/a'', KBead)],
     st_resources := [(js ''http://h/a'', example_published)],
     st_events := [\<lparr> ev_position = 1, ev_subject = js ''http://h/a'', ev_body = example_batch_fact \<rparr>],
     st_boundaries := [(0, js ''b''), (1, su_ids example_draws 3)] \<rparr>"

lemma example_batch_performed:
  assumes "length (bc_members cmp) = 1"
  shows "perform_batch example_batcher example_draws example_batch cmp (new_store (js ''b'')) =
    Inr ((200, en_text example_evaluation), [1], example_batched)"
proof -
  let ?s = "new_store (js ''b'')" and ?u = "js ''http://h/a''"
  let ?s1 = "?s \<lparr> st_identities := [(?u, KBead)], st_resources := [(?u, example_published)] \<rparr>"
  have w: "write_evaluation example_evaluation ?s = Inr ?s1"
    by (simp add: write_evaluation_def example_evaluation write_allocation_def write_row_def example_row_def
        row_laws upsert_resource_def has_identity_def new_store_def)
  have t: "su_ids example_draws 3 \<noteq> js ''b''" by (simp add: example_draws_def example_supply_def js_def numeral_3_eq_3)
  have f: "write_fact example_batcher (su_ids example_draws 3) (\<lparr> be_before = None, be_after = Some example_published \<rparr>, example_batch_fact) ?s1 =
     Inr (1, example_batched)"
    using t by (simp add: write_fact_def Let_def row_laws head_def event_at_def has_identity_def new_store_def effect_state_def
        example_published_def incidentBeads_def first_occurrences_def max_safe_def example_batched_def)
  show ?thesis
    using example_evaluated [OF assms] example_batch_facts w f
    by (simp add: perform_batch_def bounded_facts_def example_evaluation not_less max_safe_def new_store_def)
qed

lemma example_batch_turn:
  "\<exists>c. applyBatch example_batcher example_draws (js ''p'') example_batch (new_store (js ''b'')) =
     Inr ((200, en_text example_evaluation), recorded example_batcher c [1] example_batched) \<and> oc_decision c = 1"
proof -
  let ?s = "new_store (js ''b'')"
  obtain cmp where c: "compareBatch example_batch (aliasLookup example_batcher ?s) None = Inr cmp" "length (bc_members cmp) = 1"
    using example_compared_batch by blast
  have "record_batch (js ''p'') (pb_key example_batch) cmp ((200, en_text example_evaluation), [1], example_batched) =
      Inr ((200, en_text example_evaluation),
        recorded example_batcher (batch_outcome example_batched (js ''p'') (pb_key example_batch) cmp (200, en_text example_evaluation) [1]) [1] example_batched)"
    by (simp add: record_batch_def row_laws batch_outcome_def recorded_def example_batched_def new_store_def event_at_def example_batcher)
  moreover have "pb_scope example_batch = ow_scope example_batcher" "pb_version example_batch = js ''1''"
    by (simp_all add: example_batch_def example_batcher_def example_owner_def example_nav_def)
  moreover have "find_outcome ?s who key = None" for who key by (simp add: find_outcome_def new_store_def)
  moreover have "js ''p'' \<noteq> []" by (simp add: js_def)
  moreover have "st_decisions example_batched = 0" by (simp add: example_batched_def new_store_def)
  ultimately show ?thesis
    using c example_batch_performed [OF c(2)] example_batcher(5)
    by (auto simp: applyBatch_def batch_outcome_def)
qed

lemma example_batch_result:
  assumes "applyBatch example_batcher example_draws (js ''p'') example_batch (new_store (js ''b'')) = Inr (r, s')"
  shows "r = (200, en_text example_evaluation)" "\<exists>c. s' = recorded example_batcher c [1] example_batched \<and> oc_decision c = 1"
  using assms example_batch_turn by auto

section \<open>Properties\<close>



text \<open>C25: a decided batch is one decision: it takes the next decision number whatever its outcome, its facts
  are exactly the positions from the first free one on, in order and without a gap, and they are
  retained as one group under the decision, with the first of them as the position of the outcome.\<close>

theorem batch_grouped:
  assumes "owner_ok ow" "reachable ow ss" "fresh ow (ss_store ss) su" "batch_canonical ow p"
    "applyBatch ow su who p (ss_store ss) = Inr (r, s')" "find_outcome (ss_store ss) who (pb_key p) = None"
    "ow_batch ow" "pb_version p = js ''1''"
  shows "st_decisions s' = Suc (st_decisions (ss_store ss)) \<and>
    st_facts s' = st_facts (ss_store ss) @ map (Pair (st_decisions s')) [Suc (head (ss_store ss))..<Suc (head s')] \<and>
    (\<exists>o'. find_outcome s' who (pb_key p) = Some o' \<and> oc_decision o' = st_decisions s' \<and> oc_operation o' = Batch \<and>
      (oc_status o', oc_body o') = r \<and>
      oc_position o' = (if head s' = head (ss_store ss) then None else Some (Suc (head (ss_store ss)))))"
  using assms(5)
proof (cases rule: applyBatch_cases)
  case (decided cmp ps s1)
  let ?s = "ss_store ss" and ?o = "batch_outcome s1 who (pb_key p) cmp r ps"
  note base = reachable_base [OF assms(1,2)]
  have "\<not> ow_historical ow" using assms(1) decided(3) by (simp add: owner_ok_def)
  then have g: "grouped ow ?s ps s1"
    using perform_batch_grouped [OF decided(7) base] assms(3,4) by (simp add: fresh_def fresh_ids_def batch_canonical_def)
  have heads: "head ?s = length (st_events ?s)" "head s' = length (st_events s1)" "length (st_events ?s) \<le> length (st_events s1)"
    using head_length [OF base_invD(5)] base g prefix_length_le by (auto simp: decided(8) grouped_def extends_def head_def)
  have "find_outcome s' who (pb_key p) = Some ?o"
    by (intro find_outcome_recorded [OF decided(1)]) (use g in \<open>simp_all add: decided(8) batch_outcome_def grouped_def\<close>)
  moreover have "oc_position ?o = (if head s' = head ?s then None else Some (Suc (head ?s)))"
    using g heads by (auto simp: batch_outcome_def grouped_def positions_between_def upt_rec split: list.splits)
  moreover have "st_decisions s' = Suc (st_decisions ?s)"
    "st_facts s' = st_facts ?s @ map (Pair (st_decisions s')) [Suc (head ?s)..<Suc (head s')]"
    using g assms(7) heads(1,2) by (simp_all add: decided(8) recorded_def batch_outcome_def grouped_def positions_between_def del: upt_Suc)
  moreover have "oc_decision ?o = st_decisions s'" "oc_operation ?o = Batch" "(oc_status ?o, oc_body ?o) = r"
    by (simp_all add: decided(8) batch_outcome_def)
  ultimately show ?thesis by blast
qed (use assms(6-8) in simp_all)

theorem batch_grouped_witness:
  "\<exists>r s'. applyBatch example_batcher example_draws (js ''p'') example_batch (new_store (js ''b'')) = Inr (r, s') \<and>
     st_decisions s' = 1 \<and> st_facts s' = [(1, 1)]"
proof -
  obtain r s' where t: "applyBatch example_batcher example_draws (js ''p'') example_batch (ss_store example_empty) = Inr (r, s')"
    and h: "st_events s' = st_events example_batched"
    using example_batch_turn by (auto simp: example_empty_def)
  have f: "fresh example_batcher (ss_store example_empty) example_draws"
    using example_new_fresh by (simp add: example_batcher(2) example_empty_def)
  have n: "find_outcome (ss_store example_empty) (js ''p'') (pb_key example_batch) = None"
    by (simp add: find_outcome_def example_empty_def new_store_def)
  have v: "pb_version example_batch = js ''1''" by (simp add: example_batch_def)
  have "head s' = 1" using h by (simp add: head_def example_batched_def)
  with batch_grouped [OF example_batcher(1,4) f example_batcher(3) t n example_batcher(5) v] t show ?thesis
    by (auto simp: example_empty_def head_def new_store_def)
qed

text \<open>A retry of a batch is answered from the retained outcome and writes nothing: in every sound store
  that extends the one the batch left, a refusal is repeated word for word, and a result is the retained one with the names the retry uses
  for its operations, or, when those names make it too large, the refusal of its size.\<close>

theorem batch_replays:
  assumes "owner_ok ow" "reachable ow ss" "fresh ow (ss_store ss) su" "batch_canonical ow p"
    "applyBatch ow su who p (ss_store ss) = Inr (r, s1)" "find_outcome (ss_store ss) who (pb_key p) = None"
    "ow_batch ow" "pb_version p = js ''1''" "store_inv ow s2" "extends ow s1 s2"
  shows "applyBatch ow su2 who p s2 =
    (if fst r \<noteq> 200 then Inr (r, s2)
     else bindR (projected_body p (snd r)) (\<lambda>body.
       Inr (if byte_length body > maximumResultBytes then (413, serialized (JObj too_large)) else (200, body), s2)))"
proof -
  have i: "store_inv ow (ss_store ss)" using assms(1,2) reachable_inv by blast
  have "(\<lambda>body. if byte_length body > maximumResultBytes then Inr ((413, serialized (JObj too_large)), s2)
      else Inr ((200, body), s2)) =
    (\<lambda>body. Inr (if byte_length body > maximumResultBytes then (413, serialized (JObj too_large)) else (200, body), s2)
      :: (response \<times> store) result)" by (simp add: fun_eq_iff)
  with applyBatch_again [OF assms(5-8,1) i assms(3,4,9,10)] show ?thesis by simp
qed

theorem batch_replays_witness:
  "\<exists>s'. applyBatch example_batcher example_draws (js ''p'') example_batch (new_store (js ''b'')) =
       Inr ((200, en_text example_evaluation), s') \<and>
     applyBatch example_batcher example_draws (js ''p'') example_batch s' =
       bindR (projected_body example_batch (en_text example_evaluation)) (\<lambda>body.
         Inr (if byte_length body > maximumResultBytes then (413, serialized (JObj too_large)) else (200, body), s'))"
proof -
  obtain c where t: "applyBatch example_batcher example_draws (js ''p'') example_batch (ss_store example_empty) =
      Inr ((200, en_text example_evaluation), recorded example_batcher c [1] example_batched)"
    using example_batch_turn by (auto simp: example_empty_def)
  have f: "fresh example_batcher (ss_store example_empty) example_draws"
    using example_new_fresh by (simp add: example_batcher(2) example_empty_def)
  have n: "find_outcome (ss_store example_empty) (js ''p'') (pb_key example_batch) = None"
    by (simp add: find_outcome_def example_empty_def new_store_def)
  have v: "pb_version example_batch = js ''1''" by (simp add: example_batch_def)
  have i: "store_inv example_batcher (ss_store example_empty)"
    using reachable_inv [OF example_batcher(4,1)] .
  have e: "store_inv example_batcher s" "extends example_batcher s s" if "s = recorded example_batcher c [1] example_batched" for s
    using applyBatch_grouped [OF t example_batcher(1) i f example_batcher(3)] that by (simp_all add: extends_def)
  show ?thesis
    using batch_replays [OF example_batcher(1,4) f example_batcher(3) t n example_batcher(5) v e [OF refl]] t
    by (auto simp: example_empty_def)
qed


end
