(* ===== verification/Read_Selector.thy ===== *)
theory Read_Selector
  imports Uri
begin

text \<open>
  The selectors of listings (\<open>packages/server/src/read-selector.ts\<close>): a filter expression over one
  record, scanned into tokens, parsed by a stack of values and a stack of pending operators under
  bounds on the tree, and evaluated by a stack of frames.  An error keeps its code, its offset and the
  violated bound; its message is not modelled.
\<close>

section \<open>Data\<close>

datatype selector_code = SelectorSyntax | UnsupportedFeature | SourceBytes | AstDepth | AstNodes

datatype selector_error =
    SelectorError selector_code "nat option" "(nat \<times> nat) option"
  | SelectorTypeError string

type_synonym 'a selected = "selector_error + 'a"

definition syntax_error :: "nat \<Rightarrow> 'a selected" where
  "syntax_error offset = Inl (SelectorError SelectorSyntax (Some offset) None)"

definition unsupported_error :: "nat \<Rightarrow> 'a selected" where
  "unsupported_error offset = Inl (SelectorError UnsupportedFeature (Some offset) None)"

lemma selector_errors [simp]: "syntax_error n \<noteq> Inr x" "unsupported_error n \<noteq> Inr x"
  by (simp_all add: syntax_error_def unsupported_error_def)

datatype segment = SName jstring | SIndex int

datatype selector_literal = LNull | LBool bool | LStr jstring | LNum decimal

datatype comparison_operator = OpEq | OpNe | OpLt | OpLe | OpGt | OpGe

datatype operator = Compare comparison_operator | AndOp | OrOp | NotOp

datatype token =
    TOperator operator
  | TPath "segment list"
  | TLiteral selector_literal
  | TDollar | TOpenBracket | TQuestion | TCloseBracket | TOpenParen | TCloseParen
  | TEnd

type_synonym located = "token \<times> nat"

text \<open>\<open>ValueNode\<close>, \<open>BooleanNode\<close> and \<open>AstNode\<close>: a path is a value and a filter of its own.\<close>

datatype value_node = VPath "segment list" | VLiteral selector_literal

datatype boolean_node =
    BPath "segment list"
  | BComparison comparison_operator value_node value_node
  | BNot boolean_node
  | BAnd boolean_node boolean_node
  | BOr boolean_node boolean_node
  | BGroup boolean_node

datatype ast_node = ALiteral selector_literal | ABoolean boolean_node

datatype operator_entry = Pending operator nat | OpenGroup nat nat

text \<open>The fields \<open>depth\<close> and \<open>nodes\<close> of a node.\<close>

fun value_size :: "value_node \<Rightarrow> nat" where
  "value_size (VPath segments) = Suc (length segments)"
| "value_size (VLiteral l) = 1"

fun ast_depth :: "boolean_node \<Rightarrow> nat" where
  "ast_depth (BPath segments) = Suc (length segments)"
| "ast_depth (BComparison c l r) = Suc (max (value_size l) (value_size r))"
| "ast_depth (BNot e) = Suc (ast_depth e)"
| "ast_depth (BAnd l r) = Suc (max (ast_depth l) (ast_depth r))"
| "ast_depth (BOr l r) = Suc (max (ast_depth l) (ast_depth r))"
| "ast_depth (BGroup e) = Suc (ast_depth e)"

fun ast_nodes :: "boolean_node \<Rightarrow> nat" where
  "ast_nodes (BPath segments) = Suc (length segments)"
| "ast_nodes (BComparison c l r) = Suc (value_size l + value_size r)"
| "ast_nodes (BNot e) = Suc (ast_nodes e)"
| "ast_nodes (BAnd l r) = Suc (ast_nodes l + ast_nodes r)"
| "ast_nodes (BOr l r) = Suc (ast_nodes l + ast_nodes r)"
| "ast_nodes (BGroup e) = Suc (ast_nodes e)"

record selector_limits =
  sl_bytes :: nat
  sl_depth :: nat
  sl_nodes :: nat

section \<open>Scanning\<close>

text \<open>A scanner takes the rest of the source; \<open>n\<close> is the length of the source, so the offset of a rest is \<open>offset_at n\<close>.\<close>

definition offset_at :: "nat \<Rightarrow> jstring \<Rightarrow> nat" where
  "offset_at n rest = n - length rest"

definition is_whitespace :: "code_unit \<Rightarrow> bool" where
  "is_whitespace c \<longleftrightarrow> c = 0x20 \<or> c = 9 \<or> c = 10 \<or> c = 13"

text \<open>\<open>codePointAt\<close>.\<close>

fun point_at :: "jstring \<Rightarrow> nat" where
  "point_at [] = 0"
| "point_at [c] = unat c"
| "point_at (c # d # s) = (if is_high_surrogate c \<and> is_low_surrogate d then pair_value c d else unat c)"

definition name_first_point :: "nat \<Rightarrow> bool" where
  "name_first_point p \<longleftrightarrow> (0x41 \<le> p \<and> p \<le> 0x5A) \<or> p = 0x5F \<or> (0x61 \<le> p \<and> p \<le> 0x7A) \<or>
     (0x80 \<le> p \<and> (p < 0xD800 \<or> 0xDFFF < p))"

definition isNameFirstAt :: "jstring \<Rightarrow> bool" where
  "isNameFirstAt s \<longleftrightarrow> s \<noteq> [] \<and> name_first_point (point_at s)"

definition isNameCharacterAt :: "jstring \<Rightarrow> bool" where
  "isNameCharacterAt s \<longleftrightarrow> s \<noteq> [] \<and> ((0x30 \<le> point_at s \<and> point_at s \<le> 0x39) \<or> name_first_point (point_at s))"

fun scanName :: "jstring \<Rightarrow> jstring \<times> jstring" where
  "scanName [] = ([], [])"
| "scanName [c] = (if isNameCharacterAt [c] then ([c], []) else ([], [c]))"
| "scanName (c # d # s) =
     (if \<not> isNameCharacterAt (c # d # s) then ([], c # d # s)
      else if is_high_surrogate c \<and> is_low_surrogate d
      then (case scanName s of (v, r) \<Rightarrow> (c # d # v, r))
      else (case scanName (d # s) of (v, r) \<Rightarrow> (c # v, r)))"

definition simple_selector_escape :: "code_unit \<Rightarrow> code_unit option" where
  "simple_selector_escape c =
     (if c = 0x62 then Some 8 else if c = 0x66 then Some 12 else if c = 0x6E then Some 10
      else if c = 0x72 then Some 13 else if c = 0x74 then Some 9 else if c = 0x2F then Some 0x2F
      else if c = 0x5C then Some 0x5C else None)"

text \<open>\<open>\\uXXXX\<close>.\<close>

definition scanUnicodeEscape :: "nat \<Rightarrow> jstring \<Rightarrow> (code_unit \<times> jstring) selected" where
  "scanUnicodeEscape n s = (case s of
     b # u # w # x # y # z # r \<Rightarrow>
       (if b = 0x5C \<and> u = 0x75 then
          (case hex4 w x y z of Some c \<Rightarrow> Inr (c, r) | None \<Rightarrow> syntax_error (offset_at n s))
        else syntax_error (offset_at n s))
   | _ \<Rightarrow> syntax_error (offset_at n s))"

lemma scanUnicodeEscape_shorter: "scanUnicodeEscape n s = Inr (c, r) \<Longrightarrow> length r < length s"
  by (auto simp: scanUnicodeEscape_def split: list.splits if_splits option.splits)

text \<open>The units of one \<open>\\u\<close> escape, a surrogate pair as two.\<close>

definition scan_escaped_point :: "nat \<Rightarrow> jstring \<Rightarrow> (jstring \<times> jstring) selected" where
  "scan_escaped_point n s =
     bindR (scanUnicodeEscape n s) (\<lambda>(c, r).
       if is_high_surrogate c then
         (if take 2 r \<noteq> [0x5C, 0x75] then syntax_error (offset_at n s)
          else bindR (scanUnicodeEscape n r) (\<lambda>(d, r').
            if \<not> is_low_surrogate d then syntax_error (offset_at n s) else Inr ([c, d], r')))
       else if is_low_surrogate c then syntax_error (offset_at n s)
       else Inr ([c], r))"

lemma scan_escaped_point_shorter: "scan_escaped_point n s = Inr (v, r) \<Longrightarrow> length r < length s"
  by (fastforce simp: scan_escaped_point_def dest!: scanUnicodeEscape_shorter split: if_splits)

text \<open>One step of \<open>scanQuotedString\<close>: the units that are added and the rest; \<open>None\<close> at the closing quote.\<close>

definition quoted_step :: "nat \<Rightarrow> code_unit \<Rightarrow> jstring \<Rightarrow> (jstring option \<times> jstring) selected" where
  "quoted_step n quote s = (case s of
     [] \<Rightarrow> syntax_error (offset_at n s)
   | c # r \<Rightarrow>
       if c = quote then Inr (None, r)
       else if c < 0x20 then syntax_error (offset_at n s)
       else if is_high_surrogate c \<or> is_low_surrogate c then
         (case r of
            d # r' \<Rightarrow> if is_high_surrogate c \<and> is_low_surrogate d then Inr (Some [c, d], r') else syntax_error (offset_at n s)
          | [] \<Rightarrow> syntax_error (offset_at n s))
       else if c \<noteq> 0x5C then Inr (Some [c], r)
       else (case r of
          [] \<Rightarrow> syntax_error (offset_at n s)
        | e # r' \<Rightarrow>
            (case simple_selector_escape e of
               Some v \<Rightarrow> Inr (Some [v], r')
             | None \<Rightarrow>
                 if e = quote then Inr (Some [quote], r')
                 else if e \<noteq> 0x75 then syntax_error (offset_at n s)
                 else bindR (scan_escaped_point n s) (\<lambda>(v, r''). Inr (Some v, r'')))))"

lemma quoted_step_shorter: "quoted_step n quote s = Inr (v, r) \<Longrightarrow> length r < length s"
  by (auto simp: quoted_step_def dest: scan_escaped_point_shorter split: list.splits if_splits option.splits)

text \<open>\<open>start\<close> is the offset of the opening quote, before which \<open>s\<close> begins.\<close>

function scan_quoted :: "nat \<Rightarrow> nat \<Rightarrow> code_unit \<Rightarrow> jstring \<Rightarrow> (jstring \<times> jstring) selected" where
  "scan_quoted n start quote s =
     (if s = [] then syntax_error start
      else bindR (quoted_step n quote s) (\<lambda>step. case step of
        (None, r) \<Rightarrow> Inr ([], r)
      | (Some v, r) \<Rightarrow> bindR (scan_quoted n start quote r) (\<lambda>(w, r'). Inr (v @ w, r'))))"
  by pat_completeness auto
termination
  by (relation "measure (\<lambda>(n, start, quote, s). length s)") (auto dest: quoted_step_shorter)

declare scan_quoted.simps [simp del]

lemma scan_quoted_shorter: "scan_quoted n start quote s = Inr (v, r) \<Longrightarrow> length r < length s"
proof (induction n start quote s arbitrary: v r rule: scan_quoted.induct)
  case (1 n start quote s)
  show ?case
  proof (cases "s = []")
    case False
    with 1(2) have "bindR (quoted_step n quote s) (\<lambda>step. case step of
        (None, r) \<Rightarrow> Inr ([], r)
      | (Some v, r) \<Rightarrow> bindR (scan_quoted n start quote r) (\<lambda>(w, r'). Inr (v @ w, r'))) = Inr (v, r)"
      by (simp only: scan_quoted.simps [of n start quote s] if_False)
    then obtain x b where q: "quoted_step n quote s = Inr (x, b)"
      "case x of None \<Rightarrow> r = b | Some y \<Rightarrow> \<exists>w. scan_quoted n start quote b = Inr (w, r)"
      by (auto split: option.splits)
    note shorter = quoted_step_shorter [OF q(1)]
    show ?thesis
    proof (cases x)
      case (Some y)
      with q(2) obtain w where "scan_quoted n start quote b = Inr (w, r)" by auto
      then have "length r < length b" using 1(1) False q(1) Some by auto
      then show ?thesis using shorter by simp
    qed (use q(2) shorter in simp)
  qed (use 1(2) in \<open>simp add: scan_quoted.simps\<close>)
qed

definition scanQuotedString :: "nat \<Rightarrow> jstring \<Rightarrow> (jstring \<times> jstring) selected" where
  "scanQuotedString n s = (case s of
     [] \<Rightarrow> syntax_error (offset_at n s)
   | q # r \<Rightarrow> if q \<noteq> 0x22 \<and> q \<noteq> 0x27 then syntax_error (offset_at n s) else scan_quoted n (offset_at n s) q r)"

lemma scanQuotedString_shorter: "scanQuotedString n s = Inr (v, r) \<Longrightarrow> length r < length s"
  by (auto simp: scanQuotedString_def split: list.splits if_splits dest!: scan_quoted_shorter)

text \<open>A name or index in brackets; \<open>s\<close> begins with the bracket.\<close>

definition canonical_index :: "jstring \<Rightarrow> bool" where
  "canonical_index raw \<longleftrightarrow> raw = [0x30] \<or>
     (let ds = (if prefix [0x2D] raw then tl raw else raw) in canonical_nat ds \<and> hd ds \<noteq> 0x30)"

definition index_text :: "jstring \<Rightarrow> jstring \<times> jstring" where
  "index_text s = (if prefix [0x2D] s then (0x2D # takeWhile is_digit (tl s), dropWhile is_digit (tl s))
     else (takeWhile is_digit s, dropWhile is_digit s))"

definition scanSingularBracketSegment :: "nat \<Rightarrow> jstring \<Rightarrow> (segment \<times> jstring) selected" where
  "scanSingularBracketSegment n s = (case tl s of
     [] \<Rightarrow> syntax_error (offset_at n (tl s))
   | c # r \<Rightarrow>
       if c = 0x3F \<or> c = 0x2A \<or> c = 0x3A then unsupported_error (offset_at n s)
       else if c = 0x22 \<or> c = 0x27 then
         bindR (scanQuotedString n (c # r)) (\<lambda>(v, rest).
           if prefix [0x2C] rest then unsupported_error (offset_at n rest)
           else if \<not> prefix [0x5D] rest then syntax_error (offset_at n rest)
           else Inr (SName v, tl rest))
       else if c = 0x2D \<or> is_digit c then
         (case index_text (c # r) of (raw, rest) \<Rightarrow>
            if prefix [0x3A] rest \<or> prefix [0x2C] rest then unsupported_error (offset_at n rest)
            else if \<not> canonical_index raw \<or> \<not> prefix [0x5D] rest then syntax_error (offset_at n (c # r))
            else if \<not> safe_integer (integer_value raw) then syntax_error (offset_at n (c # r))
            else Inr (SIndex (integer_value raw), tl rest))
       else if c = 0x2C then unsupported_error (offset_at n s)
       else syntax_error (offset_at n (c # r)))"

lemma index_text_shorter: "index_text s = (raw, rest) \<Longrightarrow> length rest \<le> length s"
  by (auto simp: index_text_def length_dropWhile_le le_diff_conv split: if_splits intro: le_trans [OF length_dropWhile_le])

lemma scanSingularBracketSegment_shorter:
  assumes "scanSingularBracketSegment n s = Inr (v, r)"
  shows "length r < length s"
proof -
  from assms obtain c t where s: "tl s = c # t" by (auto simp: scanSingularBracketSegment_def split: list.splits)
  then have l: "length s = Suc (Suc (length t))" by (cases s) auto
  have "\<exists>rest. r = tl rest \<and> length rest \<le> Suc (length t)"
    using assms s
    by (fastforce simp: scanSingularBracketSegment_def split: if_splits prod.splits dest!: scanQuotedString_shorter index_text_shorter)
  then show ?thesis using l by auto
qed

lemma scanName_shorter: "scanName s = (v, r) \<Longrightarrow> length r \<le> length s"
  by (induction s arbitrary: v r rule: scanName.induct) (fastforce split: if_splits prod.splits)+

lemma scanName_progress: "scanName s = (v, r) \<Longrightarrow> isNameCharacterAt s \<Longrightarrow> length r < length s"
  by (cases s rule: scanName.cases) (auto split: if_splits prod.splits dest!: scanName_shorter simp: isNameCharacterAt_def)

lemma isNameFirst_character: "isNameFirstAt s \<Longrightarrow> isNameCharacterAt s"
  by (simp add: isNameFirstAt_def isNameCharacterAt_def)

definition skip_whitespace :: "jstring \<Rightarrow> jstring" where
  "skip_whitespace = dropWhile is_whitespace"

lemma skip_whitespace_shorter: "length (skip_whitespace s) \<le> length s"
  by (simp add: skip_whitespace_def length_dropWhile_le)

text \<open>One segment of a path at the head of \<open>s\<close>, or \<open>None\<close> where the path ends.\<close>

definition path_segment :: "nat \<Rightarrow> jstring \<Rightarrow> (segment \<times> jstring) option selected" where
  "path_segment n s = (case skip_whitespace s of
     [] \<Rightarrow> Inr None
   | c # r \<Rightarrow>
       if c = 0x2E then
         (if prefix [0x2E] r \<or> prefix [0x2A] r then unsupported_error (offset_at n (c # r))
          else if \<not> isNameFirstAt r then syntax_error (offset_at n r)
          else case scanName r of (v, rest) \<Rightarrow> Inr (Some (SName v, rest)))
       else if c = 0x5B then bindR (scanSingularBracketSegment n (c # r)) (\<lambda>x. Inr (Some x))
       else Inr None)"

lemma path_segment_shorter:
  assumes "path_segment n s = Inr (Some (v, r))"
  shows "length r < length s"
proof -
  from assms obtain c t where s: "skip_whitespace s = c # t" by (auto simp: path_segment_def split: list.splits)
  then have "length r < Suc (length t)"
    using assms by (auto simp: path_segment_def split: if_splits prod.splits
        dest!: scanName_shorter scanSingularBracketSegment_shorter)
  then show ?thesis using skip_whitespace_shorter [of s] s by simp
qed

function scan_segments :: "nat \<Rightarrow> jstring \<Rightarrow> (segment list \<times> jstring) selected" where
  "scan_segments n s = bindR (path_segment n s) (\<lambda>x. case x of
     None \<Rightarrow> Inr ([], s)
   | Some (v, r) \<Rightarrow> bindR (scan_segments n r) (\<lambda>(vs, rest). Inr (v # vs, rest)))"
  by pat_completeness auto
termination
  by (relation "measure (\<lambda>(n, s). length s)") (auto dest: path_segment_shorter)

declare scan_segments.simps [simp del]

lemma scan_segments_shorter: "scan_segments n s = Inr (v, r) \<Longrightarrow> length r \<le> length s"
proof (induction n s arbitrary: v r rule: scan_segments.induct)
  case (1 n s)
  from 1(2) obtain x where p: "path_segment n s = Inr x"
    "case x of None \<Rightarrow> r = s | Some (y, b) \<Rightarrow> \<exists>w. scan_segments n b = Inr (w, r)"
    by (subst (asm) scan_segments.simps) (fastforce split: option.splits)
  show ?case
  proof (cases x)
    case (Some y)
    obtain u b where y: "y = (u, b)" by (cases y)
    with p(2) Some obtain w where "scan_segments n b = Inr (w, r)" by auto
    then have "length r \<le> length b" using 1(1) p(1) Some y by blast
    then show ?thesis using path_segment_shorter [OF p(1) [unfolded Some y]] by simp
  qed (use p(2) in simp)
qed

text \<open>\<open>scanPath\<close>; \<open>s\<close> begins with the \<open>@\<close>.\<close>

definition scanPath :: "nat \<Rightarrow> jstring \<Rightarrow> (located \<times> jstring) selected" where
  "scanPath n s = bindR (scan_segments n (tl s)) (\<lambda>(vs, r). Inr ((TPath vs, offset_at n s), r))"

definition scanWord :: "nat \<Rightarrow> jstring \<Rightarrow> (located \<times> jstring) selected" where
  "scanWord n s = (case scanName s of (v, r) \<Rightarrow>
     if prefix [0x28] r then unsupported_error (offset_at n s)
     else if v = js ''true'' \<or> v = js ''false'' then Inr ((TLiteral (LBool (v = js ''true'')), offset_at n s), r)
     else if v = js ''null'' then Inr ((TLiteral LNull, offset_at n s), r)
     else syntax_error (offset_at n s))"

text \<open>\<open>Number(raw)\<close>, as the decimal that names the binary64 value; \<open>None\<close> for an infinite one.\<close>

definition number_value :: "jstring \<Rightarrow> decimal option" where
  "number_value raw = Option.bind (literal_double raw) (\<lambda>x.
     map_option (signed_decimal (literal_negative raw)) (shortest_decimal x))"

definition scanNumber :: "nat \<Rightarrow> jstring \<Rightarrow> (located \<times> jstring) selected" where
  "scanNumber n s = (case scan_number s of
     None \<Rightarrow> syntax_error (offset_at n s)
   | Some (raw, r) \<Rightarrow>
       if isNameCharacterAt r \<or> prefix [0x2E] r then syntax_error (offset_at n s)
       else case number_value raw of
              None \<Rightarrow> syntax_error (offset_at n s)
            | Some d \<Rightarrow> Inr ((TLiteral (LNum d), offset_at n s), r))"


definition pair_operator :: "jstring \<Rightarrow> operator option" where
  "pair_operator p =
     (if p = js ''=='' then Some (Compare OpEq) else if p = js ''!='' then Some (Compare OpNe)
      else if p = js ''<='' then Some (Compare OpLe) else if p = js ''>='' then Some (Compare OpGe)
      else if p = js ''&&'' then Some AndOp else if p = js ''||'' then Some OrOp else None)"

definition single_token :: "code_unit \<Rightarrow> token option" where
  "single_token c =
     (if c = 0x21 then Some (TOperator NotOp) else if c = 0x3C then Some (TOperator (Compare OpLt))
      else if c = 0x3E then Some (TOperator (Compare OpGt)) else if c = 0x24 then Some TDollar
      else if c = 0x5B then Some TOpenBracket else if c = 0x5D then Some TCloseBracket
      else if c = 0x3F then Some TQuestion else if c = 0x28 then Some TOpenParen
      else if c = 0x29 then Some TCloseParen else None)"

definition unsupported_unit :: "code_unit \<Rightarrow> bool" where
  "unsupported_unit c \<longleftrightarrow> c \<in> set (js ''*:.,/{}'')"

definition punctuation :: "nat \<Rightarrow> jstring \<Rightarrow> (located \<times> jstring) selected" where
  "punctuation n s = (case pair_operator (take 2 s) of
     Some op \<Rightarrow> Inr ((TOperator op, offset_at n s), drop 2 s)
   | None \<Rightarrow>
       if take 2 s = js ''=~'' then unsupported_error (offset_at n s)
       else (case single_token (hd s) of
               Some t \<Rightarrow> Inr ((t, offset_at n s), tl s)
             | None \<Rightarrow> if unsupported_unit (hd s) then unsupported_error (offset_at n s) else syntax_error (offset_at n s)))"

text \<open>The token at the head of \<open>s\<close>, which is not empty and does not begin with white space.\<close>

definition scan_token :: "nat \<Rightarrow> jstring \<Rightarrow> (located \<times> jstring) selected" where
  "scan_token n s =
     (let c = hd s in
      if c = 0x22 \<or> c = 0x27
      then bindR (scanQuotedString n s) (\<lambda>(v, r). Inr ((TLiteral (LStr v), offset_at n s), r))
      else if c = 0x40 then scanPath n s
      else if c = 0x2D \<or> is_digit c then scanNumber n s
      else if isNameFirstAt s then scanWord n s
      else punctuation n s)"

lemma scanPath_shorter: "s \<noteq> [] \<Longrightarrow> scanPath n s = Inr (t, r) \<Longrightarrow> length r < length s"
  by (cases s) (auto simp: scanPath_def dest!: scan_segments_shorter)

lemma scanNumber_shorter: "scanNumber n s = Inr (t, r) \<Longrightarrow> length r < length s"
  by (auto simp: scanNumber_def split: option.splits if_splits prod.splits dest: scan_number_length)

lemma scanWord_shorter: "isNameFirstAt s \<Longrightarrow> scanWord n s = Inr (t, r) \<Longrightarrow> length r < length s"
  by (auto simp: scanWord_def split: if_splits prod.splits dest: scanName_progress [OF _ isNameFirst_character])

lemma punctuation_shorter: "s \<noteq> [] \<Longrightarrow> punctuation n s = Inr (t, r) \<Longrightarrow> length r < length s"
  by (auto simp: punctuation_def split: option.splits if_splits)

lemma scan_token_shorter: "s \<noteq> [] \<Longrightarrow> scan_token n s = Inr (t, r) \<Longrightarrow> length r < length s"
  by (auto simp: scan_token_def Let_def split: if_splits
      dest: scanPath_shorter scanNumber_shorter scanWord_shorter punctuation_shorter scanQuotedString_shorter)

function tokenize_from :: "nat \<Rightarrow> jstring \<Rightarrow> located list selected" where
  "tokenize_from n s = (case s of
     [] \<Rightarrow> Inr [(TEnd, n)]
   | c # r \<Rightarrow>
       if is_whitespace c then tokenize_from n r
       else bindR (scan_token n (c # r)) (\<lambda>(t, rest). bindR (tokenize_from n rest) (\<lambda>ts. Inr (t # ts))))"
  by pat_completeness auto
termination
proof (relation "measure (\<lambda>(n, s). length s)", goal_cases)
  case (3 n s c r x t rest)
  from scan_token_shorter [of "c # r" n t rest] 3 show ?case by auto
qed auto

declare tokenize_from.simps [simp del]

definition tokenize :: "jstring \<Rightarrow> located list selected" where
  "tokenize source = tokenize_from (length source) source"

section \<open>Parsing\<close>

type_synonym ast_policy = "nat \<Rightarrow> nat \<Rightarrow> nat \<Rightarrow> unit selected"

definition enforceAstLimits :: "selector_limits \<Rightarrow> ast_policy" where
  "enforceAstLimits limits depth nodes offset =
     (if sl_depth limits < depth then Inl (SelectorError AstDepth (Some offset) (Some (sl_depth limits, depth)))
      else if sl_nodes limits < nodes then Inl (SelectorError AstNodes (Some offset) (Some (sl_nodes limits, nodes)))
      else Inr ())"

fun precedence :: "operator \<Rightarrow> nat" where
  "precedence NotOp = 4"
| "precedence (Compare c) = 3"
| "precedence AndOp = 2"
| "precedence OrOp = 1"

definition makePath :: "segment list \<Rightarrow> ast_policy \<Rightarrow> nat \<Rightarrow> ast_node selected" where
  "makePath segments check offset =
     bindR (check (Suc (length segments)) (Suc (length segments)) offset) (\<lambda>_. Inr (ABoolean (BPath segments)))"

definition popNode :: "ast_node list \<Rightarrow> nat \<Rightarrow> (ast_node \<times> ast_node list) selected" where
  "popNode values offset = (case values of [] \<Rightarrow> syntax_error offset | v # vs \<Rightarrow> Inr (v, vs))"

definition requireBoolean :: "ast_node \<Rightarrow> nat \<Rightarrow> boolean_node selected" where
  "requireBoolean node offset = (case node of ALiteral l \<Rightarrow> syntax_error offset | ABoolean b \<Rightarrow> Inr b)"

definition requireValue :: "ast_node \<Rightarrow> nat \<Rightarrow> value_node selected" where
  "requireValue node offset = (case node of
     ALiteral l \<Rightarrow> Inr (VLiteral l) | ABoolean (BPath p) \<Rightarrow> Inr (VPath p) | ABoolean b \<Rightarrow> syntax_error offset)"

definition popBoolean :: "ast_node list \<Rightarrow> nat \<Rightarrow> (boolean_node \<times> ast_node list) selected" where
  "popBoolean values offset =
     bindR (popNode values offset) (\<lambda>(v, vs). bindR (requireBoolean v offset) (\<lambda>b. Inr (b, vs)))"

fun is_path :: "value_node \<Rightarrow> bool" where
  "is_path (VPath p) = True"
| "is_path (VLiteral l) = False"

text \<open>A new node is pushed when the policy admits its size.\<close>

definition push_node :: "ast_policy \<Rightarrow> nat \<Rightarrow> boolean_node \<Rightarrow> ast_node list \<Rightarrow> ast_node list selected" where
  "push_node check offset node values =
     bindR (check (ast_depth node) (ast_nodes node) offset) (\<lambda>_. Inr (ABoolean node # values))"

fun binary_node :: "operator \<Rightarrow> ast_node \<Rightarrow> ast_node \<Rightarrow> nat \<Rightarrow> boolean_node selected" where
  "binary_node (Compare c) left right offset =
     bindR (requireValue left offset) (\<lambda>l. bindR (requireValue right offset) (\<lambda>r.
       if is_path l \<and> is_path r then unsupported_error offset else Inr (BComparison c l r)))"
| "binary_node AndOp left right offset =
     bindR (requireBoolean left offset) (\<lambda>l. bindR (requireBoolean right offset) (\<lambda>r. Inr (BAnd l r)))"
| "binary_node OrOp left right offset =
     bindR (requireBoolean left offset) (\<lambda>l. bindR (requireBoolean right offset) (\<lambda>r. Inr (BOr l r)))"
| "binary_node NotOp left right offset = syntax_error offset"

definition reduceOperator :: "ast_policy \<Rightarrow> operator \<Rightarrow> nat \<Rightarrow> ast_node list \<Rightarrow> ast_node list selected" where
  "reduceOperator check op offset values =
     (if op = NotOp
      then bindR (popBoolean values offset) (\<lambda>(b, vs). push_node check offset (BNot b) vs)
      else
        bindR (popNode values offset) (\<lambda>(right, vs).
        bindR (popNode vs offset) (\<lambda>(left, ws).
        bindR (binary_node op left right offset) (\<lambda>node. push_node check offset node ws))))"

fun reduceForIncoming ::
  "ast_policy \<Rightarrow> operator \<Rightarrow> operator_entry list \<Rightarrow> ast_node list \<Rightarrow> (operator_entry list \<times> ast_node list) selected" where
  "reduceForIncoming check incoming (Pending op offset # operators) values =
     (if precedence op < precedence incoming then Inr (Pending op offset # operators, values)
      else bindR (reduceOperator check op offset values) (reduceForIncoming check incoming operators))"
| "reduceForIncoming check incoming operators values = Inr (operators, values)"

fun reduceAll :: "ast_policy \<Rightarrow> operator_entry list \<Rightarrow> ast_node list \<Rightarrow> ast_node list selected" where
  "reduceAll check [] values = Inr values"
| "reduceAll check (OpenGroup offset count # operators) values = syntax_error offset"
| "reduceAll check (Pending op offset # operators) values =
     bindR (reduceOperator check op offset values) (reduceAll check operators)"

fun closeGroup ::
  "ast_policy \<Rightarrow> nat \<Rightarrow> operator_entry list \<Rightarrow> ast_node list \<Rightarrow> (operator_entry list \<times> ast_node list) selected" where
  "closeGroup check offset [] values = syntax_error offset"
| "closeGroup check offset (OpenGroup opened count # operators) values =
     (if length values \<noteq> Suc count then syntax_error offset
      else bindR (popBoolean values offset) (\<lambda>(b, vs).
        bindR (push_node check opened (BGroup b) vs) (\<lambda>ws. Inr (operators, ws))))"
| "closeGroup check offset (Pending op at_op # operators) values =
     bindR (reduceOperator check op at_op values) (closeGroup check offset operators)"

fun is_open_group :: "operator_entry \<Rightarrow> bool" where
  "is_open_group (OpenGroup offset count) = True"
| "is_open_group (Pending op offset) = False"

definition takeSingleBoolean :: "ast_node list \<Rightarrow> nat \<Rightarrow> boolean_node selected" where
  "takeSingleBoolean values offset = (case values of [v] \<Rightarrow> requireBoolean v offset | _ \<Rightarrow> syntax_error offset)"

definition unsupportedOrSyntaxAfterSelector :: "located \<Rightarrow> 'a selected" where
  "unsupportedOrSyntaxAfterSelector t = (case fst t of
     TPath p \<Rightarrow> unsupported_error (snd t) | TDollar \<Rightarrow> unsupported_error (snd t)
   | TOpenBracket \<Rightarrow> unsupported_error (snd t) | _ \<Rightarrow> syntax_error (snd t))"

text \<open>\<open>take\<close>: the next token, or the end once more.\<close>

definition take_token :: "nat \<Rightarrow> located list \<Rightarrow> located \<times> located list" where
  "take_token n tokens = (case tokens of [] \<Rightarrow> ((TEnd, n), []) | t # ts \<Rightarrow> (t, ts))"

definition closing ::
  "ast_policy \<Rightarrow> nat \<Rightarrow> nat \<Rightarrow> located list \<Rightarrow> bool \<Rightarrow> bool \<Rightarrow> operator_entry list \<Rightarrow> ast_node list \<Rightarrow> boolean_node selected" where
  "closing check n offset tokens expecting saw operators values =
     (if expecting \<or> \<not> saw then syntax_error offset
      else if list_ex is_open_group operators then syntax_error offset
      else
        bindR (reduceAll check operators values) (\<lambda>vs.
        bindR (takeSingleBoolean vs offset) (\<lambda>expression.
          let trailing = fst (take_token n tokens)
          in if fst trailing \<noteq> TEnd then unsupportedOrSyntaxAfterSelector trailing else Inr expression)))"

fun parse_turns ::
  "ast_policy \<Rightarrow> nat \<Rightarrow> located list \<Rightarrow> bool \<Rightarrow> bool \<Rightarrow> operator_entry list \<Rightarrow> ast_node list \<Rightarrow> boolean_node selected" where
  "parse_turns check n [] expecting saw operators values = syntax_error n"
| "parse_turns check n ((t, offset) # tokens) expecting saw operators values =
     (if t = TEnd then syntax_error offset
      else if t = TCloseBracket then closing check n offset tokens expecting saw operators values
      else if expecting then
        (case t of
           TOperator NotOp \<Rightarrow>
             (case operators of
                Pending NotOp before # r \<Rightarrow> syntax_error offset
              | _ \<Rightarrow> parse_turns check n tokens True saw (Pending NotOp offset # operators) values)
         | TOpenParen \<Rightarrow> parse_turns check n tokens True saw (OpenGroup offset (length values) # operators) values
         | TPath p \<Rightarrow> bindR (makePath p check offset) (\<lambda>v. parse_turns check n tokens False True operators (v # values))
         | TLiteral l \<Rightarrow> parse_turns check n tokens False True operators (ALiteral l # values)
         | TOpenBracket \<Rightarrow> unsupported_error offset
         | TDollar \<Rightarrow> unsupported_error offset
         | _ \<Rightarrow> syntax_error offset)
      else
        (case t of
           TOperator op \<Rightarrow>
             if op = NotOp then syntax_error offset
             else bindR (reduceForIncoming check op operators values) (\<lambda>(ops, vs).
               parse_turns check n tokens True saw (Pending op offset # ops) vs)
         | TCloseParen \<Rightarrow>
             bindR (closeGroup check offset operators values) (\<lambda>(ops, vs). parse_turns check n tokens False saw ops vs)
         | TOpenBracket \<Rightarrow> unsupported_error offset
         | TDollar \<Rightarrow> unsupported_error offset
         | _ \<Rightarrow> syntax_error offset))"

declare parse_turns.simps(2) [simp del]

definition expectToken :: "nat \<Rightarrow> token \<Rightarrow> located list \<Rightarrow> located list selected" where
  "expectToken n t tokens = (case take_token n tokens of (x, ts) \<Rightarrow> if fst x \<noteq> t then syntax_error (snd x) else Inr ts)"

definition parseSelector :: "jstring \<Rightarrow> ast_policy \<Rightarrow> boolean_node selected" where
  "parseSelector source check =
     (let n = length source in
      bindR (tokenize source) (\<lambda>tokens.
      bindR (expectToken n TDollar tokens) (\<lambda>t1.
      bindR (expectToken n TOpenBracket t1) (\<lambda>t2.
      bindR (expectToken n TQuestion t2) (\<lambda>t3. parse_turns check n t3 True False [] [])))))"

section \<open>Evaluation\<close>

definition root_selector_members :: "string list" where
  "root_selector_members = [''id'', ''type'', ''source'', ''target'', ''properties'', ''metadata'']"

text \<open>\<open>MISSING\<close> is \<open>None\<close>.\<close>

definition member_of :: "segment \<Rightarrow> json \<Rightarrow> json option" where
  "member_of segment value = (case (segment, value) of
     (SName k, JObj kvs) \<Rightarrow> obj_get k kvs
   | (SIndex i, JArr xs) \<Rightarrow>
       (let k = (if i < 0 then int (length xs) + i else i)
        in if k < 0 \<or> int (length xs) \<le> k then None else Some (xs ! nat k))
   | _ \<Rightarrow> None)"

fun resolve_segments :: "segment list \<Rightarrow> json \<Rightarrow> json option" where
  "resolve_segments [] value = Some value"
| "resolve_segments (s # ss) value = Option.bind (member_of s value) (resolve_segments ss)"

definition resolvePath :: "segment list \<Rightarrow> json \<Rightarrow> json option" where
  "resolvePath segments candidate = (case segments of
     SName k # r \<Rightarrow> if k \<notin> js ` set root_selector_members then None else resolve_segments segments candidate
   | _ \<Rightarrow> resolve_segments segments candidate)"

fun literal_json :: "selector_literal \<Rightarrow> json" where
  "literal_json LNull = JNull"
| "literal_json (LBool b) = JBool b"
| "literal_json (LStr s) = JStr s"
| "literal_json (LNum d) = JNum d"

fun resolveValue :: "value_node \<Rightarrow> json \<Rightarrow> json option" where
  "resolveValue (VLiteral l) candidate = Some (literal_json l)"
| "resolveValue (VPath p) candidate = resolvePath p candidate"

text \<open>The order of two numbers, as decimals over one power of ten.\<close>

definition decimal_less :: "decimal \<Rightarrow> decimal \<Rightarrow> bool" where
  "decimal_less x y = (case (x, y) of (Dec c e, Dec d f) \<Rightarrow>
     c * 10 ^ nat (e - min e f) < d * 10 ^ nat (f - min e f))"

fun compare_points :: "nat list \<Rightarrow> nat list \<Rightarrow> int" where
  "compare_points [] [] = 0"
| "compare_points [] (q # qs) = - 1"
| "compare_points (p # ps) [] = 1"
| "compare_points (p # ps) (q # qs) = (if p \<noteq> q then (if p < q then - 1 else 1) else compare_points ps qs)"

definition compareUnicodeScalars :: "jstring \<Rightarrow> jstring \<Rightarrow> int" where
  "compareUnicodeScalars left right = compare_points (code_points left) (code_points right)"

definition primitiveJsonEqual :: "json \<Rightarrow> json \<Rightarrow> bool" where
  "primitiveJsonEqual left right = (case (left, right) of
     (JNull, JNull) \<Rightarrow> True
   | (JNum a, JNum b) \<Rightarrow> a = b
   | (JStr a, JStr b) \<Rightarrow> a = b
   | (JBool a, JBool b) \<Rightarrow> a = b
   | _ \<Rightarrow> False)"

fun ordered_by :: "comparison_operator \<Rightarrow> bool \<Rightarrow> bool \<Rightarrow> bool" where
  "ordered_by OpLt below same = below"
| "ordered_by OpLe below same = (below \<or> same)"
| "ordered_by OpGt below same = (\<not> below \<and> \<not> same)"
| "ordered_by OpGe below same = (\<not> below)"
| "ordered_by OpEq below same = False"
| "ordered_by OpNe below same = False"

definition compare_values :: "comparison_operator \<Rightarrow> json option \<Rightarrow> json option \<Rightarrow> bool" where
  "compare_values op left right =
     (let equal = (case (left, right) of (Some a, Some b) \<Rightarrow> primitiveJsonEqual a b | _ \<Rightarrow> False) in
      if op = OpEq then equal
      else if op = OpNe then \<not> equal
      else (case (left, right) of
              (Some (JNum a), Some (JNum b)) \<Rightarrow> ordered_by op (decimal_less a b) (\<not> decimal_less a b \<and> \<not> decimal_less b a)
            | (Some (JStr a), Some (JStr b)) \<Rightarrow>
                ordered_by op (compareUnicodeScalars a b < 0) (compareUnicodeScalars a b = 0)
            | _ \<Rightarrow> False))"

text \<open>\<open>evaluate\<close>: a frame is a node and whether its operands were evaluated.\<close>

type_synonym evaluated_frame = "boolean_node \<times> bool"

definition popResult :: "bool list \<Rightarrow> (bool \<times> bool list) result" where
  "popResult results = (case results of [] \<Rightarrow> Inl (PlainError ''invalid internal Selector evaluation state'') | r # rs \<Rightarrow> Inr (r, rs))"

fun evaluate_turn ::
  "json \<Rightarrow> boolean_node \<Rightarrow> bool \<Rightarrow> evaluated_frame list \<Rightarrow> bool list \<Rightarrow> (evaluated_frame list \<times> bool list) result" where
  "evaluate_turn c (BPath p) visited frames results = Inr (frames, (resolvePath p c \<noteq> None) # results)"
| "evaluate_turn c (BComparison op l r) visited frames results =
     Inr (frames, compare_values op (resolveValue l c) (resolveValue r c) # results)"
| "evaluate_turn c (BNot e) False frames results = Inr ((e, False) # (BNot e, True) # frames, results)"
| "evaluate_turn c (BGroup e) False frames results = Inr ((e, False) # (BGroup e, True) # frames, results)"
| "evaluate_turn c (BAnd l r) False frames results = Inr ((l, False) # (r, False) # (BAnd l r, True) # frames, results)"
| "evaluate_turn c (BOr l r) False frames results = Inr ((l, False) # (r, False) # (BOr l r, True) # frames, results)"
| "evaluate_turn c (BNot e) True frames results = bindR (popResult results) (\<lambda>(b, rs). Inr (frames, (\<not> b) # rs))"
| "evaluate_turn c (BGroup e) True frames results = bindR (popResult results) (\<lambda>(b, rs). Inr (frames, b # rs))"
| "evaluate_turn c (BAnd l r) True frames results =
     bindR (popResult results) (\<lambda>(y, rs). bindR (popResult rs) (\<lambda>(x, ss). Inr (frames, (x \<and> y) # ss)))"
| "evaluate_turn c (BOr l r) True frames results =
     bindR (popResult results) (\<lambda>(y, rs). bindR (popResult rs) (\<lambda>(x, ss). Inr (frames, (x \<or> y) # ss)))"

fun frame_size :: "evaluated_frame \<Rightarrow> nat" where
  "frame_size (e, visited) = (if visited then 1 else 2 * ast_nodes e)"

lemma ast_nodes_pos [simp]: "0 < ast_nodes e"
  by (cases e) simp_all

lemma evaluate_turn_smaller:
  "evaluate_turn c e visited frames results = Inr (frames', results') \<Longrightarrow>
     sum_list (map frame_size frames') < frame_size (e, visited) + sum_list (map frame_size frames)"
  by (induction c e visited frames results rule: evaluate_turn.induct) auto

function evaluate_loop :: "json \<Rightarrow> evaluated_frame list \<Rightarrow> bool list \<Rightarrow> bool list result" where
  "evaluate_loop c [] results = Inr results"
| "evaluate_loop c ((e, visited) # frames) results =
     bindR (evaluate_turn c e visited frames results) (\<lambda>(fs, rs). evaluate_loop c fs rs)"
  by pat_completeness auto
termination
proof (relation "measure (\<lambda>(c, frames, results). sum_list (map frame_size frames))", goal_cases)
  case (2 c e visited frames results z fs rs)
  then show ?case using evaluate_turn_smaller [of c e visited frames results fs rs] by (auto split: if_splits)
qed simp

definition evaluate :: "boolean_node \<Rightarrow> json \<Rightarrow> bool result" where
  "evaluate root candidate = bindR (evaluate_loop candidate [(root, False)] []) (\<lambda>rs. bindR (popResult rs) (\<lambda>(b, _). Inr b))"

section \<open>Selection\<close>

definition validate_limits :: "selector_limits \<Rightarrow> unit selected" where
  "validate_limits limits =
     (if list_all (\<lambda>v. 0 < v \<and> v \<le> 2 ^ 53 - 1) [sl_bytes limits, sl_depth limits, sl_nodes limits] then Inr ()
      else Inl (SelectorTypeError ''Selector limit must be a positive safe integer''))"

fun select_matches :: "boolean_node \<Rightarrow> json list \<Rightarrow> json list result" where
  "select_matches e [] = Inr []"
| "select_matches e (c # cs) =
     bindR (evaluate e c) (\<lambda>b. bindR (select_matches e cs) (\<lambda>ms. Inr (if b then c # ms else ms)))"

text \<open>The outer result is the selection error; the inner one the internal error of the evaluation.\<close>

definition selectReadResources :: "jstring \<Rightarrow> selector_limits \<Rightarrow> json list \<Rightarrow> json list result selected" where
  "selectReadResources selector limits candidates =
     bindR (validate_limits limits) (\<lambda>_.
       if sl_bytes limits < byte_length selector
       then Inl (SelectorError SourceBytes None (Some (sl_bytes limits, byte_length selector)))
       else bindR (parseSelector selector (enforceAstLimits limits)) (\<lambda>e. Inr (select_matches e candidates)))"

text \<open>The policy that admits every size, and the analysis of a selector inside a body of a bounded size.\<close>

definition no_policy :: ast_policy where
  "no_policy depth nodes offset = Inr ()"

definition analyzeSelectorGrammar :: "jstring \<Rightarrow> nat \<Rightarrow> (nat \<times> nat \<times> nat) selected" where
  "analyzeSelectorGrammar selector enclosing_bytes =
     (if enclosing_bytes = 0 \<or> 2 ^ 53 - 1 < enclosing_bytes then Inl (SelectorTypeError ''invalid enclosing Selector byte budget'')
      else if enclosing_bytes < byte_length selector then Inl (SelectorTypeError ''RangeError: Selector exceeds enclosing body budget'')
      else bindR (parseSelector selector no_policy) (\<lambda>e. Inr (byte_length selector, ast_depth e, ast_nodes e)))"

end
