(* ===== verification/Selector_Grammar.thy ===== *)
theory Selector_Grammar
  imports Read_Selector
begin

text \<open>
  The selectors against their grammar: the parser with its two stacks accepts exactly the token
  sequences of the grammar within the bounds and builds their one tree, and the evaluation with its
  stack of frames computes the recursive meaning of the tree.
\<close>

section \<open>The grammar\<close>

text \<open>
  \<open>binding e\<close> is the precedence of the outermost operator of an expression, 5 for one that needs none.
  An operand of an operator binds tighter than the operator; a left operand of \<open>&&\<close> or \<open>||\<close> may bind
  equally, so that the operators associate to the left.
\<close>

fun binding :: "boolean_node \<Rightarrow> nat" where
  "binding (BPath p) = 5"
| "binding (BGroup e) = 5"
| "binding (BNot e) = 4"
| "binding (BComparison c l r) = 3"
| "binding (BAnd l r) = 2"
| "binding (BOr l r) = 1"

fun grammatical :: "boolean_node \<Rightarrow> bool" where
  "grammatical (BPath p) = True"
| "grammatical (BGroup e) = grammatical e"
| "grammatical (BNot e) = (grammatical e \<and> 4 < binding e)"
| "grammatical (BComparison c l r) = (\<not> (is_path l \<and> is_path r))"
| "grammatical (BAnd l r) = (grammatical l \<and> grammatical r \<and> 2 \<le> binding l \<and> 2 < binding r)"
| "grammatical (BOr l r) = (grammatical l \<and> grammatical r \<and> 1 \<le> binding l \<and> 1 < binding r)"

fun value_token :: "value_node \<Rightarrow> token" where
  "value_token (VPath p) = TPath p"
| "value_token (VLiteral l) = TLiteral l"

fun expression_tokens :: "boolean_node \<Rightarrow> token list" where
  "expression_tokens (BPath p) = [TPath p]"
| "expression_tokens (BGroup e) = TOpenParen # expression_tokens e @ [TCloseParen]"
| "expression_tokens (BNot e) = TOperator NotOp # expression_tokens e"
| "expression_tokens (BComparison c l r) = [value_token l, TOperator (Compare c), value_token r]"
| "expression_tokens (BAnd l r) = expression_tokens l @ TOperator AndOp # expression_tokens r"
| "expression_tokens (BOr l r) = expression_tokens l @ TOperator OrOp # expression_tokens r"

fun node_binding :: "ast_node \<Rightarrow> nat" where
  "node_binding (ALiteral l) = 5"
| "node_binding (ABoolean e) = binding e"

fun node_tokens :: "ast_node \<Rightarrow> token list" where
  "node_tokens (ALiteral l) = [TLiteral l]"
| "node_tokens (ABoolean e) = expression_tokens e"

fun within_limits :: "selector_limits \<Rightarrow> boolean_node \<Rightarrow> bool" where
  "within_limits lim e \<longleftrightarrow> ast_depth e \<le> sl_depth lim \<and> ast_nodes e \<le> sl_nodes lim"

fun node_ok :: "selector_limits \<Rightarrow> ast_node \<Rightarrow> bool" where
  "node_ok lim (ALiteral l) = True"
| "node_ok lim (ABoolean e) = (grammatical e \<and> within_limits lim e)"

lemma binding_bounds [simp]: "Suc 0 \<le> binding e" "binding e \<le> 5" "0 < binding e"
  by (cases e; simp)+

lemma value_size_pos [simp]: "Suc 0 \<le> value_size v" "0 < value_size v"
  by (cases v; simp)+

lemma enforce_limits [simp]:
  "enforceAstLimits lim (ast_depth e) (ast_nodes e) offset = Inr u \<longleftrightarrow> within_limits lim e"
  "enforceAstLimits lim (Suc k) (Suc k) offset = Inr u \<longleftrightarrow> k < sl_depth lim \<and> k < sl_nodes lim"
  by (auto simp: enforceAstLimits_def)

lemma precedence_bounds [simp]: "precedence op \<le> 4" "0 < precedence op"
  by (cases op; simp)+

section \<open>Soundness\<close>

text \<open>The precedence that an operand has to exceed below a stack of operators.\<close>

fun pending_precedence :: "operator_entry list \<Rightarrow> nat" where
  "pending_precedence (Pending op offset # operators) = precedence op"
| "pending_precedence operators = 0"

lemma pending_bound [simp]: "pending_precedence operators < 5"
proof (cases operators rule: pending_precedence.cases)
  case (1 op offset operators)
  then show ?thesis by (cases op) simp_all
qed simp_all

text \<open>
  The stacks after the tokens \<open>ts\<close> of an expression; the flag says whether an operand is expected.
\<close>

inductive stacked :: "selector_limits \<Rightarrow> operator_entry list \<Rightarrow> ast_node list \<Rightarrow> token list \<Rightarrow> bool \<Rightarrow> bool" for lim where
  start: "stacked lim [] [] [] True"
| operand: "stacked lim operators vals ts True \<Longrightarrow> node_ok lim v \<Longrightarrow> pending_precedence operators < node_binding v \<Longrightarrow>
    stacked lim operators (v # vals) (ts @ node_tokens v) False"
| binary: "stacked lim operators (v # vals) ts False \<Longrightarrow> op \<noteq> NotOp \<Longrightarrow> pending_precedence operators < precedence op \<Longrightarrow>
    precedence op \<le> node_binding v \<Longrightarrow>
    stacked lim (Pending op offset # operators) (v # vals) (ts @ [TOperator op]) True"
| negated: "stacked lim operators vals ts True \<Longrightarrow> pending_precedence operators < 4 \<Longrightarrow>
    stacked lim (Pending NotOp offset # operators) vals (ts @ [TOperator NotOp]) True"
| opened: "stacked lim operators vals ts True \<Longrightarrow>
    stacked lim (OpenGroup offset (length vals) # operators) vals (ts @ [TOpenParen]) True"

inductive_cases stacked_valueE: "stacked lim operators vals ts False"
inductive_cases stacked_pendingE: "stacked lim (Pending op offset # operators) vals ts True"
inductive_cases stacked_openE: "stacked lim (OpenGroup offset count # operators) vals ts True"
inductive_cases stacked_emptyE: "stacked lim [] vals ts True"

lemma requireBoolean_Inr [simp]: "requireBoolean v offset = Inr b \<longleftrightarrow> v = ABoolean b"
  by (auto simp: requireBoolean_def split: ast_node.splits)

lemma requireValue_Inr:
  "requireValue v offset = Inr x \<longleftrightarrow> (case x of VLiteral l \<Rightarrow> v = ALiteral l | VPath p \<Rightarrow> v = ABoolean (BPath p))"
  by (auto simp: requireValue_def split: ast_node.splits boolean_node.splits value_node.splits)

lemma popNode_Cons [simp]: "popNode (v # vs) offset = Inr (v, vs)"
  by (simp add: popNode_def)

lemma push_node_Inr [simp]:
  "push_node (enforceAstLimits lim) offset node vals = Inr vs \<longleftrightarrow> within_limits lim node \<and> vs = ABoolean node # vals"
  by (auto simp: push_node_def simp del: within_limits.simps)

lemma node_tokens_value: "requireValue v offset = Inr x \<Longrightarrow> node_tokens v = [value_token x]"
  by (auto simp: requireValue_Inr split: value_node.splits)

lemma binary_node_tokens:
  assumes "binary_node op left right offset = Inr node" "node_ok lim left" "node_ok lim right"
    "precedence op \<le> node_binding left" "precedence op < node_binding right"
  shows "expression_tokens node = node_tokens left @ TOperator op # node_tokens right \<and> grammatical node \<and>
    binding node = precedence op"
proof (cases op)
  case (Compare c)
  then show ?thesis using assms(1) by (auto simp: node_tokens_value split: if_splits)
qed (use assms in auto)

text \<open>A reduction replaces the operands and the operator on the stacks by their node.\<close>

lemma reduce_stacked:
  assumes "stacked lim (Pending op offset # operators) vals ts False"
    "reduceOperator (enforceAstLimits lim) op offset vals = Inr vals'"
  shows "stacked lim operators vals' ts False \<and> (\<exists>v vs. vals' = v # vs \<and> node_binding v = precedence op)"
proof -
  from assms(1) obtain right vs us where right: "vals = right # vs" "ts = us @ node_tokens right"
    "stacked lim (Pending op offset # operators) vs us True" "node_ok lim right" "precedence op < node_binding right"
    by (cases rule: stacked_valueE) auto
  from right(3) consider
    (binary) left ws us' where "vs = left # ws" "us = us' @ [TOperator op]" "stacked lim operators (left # ws) us' False"
      "op \<noteq> NotOp" "pending_precedence operators < precedence op" "precedence op \<le> node_binding left"
  | (negated) us' where "us = us' @ [TOperator NotOp]" "op = NotOp" "stacked lim operators vs us' True" "pending_precedence operators < 4"
    by (cases rule: stacked_pendingE) auto
  then show ?thesis
  proof cases
    case binary
    from binary(3) obtain us'' where l: "stacked lim operators ws us'' True" "us' = us'' @ node_tokens left" "node_ok lim left"
      by (cases rule: stacked_valueE) auto
    from assms(2) right(1) binary(1,4) obtain node where n: "binary_node op left right offset = Inr node"
      "within_limits lim node" "vals' = ABoolean node # ws"
      by (auto simp: reduceOperator_def simp del: within_limits.simps)
    have b: "expression_tokens node = node_tokens left @ TOperator op # node_tokens right \<and> grammatical node \<and>
      binding node = precedence op"
      by (rule binary_node_tokens [OF n(1) l(3) right(4) binary(6) right(5)])
    have "stacked lim operators (ABoolean node # ws) (us'' @ node_tokens (ABoolean node)) False"
      using l(1) n(2) b binary(5) by (intro stacked.operand) auto
    then show ?thesis using n(3) right(2) binary(2) l(2) b by simp
  next
    case negated
    from assms(2) right(1) negated(2) obtain b where b: "right = ABoolean b" "within_limits lim (BNot b)" "vals' = ABoolean (BNot b) # vs"
      by (auto simp: reduceOperator_def popBoolean_def simp del: within_limits.simps)
    have "stacked lim operators (ABoolean (BNot b) # vs) (us' @ node_tokens (ABoolean (BNot b))) False"
      using negated right(4,5) b by (intro stacked.operand) auto
    then show ?thesis using b negated(1,2) right(2) by simp
  qed
qed

lemma incoming_stacked:
  assumes "reduceForIncoming (enforceAstLimits lim) incoming operators vals = Inr (operators', vals')"
    "stacked lim operators vals ts False" "precedence incoming \<le> node_binding (hd vals)"
  shows "stacked lim operators' vals' ts False \<and> pending_precedence operators' < precedence incoming \<and>
    precedence incoming \<le> node_binding (hd vals')"
  using assms
proof (induction "enforceAstLimits lim" incoming operators vals rule: reduceForIncoming.induct)
  case (1 incoming op offset operators vals)
  show ?case
  proof (cases "precedence op < precedence incoming")
    case False
    with 1(2) obtain vs where r: "reduceOperator (enforceAstLimits lim) op offset vals = Inr vs"
      "reduceForIncoming (enforceAstLimits lim) incoming operators vs = Inr (operators', vals')" by auto
    from reduce_stacked [OF 1(3) r(1)] 1(1) [OF False r] False show ?thesis by auto
  qed (use 1 in auto)
qed auto

lemma reduceAll_stacked:
  "reduceAll (enforceAstLimits lim) operators vals = Inr vals' \<Longrightarrow> stacked lim operators vals ts False \<Longrightarrow>
     stacked lim [] vals' ts False"
  by (induction "enforceAstLimits lim" operators vals rule: reduceAll.induct) (auto dest: reduce_stacked)

lemma closeGroup_stacked:
  assumes "closeGroup (enforceAstLimits lim) offset operators vals = Inr (operators', vals')"
    "stacked lim operators vals ts False"
  shows "stacked lim operators' vals' (ts @ [TCloseParen]) False \<and> node_binding (hd vals') = 5"
  using assms
proof (induction "enforceAstLimits lim" offset operators vals rule: closeGroup.induct)
  case (2 offset opened count operators vals)
  from 2(2) obtain v vs us where v: "vals = v # vs" "ts = us @ node_tokens v" "node_ok lim v"
    "stacked lim (OpenGroup opened count # operators) vs us True" by (cases rule: stacked_valueE) auto
  from v(4) obtain us' where us: "us = us' @ [TOpenParen]" "stacked lim operators vs us' True"
    by (cases rule: stacked_openE) auto
  from 2(1) v(1) obtain b where b: "v = ABoolean b" "within_limits lim (BGroup b)" "operators' = operators"
    "vals' = ABoolean (BGroup b) # vs"
    by (auto simp: popBoolean_def simp del: within_limits.simps split: if_splits)
  have "stacked lim operators (ABoolean (BGroup b) # vs) (us' @ node_tokens (ABoolean (BGroup b))) False"
    using us(2) v(3) b by (intro stacked.operand) auto
  then show ?case using b us(1) v(2) by simp
next
  case (3 offset op at_op operators vals)
  then show ?case by (auto dest: reduce_stacked)
qed simp

lemma closing_sound:
  assumes "closing (enforceAstLimits lim) n offset tokens expecting saw operators vals = Inr e"
    "stacked lim operators vals ts expecting"
  shows "ts = expression_tokens e \<and> grammatical e \<and> within_limits lim e \<and> (tokens = [] \<or> fst (hd tokens) = TEnd)"
proof -
  from assms(1) obtain vs where c: "\<not> expecting" "reduceAll (enforceAstLimits lim) operators vals = Inr vs"
    "vs = [ABoolean e]" "fst (fst (take_token n tokens)) = TEnd"
    by (auto simp: closing_def takeSingleBoolean_def Let_def unsupportedOrSyntaxAfterSelector_def
        split: if_splits list.splits token.splits)
  then have "stacked lim [] [ABoolean e] ts False" using reduceAll_stacked assms(2) by auto
  then obtain us where "ts = us @ expression_tokens e" "stacked lim [] [] us True" "node_ok lim (ABoolean e)"
    by (cases rule: stacked_valueE) auto
  then show ?thesis using c(4) by (auto elim!: stacked_emptyE simp: take_token_def split: list.splits)
qed

lemma parse_sound:
  assumes "parse_turns (enforceAstLimits lim) n tokens expecting saw operators vals = Inr e"
    "stacked lim operators vals ts expecting" "\<not> expecting \<Longrightarrow> node_binding (hd vals) = 5"
  shows "\<exists>rest. ts @ map fst tokens = expression_tokens e @ TCloseBracket # rest \<and> (rest = [] \<or> hd rest = TEnd) \<and>
    grammatical e \<and> within_limits lim e"
  using assms
proof (induction tokens arbitrary: expecting saw operators vals ts)
  case (Cons x tokens)
  obtain t offset where x: "x = (t, offset)" by (cases x)
  note turn = Cons.prems(1) [unfolded x parse_turns.simps(2)]
  have step: ?case if "parse_turns (enforceAstLimits lim) n tokens expecting' saw' operators' vals' = Inr e"
    "stacked lim operators' vals' (ts @ [t]) expecting'" "\<not> expecting' \<Longrightarrow> node_binding (hd vals') = 5"
    for expecting' saw' operators' vals'
    using Cons.IH [OF that] by (simp add: x)
  consider (close) "t = TCloseBracket" | (operand) "expecting" "t \<noteq> TCloseBracket" "t \<noteq> TEnd"
    | (operator) "\<not> expecting" "t \<noteq> TCloseBracket" "t \<noteq> TEnd"
    using turn by (cases "t = TEnd") auto
  then show ?case
  proof cases
    case close
    then have "closing (enforceAstLimits lim) n offset tokens expecting saw operators vals = Inr e" using turn by simp
    from closing_sound [OF this Cons.prems(2)] show ?thesis
      by (intro exI [of _ "map fst tokens"]) (cases tokens; auto simp: x close)
  next
    case operand
    have expects: "expecting = True" using operand(1) by simp
    note st = Cons.prems(2) [unfolded expects]
    show ?thesis
    proof (cases t)
      case (TOperator op)
      with turn operand have op: "op = NotOp" by (cases op) auto
      have "\<nexists>before r. operators = Pending NotOp before # r" using turn operand by (auto simp: TOperator op)
      then have "pending_precedence operators < 4" and
        run: "parse_turns (enforceAstLimits lim) n tokens True saw (Pending NotOp offset # operators) vals = Inr e"
        using turn operand by (auto simp: TOperator op split: list.splits operator_entry.splits operator.splits)
      from stacked.negated [OF st this(1)] show ?thesis by (intro step [OF run]) (auto simp: TOperator op)
    next
      case TOpenParen
      show ?thesis
        by (rule step [of True saw "OpenGroup offset (length vals) # operators" vals])
          (use turn operand stacked.opened [OF st] in \<open>auto simp: TOpenParen\<close>)
    next
      case (TPath p)
      from turn operand have "within_limits lim (BPath p)"
        "parse_turns (enforceAstLimits lim) n tokens False True operators (ABoolean (BPath p) # vals) = Inr e"
        by (auto simp: TPath makePath_def)
      then show ?thesis
        using stacked.operand [OF st, of "ABoolean (BPath p)"] by (intro step [of False True]) (auto simp: TPath)
    next
      case (TLiteral l)
      from turn operand have "parse_turns (enforceAstLimits lim) n tokens False True operators (ALiteral l # vals) = Inr e"
        by (auto simp: TLiteral)
      then show ?thesis
        using stacked.operand [OF st, of "ALiteral l"] by (intro step [of False True]) (auto simp: TLiteral)
    qed (use turn operand in auto)
  next
    case operator
    have expects: "expecting = False" using operator(1) by simp
    note st = Cons.prems(2) [unfolded expects]
    have top: "node_binding (hd vals) = 5" using Cons.prems(3) operator(1) by simp
    show ?thesis
    proof (cases t)
      case (TOperator op)
      with turn operator obtain ops vs where op: "op \<noteq> NotOp" "reduceForIncoming (enforceAstLimits lim) op operators vals = Inr (ops, vs)"
        "parse_turns (enforceAstLimits lim) n tokens True saw (Pending op offset # ops) vs = Inr e"
        by (auto split: if_splits)
      have i: "stacked lim ops vs ts False" "pending_precedence ops < precedence op" "precedence op \<le> node_binding (hd vs)"
        using incoming_stacked [OF op(2) st] top by (simp_all add: le_trans [OF precedence_bounds(1)])
      from i(1) obtain v r where "vs = v # r" by (cases rule: stacked_valueE) auto
      with i stacked.binary [of lim ops v r ts op offset] op(1,3) show ?thesis
        by (intro step [of True saw "Pending op offset # ops" vs]) (auto simp: TOperator)
    next
      case TCloseParen
      with turn operator obtain ops vs where c: "closeGroup (enforceAstLimits lim) offset operators vals = Inr (ops, vs)"
        "parse_turns (enforceAstLimits lim) n tokens False saw ops vs = Inr e" by auto
      from closeGroup_stacked [OF c(1) st] show ?thesis by (intro step [OF c(2)]) (auto simp: TCloseParen)
    qed (use turn operator in auto)
  qed
qed simp


section \<open>Completeness\<close>

lemma reduceAll_append: "reduceAll check (P @ Q) vals = bindR (reduceAll check P vals) (reduceAll check Q)"
proof (induction P arbitrary: vals)
  case (Cons x P)
  show ?case
  proof (cases x)
    case (Pending op offset)
    then show ?thesis using Cons by (cases "reduceOperator check op offset vals") simp_all
  qed (simp add: syntax_error_def)
qed simp

definition pending_above :: "nat \<Rightarrow> operator_entry list \<Rightarrow> bool" where
  "pending_above k P \<longleftrightarrow> (\<forall>x \<in> set P. \<exists>op offset. x = Pending op offset \<and> k \<le> precedence op)"

lemma pending_above_simps [simp]:
  "pending_above k []" "pending_above k (x # P) \<longleftrightarrow> (\<exists>op offset. x = Pending op offset \<and> k \<le> precedence op) \<and> pending_above k P"
  "pending_above k (P @ Q) \<longleftrightarrow> pending_above k P \<and> pending_above k Q"
  by (auto simp: pending_above_def)

lemma pending_above_mono: "pending_above k P \<Longrightarrow> j \<le> k \<Longrightarrow> pending_above j P"
  by (fastforce simp: pending_above_def)

lemma pending_above_5: "pending_above 5 P \<longleftrightarrow> P = []"
proof
  assume p: "pending_above 5 P"
  show "P = []"
  proof (cases P)
    case (Cons x Q)
    with p obtain op where "5 \<le> precedence op" by auto
    then show ?thesis by (cases op) auto
  qed
qed simp

lemma incoming_above:
  assumes "pending_above (precedence incoming) P" "pending_precedence operators < precedence incoming"
  shows "reduceForIncoming check incoming (P @ operators) vals = bindR (reduceAll check P vals) (\<lambda>vs. Inr (operators, vs))"
  using assms(1)
proof (induction P arbitrary: vals)
  case Nil
  show ?case using assms(2) by (cases operators rule: pending_precedence.cases) simp_all
next
  case (Cons x P)
  then obtain op offset where x: "x = Pending op offset" "precedence incoming \<le> precedence op" by auto
  then show ?case using Cons by (cases "reduceOperator check op offset vals") simp_all
qed

lemma close_above:
  "pending_above k P \<Longrightarrow> closeGroup check offset (P @ operators) vals = bindR (reduceAll check P vals) (closeGroup check offset operators)"
proof (induction P arbitrary: vals)
  case (Cons x P)
  then obtain op at_op where x: "x = Pending op at_op" by auto
  then show ?case using Cons by (cases "reduceOperator check op at_op vals") simp_all
qed simp

text \<open>What the stacks hold when the tokens of \<open>e\<close> were read: pending operators that reduce to \<open>e\<close>.\<close>

definition read_as :: "selector_limits \<Rightarrow> nat \<Rightarrow> located list \<Rightarrow> bool \<Rightarrow> operator_entry list \<Rightarrow> ast_node list \<Rightarrow> boolean_node \<Rightarrow> bool" where
  "read_as lim n tokens saw operators vals e \<longleftrightarrow> (\<exists>P V.
     (\<forall>rest. parse_turns (enforceAstLimits lim) n (tokens @ rest) True saw operators vals =
        parse_turns (enforceAstLimits lim) n rest False True (P @ operators) (V @ vals)) \<and>
     (\<forall>vs. reduceAll (enforceAstLimits lim) P (V @ vs) = Inr (ABoolean e # vs)) \<and> pending_above (binding e) P)"

lemma push_within [simp]: "within_limits lim e \<Longrightarrow> push_node (enforceAstLimits lim) offset e vals = Inr (ABoolean e # vals)"
  by (simp del: within_limits.simps)

lemma reduce_binary:
  assumes "binary_node op left right offset = Inr node" "op \<noteq> NotOp" "within_limits lim node"
  shows "reduceOperator (enforceAstLimits lim) op offset (right # left # vals) = Inr (ABoolean node # vals)"
  using assms by (simp add: reduceOperator_def del: within_limits.simps)

lemma read_operand:
  assumes "within_limits lim (BComparison c l r)" "v = l \<or> v = r"
  shows "parse_turns (enforceAstLimits lim) n ((value_token v, offset) # tokens) True saw operators vals =
    parse_turns (enforceAstLimits lim) n tokens False True operators
      ((case v of VPath p \<Rightarrow> ABoolean (BPath p) | VLiteral q \<Rightarrow> ALiteral q) # vals)"
proof (cases v)
  case (VPath p)
  have "value_size v \<le> max (value_size l) (value_size r)" "value_size v \<le> value_size l + value_size r"
    using assms(2) by auto
  then have "within_limits lim (BPath p)" using assms(1) VPath by simp
  then have "makePath p (enforceAstLimits lim) offset = Inr (ABoolean (BPath p))" by (simp add: makePath_def enforceAstLimits_def)
  then show ?thesis by (simp add: VPath parse_turns.simps(2))
qed (simp add: parse_turns.simps(2))

lemma read_binary:
  assumes "read_as lim n ls saw operators vals l" "\<And>vs. read_as lim n rs saw' (Pending op offset # operators) vs r"
    "op \<noteq> NotOp" "binary_node op (ABoolean l) (ABoolean r) offset = Inr node" "within_limits lim node"
    "pending_precedence operators < precedence op" "precedence op \<le> binding l" "precedence op < binding r"
    "binding node = precedence op" "saw' = True"
  shows "read_as lim n (ls @ (TOperator op, offset) # rs) saw operators vals node"
proof -
  let ?check = "enforceAstLimits lim"
  from assms(1) obtain P V where l: "\<And>rest. parse_turns ?check n (ls @ rest) True saw operators vals =
      parse_turns ?check n rest False True (P @ operators) (V @ vals)"
    "\<And>vs. reduceAll ?check P (V @ vs) = Inr (ABoolean l # vs)" "pending_above (binding l) P" by (auto simp: read_as_def)
  from assms(2) [of "ABoolean l # vals"] obtain Q W where r: "\<And>rest. parse_turns ?check n (rs @ rest) True saw' (Pending op offset # operators) (ABoolean l # vals) =
      parse_turns ?check n rest False True (Q @ Pending op offset # operators) (W @ ABoolean l # vals)"
    "\<And>vs. reduceAll ?check Q (W @ vs) = Inr (ABoolean r # vs)" "pending_above (binding r) Q" by (auto simp: read_as_def)
  have "reduceForIncoming ?check op (P @ operators) (V @ vals) = Inr (operators, ABoolean l # vals)"
    using incoming_above [OF pending_above_mono [OF l(3) assms(7)] assms(6)] l(2) by simp
  then have run: "parse_turns ?check n ((TOperator op, offset) # tokens) False True (P @ operators) (V @ vals) =
      parse_turns ?check n tokens True True (Pending op offset # operators) (ABoolean l # vals)" for tokens
    using assms(3) by (simp add: parse_turns.simps(2))
  have "parse_turns ?check n ((ls @ (TOperator op, offset) # rs) @ rest) True saw operators vals =
      parse_turns ?check n rest False True ((Q @ [Pending op offset]) @ operators) ((W @ [ABoolean l]) @ vals)" for rest
    using l(1) run r(1) assms(10) by simp
  moreover have "reduceAll ?check (Q @ [Pending op offset]) ((W @ [ABoolean l]) @ vs) = Inr (ABoolean node # vs)" for vs
    using r(2) [of "ABoolean l # vs"] reduce_binary [OF assms(4,3,5)] by (simp add: reduceAll_append)
  moreover have "pending_above (binding node) (Q @ [Pending op offset])"
    using pending_above_mono [OF r(3)] assms(8,9) by simp
  ultimately show ?thesis unfolding read_as_def by blast
qed

lemma parse_complete:
  assumes "grammatical e" "within_limits lim e" "map fst tokens = expression_tokens e" "pending_precedence operators < binding e"
  shows "read_as lim n tokens saw operators vals e"
  using assms
proof (induction e arbitrary: tokens saw operators vals)
  case (BPath p)
  then obtain offset where t: "tokens = [(TPath p, offset)]" by auto
  have "makePath p (enforceAstLimits lim) offset = Inr (ABoolean (BPath p))"
    using BPath.prems(2) by (simp add: makePath_def enforceAstLimits_def)
  then show ?case
    unfolding read_as_def by (intro exI [of _ "[]"] exI [of _ "[ABoolean (BPath p)]"]) (simp add: t parse_turns.simps(2))
next
  case (BComparison c l r)
  then obtain i j k where t: "tokens = [(value_token l, i), (TOperator (Compare c), j), (value_token r, k)]"
    by (auto simp: map_eq_Cons_conv)
  let ?node = "\<lambda>v. case v of VPath p \<Rightarrow> ABoolean (BPath p) | VLiteral q \<Rightarrow> ALiteral q"
  have v: "requireValue (?node x) offset = Inr x" for x offset
    by (auto simp: requireValue_Inr split: value_node.splits)
  have inc: "reduceForIncoming (enforceAstLimits lim) (Compare c) operators vs = Inr (operators, vs)" for vs
    using incoming_above [of "Compare c" "[]" operators] BComparison.prems(4) by simp
  have "parse_turns (enforceAstLimits lim) n (tokens @ rest) True saw operators vals =
      parse_turns (enforceAstLimits lim) n rest False True ([Pending (Compare c) j] @ operators) ([?node r, ?node l] @ vals)" for rest
    unfolding t using read_operand [OF BComparison.prems(2)] inc by (simp add: parse_turns.simps(2) del: within_limits.simps)
  moreover have "reduceAll (enforceAstLimits lim) [Pending (Compare c) j] ([?node r, ?node l] @ vs) = Inr (ABoolean (BComparison c l r) # vs)" for vs
  proof -
    have "binary_node (Compare c) (?node l) (?node r) j = Inr (BComparison c l r)"
      using BComparison.prems(1) v by simp
    from reduce_binary [OF this _ BComparison.prems(2)] show ?thesis by simp
  qed
  ultimately show ?case
    unfolding read_as_def
    by (intro exI [of _ "[Pending (Compare c) j]"] exI [of _ "[?node r, ?node l]"] conjI allI) simp_all
next
  case (BNot e)
  then obtain offset ts where t: "tokens = (TOperator NotOp, offset) # ts" "map fst ts = expression_tokens e"
    by (auto simp: map_eq_Cons_conv)
  have "binding e = 5" using BNot.prems(1) binding_bounds(2) [of e] by (simp del: binding_bounds)
  then have "read_as lim n ts saw (Pending NotOp offset # operators) vals e"
    using BNot.prems t(2) by (intro BNot.IH) auto
  then obtain P V where p: "\<And>rest. parse_turns (enforceAstLimits lim) n (ts @ rest) True saw (Pending NotOp offset # operators) vals =
      parse_turns (enforceAstLimits lim) n rest False True (P @ Pending NotOp offset # operators) (V @ vals)"
    "\<And>vs. reduceAll (enforceAstLimits lim) P (V @ vs) = Inr (ABoolean e # vs)" "pending_above (binding e) P" by (auto simp: read_as_def)
  have P: "P = []" using p(3) \<open>binding e = 5\<close> pending_above_5 by simp
  have V: "V = [ABoolean e]" using p(2) [of "[]"] by (simp add: P)
  have "parse_turns (enforceAstLimits lim) n (tokens @ rest) True saw operators vals =
      parse_turns (enforceAstLimits lim) n (ts @ rest) True saw (Pending NotOp offset # operators) vals" for rest
    using BNot.prems(4) by (auto simp: t parse_turns.simps(2) split: list.splits operator_entry.splits operator.splits)
  then have "parse_turns (enforceAstLimits lim) n (tokens @ rest) True saw operators vals =
      parse_turns (enforceAstLimits lim) n rest False True ([Pending NotOp offset] @ operators) ([ABoolean e] @ vals)" for rest
    using p(1) by (simp add: P V)
  moreover have "reduceAll (enforceAstLimits lim) [Pending NotOp offset] ([ABoolean e] @ vs) = Inr (ABoolean (BNot e) # vs)" for vs
    using BNot.prems(2) by (simp add: reduceOperator_def popBoolean_def del: within_limits.simps)
  ultimately show ?case
    unfolding read_as_def by (intro exI [of _ "[Pending NotOp offset]"] exI [of _ "[ABoolean e]"] conjI allI) simp_all
next
  case (BAnd l r)
  then obtain ls rs offset where t: "tokens = ls @ (TOperator AndOp, offset) # rs" "map fst ls = expression_tokens l"
    "map fst rs = expression_tokens r" by (auto simp: map_eq_append_conv map_eq_Cons_conv)
  have w: "within_limits lim l" "within_limits lim r" using BAnd.prems(2) by auto
  show ?case unfolding t(1)
  proof (rule read_binary [of lim n ls saw operators vals l rs True AndOp offset r])
    show "read_as lim n ls saw operators vals l"
      using BAnd.prems w t by (intro BAnd.IH(1)) auto
    show "read_as lim n rs True (Pending AndOp offset # operators) vs r" for vs
      using BAnd.prems w t by (intro BAnd.IH(2)) auto
  qed (use BAnd.prems in auto)
next
  case (BOr l r)
  then obtain ls rs offset where t: "tokens = ls @ (TOperator OrOp, offset) # rs" "map fst ls = expression_tokens l"
    "map fst rs = expression_tokens r" by (auto simp: map_eq_append_conv map_eq_Cons_conv)
  have w: "within_limits lim l" "within_limits lim r" using BOr.prems(2) by auto
  show ?case unfolding t(1)
  proof (rule read_binary [of lim n ls saw operators vals l rs True OrOp offset r])
    show "read_as lim n ls saw operators vals l"
      using BOr.prems w t by (intro BOr.IH(1)) auto
    show "read_as lim n rs True (Pending OrOp offset # operators) vs r" for vs
      using BOr.prems w t by (intro BOr.IH(2)) auto
  qed (use BOr.prems in auto)
next
  case (BGroup e)
  then obtain ts i j where t: "tokens = (TOpenParen, i) # ts @ [(TCloseParen, j)]" "map fst ts = expression_tokens e"
    by (auto simp: map_eq_append_conv map_eq_Cons_conv)
  have w: "within_limits lim e" using BGroup.prems(2) by auto
  have "read_as lim n ts saw (OpenGroup i (length vals) # operators) vals e"
    using BGroup.prems w t(2) by (intro BGroup.IH) (auto simp: Suc_le_eq [symmetric])
  then obtain P V where p: "\<And>rest. parse_turns (enforceAstLimits lim) n (ts @ rest) True saw (OpenGroup i (length vals) # operators) vals =
      parse_turns (enforceAstLimits lim) n rest False True (P @ OpenGroup i (length vals) # operators) (V @ vals)"
    "\<And>vs. reduceAll (enforceAstLimits lim) P (V @ vs) = Inr (ABoolean e # vs)" "pending_above (binding e) P" by (auto simp: read_as_def)
  have "closeGroup (enforceAstLimits lim) j (P @ OpenGroup i (length vals) # operators) (V @ vals) =
      Inr (operators, ABoolean (BGroup e) # vals)"
    using close_above [OF p(3)] p(2) BGroup.prems(2) by (simp add: popBoolean_def del: within_limits.simps)
  then have "parse_turns (enforceAstLimits lim) n (tokens @ rest) True saw operators vals =
      parse_turns (enforceAstLimits lim) n rest False True ([] @ operators) ([ABoolean (BGroup e)] @ vals)" for rest
    using p(1) [of "(TCloseParen, j) # rest"] by (simp add: t(1) parse_turns.simps(2))
  then show ?case
    unfolding read_as_def by (intro exI [of _ "[]"] exI [of _ "[ABoolean (BGroup e)]"] conjI allI) simp_all
qed

section \<open>The parser accepts the grammar\<close>

text \<open>The scanner ends its tokens with the only \<open>TEnd\<close>.\<close>

lemma scan_token_no_end: "scan_token n s = Inr ((t, offset), r) \<Longrightarrow> t \<noteq> TEnd"
  by (auto simp: scan_token_def scanPath_def scanNumber_def scanWord_def punctuation_def single_token_def Let_def
      split: if_splits option.splits prod.splits)

lemma tokenize_from_end:
  "tokenize_from n s = Inr tokens \<Longrightarrow> \<exists>us. map fst tokens = us @ [TEnd] \<and> TEnd \<notin> set us"
proof (induction n s arbitrary: tokens rule: tokenize_from.induct)
  case (1 n s)
  note run = 1(3) [unfolded tokenize_from.simps [of n s]]
  show ?case
  proof (cases s)
    case Nil
    then show ?thesis using run by (intro exI [of _ "[]"]) auto
  next
    case (Cons c r)
    show ?thesis
    proof (cases "is_whitespace c")
      case True
      then show ?thesis using run 1(1) [OF Cons] Cons by simp
    next
      case False
      with run Cons obtain t offset rest ts where t: "scan_token n (c # r) = Inr ((t, offset), rest)"
        "tokenize_from n rest = Inr ts" "tokens = (t, offset) # ts" by auto
      from 1(2) [OF Cons False t(1) refl t(2)] obtain us where "map fst ts = us @ [TEnd] \<and> TEnd \<notin> set us" by auto
      then show ?thesis using t(3) scan_token_no_end [OF t(1)] by (intro exI [of _ "t # us"]) auto
    qed
  qed
qed

lemma expression_tokens_no_end: "TEnd \<notin> set (expression_tokens e)"
proof (induction e)
  case (BComparison c l r)
  then show ?case by (cases l; cases r) auto
qed auto

lemma expectToken_Inr:
  "expectToken n t tokens = Inr r \<Longrightarrow> t \<noteq> TEnd \<Longrightarrow> map fst tokens = t # map fst r"
  by (auto simp: expectToken_def take_token_def split: list.splits if_splits)

lemma expectToken_Cons [simp]: "expectToken n t ((t, offset) # r) = Inr r"
  by (simp add: expectToken_def take_token_def)

text \<open>C11: The two-stack parser of selectors is exactly its grammar.  It accepts a source with the result \<open>e\<close> when and
  only when the tokens of the source are \<open>$[?\<close>, the tokens of \<open>e\<close> and \<open>]\<close>, the tree \<open>e\<close> respects the precedences
  (\<open>!\<close> above the comparisons above \<open>&&\<close> above \<open>||\<close>, both to the left, no comparison of two paths, no repeated \<open>!\<close>) and the
  whole tree is within the limits on depth and nodes.\<close>

theorem selector_parser_exact:
  "parseSelector source (enforceAstLimits lim) = Inr e \<longleftrightarrow>
     (\<exists>tokens. tokenize source = Inr tokens \<and>
        map fst tokens = [TDollar, TOpenBracket, TQuestion] @ expression_tokens e @ [TCloseBracket, TEnd] \<and>
        grammatical e \<and> within_limits lim e)"
proof
  let ?check = "enforceAstLimits lim" and ?n = "length source"
  assume "parseSelector source ?check = Inr e"
  then obtain tokens t1 t2 t3 where t: "tokenize source = Inr tokens" "expectToken ?n TDollar tokens = Inr t1"
    "expectToken ?n TOpenBracket t1 = Inr t2" "expectToken ?n TQuestion t2 = Inr t3"
    "parse_turns ?check ?n t3 True False [] [] = Inr e" by (auto simp: parseSelector_def Let_def)
  have m: "map fst tokens = [TDollar, TOpenBracket, TQuestion] @ map fst t3"
    using t(2-4) by (auto dest!: expectToken_Inr)
  from parse_sound [OF t(5) stacked.start] obtain rest where r: "map fst t3 = expression_tokens e @ TCloseBracket # rest"
    "rest = [] \<or> hd rest = TEnd" "grammatical e" "within_limits lim e" by auto
  from tokenize_from_end [OF t(1) [unfolded tokenize_def]] obtain us where us: "map fst tokens = us @ [TEnd]" "TEnd \<notin> set us"
    by auto
  have "rest = [TEnd]"
  proof (cases rest rule: rev_cases)
    case Nil
    then show ?thesis using us m r(1) by simp
  next
    case (snoc ys y)
    then have ys: "y = TEnd" "TEnd \<notin> set ys" using us m r(1) by auto
    have "ys = []" using r(2) snoc ys(2) by (cases ys) auto
    then show ?thesis using snoc ys by simp
  qed
  then show "\<exists>tokens. tokenize source = Inr tokens \<and>
        map fst tokens = [TDollar, TOpenBracket, TQuestion] @ expression_tokens e @ [TCloseBracket, TEnd] \<and>
        grammatical e \<and> within_limits lim e"
    using t(1) m r by auto
next
  let ?check = "enforceAstLimits lim" and ?n = "length source"
  assume "\<exists>tokens. tokenize source = Inr tokens \<and>
        map fst tokens = [TDollar, TOpenBracket, TQuestion] @ expression_tokens e @ [TCloseBracket, TEnd] \<and>
        grammatical e \<and> within_limits lim e"
  then obtain i j k l m ts where t: "tokenize source = Inr ((TDollar, i) # (TOpenBracket, j) # (TQuestion, k) # ts @ [(TCloseBracket, l), (TEnd, m)])"
    "map fst ts = expression_tokens e" "grammatical e" "within_limits lim e"
    by (auto simp: map_eq_append_conv map_eq_Cons_conv)
  from parse_complete [OF t(3,4,2), of "[]" ?n False "[]"] obtain P V where
    p: "\<And>rest. parse_turns ?check ?n (ts @ rest) True False [] [] = parse_turns ?check ?n rest False True P V"
    "\<And>vs. reduceAll ?check P (V @ vs) = Inr (ABoolean e # vs)" "pending_above (binding e) P" by (auto simp: read_as_def)
  have "\<not> list_ex is_open_group P" using p(3) by (auto simp: pending_above_def list_ex_iff)
  then have "closing ?check ?n l [(TEnd, m)] False True P V = Inr e"
    using p(2) [of "[]"] by (simp add: closing_def takeSingleBoolean_def take_token_def)
  then show "parseSelector source ?check = Inr e"
    using p(1) by (simp add: parseSelector_def t(1) parse_turns.simps(2))
qed

section \<open>The meaning of a selector\<close>

fun holds :: "json \<Rightarrow> boolean_node \<Rightarrow> bool" where
  "holds c (BPath p) = (resolvePath p c \<noteq> None)"
| "holds c (BComparison op l r) = compare_values op (resolveValue l c) (resolveValue r c)"
| "holds c (BNot e) = (\<not> holds c e)"
| "holds c (BAnd l r) = (holds c l \<and> holds c r)"
| "holds c (BOr l r) = (holds c l \<or> holds c r)"
| "holds c (BGroup e) = holds c e"

lemma evaluate_loop_holds:
  "evaluate_loop c ((e, False) # frames) results = evaluate_loop c frames (holds c e # results)"
  by (induction e arbitrary: frames results) (simp_all add: popResult_def)

lemma evaluate_holds: "evaluate e c = Inr (holds c e)"
  by (simp add: evaluate_def evaluate_loop_holds popResult_def del: evaluate_loop.simps(2))

text \<open>C12: Selection is total and means what its tree says: a refused selector is refused before any candidate is looked at,
  and an accepted one returns, in their order and never with the internal evaluation error, exactly the candidates at
  which the recursive meaning of its tree holds; the frame stack of the evaluation and its result stack never run empty.\<close>

theorem selection_exact:
  "selectReadResources selector limits candidates =
     bindR (validate_limits limits) (\<lambda>_.
       if sl_bytes limits < byte_length selector
       then Inl (SelectorError SourceBytes None (Some (sl_bytes limits, byte_length selector)))
       else bindR (parseSelector selector (enforceAstLimits limits)) (\<lambda>e. Inr (Inr (filter (\<lambda>c. holds c e) candidates))))"
proof -
  have "select_matches e candidates = Inr (filter (\<lambda>c. holds c e) candidates)" for e
    by (induction candidates) (simp_all add: evaluate_holds)
  then show ?thesis by (simp add: selectReadResources_def)
qed

end
