(* ===== verification/Snapshot_Copy.thy ===== *)
theory Snapshot_Copy
  imports Json_Admission
begin

text \<open>
  The bounded copies of the pagination (\<open>snapshotJson\<close> and its budget in
  \<open>packages/server/src/read-pagination.ts\<close>): an iterative walk that copies a JSON value while it
  counts the bytes of its text and its positions against two capacities.  Inputs are JSON trees, so
  the branches for accessors, proxies, cycles and shared objects do not occur.
\<close>

section \<open>The budget\<close>

record snapshot_budget =
  remainingBytes :: nat
  remainingNodes :: nat
  retainedBytes :: nat
  retainedNodes :: nat

text \<open>\<open>None\<close> is \<open>SnapshotCapacityExceeded\<close>.\<close>

definition consumeSnapshotBytes :: "nat \<Rightarrow> snapshot_budget \<Rightarrow> snapshot_budget option" where
  "consumeSnapshotBytes amount b =
     (if remainingBytes b < amount then None
      else Some (b \<lparr> remainingBytes := remainingBytes b - amount, retainedBytes := retainedBytes b + amount \<rparr>))"

definition consumeSnapshotNodes :: "nat \<Rightarrow> snapshot_budget \<Rightarrow> snapshot_budget option" where
  "consumeSnapshotNodes amount b =
     (if remainingNodes b < amount then None
      else Some (b \<lparr> remainingNodes := remainingNodes b - amount, retainedNodes := retainedNodes b + amount \<rparr>))"

fun consume_units :: "jstring \<Rightarrow> snapshot_budget \<Rightarrow> snapshot_budget option" where
  "consume_units [] b = Some b"
| "consume_units (c # s) b =
     (if c \<in> {0x22, 0x5C, 8, 9, 10, 12, 13} then Option.bind (consumeSnapshotBytes 2 b) (consume_units s)
      else if c \<le> 0x1F \<or> (is_high_surrogate c \<or> is_low_surrogate c) \<and>
           \<not> (is_high_surrogate c \<and> s \<noteq> [] \<and> is_low_surrogate (hd s))
      then Option.bind (consumeSnapshotBytes 6 b) (consume_units s)
      else if c \<le> 0x7F then Option.bind (consumeSnapshotBytes 1 b) (consume_units s)
      else if c \<le> 0x7FF then Option.bind (consumeSnapshotBytes 2 b) (consume_units s)
      else if is_high_surrogate c then Option.bind (consumeSnapshotBytes 4 b) (consume_units (tl s))
      else Option.bind (consumeSnapshotBytes 3 b) (consume_units s))"

definition consumeJsonStringBytes :: "jstring \<Rightarrow> snapshot_budget \<Rightarrow> snapshot_budget option" where
  "consumeJsonStringBytes s b = Option.bind (consumeSnapshotBytes 2 b) (consume_units s)"

section \<open>The walk\<close>

text \<open>
  A job copies a value or finishes a container.  The code assigns each copied value to its place in
  the container it created before; here the copied values wait on a stack until the container is
  finished.
\<close>

datatype snapshot_job = CopyValue json | FinishArray nat | FinishObject "jstring list"

fun consume_keys :: "jstring list \<Rightarrow> snapshot_budget \<Rightarrow> snapshot_budget option" where
  "consume_keys [] b = Some b"
| "consume_keys (k # ks) b =
     Option.bind (consumeJsonStringBytes k b) (\<lambda>b1. Option.bind (consumeSnapshotBytes 1 b1) (consume_keys ks))"

fun copy_turn :: "snapshot_job \<Rightarrow> snapshot_job list \<Rightarrow> json list \<Rightarrow> snapshot_budget \<Rightarrow>
    (snapshot_job list \<times> json list \<times> snapshot_budget) option" where
  "copy_turn (FinishArray n) jobs out b = Some (jobs, JArr (rev (take n out)) # drop n out, b)"
| "copy_turn (FinishObject ks) jobs out b =
     Some (jobs, JObj (zip ks (rev (take (length ks) out))) # drop (length ks) out, b)"
| "copy_turn (CopyValue v) jobs out b = (case v of
     JNull \<Rightarrow> map_option (\<lambda>b1. (jobs, v # out, b1)) (consumeSnapshotBytes 4 b)
   | JStr s \<Rightarrow> map_option (\<lambda>b1. (jobs, v # out, b1)) (consumeJsonStringBytes s b)
   | JBool x \<Rightarrow> map_option (\<lambda>b1. (jobs, v # out, b1)) (consumeSnapshotBytes (if x then 4 else 5) b)
   | JNum d \<Rightarrow> map_option (\<lambda>b1. (jobs, v # out, b1)) (consumeSnapshotBytes (length (number_text d)) b)
   | JArr xs \<Rightarrow>
       if remainingNodes b < length xs then None
       else Option.bind (consumeSnapshotNodes (length xs) b) (\<lambda>b1.
         map_option (\<lambda>b2. (map CopyValue xs @ FinishArray (length xs) # jobs, out, b2))
           (consumeSnapshotBytes (2 + (length xs - 1)) b1))
   | JObj kvs \<Rightarrow>
       Option.bind (consumeSnapshotNodes (length kvs) b) (\<lambda>b1.
       Option.bind (consumeSnapshotBytes (2 + (length kvs - 1)) b1) (\<lambda>b2.
         map_option (\<lambda>b3. (map (CopyValue \<circ> snd) kvs @ FinishObject (map fst kvs) # jobs, out, b3))
           (consume_keys (rev (map fst kvs)) b2))))"

text \<open>The value and property positions of a value.\<close>

fun json_nodes :: "'n jv \<Rightarrow> nat" where
  "json_nodes (JArr xs) = Suc (sum_list (map json_nodes xs))"
| "json_nodes (JObj kvs) = Suc (sum_list (map (\<lambda>(k, x). json_nodes x) kvs))"
| "json_nodes v = 1"

fun job_size :: "snapshot_job \<Rightarrow> nat" where
  "job_size (CopyValue v) = 2 * json_nodes v"
| "job_size job = 1"

lemma copy_turn_smaller:
  "copy_turn job jobs out b = Some (jobs', out', b') \<Longrightarrow>
     sum_list (map job_size jobs') < job_size job + sum_list (map job_size jobs)"
  by (cases "(job, jobs, out, b)" rule: copy_turn.cases)
    (auto split: jv.splits if_splits option.splits bind_splits
      simp: comp_def sum_list_const_mult case_prod_unfold)

function copy_loop :: "snapshot_job list \<Rightarrow> json list \<Rightarrow> snapshot_budget \<Rightarrow> (json list \<times> snapshot_budget) option" where
  "copy_loop [] out b = Some (out, b)"
| "copy_loop (job # jobs) out b =
     Option.bind (copy_turn job jobs out b) (\<lambda>(jobs', out', b'). copy_loop jobs' out' b')"
  by pat_completeness auto
termination
proof (relation "measure (\<lambda>(jobs, out, b). sum_list (map job_size jobs))", goal_cases)
  case (2 job jobs out b a x y p q)
  then show ?case using copy_turn_smaller [of job jobs out b x p q] by auto
qed simp

definition snapshotJson :: "json \<Rightarrow> nat \<Rightarrow> nat \<Rightarrow> (json \<times> nat \<times> nat) option" where
  "snapshotJson input byteCapacity nodeCapacity =
     Option.bind (consumeSnapshotNodes 1
         \<lparr> remainingBytes = byteCapacity, remainingNodes = nodeCapacity, retainedBytes = 0, retainedNodes = 0 \<rparr>) (\<lambda>b.
       map_option (\<lambda>(out, b'). (hd out, retainedBytes b', retainedNodes b')) (copy_loop [CopyValue input] [] b))"

section \<open>What a copy costs\<close>

text \<open>\<open>fits m n b\<close>: \<open>m\<close> bytes and \<open>n\<close> positions are left; \<open>spend\<close> takes them.\<close>

definition fits :: "nat \<Rightarrow> nat \<Rightarrow> snapshot_budget \<Rightarrow> bool" where
  "fits m n b \<longleftrightarrow> m \<le> remainingBytes b \<and> n \<le> remainingNodes b"

definition spend :: "nat \<Rightarrow> nat \<Rightarrow> snapshot_budget \<Rightarrow> snapshot_budget" where
  "spend m n b = \<lparr> remainingBytes = remainingBytes b - m, remainingNodes = remainingNodes b - n,
     retainedBytes = retainedBytes b + m, retainedNodes = retainedNodes b + n \<rparr>"

definition paid :: "nat \<Rightarrow> nat \<Rightarrow> snapshot_budget \<Rightarrow> snapshot_budget option" where
  "paid m n b = (if fits m n b then Some (spend m n b) else None)"

lemma spend_spend [simp]: "spend m n (spend m' n' b) = spend (m' + m) (n' + n) b"
  by (simp add: spend_def)

lemma spend_zero [simp]: "spend 0 0 b = b" "fits 0 0 b"
  by (simp_all add: spend_def fits_def)

lemma paid_bind: "Option.bind (paid m n b) (\<lambda>b'. paid m' n' b') = paid (m + m') (n + n') b"
  by (auto simp: paid_def fits_def) (auto simp: spend_def)

lemma paid_zero [simp]: "paid 0 0 b = Some b"
  by (simp add: paid_def)

lemma consume_bytes: "consumeSnapshotBytes m = paid m 0"
  by (rule ext) (simp add: consumeSnapshotBytes_def paid_def fits_def spend_def)

lemma consume_nodes: "consumeSnapshotNodes n = paid 0 n"
  by (rule ext) (simp add: consumeSnapshotNodes_def paid_def fits_def spend_def)

text \<open>The text of a string costs its bytes.\<close>

lemma byte_length_plain: "\<not> is_high_surrogate c \<Longrightarrow>
   byte_length (c # s) = (if c < 0x80 then 1 else if c < 0x800 then 2 else 3) + byte_length s"
  by (simp add: byte_length.simps(2))

lemma byte_length_pair: "is_high_surrogate c \<Longrightarrow> is_low_surrogate d \<Longrightarrow> byte_length (c # d # s) = 4 + byte_length s"
  by (simp add: byte_length.simps(2))

lemma hex_digit_ascii: "n < 16 \<Longrightarrow> hex_digit n < 0x80"
proof -
  assume "n < 16"
  then have "n \<in> set [0..<16]" by simp
  then show ?thesis by (auto simp: hex_digit_def upt_rec numeral_2_eq_2 [symmetric] simp del: set_upt)
qed

lemma bytes_of_escape: "byte_length (unicode_escape c @ s) = 6 + byte_length s"
proof -
  have "unat c < 65536" using unsigned_less [of c, where 'a = nat] by simp
  then have "unat c div 4096 < 16" by linarith
  then show ?thesis by (simp add: unicode_escape_def Let_def byte_length_ascii hex_digit_ascii)
qed

fun unit_cost :: "code_unit \<Rightarrow> nat" where
  "unit_cost c =
     (if c \<in> {0x22, 0x5C, 8, 9, 10, 12, 13} then 2
      else if c \<le> 0x1F \<or> is_high_surrogate c \<or> is_low_surrogate c then 6
      else if c \<le> 0x7F then 1 else if c \<le> 0x7FF then 2 else 3)"

lemma bytes_of_quote_unit: "byte_length (quote_unit c @ s) = unit_cost c + byte_length s"
proof -
  have lt: "c < 0x20 \<longleftrightarrow> c \<le> 0x1F" "c < 0x80 \<longleftrightarrow> c \<le> 0x7F" "c < 0x800 \<longleftrightarrow> c \<le> 0x7FF"
    by (auto simp: word_less_nat_alt word_le_nat_alt)
  show ?thesis
    by (auto simp: quote_unit_def byte_length_ascii byte_length_plain bytes_of_escape lt)
qed

lemma pair_units: "is_high_surrogate c \<Longrightarrow> \<not> c \<le> 0x7FF \<and> \<not> c \<le> 0x7F \<and> \<not> c \<le> 0x1F \<and> c \<notin> {0x22, 0x5C, 8, 9, 10, 12, 13}"
  by (auto simp: unit_class_defs)

lemma consume_pair:
  "is_high_surrogate c \<Longrightarrow> is_low_surrogate d \<Longrightarrow> consume_units (c # d # s) b = Option.bind (paid 4 0 b) (consume_units s)"
  using pair_units [of c] by (simp add: consume_bytes)

lemma consume_single:
  "\<not> (is_high_surrogate c \<and> s \<noteq> [] \<and> is_low_surrogate (hd s)) \<Longrightarrow>
     consume_units (c # s) b = Option.bind (paid (unit_cost c) 0 b) (consume_units s)"
  by (auto simp: consume_bytes)

lemma consume_units_paid: "consume_units s = paid (byte_length (quote_units s)) 0"
proof (induction s rule: quote_units.induct)
  case 1
  show ?case by (rule ext) simp
next
  case (2 c)
  have "byte_length (quote_unit c) = unit_cost c" using bytes_of_quote_unit [of c "[]"] by (simp del: unit_cost.simps)
  then show ?case
    by (intro ext) (simp add: consume_single paid_bind paid_def del: unit_cost.simps consume_units.simps(2))
next
  case (3 c d s)
  show ?case
  proof (cases "is_high_surrogate c \<and> is_low_surrogate d")
    case True
    then show ?thesis
      using 3(1) by (intro ext) (simp add: consume_pair byte_length_pair paid_bind del: consume_units.simps(2))
  next
    case False
    then show ?thesis
      using 3(2) bytes_of_quote_unit [of c "quote_units (d # s)"]
      by (intro ext) (auto simp: consume_single paid_bind simp del: unit_cost.simps consume_units.simps(2))
  qed
qed

lemma bytes_after: "c < 0x80 \<Longrightarrow> byte_length (s @ [c]) = Suc (byte_length s)"
  using byte_length_split_ascii [of c s "[]"] by simp

lemma consume_string: "consumeJsonStringBytes s = paid (byte_length (string_text s)) 0"
  by (intro ext) (simp add: consumeJsonStringBytes_def consume_bytes consume_units_paid paid_bind string_text_def
      byte_length_ascii bytes_after)

lemma consume_keys_paid: "consume_keys ks = paid (\<Sum>k \<leftarrow> ks. Suc (byte_length (string_text k))) 0"
proof (induction ks)
  case (Cons k ks)
  show ?case by (intro ext) (simp add: consume_string consume_bytes Cons paid_bind)
qed (simp add: ext)

text \<open>The text of a value begins with an ASCII character, so that texts are measured piece by piece.\<close>

definition solid :: "jstring \<Rightarrow> bool" where
  "solid s \<longleftrightarrow> s \<noteq> [] \<and> hd s < 0x80"

lemma ascii_not_low: "c < 0x80 \<Longrightarrow> \<not> is_low_surrogate c"
  by (auto simp: unit_class_defs)

lemma bytes_append_solid: "solid t \<Longrightarrow> byte_length (s @ t) = byte_length s + byte_length t"
  by (intro byte_length_append) (auto simp: solid_def ascii_not_low)

lemma solid_simps [simp]: "solid (c # s) \<longleftrightarrow> c < 0x80" "solid (s @ t) \<longleftrightarrow> (if s = [] then solid t else solid s)"
  by (auto simp: solid_def)

lemma ascii_bytes: "list_all (\<lambda>c. c < 0x80) s \<Longrightarrow> byte_length s = length s"
  by (induction s) (auto simp: byte_length_ascii)

lemma digits_ascii: "list_all is_digit s \<Longrightarrow> list_all (\<lambda>c. c < 0x80) s"
  by (auto simp: list_all_iff unit_class_defs)

lemma bytes_commas:
  "list_all solid ts \<Longrightarrow> byte_length (commas ts) = sum_list (map byte_length ts) + (length ts - 1)"
proof (induction ts rule: commas.induct)
  case (3 t u ts)
  then have "solid (commas (u # ts))" by (cases ts) (auto simp: solid_def)
  then show ?case using 3 byte_length_split_ascii [of "0x2C" t "commas (u # ts)"] by simp
qed auto

lemma ascii_part:
  assumes "\<forall>c \<in> set s. c < (0x80 :: code_unit)"
  shows "\<forall>c \<in> set (take k s). c < 0x80" "\<forall>c \<in> set (drop k s). c < 0x80"
  using assms by (auto dest: in_set_takeD in_set_dropD)

lemma number_text_ascii: "\<forall>c \<in> set (number_text d). c < 0x80"
proof -
  have "\<forall>c \<in> set (nat_text n). c < 0x80" for n
    using digits_ascii [OF nat_text_digits [of n]] by (simp add: list_all_iff)
  then show ?thesis
    by (cases d) (auto simp: number_text_def number_layout_def Let_def dest: in_set_takeD in_set_dropD)
qed

lemma number_text_ne: "number_text d \<noteq> []"
  using number_text_number [of d] by (auto simp: is_json_number_def scan_number_def scan_sign_def scan_integer_def)

lemma bytes_of_number: "byte_length (number_text d) = length (number_text d)"
  using number_text_ascii [of d] by (intro ascii_bytes) (simp add: list_all_iff)

lemma solid_json: "solid (json_text number_text v)"
proof (cases v)
  case (JNum d)
  then show ?thesis
    using number_text_ascii [of d] number_text_ne [of d] by (simp add: solid_def)
qed (auto simp: solid_def string_text_def js_def)

definition json_bytes :: "json \<Rightarrow> nat" where
  "json_bytes v = byte_length (json_text number_text v)"

lemma sum_list_Suc: "(\<Sum>x \<leftarrow> xs. Suc (f x + g x)) = (\<Sum>x \<leftarrow> xs. Suc (f x)) + (\<Sum>x \<leftarrow> xs. g x :: nat)"
  by (induction xs) auto

lemma json_bytes_simps:
  "json_bytes JNull = 4" "json_bytes (JBool x) = (if x then 4 else 5)"
  "json_bytes (JStr s) = byte_length (string_text s)" "json_bytes (JNum d) = length (number_text d)"
  "json_bytes (JArr xs) = 2 + (length xs - 1) + sum_list (map json_bytes xs)"
  "json_bytes (JObj kvs) = 2 + (length kvs - 1) + (\<Sum>k \<leftarrow> map fst kvs. Suc (byte_length (string_text k))) +
     sum_list (map (json_bytes \<circ> snd) kvs)"
proof -
  have "list_all solid (map (json_text number_text) xs)" by (simp add: list_all_iff solid_json)
  from bytes_commas [OF this] show "json_bytes (JArr xs) = 2 + (length xs - 1) + sum_list (map json_bytes xs)"
    by (simp add: json_bytes_def [abs_def] byte_length_ascii bytes_after comp_def)
  let ?entry = "\<lambda>(k, x). string_text k @ [0x3A] @ json_text number_text x"
  have entry: "byte_length (?entry kx) = Suc (byte_length (string_text (fst kx))) + json_bytes (snd kx)" for kx
    by (cases kx) (simp add: json_bytes_def byte_length_split_ascii)
  have "list_all solid (map ?entry kvs)" by (auto simp: list_all_iff string_text_def)
  from bytes_commas [OF this] show "json_bytes (JObj kvs) = 2 + (length kvs - 1) + (\<Sum>k \<leftarrow> map fst kvs. Suc (byte_length (string_text k))) +
     sum_list (map (json_bytes \<circ> snd) kvs)"
    by (simp add: json_bytes_def [of "JObj kvs"] byte_length_ascii bytes_after comp_def entry [unfolded append_Cons append_Nil] sum_list_Suc)
qed (simp_all add: json_bytes_def bytes_of_number js_def byte_length_ascii)

lemma paid_map: "map_option f (paid m n b) = Option.bind (paid m n b) (\<lambda>b'. Some (f b'))"
  by (simp add: paid_def)

lemma copy_values:
  assumes "\<And>v jobs out b. v \<in> set vs \<Longrightarrow>
    copy_loop (CopyValue v # jobs) out b = Option.bind (paid (json_bytes v) (json_nodes v - 1) b) (copy_loop jobs (v # out))"
  shows "copy_loop (map CopyValue vs @ jobs) out b =
    Option.bind (paid (sum_list (map json_bytes vs)) (sum_list (map (\<lambda>v. json_nodes v - 1) vs)) b) (copy_loop jobs (rev vs @ out))"
  using assms
proof (induction vs arbitrary: out b)
  case (Cons v vs)
  have "copy_loop (map CopyValue (v # vs) @ jobs) out b =
    Option.bind (paid (json_bytes v) (json_nodes v - 1) b) (copy_loop (map CopyValue vs @ jobs) (v # out))"
    using Cons.prems [of v "map CopyValue vs @ jobs" out b] by (simp del: copy_loop.simps)
  also have "copy_loop (map CopyValue vs @ jobs) (v # out) = (\<lambda>b. Option.bind
      (paid (sum_list (map json_bytes vs)) (sum_list (map (\<lambda>v. json_nodes v - 1) vs)) b) (copy_loop jobs (rev vs @ v # out)))"
    using Cons by (intro ext Cons.IH) auto
  finally show ?case by (simp add: paid_bind bind_assoc [symmetric] del: copy_loop.simps)
qed simp

lemma json_nodes_pos [simp]: "Suc 0 \<le> json_nodes v" "0 < json_nodes v"
  by (cases v; simp)+

lemma json_nodes_list: "length vs + sum_list (map (\<lambda>v. json_nodes v - 1) vs) = sum_list (map json_nodes vs)"
proof (induction vs)
  case (Cons v vs)
  then show ?case using json_nodes_pos(1) [of v] by (simp del: json_nodes_pos)
qed simp

lemma finish_containers:
  "copy_loop (FinishArray (length xs) # jobs) (rev xs @ out) = copy_loop jobs (JArr xs # out)"
  "copy_loop (FinishObject (map fst kvs) # jobs) (rev (map snd kvs) @ out) = copy_loop jobs (JObj kvs # out)"
  by (simp_all add: fun_eq_iff zip_map_fst_snd)

text \<open>The walk below the jobs of one value: the value is paid for and lies copied on the stack.\<close>

lemma copy_value:
  "copy_loop (CopyValue v # jobs) out b =
     Option.bind (paid (json_bytes v) (json_nodes v - 1) b) (copy_loop jobs (v # out))"
proof (induction v arbitrary: jobs out b)
  case (JArr xs)
  have l: "copy_loop (map CopyValue xs @ FinishArray (length xs) # jobs) out b' =
      Option.bind (paid (sum_list (map json_bytes xs)) (sum_list (map (\<lambda>v. json_nodes v - 1) xs)) b')
        (copy_loop jobs (JArr xs # out))" for b'
    using copy_values [of xs, OF JArr] by (simp only: finish_containers)
  have "copy_loop (CopyValue (JArr xs) # jobs) out b =
      Option.bind (paid 0 (length xs) b) (\<lambda>b1. Option.bind (paid (2 + (length xs - 1)) 0 b1)
        (copy_loop (map CopyValue xs @ FinishArray (length xs) # jobs) out))"
    by (simp add: consume_nodes consume_bytes paid_map paid_def [of 0 "length xs"] fits_def)
  then show ?case
    using json_nodes_list [of xs]
    by (simp add: ext [of _ _, OF l] paid_bind bind_assoc [symmetric] json_bytes_simps del: copy_loop.simps)
next
  case (JObj kvs)
  have m: "map (CopyValue \<circ> snd) kvs = map CopyValue (map snd kvs)" by simp
  have l: "copy_loop (map (CopyValue \<circ> snd) kvs @ FinishObject (map fst kvs) # jobs) out b' =
      Option.bind (paid (sum_list (map json_bytes (map snd kvs))) (sum_list (map (\<lambda>v. json_nodes v - 1) (map snd kvs))) b')
        (copy_loop jobs (JObj kvs # out))" for b'
    unfolding m
    by (subst copy_values) (use JObj in \<open>auto simp: finish_containers simp del: copy_loop.simps\<close>)
  have k: "(\<Sum>k \<leftarrow> rev (map fst kvs). Suc (byte_length (string_text k))) = (\<Sum>k \<leftarrow> map fst kvs. Suc (byte_length (string_text k)))"
    by (simp add: rev_map [symmetric] sum_list_rev)
  have "copy_loop (CopyValue (JObj kvs) # jobs) out b =
      Option.bind (paid 0 (length kvs) b) (\<lambda>b1. Option.bind (paid (2 + (length kvs - 1)) 0 b1) (\<lambda>b2.
        Option.bind (paid (\<Sum>k \<leftarrow> map fst kvs. Suc (byte_length (string_text k))) 0 b2)
        (copy_loop (map (CopyValue \<circ> snd) kvs @ FinishObject (map fst kvs) # jobs) out)))"
    by (simp add: consume_nodes consume_bytes consume_keys_paid k paid_map)
  moreover have "json_nodes (JObj kvs) - 1 = length kvs + sum_list (map (\<lambda>v. json_nodes v - 1) (map snd kvs))"
    using json_nodes_list [of "map snd kvs"] by (simp add: comp_def case_prod_unfold)
  ultimately show ?case
    by (simp add: ext [of _ _, OF l [unfolded comp_def]] paid_bind bind_assoc [symmetric] json_bytes_simps comp_def add_ac
        del: copy_loop.simps json_nodes.simps)
qed (simp_all add: consume_bytes consume_string paid_map json_bytes_simps)

lemma json_bytes_serialized: "json_bytes v = byte_length (serialized v)"
  by (simp add: json_bytes_def serialized_def print_json_text)

lemma snapshot_paid:
  "snapshotJson v byteCapacity nodeCapacity =
     (if json_bytes v \<le> byteCapacity \<and> json_nodes v \<le> nodeCapacity then Some (v, json_bytes v, json_nodes v) else None)"
  using json_nodes_pos(1) [of v]
  by (auto simp: snapshotJson_def consume_nodes copy_value paid_def fits_def spend_def simp del: json_nodes_pos copy_loop.simps(2))

text \<open>C18: A bounded copy is exact: it returns the value itself with the UTF-8 length of its JSON text and its number of
  positions exactly when both are within the capacities, and is refused otherwise; the walk with its stack of jobs
  ends on every value and never counts a partial copy.\<close>

theorem snapshot_copy_exact:
  "snapshotJson v byteCapacity nodeCapacity =
     (if byte_length (serialized v) \<le> byteCapacity \<and> json_nodes v \<le> nodeCapacity
      then Some (v, byte_length (serialized v), json_nodes v) else None)"
  by (simp add: snapshot_paid json_bytes_serialized)

end
