(* ===== verification/Pagination.thy ===== *)
theory Pagination
  imports Snapshot_Copy Uri
begin

text \<open>
  The snapshot pagination of listings (\<open>packages/server/src/read-pagination.ts\<close>): a first page freezes
  the selected items in a snapshot, whose later pages are reached with opaque cursors until the
  snapshot expires.  A fixed engine keeps one token per page; a resizable one authenticates an offset
  under the identity of the snapshot.  An operation takes the state and returns its result, a
  \<open>pagination_error\<close> or a value, with the state it leaves, also when it throws.
\<close>

section \<open>Errors and options\<close>

datatype pagination_code =
    ConfigurationError | InvalidInput | InvalidLimit | InvalidSnapshot | CapacityExceeded
  | SnapshotLimitExceeded | TokenGenerationFailed | CursorExpired | ForeignView | ForeignProjection

datatype cursor_reason = UnknownCursor | ExpiredCursor | EpochChanged

datatype pagination_error = PaginationError pagination_code "cursor_reason option"

type_synonym 'a paged = "pagination_error + 'a"

definition localError :: "pagination_code \<Rightarrow> 'a paged" where
  "localError code = Inl (PaginationError code None)"

lemma localError_Inr [simp]: "localError code \<noteq> Inr x"
  by (simp add: localError_def)

text \<open>The parts of \<open>URL\<close> that the pagination reads besides those of \<open>url_parts\<close>: \<open>origin\<close> and \<open>searchParams\<close>.\<close>

record page_url = url_parts +
  page_origin :: jstring
  page_params :: "(jstring \<times> jstring) list"

record read_pagination_options =
  ro_resizable :: bool
  ro_scope :: jstring
  ro_defaultPageItems :: int
  ro_maxPageItems :: int
  ro_cursorTtlMs :: int
  ro_retainedStateCapacity :: int
  ro_maxPositions :: int
  ro_byteCapacity :: int
  ro_nodeCapacity :: int
  ro_maxTokenLength :: int
  ro_attempts :: int
  ro_idleCleanup :: "string option"

record prepared_options =
  po_resizable :: bool
  po_scope :: page_url
  po_defaultPageItems :: nat
  po_maxPageItems :: nat
  po_cursorTtlMs :: nat
  po_retainedStateCapacity :: nat
  po_maxPositions :: nat
  po_byteCapacity :: nat
  po_nodeCapacity :: nat
  po_maxTokenLength :: nat
  po_attempts :: nat
  po_timer :: bool

text \<open>
  What the runtime supplies: the URL parser, the \<open>href\<close> of an address after its \<open>searchParams\<close> were
  set, HMAC-SHA256, the random key of the engine, and the values the clock and the token generator
  return one after the other, \<open>None\<close> where they throw or return no such value.
\<close>

type_synonym octets = "8 word list"

record paging_env =
  pe_parse :: "jstring \<Rightarrow> page_url option"
  pe_href :: "jstring \<Rightarrow> (jstring \<times> jstring) list \<Rightarrow> jstring"
  pe_hmac :: "octets \<Rightarrow> octets \<Rightarrow> octets"
  pe_key :: octets
  pe_clock :: "nat \<Rightarrow> int option"
  pe_token :: "nat \<Rightarrow> jstring option"

definition requirePositiveInteger :: "int \<Rightarrow> nat paged" where
  "requirePositiveInteger v = (if \<not> (0 < v \<and> v \<le> 2 ^ 53 - 1) then localError ConfigurationError else Inr (nat v))"

definition prepareOptions :: "paging_env \<Rightarrow> read_pagination_options \<Rightarrow> prepared_options paged" where
  "prepareOptions env o1 = (case pe_parse env (ro_scope o1) of
     None \<Rightarrow> localError ConfigurationError
   | Some scope \<Rightarrow>
       if protocol scope \<notin> {js ''http:'', js ''https:''} \<or> username scope \<noteq> [] \<or> password scope \<noteq> [] \<or>
          search scope \<noteq> [] \<or> hash scope \<noteq> [] \<or> \<not> suffix [0x2F] (pathname scope)
       then localError ConfigurationError
       else
         bindR (requirePositiveInteger (ro_defaultPageItems o1)) (\<lambda>default.
         bindR (requirePositiveInteger (ro_maxPageItems o1)) (\<lambda>maximum.
         if maximum < default then localError ConfigurationError else
         bindR (requirePositiveInteger (ro_cursorTtlMs o1)) (\<lambda>ttl.
         bindR (requirePositiveInteger (ro_retainedStateCapacity o1)) (\<lambda>states.
         bindR (requirePositiveInteger (ro_maxPositions o1)) (\<lambda>positions.
         if states \<le> positions then localError ConfigurationError else
         bindR (requirePositiveInteger (ro_byteCapacity o1)) (\<lambda>octets.
         bindR (requirePositiveInteger (ro_nodeCapacity o1)) (\<lambda>nodes.
         bindR (requirePositiveInteger (ro_maxTokenLength o1)) (\<lambda>token.
         if ro_resizable o1 \<and> token < 39 then localError ConfigurationError else
         bindR (requirePositiveInteger (ro_attempts o1)) (\<lambda>attempts.
         if ro_idleCleanup o1 \<notin> {None, Some ''timer'', Some ''on-demand''} then localError ConfigurationError
         else Inr \<lparr> po_resizable = ro_resizable o1, po_scope = scope, po_defaultPageItems = default,
           po_maxPageItems = maximum, po_cursorTtlMs = ttl, po_retainedStateCapacity = states,
           po_maxPositions = positions, po_byteCapacity = octets, po_nodeCapacity = nodes,
           po_maxTokenLength = token, po_attempts = attempts,
           po_timer = (ro_idleCleanup o1 = Some ''timer'') \<rparr>))))))))))"

definition validateLimit :: "int option \<Rightarrow> prepared_options \<Rightarrow> nat paged" where
  "validateLimit limit po =
     (let selected = (case limit of Some l \<Rightarrow> l | None \<Rightarrow> int (po_defaultPageItems po)) in
      if \<not> (selected \<le> 2 ^ 53 - 1) \<or> selected \<le> 0 \<or> int (po_maxPageItems po) < selected then localError InvalidLimit
      else Inr (nat selected))"

text \<open>The characters \<open>String.prototype.trim\<close> removes; an identity has others.\<close>

definition trimmed_unit :: "code_unit \<Rightarrow> bool" where
  "trimmed_unit c \<longleftrightarrow> unit_between 9 13 c \<or> unit_between 0x2000 0x200A c \<or>
     c \<in> {0x20, 0xA0, 0x1680, 0x2028, 0x2029, 0x202F, 0x205F, 0x3000, 0xFEFF}"

definition paging_identity :: "jstring \<Rightarrow> jstring paged" where
  "paging_identity v = (if list_all trimmed_unit v then localError InvalidInput else Inr v)"

definition validateContinuationUrl :: "paging_env \<Rightarrow> jstring \<Rightarrow> page_url \<Rightarrow> jstring paged" where
  "validateContinuationUrl env value scope = (case pe_parse env value of
     None \<Rightarrow> localError InvalidInput
   | Some u \<Rightarrow>
       if protocol u \<notin> {js ''http:'', js ''https:''} \<or> page_origin u \<noteq> page_origin scope \<or>
          \<not> prefix (pathname scope) (pathname u) \<or> username u \<noteq> [] \<or> password u \<noteq> [] \<or> hash u \<noteq> [] \<or>
          filter (\<lambda>(n, _). n = js ''cursor'') (page_params u) \<noteq> []
       then localError InvalidInput else Inr (href u))"

text \<open>\<open>URLSearchParams.set\<close>: the first pair of the name takes the value, the others go.\<close>

fun set_param :: "jstring \<Rightarrow> jstring \<Rightarrow> (jstring \<times> jstring) list \<Rightarrow> (jstring \<times> jstring) list" where
  "set_param n v [] = [(n, v)]"
| "set_param n v ((m, w) # ps) = (if m = n then (n, v) # filter (\<lambda>(k, _). k \<noteq> n) ps else (m, w) # set_param n v ps)"

definition continuationUrl :: "paging_env \<Rightarrow> jstring \<Rightarrow> jstring \<Rightarrow> nat option \<Rightarrow> jstring" where
  "continuationUrl env base token limit =
     (let ps = set_param (js ''cursor'') token (case pe_parse env base of Some u \<Rightarrow> page_params u | None \<Rightarrow> []) in
      pe_href env base (case limit of Some l \<Rightarrow> set_param (js ''limit'') (nat_text l) ps | None \<Rightarrow> ps))"

section \<open>State\<close>

record read_page =
  rp_handle :: nat
  rp_items :: "json list"
  rp_next :: "jstring option"

text \<open>
  Snapshots and pages are objects; their identity is the number of objects created before.
  \<open>sn_cursor\<close> holds \<open>cursorIdentity\<close> and \<open>cursorKey\<close>; the mutable maps of a snapshot are in the state.
\<close>

record snapshot =
  sn_handle :: nat
  sn_cursor :: "(jstring \<times> octets) option"
  sn_items :: "json list"
  sn_limit :: nat
  sn_view :: jstring
  sn_epoch :: jstring
  sn_projection :: jstring
  sn_continuation :: jstring
  sn_expiresAt :: int
  sn_bytes :: nat
  sn_nodes :: nat
  sn_positions :: nat
  sn_context :: "json option"

text \<open>
  \<open>pn_snapshots\<close> is the set of snapshots in its insertion order; \<open>pn_cursors\<close> and \<open>pn_pages\<close> are their
  maps \<open>cursors\<close> and \<open>pages\<close>, \<open>pn_index\<close> is \<open>cursorIndex\<close> and \<open>pn_resized\<close> is \<open>resizedSnapshots\<close>, whose
  bindings name a snapshot by its identity.  \<open>pn_readings\<close> and \<open>pn_draws\<close> count what the runtime supplied.
\<close>

record paging =
  pn_snapshots :: "snapshot list"
  pn_cursors :: "((nat \<times> nat) \<times> jstring) list"
  pn_pages :: "nat \<times> nat \<Rightarrow> read_page option"
  pn_index :: "jstring \<Rightarrow> (nat \<times> nat) option"
  pn_resized :: "jstring \<Rightarrow> nat option"
  pn_contexts :: "nat \<Rightarrow> json option option"
  pn_pageIds :: "nat \<Rightarrow> jstring option"
  pn_sequence :: nat
  pn_bytes :: nat
  pn_nodes :: nat
  pn_positions :: nat
  pn_epoch :: "jstring option"
  pn_closed :: bool
  pn_timer :: "int option"
  pn_clock :: int
  pn_handles :: nat
  pn_readings :: nat
  pn_draws :: nat

definition new_paging :: paging where
  "new_paging = \<lparr> pn_snapshots = [], pn_cursors = [], pn_pages = Map.empty, pn_index = Map.empty,
     pn_resized = Map.empty, pn_contexts = Map.empty, pn_pageIds = Map.empty, pn_sequence = 0, pn_bytes = 0,
     pn_nodes = 0, pn_positions = 0, pn_epoch = None, pn_closed = False, pn_timer = None, pn_clock = 0,
     pn_handles = 0, pn_readings = 0, pn_draws = 0 \<rparr>"

type_synonym 'a paging_turn = "paging \<Rightarrow> 'a paged \<times> paging"

fun bindP :: "'a paging_turn \<Rightarrow> ('a \<Rightarrow> 'b paging_turn) \<Rightarrow> 'b paging_turn" where
  "bindP m f st = (case m st of (Inl e, st') \<Rightarrow> (Inl e, st') | (Inr x, st') \<Rightarrow> f x st')"

definition returnP :: "'a paged \<Rightarrow> 'a paging_turn" where
  "returnP r st = (r, st)"

section \<open>Cursors\<close>

definition base64url_unit :: "nat \<Rightarrow> code_unit" where
  "base64url_unit n = of_nat (if n < 26 then 65 + n else if n < 52 then 71 + n else if n < 62 then n - 4
     else if n = 62 then 45 else 95)"

fun base64url :: "octets \<Rightarrow> jstring" where
  "base64url [] = []"
| "base64url [a] = map base64url_unit [unat a div 4, unat a mod 4 * 16]"
| "base64url [a, b] = map base64url_unit [unat a div 4, unat a mod 4 * 16 + unat b div 16, unat b mod 16 * 4]"
| "base64url (a # b # c # s) =
     map base64url_unit [unat a div 4, unat a mod 4 * 16 + unat b div 16, unat b mod 16 * 4 + unat c div 64, unat c mod 64] @
     base64url s"

definition digit36 :: "nat \<Rightarrow> code_unit" where
  "digit36 n = of_nat (if n < 10 then 48 + n else 87 + n)"

fun base36 :: "nat \<Rightarrow> jstring" where
  "base36 n = (if n < 36 then [digit36 n] else base36 (n div 36) @ [digit36 (n mod 36)])"

declare base36.simps [simp del]

definition is_base36 :: "code_unit \<Rightarrow> bool" where
  "is_base36 c \<longleftrightarrow> is_digit c \<or> unit_between 0x61 0x7A c"

definition value36 :: "jstring \<Rightarrow> nat" where
  "value36 s = foldl (\<lambda>n c. 36 * n + (if is_digit c then unat c - 48 else unat c - 87)) 0 s"

definition is_token_unit :: "code_unit \<Rightarrow> bool" where
  "is_token_unit c \<longleftrightarrow> is_alpha c \<or> is_digit c \<or> c = 0x5F \<or> c = 0x2D"

text \<open>The bytes of an ASCII text and of a number of six bytes.\<close>

definition text_octets :: "jstring \<Rightarrow> octets" where
  "text_octets s = map ucast s"

fun big_endian :: "nat \<Rightarrow> nat \<Rightarrow> octets" where
  "big_endian 0 n = []"
| "big_endian (Suc k) n = big_endian k (n div 256) @ [of_nat (n mod 256)]"

definition identity_mask :: "paging_env \<Rightarrow> octets" where
  "identity_mask env = take 6 (pe_hmac env (pe_key env) (text_octets (js ''identity-mask'')))"

definition cursor_identity :: "paging_env \<Rightarrow> nat \<Rightarrow> jstring" where
  "cursor_identity env sequence = base64url (map2 xor (big_endian 6 sequence) (identity_mask env))"

definition cursor_tag :: "paging_env \<Rightarrow> jstring \<times> octets \<Rightarrow> nat \<Rightarrow> jstring" where
  "cursor_tag env ik offset =
     base64url (take 16 (pe_hmac env (snd ik) (text_octets (fst ik @ [0x3A] @ nat_text offset))))"

definition resized_cursor :: "paging_env \<Rightarrow> jstring \<times> octets \<Rightarrow> nat \<Rightarrow> jstring" where
  "resized_cursor env ik offset = fst ik @ [0x5F] @ base36 offset @ [0x5F] @ cursor_tag env ik offset"

definition snapshot_of :: "paging \<Rightarrow> nat \<Rightarrow> snapshot option" where
  "snapshot_of st h = find (\<lambda>sn. sn_handle sn = h) (pn_snapshots st)"

text \<open>\<open>lookupResized\<close>: the three groups of the expression, then the checks.\<close>

definition token_groups :: "jstring \<Rightarrow> (jstring \<times> jstring \<times> jstring) option" where
  "token_groups token =
     (let i = take 8 token; s = drop 8 token; raw = takeWhile is_base36 (tl s); t = drop (Suc (length raw)) s in
      if length i = 8 \<and> list_all is_token_unit i \<and> prefix [0x5F] s \<and> 1 \<le> length raw \<and> length raw \<le> 7 \<and>
         prefix [0x5F] t \<and> length (tl t) = 22 \<and> list_all is_token_unit (tl t)
      then Some (i, raw, tl t) else None)"

definition lookupResized :: "paging_env \<Rightarrow> jstring \<Rightarrow> paging \<Rightarrow> (snapshot \<times> nat) option" where
  "lookupResized env token st = (case token_groups token of
     None \<Rightarrow> None
   | Some (i, raw, supplied) \<Rightarrow>
       (let offset = value36 raw in
        case Option.bind (pn_resized st i) (snapshot_of st) of
          None \<Rightarrow> None
        | Some sn \<Rightarrow>
            if offset = 0 \<or> length (sn_items sn) \<le> offset \<or> base36 offset \<noteq> raw \<or>
               supplied \<noteq> cursor_tag env (the (sn_cursor sn)) offset
            then None else Some (sn, offset)))"

definition lookup_cursor :: "prepared_options \<Rightarrow> paging_env \<Rightarrow> jstring \<Rightarrow> paging \<Rightarrow> (snapshot \<times> nat) option" where
  "lookup_cursor po env token st =
     (if po_resizable po then lookupResized env token st
      else Option.bind (pn_index st token) (\<lambda>(h, offset). map_option (\<lambda>sn. (sn, offset)) (snapshot_of st h)))"

definition valid_token :: "prepared_options \<Rightarrow> jstring \<Rightarrow> bool" where
  "valid_token po t \<longleftrightarrow> t \<noteq> [] \<and> length t \<le> po_maxTokenLength po \<and> list_all is_token_unit t"

fun generate_token :: "prepared_options \<Rightarrow> paging_env \<Rightarrow> nat \<Rightarrow> jstring paging_turn" where
  "generate_token po env 0 st = (localError TokenGenerationFailed, st)"
| "generate_token po env (Suc n) st =
     (let st1 = st \<lparr> pn_draws := Suc (pn_draws st) \<rparr> in
      case pe_token env (pn_draws st) of
        None \<Rightarrow> (localError TokenGenerationFailed, st1)
      | Some t \<Rightarrow> if valid_token po t \<and> pn_index st t = None then (Inr t, st1) else generate_token po env n st1)"

definition generateToken :: "prepared_options \<Rightarrow> paging_env \<Rightarrow> jstring paging_turn" where
  "generateToken po env = generate_token po env (po_attempts po)"

fun fresh_identity :: "prepared_options \<Rightarrow> paging_env \<Rightarrow> nat \<Rightarrow> (jstring \<times> octets) paging_turn" where
  "fresh_identity po env 0 st = (localError TokenGenerationFailed, st)"
| "fresh_identity po env (Suc n) st =
     (let st1 = st \<lparr> pn_draws := Suc (pn_draws st) \<rparr> in
      case pe_token env (pn_draws st) of
        None \<Rightarrow> (localError TokenGenerationFailed, st1)
      | Some t \<Rightarrow>
          if \<not> valid_token po t then fresh_identity po env n st1
          else if 0xFFFFFFFFFFFF \<le> pn_sequence st then (localError TokenGenerationFailed, st1)
          else (let i = cursor_identity env (Suc (pn_sequence st)) in
            (Inr (i, pe_hmac env (pe_key env) (text_octets t @ text_octets i)),
             st1 \<lparr> pn_sequence := Suc (pn_sequence st) \<rparr>)))"

definition freshResizeIdentity :: "prepared_options \<Rightarrow> paging_env \<Rightarrow> (jstring \<times> octets) paging_turn" where
  "freshResizeIdentity po env = fresh_identity po env (po_attempts po)"

section \<open>Clock, release and cleanup\<close>

definition paging_clock :: "paging_env \<Rightarrow> int paging_turn" where
  "paging_clock env st =
     (let st1 = st \<lparr> pn_readings := Suc (pn_readings st) \<rparr> in
      case pe_clock env (pn_readings st) of
        None \<Rightarrow> (localError ConfigurationError, st1)
      | Some v \<Rightarrow>
          if v < 0 then (localError ConfigurationError, st1)
          else (Inr (max (pn_clock st) v), st1 \<lparr> pn_clock := max (pn_clock st) v \<rparr>))"

text \<open>The tokens of a snapshot leave the index; the number of those that were bound to it.\<close>

fun release_tokens :: "nat \<Rightarrow> jstring list \<Rightarrow> (jstring \<Rightarrow> (nat \<times> nat) option) \<Rightarrow> nat \<times> (jstring \<Rightarrow> (nat \<times> nat) option)" where
  "release_tokens h [] index = (0, index)"
| "release_tokens h (t # ts) index =
     (case index t of
        Some (g, offset) \<Rightarrow>
          if g = h then (case release_tokens h ts (index (t := None)) of (n, i) \<Rightarrow> (Suc n, i)) else release_tokens h ts index
      | None \<Rightarrow> release_tokens h ts index)"

definition cursor_tokens :: "nat \<Rightarrow> paging \<Rightarrow> jstring list" where
  "cursor_tokens h st = map snd (filter (\<lambda>((g, _), _). g = h) (pn_cursors st))"

text \<open>\<open>release\<close>: the number of released cursors and the state without the snapshot.\<close>

definition release :: "snapshot \<Rightarrow> paging \<Rightarrow> nat \<times> paging" where
  "release sn st =
     (if sn_handle sn \<notin> sn_handle ` set (pn_snapshots st) then (0, st)
      else (case release_tokens (sn_handle sn) (cursor_tokens (sn_handle sn) st) (pn_index st) of (n, index) \<Rightarrow>
        (n, st \<lparr> pn_snapshots := filter (\<lambda>s. sn_handle s \<noteq> sn_handle sn) (pn_snapshots st),
           pn_resized := (case sn_cursor sn of Some (i, _) \<Rightarrow> (pn_resized st) (i := None) | None \<Rightarrow> pn_resized st),
           pn_bytes := pn_bytes st - sn_bytes sn, pn_nodes := pn_nodes st - sn_nodes sn,
           pn_positions := pn_positions st - sn_positions sn, pn_index := index,
           pn_cursors := filter (\<lambda>((g, _), _). g \<noteq> sn_handle sn) (pn_cursors st),
           pn_pages := (\<lambda>(g, offset). if g = sn_handle sn then None else pn_pages st (g, offset)) \<rparr>)))"

text \<open>The numbers of released snapshots and cursors.\<close>

type_synonym cleanup = "nat \<times> nat"

fun release_list :: "snapshot list \<Rightarrow> paging \<Rightarrow> cleanup \<times> paging" where
  "release_list [] st = ((0, 0), st)"
| "release_list (sn # sns) st =
     (case release sn st of (n, st1) \<Rightarrow> case release_list sns st1 of ((m, k), st2) \<Rightarrow> ((Suc m, n + k), st2))"

definition cleanupAt :: "int \<Rightarrow> paging \<Rightarrow> cleanup \<times> paging" where
  "cleanupAt now st = release_list (takeWhile (\<lambda>sn. sn_expiresAt sn \<le> now) (pn_snapshots st)) st"

definition releaseAll :: "paging \<Rightarrow> cleanup \<times> paging" where
  "releaseAll st = release_list (pn_snapshots st) st"

definition scheduleIdleCleanup :: "prepared_options \<Rightarrow> paging_env \<Rightarrow> unit paging_turn" where
  "scheduleIdleCleanup po env st =
     (if \<not> po_timer po \<or> pn_closed st then (Inr (), st)
      else
        (let st1 = st \<lparr> pn_timer := None \<rparr> in
         case pn_snapshots st of
           [] \<Rightarrow> (Inr (), st1)
         | earliest # _ \<Rightarrow>
             bindP (paging_clock env)
               (\<lambda>now st2. (Inr (), st2 \<lparr> pn_timer := Some (min (max 0 (sn_expiresAt earliest - now)) 2147483647) \<rparr>)) st1))"

definition requireOpen :: "unit paging_turn" where
  "requireOpen st = (if pn_closed st then (localError ConfigurationError, st) else (Inr (), st))"

definition assertRetainedStateCapacity :: "prepared_options \<Rightarrow> nat \<Rightarrow> unit paging_turn" where
  "assertRetainedStateCapacity po positions st =
     (if po_retainedStateCapacity po < length (pn_snapshots st) + pn_positions st + 1 + positions
      then (localError CapacityExceeded, st) else (Inr (), st))"

section \<open>Pages\<close>

definition cursorFor :: "prepared_options \<Rightarrow> paging_env \<Rightarrow> snapshot \<Rightarrow> nat \<Rightarrow> jstring paging_turn" where
  "cursorFor po env sn offset st = (case sn_cursor sn of
     Some ik \<Rightarrow> (Inr (resized_cursor env ik offset), st)
   | None \<Rightarrow>
       (case map_of (pn_cursors st) (sn_handle sn, offset) of
          Some t \<Rightarrow> (Inr t, st)
        | None \<Rightarrow>
            bindP (generateToken po env) (\<lambda>t st1.
              (Inr t, st1 \<lparr> pn_cursors := ((sn_handle sn, offset), t) # pn_cursors st1,
                 pn_index := (pn_index st1) (t \<mapsto> (sn_handle sn, offset)) \<rparr>)) st))"

text \<open>A new page object with its context.\<close>

definition make_page :: "json list \<Rightarrow> jstring option \<Rightarrow> json option \<Rightarrow> paging \<Rightarrow> read_page \<times> paging" where
  "make_page items next context st =
     (\<lparr> rp_handle = pn_handles st, rp_items = items, rp_next = next \<rparr>,
      st \<lparr> pn_handles := Suc (pn_handles st), pn_contexts := (pn_contexts st) (pn_handles st \<mapsto> context) \<rparr>)"

definition pageAt :: "prepared_options \<Rightarrow> paging_env \<Rightarrow> snapshot \<Rightarrow> nat \<Rightarrow> nat \<Rightarrow> read_page paging_turn" where
  "pageAt po env sn offset limit st =
     (case (if po_resizable po then None else pn_pages st (sn_handle sn, offset)) of
        Some page \<Rightarrow> (Inr page, st)
      | None \<Rightarrow>
          (let items = take limit (drop offset (sn_items sn)); following = offset + length items in
           bindP
             (if following < length (sn_items sn)
              then bindP (cursorFor po env sn following) (\<lambda>token.
                returnP (Inr (Some (continuationUrl env (sn_continuation sn) token (if po_resizable po then Some limit else None)))))
              else returnP (Inr None))
             (\<lambda>next st1. case make_page items next (sn_context sn) st1 of (page, st2) \<Rightarrow>
               (Inr page, if po_resizable po then st2 else st2 \<lparr> pn_pages := (pn_pages st2) ((sn_handle sn, offset) \<mapsto> page) \<rparr>)) st))"

record first_page_input =
  fp_items :: json
  fp_limit :: "int option"
  fp_view :: jstring
  fp_epoch :: jstring
  fp_projection :: jstring
  fp_continuation :: jstring

text \<open>\<open>boundedCopy\<close>: the copy that exceeds the capacities of a resizable engine can never be retained.\<close>

definition boundedCopy :: "prepared_options \<Rightarrow> json \<Rightarrow> nat \<Rightarrow> nat \<Rightarrow> (json \<times> nat \<times> nat) paged" where
  "boundedCopy po v octets nodes = (case snapshotJson v octets nodes of
     Some copy \<Rightarrow> Inr copy
   | None \<Rightarrow> localError (if po_resizable po then SnapshotLimitExceeded else CapacityExceeded))"

definition context_copy :: "prepared_options \<Rightarrow> json option \<Rightarrow> nat \<Rightarrow> nat \<Rightarrow> (json option \<times> nat \<times> nat) paged" where
  "context_copy po context octets nodes = (case context of
     None \<Rightarrow> Inr (None, 0, 0)
   | Some c \<Rightarrow>
       bindR (boundedCopy po c octets nodes) (\<lambda>(v, b, n). case v of
         JObj kvs \<Rightarrow> if list_all (\<lambda>(_, x). case x of JStr s \<Rightarrow> True | _ \<Rightarrow> False) kvs then Inr (Some v, b, n) else localError InvalidSnapshot
       | _ \<Rightarrow> localError InvalidSnapshot))"

definition snapshot_items :: "prepared_options \<Rightarrow> json \<Rightarrow> nat \<Rightarrow> nat \<Rightarrow> (json list \<times> nat \<times> nat) paged" where
  "snapshot_items po v octets nodes =
     bindR (boundedCopy po v octets nodes) (\<lambda>(w, b, n). case w of JArr xs \<Rightarrow> Inr (xs, b, n) | _ \<Rightarrow> localError InvalidSnapshot)"

text \<open>The two copies of a first page against what is left, or against the whole capacity of a resizable engine.\<close>

definition first_copies ::
  "prepared_options \<Rightarrow> json \<Rightarrow> nat \<Rightarrow> json option \<Rightarrow> paging \<Rightarrow> (json option \<times> json list \<times> nat \<times> nat) paged" where
  "first_copies po items limit context st =
     (let retains = (case items of JArr xs \<Rightarrow> limit < length xs | _ \<Rightarrow> False);
          octets = (if retains \<and> \<not> po_resizable po then po_byteCapacity po - pn_bytes st else po_byteCapacity po);
          nodes = (if retains \<and> \<not> po_resizable po then po_nodeCapacity po - pn_nodes st else po_nodeCapacity po) in
      bindR (context_copy po context octets nodes) (\<lambda>(c, cb, cn).
      bindR (snapshot_items po items (octets - cb) (nodes - cn)) (\<lambda>(xs, b, n). Inr (c, xs, b + cb, n + cn))))"

fun release_snapshots :: "snapshot list \<Rightarrow> paging \<Rightarrow> paging" where
  "release_snapshots sns st = snd (release_list sns st)"

definition enter_epoch :: "jstring \<Rightarrow> paging \<Rightarrow> paging" where
  "enter_epoch epoch st =
     (if pn_epoch st \<notin> {None, Some epoch} then release_snapshots (pn_snapshots st) st else st) \<lparr> pn_epoch := Some epoch \<rparr>"

definition register :: "snapshot \<Rightarrow> paging \<Rightarrow> paging" where
  "register sn st = st \<lparr> pn_snapshots := pn_snapshots st @ [sn],
     pn_resized := (case sn_cursor sn of Some (i, _) \<Rightarrow> (pn_resized st) (i \<mapsto> sn_handle sn) | None \<Rightarrow> pn_resized st),
     pn_bytes := pn_bytes st + sn_bytes sn, pn_nodes := pn_nodes st + sn_nodes sn,
     pn_positions := pn_positions st + sn_positions sn \<rparr>"

text \<open>The first page of a registered snapshot; an error withdraws the snapshot again.\<close>

definition issue_first :: "prepared_options \<Rightarrow> paging_env \<Rightarrow> snapshot \<Rightarrow> read_page paging_turn" where
  "issue_first po env sn st =
     (case bindP (pageAt po env sn 0 (sn_limit sn)) (\<lambda>page st1.
        bindP (scheduleIdleCleanup po env) (\<lambda>_ st2. (Inr page, st2))
          (case sn_cursor sn of Some (i, _) \<Rightarrow> st1 \<lparr> pn_pageIds := (pn_pageIds st1) (rp_handle page \<mapsto> i) \<rparr> | None \<Rightarrow> st1)) st of
        (Inr page, st') \<Rightarrow> (Inr page, st')
      | (Inl e, st') \<Rightarrow> bindP (scheduleIdleCleanup po env) (\<lambda>_. returnP (Inl e)) (snd (release sn st')))"

definition retain_first ::
  "prepared_options \<Rightarrow> paging_env \<Rightarrow> int \<Rightarrow> nat \<Rightarrow> jstring \<Rightarrow> jstring \<Rightarrow> jstring \<Rightarrow> jstring \<Rightarrow>
   json option \<times> json list \<times> nat \<times> nat \<Rightarrow> read_page paging_turn" where
  "retain_first po env now limit view epoch projection follow copied st =
     (case copied of (context, items, octets, nodes) \<Rightarrow>
       (let positions = (if po_resizable po then 0 else (length items + limit - 1) div limit - 1) in
        if po_maxPositions po < positions then (localError CapacityExceeded, st)
        else if po_resizable po \<and> (po_byteCapacity po < pn_bytes st + octets \<or> po_nodeCapacity po < pn_nodes st + nodes)
        then (localError CapacityExceeded, st)
        else
          bindP (assertRetainedStateCapacity po positions) (\<lambda>_.
          bindP (if po_resizable po then bindP (freshResizeIdentity po env) (\<lambda>ik. returnP (Inr (Some ik))) else returnP (Inr None)) (\<lambda>cursor st1.
            (let sn = \<lparr> sn_handle = pn_handles st1, sn_cursor = cursor, sn_items = items, sn_limit = limit, sn_view = view,
               sn_epoch = epoch, sn_projection = projection, sn_continuation = follow,
               sn_expiresAt = now + int (po_cursorTtlMs po), sn_bytes = octets, sn_nodes = nodes, sn_positions = positions,
               sn_context = context \<rparr>
             in issue_first po env sn (register sn (st1 \<lparr> pn_handles := Suc (pn_handles st1) \<rparr>))))) st))"

definition firstPageWithContext ::
  "prepared_options \<Rightarrow> paging_env \<Rightarrow> first_page_input \<Rightarrow> json option \<Rightarrow> read_page paging_turn" where
  "firstPageWithContext po env input context =
     bindP requireOpen (\<lambda>_.
     bindP (paging_clock env) (\<lambda>now st.
     (let st1 = snd (cleanupAt now st) in
     bindP (returnP (validateLimit (fp_limit input) po)) (\<lambda>limit.
     bindP (returnP (paging_identity (fp_view input))) (\<lambda>view.
     bindP (returnP (paging_identity (fp_epoch input))) (\<lambda>epoch.
     bindP (returnP (paging_identity (fp_projection input))) (\<lambda>projection.
     bindP (returnP (validateContinuationUrl env (fp_continuation input) (po_scope po))) (\<lambda>follow st2.
     (let st3 = enter_epoch epoch st2 in
     bindP (returnP (first_copies po (fp_items input) limit context st3)) (\<lambda>copied st4.
       (case copied of (c, items, _, _) \<Rightarrow>
         if length items \<le> limit
         then (case make_page items None c st4 of (page, st5) \<Rightarrow> (Inr page, st5))
         else retain_first po env now limit view epoch projection follow copied st4)) st3)))))) st1)))"

definition firstPage :: "prepared_options \<Rightarrow> paging_env \<Rightarrow> first_page_input \<Rightarrow> read_page paging_turn" where
  "firstPage po env input = firstPageWithContext po env input None"

record continuation_input =
  ci_limit :: "int option"
  ci_token :: jstring
  ci_view :: jstring
  ci_epoch :: jstring
  ci_projection :: jstring

text \<open>A cursor that cannot be continued: the snapshot is released and the timer set anew.\<close>

definition expire_cursor :: "prepared_options \<Rightarrow> paging_env \<Rightarrow> snapshot \<Rightarrow> cursor_reason \<Rightarrow> 'a paging_turn" where
  "expire_cursor po env sn reason st =
     bindP (scheduleIdleCleanup po env) (\<lambda>_. returnP (Inl (PaginationError CursorExpired (Some reason)))) (snd (release sn st))"

definition continue_snapshot ::
  "prepared_options \<Rightarrow> paging_env \<Rightarrow> continuation_input \<Rightarrow> snapshot \<Rightarrow> nat \<Rightarrow> read_page paging_turn" where
  "continue_snapshot po env input sn offset =
     bindP (returnP (paging_identity (ci_epoch input))) (\<lambda>epoch.
     if epoch \<noteq> sn_epoch sn then expire_cursor po env sn EpochChanged
     else
       bindP (returnP (paging_identity (ci_view input))) (\<lambda>view.
       if view \<noteq> sn_view sn then returnP (localError ForeignView)
       else
         bindP (returnP (paging_identity (ci_projection input))) (\<lambda>projection.
         if projection \<noteq> sn_projection sn then returnP (localError ForeignProjection)
         else if \<not> po_resizable po \<and> ci_limit input \<noteq> None then returnP (localError InvalidInput)
         else
           bindP (returnP (case ci_limit input of None \<Rightarrow> Inr (sn_limit sn) | Some l \<Rightarrow> validateLimit (Some l) po)) (\<lambda>limit.
           bindP (pageAt po env sn offset limit) (\<lambda>page.
           bindP (scheduleIdleCleanup po env) (\<lambda>_. returnP (Inr page)))))))"

text \<open>The second lookup of \<open>continuePage\<close>, after the expired snapshots were released.\<close>

definition resume_cursor :: "prepared_options \<Rightarrow> paging_env \<Rightarrow> continuation_input \<Rightarrow> read_page paging_turn" where
  "resume_cursor po env input st = (case lookup_cursor po env (ci_token input) st of
     None \<Rightarrow> (Inl (PaginationError CursorExpired (Some UnknownCursor)), st)
   | Some (sn, offset) \<Rightarrow> continue_snapshot po env input sn offset st)"

definition continuePage :: "prepared_options \<Rightarrow> paging_env \<Rightarrow> continuation_input \<Rightarrow> read_page paging_turn" where
  "continuePage po env input =
     bindP requireOpen (\<lambda>_.
     bindP (paging_clock env) (\<lambda>now st.
       (case lookup_cursor po env (ci_token input) st of
          Some (sn, offset) \<Rightarrow>
            if sn_expiresAt sn \<le> now then expire_cursor po env sn ExpiredCursor st
            else resume_cursor po env input (snd (cleanupAt now st))
        | None \<Rightarrow> resume_cursor po env input (snd (cleanupAt now st)))))"

definition cleanupExpired :: "prepared_options \<Rightarrow> paging_env \<Rightarrow> cleanup paging_turn" where
  "cleanupExpired po env st =
     (if pn_closed st then (Inr (0, 0), st)
      else bindP (paging_clock env) (\<lambda>now st1. case cleanupAt now st1 of (c, st2) \<Rightarrow>
        bindP (scheduleIdleCleanup po env) (\<lambda>_. returnP (Inr c)) st2) st)"

definition close_paging :: "paging \<Rightarrow> cleanup \<times> paging" where
  "close_paging st =
     (if pn_closed st then ((0, 0), st)
      else releaseAll (st \<lparr> pn_closed := True, pn_timer := None, pn_epoch := None \<rparr>))"

definition releaseUnissuedPage :: "prepared_options \<Rightarrow> paging_env \<Rightarrow> nat \<Rightarrow> unit paging_turn" where
  "releaseUnissuedPage po env page st = (case pn_pageIds st page of
     None \<Rightarrow> (Inr (), st)
   | Some i \<Rightarrow>
       (let st1 = st \<lparr> pn_pageIds := (pn_pageIds st) (page := None) \<rparr> in
        scheduleIdleCleanup po env
          (case Option.bind (pn_resized st1 i) (snapshot_of st1) of Some sn \<Rightarrow> snd (release sn st1) | None \<Rightarrow> st1)))"

definition sourceContext :: "nat \<Rightarrow> paging \<Rightarrow> json option paged" where
  "sourceContext page st = (case pn_contexts st page of None \<Rightarrow> localError InvalidInput | Some c \<Rightarrow> Inr c)"

text \<open>The callback of the timer.\<close>

definition timer_fires :: "prepared_options \<Rightarrow> paging_env \<Rightarrow> unit paging_turn" where
  "timer_fires po env st =
     (let st1 = st \<lparr> pn_timer := None \<rparr> in
      if pn_closed st1 then (Inr (), st1)
      else bindP (paging_clock env) (\<lambda>now st2. scheduleIdleCleanup po env (snd (cleanupAt now st2))) st1)"

end
