(* ===== verification/Paging_Machine.thy ===== *)
theory Paging_Machine
  imports Pagination
begin

text \<open>
  The pagination as a machine: its operations as steps, the primitive moves every operation is made
  of, and the invariant of the retained state that every move keeps.
\<close>

section \<open>Operations\<close>

datatype paging_op =
    FirstPage first_page_input "json option"
  | ContinuePage continuation_input
  | CleanupExpired
  | ClosePaging
  | ReleaseUnissued nat
  | TimerFires

fun after :: "prepared_options \<Rightarrow> paging_env \<Rightarrow> paging_op \<Rightarrow> paging \<Rightarrow> paging" where
  "after po env (FirstPage input context) st = snd (firstPageWithContext po env input context st)"
| "after po env (ContinuePage input) st = snd (continuePage po env input st)"
| "after po env CleanupExpired st = snd (cleanupExpired po env st)"
| "after po env ClosePaging st = snd (close_paging st)"
| "after po env (ReleaseUnissued page) st = snd (releaseUnissuedPage po env page st)"
| "after po env TimerFires st = snd (timer_fires po env st)"

inductive paging_reachable :: "prepared_options \<Rightarrow> paging_env \<Rightarrow> paging \<Rightarrow> bool" for po env where
  start: "paging_reachable po env new_paging"
| turn: "paging_reachable po env st \<Longrightarrow> paging_reachable po env (after po env op st)"

section \<open>Moves\<close>

text \<open>What a snapshot holds: its first page is not its last, and its weights are those of its copies.\<close>

definition weight_ok :: "snapshot \<Rightarrow> bool" where
  "weight_ok sn \<longleftrightarrow> 0 < sn_limit sn \<and> sn_limit sn < length (sn_items sn) \<and>
     sn_bytes sn = byte_length (serialized (JArr (sn_items sn))) +
       (case sn_context sn of Some c \<Rightarrow> byte_length (serialized c) | None \<Rightarrow> 0) \<and>
     sn_nodes sn = json_nodes (JArr (sn_items sn)) + (case sn_context sn of Some c \<Rightarrow> json_nodes c | None \<Rightarrow> 0)"

definition identified :: "prepared_options \<Rightarrow> paging_env \<Rightarrow> nat \<Rightarrow> snapshot \<Rightarrow> bool" where
  "identified po env k sn \<longleftrightarrow>
     (if po_resizable po then 0 < k \<and> k < 2 ^ 48 \<and> (\<exists>key. sn_cursor sn = Some (cursor_identity env k, key)) else sn_cursor sn = None)"

definition snapshot_admitted :: "prepared_options \<Rightarrow> paging_env \<Rightarrow> paging \<Rightarrow> snapshot \<Rightarrow> bool" where
  "snapshot_admitted po env st sn \<longleftrightarrow> sn_handle sn = pn_handles st \<and> weight_ok sn \<and>
     sn_expiresAt sn = pn_clock st + int (po_cursorTtlMs po) \<and> identified po env (Suc (pn_sequence st)) sn \<and>
     (pn_bytes st \<le> po_byteCapacity po \<longrightarrow> pn_bytes st + sn_bytes sn \<le> po_byteCapacity po) \<and>
     (pn_nodes st \<le> po_nodeCapacity po \<longrightarrow> pn_nodes st + sn_nodes sn \<le> po_nodeCapacity po) \<and>
     length (pn_snapshots st) + pn_positions st + 1 + sn_positions sn \<le> po_retainedStateCapacity po"

text \<open>Changes that do not touch what is retained.\<close>

definition aside :: "paging \<Rightarrow> paging \<Rightarrow> bool" where
  "aside st st' \<longleftrightarrow> pn_snapshots st' = pn_snapshots st \<and> pn_resized st' = pn_resized st \<and> pn_bytes st' = pn_bytes st \<and>
     pn_nodes st' = pn_nodes st \<and> pn_positions st' = pn_positions st \<and> pn_sequence st' = pn_sequence st \<and>
     pn_clock st \<le> pn_clock st' \<and> pn_handles st \<le> pn_handles st'"

definition enter :: "prepared_options \<Rightarrow> snapshot \<Rightarrow> paging \<Rightarrow> paging" where
  "enter po sn st = register sn (st \<lparr> pn_sequence := (if po_resizable po then Suc (pn_sequence st) else pn_sequence st),
     pn_handles := Suc (pn_handles st) \<rparr>)"

text \<open>\<open>moves po env R st st'\<close>: only expired snapshots and those of \<open>R\<close> are released.\<close>

inductive moves :: "prepared_options \<Rightarrow> paging_env \<Rightarrow> (snapshot \<Rightarrow> bool) \<Rightarrow> paging \<Rightarrow> paging \<Rightarrow> bool" for po env R st where
  stay: "moves po env R st st"
| aside: "moves po env R st st1 \<Longrightarrow> aside st1 st2 \<Longrightarrow> moves po env R st st2"
| release: "moves po env R st st1 \<Longrightarrow> sn \<in> set (pn_snapshots st1) \<Longrightarrow> R sn \<or> sn_expiresAt sn \<le> pn_clock st1 \<Longrightarrow>
    moves po env R st (snd (release sn st1))"
| enter: "moves po env R st st1 \<Longrightarrow> snapshot_admitted po env st1 sn \<Longrightarrow> moves po env R st (enter po sn st1)"

lemma moves_trans: "moves po env R st1 st2 \<Longrightarrow> moves po env R st st1 \<Longrightarrow> moves po env R st st2"
  by (induction rule: moves.induct) (auto intro: moves.intros)

lemma quiet_moves [intro]: "aside st st' \<Longrightarrow> moves po env R st st'"
  by (rule moves.aside [OF moves.stay])

section \<open>The invariant\<close>

definition paging_inv :: "prepared_options \<Rightarrow> paging_env \<Rightarrow> paging \<Rightarrow> bool" where
  "paging_inv po env st \<longleftrightarrow>
     sorted_wrt (\<lambda>a b. sn_handle a < sn_handle b) (pn_snapshots st) \<and>
     (\<forall>sn \<in> set (pn_snapshots st). sn_handle sn < pn_handles st \<and> weight_ok sn \<and>
        sn_expiresAt sn \<le> pn_clock st + int (po_cursorTtlMs po)) \<and>
     sorted_wrt (\<lambda>a b. sn_expiresAt a \<le> sn_expiresAt b) (pn_snapshots st) \<and>
     pn_bytes st = sum_list (map sn_bytes (pn_snapshots st)) \<and> pn_bytes st \<le> po_byteCapacity po \<and>
     pn_nodes st = sum_list (map sn_nodes (pn_snapshots st)) \<and> pn_nodes st \<le> po_nodeCapacity po \<and>
     pn_positions st = sum_list (map sn_positions (pn_snapshots st)) \<and>
     length (pn_snapshots st) + pn_positions st \<le> po_retainedStateCapacity po"

text \<open>The identities of a resizable engine.\<close>

definition identity_inv :: "prepared_options \<Rightarrow> paging_env \<Rightarrow> paging \<Rightarrow> bool" where
  "identity_inv po env st \<longleftrightarrow>
     (\<forall>sn \<in> set (pn_snapshots st). \<exists>k \<le> pn_sequence st. identified po env k sn) \<and>
     sorted_wrt (\<lambda>a b. \<exists>j k. j < k \<and> identified po env j a \<and> identified po env k b) (pn_snapshots st) \<and>
     (\<forall>i h. pn_resized st i = Some h \<longleftrightarrow> (\<exists>sn \<in> set (pn_snapshots st). \<exists>key. sn_handle sn = h \<and> sn_cursor sn = Some (i, key)))"

lemma without_handle:
  assumes "sorted_wrt (\<lambda>a b. sn_handle a < sn_handle b) sns" "sn \<in> set sns"
  shows "(f :: snapshot \<Rightarrow> nat) sn + sum_list (map f (filter (\<lambda>s. sn_handle s \<noteq> sn_handle sn) sns)) = sum_list (map f sns)"
    "Suc (length (filter (\<lambda>s. sn_handle s \<noteq> sn_handle sn) sns)) = length sns"
    "set (filter (\<lambda>s. sn_handle s \<noteq> sn_handle sn) sns) = set sns - {sn}"
proof -
  have "f sn + sum_list (map f (filter (\<lambda>s. sn_handle s \<noteq> sn_handle sn) sns)) = sum_list (map f sns) \<and>
    Suc (length (filter (\<lambda>s. sn_handle s \<noteq> sn_handle sn) sns)) = length sns \<and>
    set (filter (\<lambda>s. sn_handle s \<noteq> sn_handle sn) sns) = set sns - {sn}"
    using assms
  proof (induction sns)
    case (Cons a sns)
    show ?case
    proof (cases "a = sn")
      case True
      then have "\<forall>s \<in> set sns. sn_handle s \<noteq> sn_handle sn" using Cons.prems(1) by auto
      then have "filter (\<lambda>s. sn_handle s \<noteq> sn_handle sn) sns = sns" "sn \<notin> set sns" by (auto simp: filter_id_conv)
      then show ?thesis using True by simp
    next
      case False
      then have "sn \<in> set sns" "sn_handle a \<noteq> sn_handle sn" using Cons.prems by auto
      then show ?thesis using Cons False by auto
    qed
  qed simp
  then show "f sn + sum_list (map f (filter (\<lambda>s. sn_handle s \<noteq> sn_handle sn) sns)) = sum_list (map f sns)"
    "Suc (length (filter (\<lambda>s. sn_handle s \<noteq> sn_handle sn) sns)) = length sns"
    "set (filter (\<lambda>s. sn_handle s \<noteq> sn_handle sn) sns) = set sns - {sn}" by blast+
qed

text \<open>The core of the state after a release.\<close>

lemma release_core:
  assumes "sn \<in> set (pn_snapshots st)"
  shows "pn_snapshots (snd (release sn st)) = filter (\<lambda>s. sn_handle s \<noteq> sn_handle sn) (pn_snapshots st)"
    "pn_bytes (snd (release sn st)) = pn_bytes st - sn_bytes sn" "pn_nodes (snd (release sn st)) = pn_nodes st - sn_nodes sn"
    "pn_positions (snd (release sn st)) = pn_positions st - sn_positions sn"
    "pn_resized (snd (release sn st)) = (case sn_cursor sn of Some (i, _) \<Rightarrow> (pn_resized st) (i := None) | None \<Rightarrow> pn_resized st)"
    "pn_handles (snd (release sn st)) = pn_handles st" "pn_sequence (snd (release sn st)) = pn_sequence st"
    "pn_clock (snd (release sn st)) = pn_clock st" "pn_closed (snd (release sn st)) = pn_closed st"
    "pn_epoch (snd (release sn st)) = pn_epoch st" "pn_pageIds (snd (release sn st)) = pn_pageIds st"
  using assms by (auto simp: release_def split: prod.splits)

lemma release_absent: "sn_handle sn \<notin> sn_handle ` set (pn_snapshots st) \<Longrightarrow> snd (release sn st) = st"
  by (simp add: release_def)

lemma release_inv:
  assumes inv: "paging_inv po env st" and sn: "sn \<in> set (pn_snapshots st)"
  shows "paging_inv po env (snd (release sn st))"
proof -
  let ?keep = "filter (\<lambda>s. sn_handle s \<noteq> sn_handle sn) (pn_snapshots st)"
  have sorted: "sorted_wrt (\<lambda>a b. sn_handle a < sn_handle b) (pn_snapshots st)" using inv by (simp add: paging_inv_def)
  note w = without_handle [OF sorted sn]
  have "sum_list (map sn_bytes ?keep) = pn_bytes st - sn_bytes sn" "sum_list (map sn_nodes ?keep) = pn_nodes st - sn_nodes sn"
    "sum_list (map sn_positions ?keep) = pn_positions st - sn_positions sn"
    using w(1) [of sn_bytes] w(1) [of sn_nodes] w(1) [of sn_positions] inv by (simp_all add: paging_inv_def)
  then show ?thesis
    using inv w(2) by (simp add: paging_inv_def release_core [OF sn] sorted_wrt_filter) arith
qed

lemma enter_inv:
  assumes "paging_inv po env st" "snapshot_admitted po env st sn"
  shows "paging_inv po env (enter po sn st)"
  using assms by (auto simp: paging_inv_def snapshot_admitted_def enter_def register_def sorted_wrt_append less_Suc_eq)

lemma quiet_inv: "paging_inv po env st \<Longrightarrow> aside st st' \<Longrightarrow> paging_inv po env st'"
  unfolding paging_inv_def aside_def by (auto dest!: bspec)

lemma moves_inv: "moves po env R st st' \<Longrightarrow> paging_inv po env st \<Longrightarrow> paging_inv po env st'"
  by (induction rule: moves.induct) (auto intro: quiet_inv release_inv enter_inv)

section \<open>Operations are moves\<close>

text \<open>\<open>turns po env R Q m\<close>: from a good state with \<open>Q\<close>, \<open>m\<close> leads by moves to the state it leaves.\<close>

definition turns :: "prepared_options \<Rightarrow> paging_env \<Rightarrow> (snapshot \<Rightarrow> bool) \<Rightarrow> 'a paging_turn \<Rightarrow> bool" where
  "turns po env R m \<longleftrightarrow> (\<forall>st. paging_inv po env st \<longrightarrow> moves po env R st (snd (m st)))"

lemma bind_moves:
  assumes "paging_inv po env st" "moves po env R st (snd (m st))"
    "\<And>x st1. m st = (Inr x, st1) \<Longrightarrow> paging_inv po env st1 \<Longrightarrow> moves po env R st1 (snd (f x st1))"
  shows "moves po env R st (snd (bindP m f st))"
proof (cases "m st")
  case (Pair r st1)
  then have st1: "moves po env R st st1" using assms(2) by simp
  show ?thesis
  proof (cases r)
    case (Inr x)
    from assms(3) [of x st1] Pair Inr moves_inv [OF st1 assms(1)] have "moves po env R st1 (snd (f x st1))" by simp
    with st1 Pair Inr show ?thesis by (auto intro: moves_trans)
  qed (use Pair st1 in simp)
qed

lemma quiet_refl [simp, intro]: "aside st st"
  by (simp add: aside_def)

lemma returnP_moves [simp, intro]: "moves po env R st (snd (returnP r st))"
  by (simp add: returnP_def moves.stay)

lemma clock_quiet: "aside st (snd (paging_clock env st))"
  by (auto simp: paging_clock_def aside_def Let_def split: option.splits)

lemma clock_Inr: "paging_clock env st = (Inr now, st1) \<Longrightarrow> pn_clock st1 = now"
  by (auto simp: paging_clock_def Let_def localError_def split: option.splits if_splits)

lemma quiet_trans: "aside a b \<Longrightarrow> aside b c \<Longrightarrow> aside a c"
  by (auto simp: aside_def)

lemma bind_quiet:
  assumes "aside st (snd (m st))" "\<And>x st1. m st = (Inr x, st1) \<Longrightarrow> aside st1 (snd (f x st1))"
  shows "aside st (snd (bindP m f st))"
  using assms by (cases "m st"; cases "fst (m st)") (fastforce intro: quiet_trans)+

lemma returnP_quiet [simp, intro]: "aside st (snd (returnP r st))"
  by (simp add: returnP_def)

lemma quiet_update [simp]:
  "aside st (st \<lparr> pn_timer := t \<rparr>)" "aside st (st \<lparr> pn_closed := b, pn_timer := t, pn_epoch := x \<rparr>)"
  "aside st (st \<lparr> pn_epoch := x \<rparr>)" "aside st (st \<lparr> pn_pageIds := i \<rparr>)" "aside st (st \<lparr> pn_draws := n \<rparr>)"
  "aside st (st \<lparr> pn_pages := g \<rparr>)" "aside st (st \<lparr> pn_cursors := c, pn_index := y \<rparr>)"
  by (simp_all add: aside_def)

lemma schedule_quiet: "aside st (snd (scheduleIdleCleanup po env st))"
proof -
  have "aside (st \<lparr> pn_timer := None \<rparr>) (snd (bindP (paging_clock env)
      (\<lambda>now st2. (Inr (), st2 \<lparr> pn_timer := Some (min (max 0 (sn_expiresAt sn - now)) 2147483647) \<rparr>)) (st \<lparr> pn_timer := None \<rparr>)))" for sn
    by (rule bind_quiet [OF clock_quiet]) simp
  then show ?thesis
    by (auto simp: scheduleIdleCleanup_def Let_def intro: quiet_trans [OF quiet_update(1)] split: list.splits)
qed

lemma generate_quiet: "aside st (snd (generate_token po env n st))"
proof (induction n arbitrary: st)
  case (Suc n)
  from quiet_trans [OF quiet_update(5) Suc] show ?case by (simp add: Let_def split: option.split)
qed simp

lemma cursor_quiet: "aside st (snd (cursorFor po env sn offset st))"
  unfolding cursorFor_def generateToken_def
  by (auto split: option.splits prod.splits intro!: bind_quiet generate_quiet simp del: bindP.simps)

lemma page_quiet: "aside st (snd (pageAt po env sn offset limit st))"
proof -
  have "aside st (snd (make_page xs link ctx st))" for xs link ctx st
    by (simp add: make_page_def aside_def)
  then show ?thesis
    unfolding pageAt_def Let_def
    by (auto split: option.splits prod.splits intro!: bind_quiet cursor_quiet simp del: bindP.simps)
      (auto simp: make_page_def aside_def)
qed

text \<open>The identity that a new snapshot draws.\<close>

lemma fresh_identity_result:
  "fresh_identity po env n st = (r, st') \<Longrightarrow>
     (case r of
        Inl e \<Rightarrow> aside st st'
      | Inr ik \<Rightarrow> fst ik = cursor_identity env (Suc (pn_sequence st)) \<and> Suc (pn_sequence st) < 2 ^ 48 \<and>
          (\<exists>draws. st' = st \<lparr> pn_draws := draws, pn_sequence := Suc (pn_sequence st) \<rparr>))"
proof (induction n arbitrary: st)
  case (Suc n)
  from Suc.prems consider (stop) e where "r = Inl e" "st' = st \<lparr> pn_draws := Suc (pn_draws st) \<rparr>"
    | (again) "fresh_identity po env n (st \<lparr> pn_draws := Suc (pn_draws st) \<rparr>) = (r, st')"
    | (ok) key where "r = Inr (cursor_identity env (Suc (pn_sequence st)), key)" "pn_sequence st < 0xFFFFFFFFFFFF"
        "st' = st \<lparr> pn_draws := Suc (pn_draws st), pn_sequence := Suc (pn_sequence st) \<rparr>"
    by (auto simp: Let_def localError_def not_le split: option.splits if_splits)
  then show ?case
  proof cases
    case again
    from Suc.IH [OF this] show ?thesis
      by (auto split: sum.splits intro: quiet_trans [OF quiet_update(5)])
  qed (auto intro: exI [of _ "Suc (pn_draws st)"])
qed (auto simp: localError_def split: sum.splits)

text \<open>Releases of a list of snapshots that are all retained.\<close>

lemma release_list_moves:
  assumes "paging_inv po env st" "set sns \<subseteq> set (pn_snapshots st)" "distinct sns"
    "\<And>sn. sn \<in> set sns \<Longrightarrow> R sn \<or> sn_expiresAt sn \<le> pn_clock st"
  shows "moves po env R st (snd (release_list sns st)) \<and>
    pn_snapshots (snd (release_list sns st)) = filter (\<lambda>s. s \<notin> set sns) (pn_snapshots st) \<and>
    pn_clock (snd (release_list sns st)) = pn_clock st \<and> pn_closed (snd (release_list sns st)) = pn_closed st"
  using assms
proof (induction sns arbitrary: st)
  case (Cons sn sns)
  let ?st = "snd (release sn st)"
  have sn: "sn \<in> set (pn_snapshots st)" using Cons.prems by simp
  have sorted: "sorted_wrt (\<lambda>a b. sn_handle a < sn_handle b) (pn_snapshots st)"
    using Cons.prems(1) by (simp add: paging_inv_def)
  have st1: "moves po env R st ?st" by (rule moves.release [OF moves.stay sn]) (use Cons.prems(4) in simp)
  have set1: "set (pn_snapshots ?st) = set (pn_snapshots st) - {sn}"
    by (simp add: release_core [OF sn] without_handle(3) [OF sorted sn, simplified])
  have filt: "filter (\<lambda>s. sn_handle s \<noteq> sn_handle sn) (pn_snapshots st) = filter (\<lambda>s. s \<noteq> sn) (pn_snapshots st)"
    using without_handle(3) [OF sorted sn] by (intro filter_cong) auto
  have "moves po env R ?st (snd (release_list sns ?st)) \<and>
    pn_snapshots (snd (release_list sns ?st)) = filter (\<lambda>s. s \<notin> set sns) (pn_snapshots ?st) \<and>
    pn_clock (snd (release_list sns ?st)) = pn_clock ?st \<and> pn_closed (snd (release_list sns ?st)) = pn_closed ?st"
    using Cons.prems set1 by (intro Cons.IH release_inv [OF Cons.prems(1) sn]) (auto simp: release_core [OF sn])
  moreover have "snd (release_list (sn # sns) st) = snd (release_list sns ?st)"
    by (simp split: prod.splits)
  ultimately show ?case
    using moves_trans st1 by (auto simp: release_core [OF sn] filt intro!: filter_cong)
qed (simp add: moves.stay)

lemma inv_distinct: "paging_inv po env st \<Longrightarrow> distinct (pn_snapshots st)"
proof -
  assume "paging_inv po env st"
  then have "sorted_wrt (\<lambda>a b. a < b) (map sn_handle (pn_snapshots st))" by (simp add: paging_inv_def sorted_wrt_map)
  then have "distinct (map sn_handle (pn_snapshots st))" by (simp add: strict_sorted_iff)
  then show ?thesis by (simp add: distinct_map)
qed

lemma takeWhile_sorted:
  assumes "sorted_wrt (\<lambda>a b. f a \<le> f b) xs"
  shows "filter (\<lambda>x. x \<notin> set (takeWhile (\<lambda>x. f x \<le> (n :: int)) xs)) xs = filter (\<lambda>x. n < f x) xs"
    "set (takeWhile (\<lambda>x. f x \<le> n) xs) = {x \<in> set xs. f x \<le> n}"
proof -
  show s: "set (takeWhile (\<lambda>x. f x \<le> n) xs) = {x \<in> set xs. f x \<le> n}"
    using assms by (induction xs) fastforce+
  show "filter (\<lambda>x. x \<notin> set (takeWhile (\<lambda>x. f x \<le> n) xs)) xs = filter (\<lambda>x. n < f x) xs"
    unfolding s by (intro filter_cong) auto
qed

lemma cleanup_moves:
  assumes "paging_inv po env st" "now \<le> pn_clock st"
  shows "moves po env R st (snd (cleanupAt now st))"
    "pn_snapshots (snd (cleanupAt now st)) = filter (\<lambda>sn. now < sn_expiresAt sn) (pn_snapshots st)"
    "pn_clock (snd (cleanupAt now st)) = pn_clock st" "pn_closed (snd (cleanupAt now st)) = pn_closed st"
proof -
  let ?old = "takeWhile (\<lambda>sn. sn_expiresAt sn \<le> now) (pn_snapshots st)"
  have "sorted_wrt (\<lambda>a b. sn_expiresAt a \<le> sn_expiresAt b) (pn_snapshots st)" using assms(1) by (simp add: paging_inv_def)
  note old = takeWhile_sorted [OF this, of now]
  have "moves po env R st (snd (release_list ?old st)) \<and>
    pn_snapshots (snd (release_list ?old st)) = filter (\<lambda>s. s \<notin> set ?old) (pn_snapshots st) \<and>
    pn_clock (snd (release_list ?old st)) = pn_clock st \<and> pn_closed (snd (release_list ?old st)) = pn_closed st"
    using assms inv_distinct [OF assms(1)] old(2) by (intro release_list_moves) (auto intro: distinct_takeWhile)
  then show "moves po env R st (snd (cleanupAt now st))"
    "pn_snapshots (snd (cleanupAt now st)) = filter (\<lambda>sn. now < sn_expiresAt sn) (pn_snapshots st)"
    "pn_clock (snd (cleanupAt now st)) = pn_clock st" "pn_closed (snd (cleanupAt now st)) = pn_closed st"
    by (simp_all add: cleanupAt_def old(1))
qed

lemma moves_mono: "moves po env R st st' \<Longrightarrow> pn_handles st \<le> pn_handles st' \<and> pn_clock st \<le> pn_clock st'"
  by (induction rule: moves.induct) (auto simp: aside_def release_core enter_def register_def)

lemma bounded_copy_Inr:
  "boundedCopy po v b n = Inr r \<longleftrightarrow>
     byte_length (serialized v) \<le> b \<and> json_nodes v \<le> n \<and> r = (v, byte_length (serialized v), json_nodes v)"
  by (auto simp: boundedCopy_def snapshot_paid json_bytes_serialized split: if_splits)

lemma first_copies_Inr:
  assumes "first_copies po items limit ctx st = Inr (c, xs, b, n)"
  shows "items = JArr xs" "c = ctx"
    "b = byte_length (serialized (JArr xs)) + (case c of Some x \<Rightarrow> byte_length (serialized x) | None \<Rightarrow> 0)"
    "n = json_nodes (JArr xs) + (case c of Some x \<Rightarrow> json_nodes x | None \<Rightarrow> 0)"
    "b \<le> po_byteCapacity po" "n \<le> po_nodeCapacity po"
    "\<not> po_resizable po \<Longrightarrow> limit < length xs \<Longrightarrow> b \<le> po_byteCapacity po - pn_bytes st \<and> n \<le> po_nodeCapacity po - pn_nodes st"
proof -
  have all: "items = JArr xs \<and> c = ctx \<and>
    b = byte_length (serialized (JArr xs)) + (case c of Some x \<Rightarrow> byte_length (serialized x) | None \<Rightarrow> 0) \<and>
    n = json_nodes (JArr xs) + (case c of Some x \<Rightarrow> json_nodes x | None \<Rightarrow> 0) \<and>
    b \<le> po_byteCapacity po \<and> n \<le> po_nodeCapacity po \<and>
    (\<not> po_resizable po \<longrightarrow> limit < length xs \<longrightarrow> b \<le> po_byteCapacity po - pn_bytes st \<and> n \<le> po_nodeCapacity po - pn_nodes st)"
    using assms
    by (auto simp: first_copies_def context_copy_def snapshot_items_def bounded_copy_Inr Let_def
        simp del: json_nodes.simps split: option.splits jv.splits if_splits)
  then show "items = JArr xs" "c = ctx"
    "b = byte_length (serialized (JArr xs)) + (case c of Some x \<Rightarrow> byte_length (serialized x) | None \<Rightarrow> 0)"
    "n = json_nodes (JArr xs) + (case c of Some x \<Rightarrow> json_nodes x | None \<Rightarrow> 0)"
    "b \<le> po_byteCapacity po" "n \<le> po_nodeCapacity po"
    "\<not> po_resizable po \<Longrightarrow> limit < length xs \<Longrightarrow> b \<le> po_byteCapacity po - pn_bytes st \<and> n \<le> po_nodeCapacity po - pn_nodes st"
    by blast+
qed

lemma validateLimit_Inr: "validateLimit l po = Inr n \<Longrightarrow> 0 < n \<and> n \<le> po_maxPageItems po"
  by (auto simp: validateLimit_def Let_def split: if_splits)

lemma quiet_set: "aside st st' \<Longrightarrow> pn_snapshots st' = pn_snapshots st"
  by (simp add: aside_def)

text \<open>The first page of a snapshot that was just entered.\<close>

lemma issue_moves:
  assumes "sn \<in> set (pn_snapshots st)" "R sn"
  shows "moves po env R st (snd (issue_first po env sn st))"
proof -
  let ?m = "bindP (pageAt po env sn 0 (sn_limit sn)) (\<lambda>page st1.
        bindP (scheduleIdleCleanup po env) (\<lambda>_ st2. (Inr page, st2))
          (case sn_cursor sn of Some (i, _) \<Rightarrow> st1 \<lparr> pn_pageIds := (pn_pageIds st1) (rp_handle page \<mapsto> i) \<rparr> | None \<Rightarrow> st1))"
  have "aside st1 (snd (bindP (scheduleIdleCleanup po env) (\<lambda>_ st2. (Inr page, st2))
          (case sn_cursor sn of Some (i, _) \<Rightarrow> st1 \<lparr> pn_pageIds := (pn_pageIds st1) (rp_handle page \<mapsto> i) \<rparr> | None \<Rightarrow> st1)))" for page st1
  proof -
    let ?st = "case sn_cursor sn of Some (i, _) \<Rightarrow> st1 \<lparr> pn_pageIds := (pn_pageIds st1) (rp_handle page \<mapsto> i) \<rparr> | None \<Rightarrow> st1"
    have "aside st1 ?st" by (auto split: option.splits)
    moreover have "aside ?st (snd (bindP (scheduleIdleCleanup po env) (\<lambda>_ st2. (Inr page, st2)) ?st))"
      by (rule bind_quiet [OF schedule_quiet]) simp
    ultimately show ?thesis by (rule quiet_trans)
  qed
  then have q: "aside st (snd (?m st))" by (intro bind_quiet page_quiet) blast
  show ?thesis
  proof (cases "?m st")
    case (Pair r st')
    then have st': "aside st st'" using q by simp
    show ?thesis
    proof (cases r)
      case (Inl e)
      have "moves po env R st (snd (release sn st'))"
        by (rule moves.release [OF quiet_moves [OF st']]) (use assms quiet_set [OF st'] in auto)
      moreover have "aside (snd (release sn st')) (snd (bindP (scheduleIdleCleanup po env) (\<lambda>_. returnP (Inl e)) (snd (release sn st'))))"
        by (rule bind_quiet [OF schedule_quiet]) simp
      ultimately show ?thesis using Pair Inl by (auto simp: issue_first_def intro: moves.aside simp del: bindP.simps)
    qed (use Pair st' in \<open>auto simp: issue_first_def simp del: bindP.simps\<close>)
  qed
qed

lemma retain_moves:
  assumes inv: "paging_inv po env st" and "0 < limit" "limit < length items"
    "first_copies po v limit ctx st = Inr (c, items, octets, nodes)"
    "\<And>sn. pn_handles st \<le> sn_handle sn \<Longrightarrow> R sn" "now = pn_clock st"
  shows "moves po env R st (snd (retain_first po env now limit view epoch projection follow (c, items, octets, nodes) st))"
proof -
  note copies = first_copies_Inr [OF assms(4)]
  let ?positions = "if po_resizable po then 0 else (length items + limit - 1) div limit - 1"
  let ?draw = "if po_resizable po then bindP (freshResizeIdentity po env) (\<lambda>ik. returnP (Inr (Some ik))) else returnP (Inr None)"
  let ?sn = "\<lambda>cursor st1. \<lparr> sn_handle = pn_handles st1, sn_cursor = cursor, sn_items = items, sn_limit = limit, sn_view = view,
    sn_epoch = epoch, sn_projection = projection, sn_continuation = follow, sn_expiresAt = now + int (po_cursorTtlMs po),
    sn_bytes = octets, sn_nodes = nodes, sn_positions = ?positions, sn_context = c \<rparr>"
  show ?thesis
  proof (cases "po_resizable po \<and> (po_byteCapacity po < pn_bytes st + octets \<or> po_nodeCapacity po < pn_nodes st + nodes) \<or>
      po_retainedStateCapacity po < length (pn_snapshots st) + pn_positions st + 1 + ?positions \<or> po_maxPositions po < ?positions")
    case True
    then show ?thesis
      by (auto simp: retain_first_def Let_def assertRetainedStateCapacity_def localError_def moves.stay)
  next
    case False
    then have run: "retain_first po env now limit view epoch projection follow (c, items, octets, nodes) st =
        bindP ?draw (\<lambda>cursor st1. issue_first po env (?sn cursor st1) (register (?sn cursor st1) (st1 \<lparr> pn_handles := Suc (pn_handles st1) \<rparr>))) st"
      by (auto simp: retain_first_def Let_def assertRetainedStateCapacity_def)
    obtain r st1 where draw: "?draw st = (r, st1)" by (cases "?draw st")
    show ?thesis
    proof (cases r)
      case (Inl e)
      have "aside st st1"
      proof (cases "fresh_identity po env (po_attempts po) st")
        case (Pair q st2)
        with draw Inl show ?thesis using fresh_identity_result [OF Pair]
          by (auto simp: returnP_def freshResizeIdentity_def split: if_splits sum.splits)
      qed
      then have "moves po env R st (snd (bindP ?draw g st))" for g using draw Inl by auto
      then show ?thesis unfolding run .
    next
      case (Inr cursor)
      have "\<exists>draws. st1 = st \<lparr> pn_draws := draws, pn_sequence := (if po_resizable po then Suc (pn_sequence st) else pn_sequence st) \<rparr> \<and>
          identified po env (Suc (pn_sequence st)) (?sn cursor st1)"
      proof (cases "po_resizable po")
        case True
        obtain q st2 where f: "fresh_identity po env (po_attempts po) st = (q, st2)" by (cases "fresh_identity po env (po_attempts po) st")
        from draw True Inr f obtain ik where q: "q = Inr ik" "cursor = Some ik" "st1 = st2"
          by (auto simp: returnP_def freshResizeIdentity_def split: sum.splits)
        from fresh_identity_result [OF f] q obtain draws where
          "fst ik = cursor_identity env (Suc (pn_sequence st))" "Suc (pn_sequence st) < 2 ^ 48"
          "st1 = st \<lparr> pn_draws := draws, pn_sequence := Suc (pn_sequence st) \<rparr>" by auto
        then show ?thesis using True q by (cases ik) (auto simp: identified_def)
      next
        case False
        then show ?thesis using draw Inr by (intro exI [of _ "pn_draws st"]) (auto simp: returnP_def identified_def)
      qed
      then obtain draws where drawn: "st1 = st \<lparr> pn_draws := draws, pn_sequence := (if po_resizable po then Suc (pn_sequence st) else pn_sequence st) \<rparr>"
        "identified po env (Suc (pn_sequence st)) (?sn cursor st1)" by blast
      let ?st0 = "st \<lparr> pn_draws := draws \<rparr>"
      have handle: "pn_handles st1 = pn_handles st" by (simp add: drawn(1))
      have adm: "snapshot_admitted po env ?st0 (?sn cursor st1)"
        using False drawn(2) copies(3-7) assms(2,3,6)
        by (auto simp: snapshot_admitted_def weight_ok_def handle)
      have "moves po env R st (enter po (?sn cursor st1) ?st0)"
        by (rule moves.enter [OF moves.aside [OF moves.stay] adm]) simp
      moreover have reg: "enter po (?sn cursor st1) ?st0 = register (?sn cursor st1) (st1 \<lparr> pn_handles := Suc (pn_handles st1) \<rparr>)"
        by (simp add: enter_def drawn(1))
      ultimately have "moves po env R st (register (?sn cursor st1) (st1 \<lparr> pn_handles := Suc (pn_handles st1) \<rparr>))" by simp
      moreover
      have "moves po env R (register (?sn cursor st1) (st1 \<lparr> pn_handles := Suc (pn_handles st1) \<rparr>))
          (snd (issue_first po env (?sn cursor st1) (register (?sn cursor st1) (st1 \<lparr> pn_handles := Suc (pn_handles st1) \<rparr>))))"
        by (rule issue_moves, simp add: register_def) (rule assms(5), simp add: handle)
      ultimately have "moves po env R st
          (snd (issue_first po env (?sn cursor st1) (register (?sn cursor st1) (st1 \<lparr> pn_handles := Suc (pn_handles st1) \<rparr>))))"
        by (rule moves_trans [rotated])
      moreover have "snd (bindP ?draw (\<lambda>cursor st1. issue_first po env (?sn cursor st1)
          (register (?sn cursor st1) (st1 \<lparr> pn_handles := Suc (pn_handles st1) \<rparr>))) st) =
        snd (issue_first po env (?sn cursor st1) (register (?sn cursor st1) (st1 \<lparr> pn_handles := Suc (pn_handles st1) \<rparr>)))"
        unfolding bindP.simps [of ?draw] draw Inr by simp
      ultimately show ?thesis unfolding run by (simp only:)
    qed
  qed
qed

text \<open>Which snapshots an operation may release besides the expired ones.\<close>

fun withdraws :: "prepared_options \<Rightarrow> paging_env \<Rightarrow> paging_op \<Rightarrow> paging \<Rightarrow> snapshot \<Rightarrow> bool" where
  "withdraws po env (FirstPage input c) st sn \<longleftrightarrow> pn_epoch st \<notin> {None, Some (fp_epoch input)} \<or> pn_handles st \<le> sn_handle sn"
| "withdraws po env (ContinuePage input) st sn \<longleftrightarrow> sn_epoch sn \<noteq> ci_epoch input"
| "withdraws po env ClosePaging st sn \<longleftrightarrow> \<not> pn_closed st"
| "withdraws po env (ReleaseUnissued page) st sn \<longleftrightarrow> (\<exists>i. pn_pageIds st page = Some i \<and> pn_resized st i = Some (sn_handle sn))"
| "withdraws po env CleanupExpired st sn \<longleftrightarrow> False"
| "withdraws po env TimerFires st sn \<longleftrightarrow> False"

lemma clock_epoch: "pn_epoch (snd (paging_clock env st)) = pn_epoch st"
  by (simp add: paging_clock_def Let_def split: option.split)

lemma clock_bind:
  assumes "paging_inv po env st"
    "\<And>now st1. aside st st1 \<Longrightarrow> pn_epoch st1 = pn_epoch st \<Longrightarrow> paging_inv po env st1 \<Longrightarrow> pn_clock st1 = now \<Longrightarrow> moves po env R st1 (snd (f now st1))"
  shows "moves po env R st (snd (bindP (paging_clock env) f st))"
proof (rule bind_moves [OF assms(1)])
  show "moves po env R st (snd (paging_clock env st))" using clock_quiet by auto
  show "moves po env R st1 (snd (f now st1))" if "paging_clock env st = (Inr now, st1)" "paging_inv po env st1" for now st1
    using assms(2) [of st1 now] that clock_quiet [of st env] clock_Inr [OF that(1)] clock_epoch [of env st] by simp
qed

lemma require_bind:
  "paging_inv po env st \<Longrightarrow> (\<not> pn_closed st \<Longrightarrow> moves po env R st (snd (f () st))) \<Longrightarrow>
     moves po env R st (snd (bindP requireOpen f st))"
  by (simp add: requireOpen_def localError_def moves.stay)

lemma value_bind:
  "paging_inv po env st \<Longrightarrow> (\<And>x. r = Inr x \<Longrightarrow> moves po env R st (snd (f x st))) \<Longrightarrow>
     moves po env R st (snd (bindP (returnP r) f st))"
  by (cases r) (simp_all add: returnP_def moves.stay)

lemma cleanup_then:
  assumes "paging_inv po env st" "now = pn_clock st"
    "paging_inv po env (snd (cleanupAt now st)) \<Longrightarrow> pn_clock (snd (cleanupAt now st)) = now \<Longrightarrow>
      moves po env R (snd (cleanupAt now st)) st'"
  shows "moves po env R st st'"
proof -
  note c = cleanup_moves [OF assms(1), of now]
  then show ?thesis using assms moves_inv [OF c(1) assms(1)] by (auto intro: moves_trans)
qed

lemma release_present:
  assumes "paging_inv po env st" "sn_handle sn \<in> sn_handle ` set (pn_snapshots st) \<Longrightarrow> sn \<in> set (pn_snapshots st)"
    "R sn \<or> sn_expiresAt sn \<le> pn_clock st"
  shows "moves po env R st (snd (release sn st))"
  using assms by (cases "sn_handle sn \<in> sn_handle ` set (pn_snapshots st)") (auto intro: moves.release moves.stay simp: release_absent)

lemma find_snapshot: "snapshot_of st h = Some sn \<Longrightarrow> sn \<in> set (pn_snapshots st) \<and> sn_handle sn = h"
  by (auto simp: snapshot_of_def find_Some_iff)

lemma lookup_present: "lookup_cursor po env t st = Some (sn, offset) \<Longrightarrow> sn \<in> set (pn_snapshots st)"
  by (auto simp: lookup_cursor_def lookupResized_def Let_def bind_eq_Some_conv
      split: if_splits option.splits dest: find_snapshot)

lemma enter_epoch_moves:
  assumes "paging_inv po env st" "pn_epoch st \<notin> {None, Some epoch} \<Longrightarrow> \<forall>sn. R sn"
  shows "moves po env R st (enter_epoch epoch st)"
    "pn_clock (enter_epoch epoch st) = pn_clock st"
proof -
  have r: "moves po env R st (snd (release_list (pn_snapshots st) st)) \<and>
      pn_clock (snd (release_list (pn_snapshots st) st)) = pn_clock st" if "\<forall>sn. R sn"
    using release_list_moves [OF assms(1) subset_refl inv_distinct [OF assms(1)], of R] that by simp
  show "moves po env R st (enter_epoch epoch st)"
    using r assms(2) by (auto simp: enter_epoch_def intro: moves.aside [OF _ quiet_update(3)])
  show "pn_clock (enter_epoch epoch st) = pn_clock st"
    using release_list_moves [OF assms(1) subset_refl inv_distinct [OF assms(1)], of "\<lambda>_. True"]
    by (simp add: enter_epoch_def)
qed

lemma cleanup_epoch: "pn_epoch (snd (cleanupAt now st)) = pn_epoch st"
proof -
  have "pn_epoch (snd (release sn st)) = pn_epoch st" for sn st
    by (simp add: release_def split: prod.splits)
  then have "pn_epoch (snd (release_list sns st)) = pn_epoch st" for sns
    by (induction sns arbitrary: st) (simp_all split: prod.splits, metis snd_conv)
  then show ?thesis by (simp add: cleanupAt_def)
qed

lemma first_page_moves:
  assumes inv: "paging_inv po env st"
  shows "moves po env (withdraws po env (FirstPage input c) st) st (snd (firstPageWithContext po env input c st))"
proof -
  let ?R = "withdraws po env (FirstPage input c) st"
  have R: "?R = (\<lambda>sn. pn_epoch st \<notin> {None, Some (fp_epoch input)} \<or> pn_handles st \<le> sn_handle sn)" by (rule ext) simp
  show ?thesis
    unfolding firstPageWithContext_def
  proof (rule require_bind [OF inv], goal_cases)
    case 1
    show ?case
    proof (rule clock_bind [OF inv], goal_cases)
      case (1 now st1)
      note st1 = 1(4,1,2) and inv1 = 1(3)
      let ?st2 = "snd (cleanupAt now st1)"
      show ?case unfolding Let_def
      proof (rule cleanup_then [OF 1(3) st1(1) [symmetric]])
        assume inv2: "paging_inv po env ?st2" and now2: "pn_clock ?st2 = now"
        show "moves po env ?R ?st2 (snd (bindP (returnP (validateLimit (fp_limit input) po)) (\<lambda>limit.
          bindP (returnP (paging_identity (fp_view input))) (\<lambda>view.
          bindP (returnP (paging_identity (fp_epoch input))) (\<lambda>epoch.
          bindP (returnP (paging_identity (fp_projection input))) (\<lambda>projection.
          bindP (returnP (validateContinuationUrl env (fp_continuation input) (po_scope po))) (\<lambda>follow st2.
          bindP (returnP (first_copies po (fp_items input) limit c (enter_epoch epoch st2))) (\<lambda>copied st4.
            (case copied of (c, items, _, _) \<Rightarrow>
              if length items \<le> limit
              then (case make_page items None c st4 of (page, st5) \<Rightarrow> (Inr page, st5))
              else retain_first po env now limit view epoch projection follow copied st4)) (enter_epoch epoch st2)))))) ?st2))"
        proof (intro value_bind [OF inv2], goal_cases)
        case (1 limit view epoch projection follow)
        have limit: "0 < limit" and epoch: "epoch = fp_epoch input"
          using 1 by (auto dest: validateLimit_Inr simp: paging_identity_def split: if_splits)
        have e: "moves po env ?R ?st2 (enter_epoch epoch ?st2)" "pn_clock (enter_epoch epoch ?st2) = now"
          using enter_epoch_moves [OF inv2, of epoch ?R] now2 st1(3) by (auto simp: cleanup_epoch epoch)
        note inv3 = moves_inv [OF e(1) inv2]
        have handles: "pn_handles st \<le> pn_handles (enter_epoch epoch ?st2)"
          using moves_mono [OF e(1)] moves_mono [OF cleanup_moves(1) [OF inv1, of now]] st1(1,2) by (auto simp: aside_def)
        show ?case
        proof (rule moves_trans [OF _ e(1)], rule value_bind [OF inv3], goal_cases)
          case (1 copied)
          obtain ctx items octets nodes where copied: "copied = (ctx, items, octets, nodes)" by (cases copied)
          show ?case
          proof (cases "length items \<le> limit")
            case True
            have "aside st4 (snd (case make_page items None ctx st4 of (page, st5) \<Rightarrow> (Inr page, st5)))" for st4
              by (simp add: make_page_def aside_def)
            then show ?thesis using True by (auto simp: copied)
          next
            case False
            have "moves po env ?R (enter_epoch epoch ?st2)
              (snd (retain_first po env now limit view epoch projection follow (ctx, items, octets, nodes) (enter_epoch epoch ?st2)))"
              by (rule retain_moves [OF inv3 limit _ 1 [unfolded copied]]) (use False handles e(2) in auto)
            then show ?thesis using False by (simp add: copied)
          qed
        qed
        qed
      qed
    qed
  qed
qed

lemma expire_moves:
  assumes "paging_inv po env st" "sn \<in> set (pn_snapshots st)" "R sn \<or> sn_expiresAt sn \<le> pn_clock st"
  shows "moves po env R st (snd (expire_cursor po env sn reason st))"
proof -
  have "moves po env R st (snd (release sn st))" by (rule release_present) (use assms in auto)
  moreover have "aside (snd (release sn st)) (snd (expire_cursor po env sn reason st))"
    unfolding expire_cursor_def by (rule bind_quiet [OF schedule_quiet]) simp
  ultimately show ?thesis by (rule moves.aside)
qed

lemma continue_moves:
  assumes inv: "paging_inv po env st"
  shows "moves po env (withdraws po env (ContinuePage input) st0) st (snd (continuePage po env input st))"
proof -
  let ?R = "withdraws po env (ContinuePage input) st0"
  have resume: "moves po env ?R st (snd (resume_cursor po env input st))" if inv: "paging_inv po env st" for st
  proof (cases "lookup_cursor po env (ci_token input) st")
    case (Some so)
    obtain sn offset where so: "so = (sn, offset)" by (cases so)
    have sn: "sn \<in> set (pn_snapshots st)" using Some so lookup_present by blast
    have p: "moves po env ?R st (snd (bindP (pageAt po env sn offset limit)
        (\<lambda>page. bindP (scheduleIdleCleanup po env) (\<lambda>_. returnP (Inr page))) st))" for limit
      by (intro quiet_moves bind_quiet page_quiet schedule_quiet) simp
    have "moves po env ?R st (snd (continue_snapshot po env input sn offset st))"
      unfolding continue_snapshot_def
    proof (intro value_bind [OF inv], goal_cases)
      case (1 epoch)
      then have e: "epoch = ci_epoch input" by (auto simp: paging_identity_def split: if_splits)
      show ?case
      proof (cases "epoch = sn_epoch sn")
        case False
        then have "?R sn" using e by auto
        then show ?thesis using False by (simp add: expire_moves [OF inv sn])
      next
        case True
        then show ?thesis
          by (auto intro!: value_bind [OF inv] p simp del: bindP.simps)
      qed
    qed
    then show ?thesis by (simp add: resume_cursor_def Some so)
  qed (simp add: resume_cursor_def moves.stay)
  show ?thesis unfolding continuePage_def
  proof (intro require_bind [OF inv] clock_bind [OF inv], goal_cases)
    case (1 now st1)
    have c: "moves po env ?R st1 (snd (resume_cursor po env input (snd (cleanupAt now st1))))"
      by (rule cleanup_then [OF 1(4)]) (use 1 resume in auto)
    show ?case
    proof (cases "lookup_cursor po env (ci_token input) st1")
      case (Some so)
      obtain sn offset where so: "so = (sn, offset)" by (cases so)
      have "moves po env ?R st1 (snd (expire_cursor po env sn ExpiredCursor st1))" if "sn_expiresAt sn \<le> now"
        using expire_moves [OF 1(4) lookup_present [OF Some [unfolded so]], where R = ?R] that 1(5) by simp
      then show ?thesis using c by (auto simp: Some so)
    qed (use c in simp)
  qed
qed

lemma schedule_after: "moves po env R st st' \<Longrightarrow> moves po env R st (snd (scheduleIdleCleanup po env st'))"
  by (rule moves.aside [OF _ schedule_quiet])

lemma cleanup_op_moves:
  assumes "paging_inv po env st"
  shows "moves po env R st (snd (cleanupExpired po env st))" "moves po env R st (snd (timer_fires po env st))"
proof -
  have "moves po env R st (snd (bindP (paging_clock env) (\<lambda>now st1. case cleanupAt now st1 of (c, st2) \<Rightarrow>
        bindP (scheduleIdleCleanup po env) (\<lambda>_. returnP (Inr c)) st2) st))"
  proof (rule clock_bind [OF assms])
    fix now st1
    assume st1: "paging_inv po env st1" "pn_clock st1 = now"
    have "moves po env R (snd (cleanupAt now st1)) (snd (bindP (scheduleIdleCleanup po env) (\<lambda>_. returnP (Inr c)) (snd (cleanupAt now st1))))" for c
      by (intro quiet_moves bind_quiet schedule_quiet) simp
    then show "moves po env R st1 (snd (case cleanupAt now st1 of (c, st2) \<Rightarrow>
        bindP (scheduleIdleCleanup po env) (\<lambda>_. returnP (Inr c)) st2))"
      by (intro cleanup_then [OF st1(1) st1(2) [symmetric]]) (cases "cleanupAt now st1"; simp del: bindP.simps)
  qed
  then show "moves po env R st (snd (cleanupExpired po env st))"
    by (auto simp: cleanupExpired_def moves.stay simp del: bindP.simps)
  let ?st = "st \<lparr> pn_timer := None \<rparr>"
  have q: "aside st ?st" by simp
  have "moves po env R ?st (snd (bindP (paging_clock env) (\<lambda>now st2. scheduleIdleCleanup po env (snd (cleanupAt now st2))) ?st))"
    by (rule clock_bind [OF quiet_inv [OF assms q]]) (auto intro: schedule_after cleanup_moves)
  from moves_trans [OF this quiet_moves [OF q]] show "moves po env R st (snd (timer_fires po env st))"
    using q by (auto simp: timer_fires_def Let_def simp del: bindP.simps)
qed

lemma after_moves:
  assumes inv: "paging_inv po env st"
  shows "moves po env (withdraws po env op st) st (after po env op st)"
proof (cases op)
  case (FirstPage input c)
  show ?thesis using first_page_moves [OF inv] by (simp add: FirstPage)
next
  case (ContinuePage input)
  show ?thesis using continue_moves [OF inv] by (simp add: ContinuePage)
next
  case ClosePaging
  show ?thesis
  proof (cases "pn_closed st")
    case False
    let ?st = "st \<lparr> pn_closed := True, pn_timer := None, pn_epoch := None \<rparr>"
    have q: "aside st ?st" by simp
    have inv': "paging_inv po env ?st" by (rule quiet_inv [OF inv q])
    have "moves po env (withdraws po env ClosePaging st) ?st (snd (release_list (pn_snapshots ?st) ?st))"
      using release_list_moves [OF inv' subset_refl inv_distinct [OF inv']] False by simp
    then show ?thesis
      using False moves_trans [OF _ quiet_moves [OF q]] by (simp add: ClosePaging close_paging_def releaseAll_def)
  qed (simp add: ClosePaging close_paging_def moves.stay)
next
  case (ReleaseUnissued page)
  show ?thesis
  proof (cases "pn_pageIds st page")
    case (Some i)
    let ?st = "st \<lparr> pn_pageIds := (pn_pageIds st) (page := None) \<rparr>"
    have q: "aside st ?st" by simp
    have inv': "paging_inv po env ?st" by (rule quiet_inv [OF inv q])
    let ?R = "withdraws po env (ReleaseUnissued page) st"
    have "moves po env ?R ?st (snd (release sn ?st))" if "Option.bind (pn_resized ?st i) (snapshot_of ?st) = Some sn" for sn
      using that Some by (intro release_present [OF inv']) (auto simp: bind_eq_Some_conv dest!: find_snapshot)
    then have "moves po env ?R st (case Option.bind (pn_resized ?st i) (snapshot_of ?st) of Some sn \<Rightarrow> snd (release sn ?st) | None \<Rightarrow> ?st)"
      using moves_trans [OF _ quiet_moves [OF q]] q by (auto split: option.split)
    from schedule_after [OF this] show ?thesis
      using Some by (simp add: ReleaseUnissued releaseUnissuedPage_def Let_def)
  qed (simp add: ReleaseUnissued releaseUnissuedPage_def moves.stay)
qed (use cleanup_op_moves [OF inv] in simp_all)

lemma paging_reachable_inv: "paging_reachable po env st \<Longrightarrow> paging_inv po env st"
proof (induction rule: paging_reachable.induct)
  case start
  show ?case by (simp add: paging_inv_def new_paging_def)
next
  case (turn st op)
  from moves_inv [OF after_moves [OF turn.IH] turn.IH] show ?case .
qed

text \<open>A snapshot that no move may release stays.\<close>

lemma moves_keep:
  assumes "moves po env R st st'" "paging_inv po env st" "sn \<in> set (pn_snapshots st)" "\<not> R sn" "pn_clock st' < sn_expiresAt sn"
  shows "sn \<in> set (pn_snapshots st')"
  using assms
proof (induction rule: moves.induct)
  case (release st1 sn')
  note sn' = release.hyps(2)
  have "paging_inv po env st1" by (rule moves_inv [OF release.hyps(1) release.prems(1)])
  then have "sorted_wrt (\<lambda>a b. sn_handle a < sn_handle b) (pn_snapshots st1)" by (simp add: paging_inv_def)
  note keep = without_handle(3) [OF this sn']
  have c: "pn_clock st1 < sn_expiresAt sn" using release.prems(4) by (simp add: release_core [OF sn'])
  then have "sn \<in> set (pn_snapshots st1)" using release.IH release.prems by blast
  moreover have "sn \<noteq> sn'" using release.hyps(3) release.prems(3) c by auto
  ultimately show ?case by (simp add: release_core(1) [OF sn'] keep del: set_filter)
next
  case (aside st1 st2)
  then have "pn_clock st1 < sn_expiresAt sn" by (simp add: aside_def)
  with aside show ?case by (simp add: aside_def)
next
  case (enter st1 sn')
  then show ?case by (simp add: enter_def register_def)
qed

end
