(* ===== verification/Paging_Cursors.thy ===== *)
theory Paging_Cursors
  imports Paging_Machine
begin

text \<open>
  The cursors of a resizable pagination: the texts they are made of read back, identities are never
  drawn twice, and a token is accepted exactly when it is the cursor of a page of a retained snapshot.
\<close>

section \<open>base64url\<close>

definition base64url_value :: "code_unit \<Rightarrow> nat" where
  "base64url_value c = (let u = unat c in
     if u = 45 then 62 else if u = 95 then 63 else if u < 58 then u + 4 else if u < 91 then u - 65 else u - 71)"

lemma base64url_value: "n < 64 \<Longrightarrow> base64url_value (base64url_unit n) = n"
  by (auto simp: base64url_value_def base64url_unit_def unat_of_nat Let_def)

lemma base64url_unit_inj: "m < 64 \<Longrightarrow> n < 64 \<Longrightarrow> base64url_unit m = base64url_unit n \<Longrightarrow> m = n"
  using base64url_value by metis

lemma octet_bound: "unat (a :: 8 word) < 256"
  using unsigned_less [of a, where 'a = nat] by simp

lemma base64url_token_unit: "n < 64 \<Longrightarrow> is_token_unit (base64url_unit n)"
  by (auto simp: base64url_unit_def is_token_unit_def unit_class_defs unat_of_nat word_unat_eq_iff)

lemma base64url_units: "list_all is_token_unit (base64url s)"
proof (induction s rule: base64url.induct)
  case (4 a b c s)
  then show ?case
    using octet_bound [of a] octet_bound [of b] octet_bound [of c] by (auto intro!: base64url_token_unit)
next
  case (3 a b)
  then show ?case using octet_bound [of a] octet_bound [of b] by (auto intro!: base64url_token_unit)
next
  case (2 a)
  then show ?case using octet_bound [of a] by (auto intro!: base64url_token_unit)
qed simp

lemma base64url_length: "length (base64url s) = (4 * length s + 2) div 3"
  by (induction s rule: base64url.induct) simp_all

lemma sextets:
  assumes "a < 256" "b < 256" "c < 256" "a' < 256" "b' < 256" "c' < (256 :: nat)"
    "a div 4 = a' div 4" "a mod 4 * 16 + b div 16 = a' mod 4 * 16 + b' div 16"
    "b mod 16 * 4 + c div 64 = b' mod 16 * 4 + c' div 64" "c mod 64 = c' mod 64"
  shows "a = a' \<and> b = b' \<and> c = c'"
proof -
  have s: "x = x' \<and> y = y'" if "x * n + y = x' * n + y'" "y < n" "y' < n" for x y x' y' n :: nat
  proof -
    have "(x * n + y) div n = (x' * n + y') div n" "(x * n + y) mod n = (x' * n + y') mod n" using that(1) by simp_all
    then show ?thesis using that(2,3) by simp
  qed
  have "a mod 4 = a' mod 4 \<and> b div 16 = b' div 16" using assms(2,5) by (intro s [OF assms(8)]) linarith+
  moreover have "b mod 16 = b' mod 16 \<and> c div 64 = c' div 64" using assms(3,6) by (intro s [OF assms(9)]) linarith+
  ultimately show ?thesis using assms(7,10) by (metis div_mult_mod_eq)
qed

lemma base64url_inj: "length s = 3 * n \<Longrightarrow> length t = 3 * n \<Longrightarrow> base64url s = base64url t \<Longrightarrow> s = t"
proof (induction n arbitrary: s t)
  case (Suc n)
  from Suc.prems(1) obtain a b c u where s: "s = a # b # c # u" "length u = 3 * n"
    by (auto simp: length_Suc_conv numeral_3_eq_3)
  from Suc.prems(2) obtain d e f v where t: "t = d # e # f # v" "length v = 3 * n"
    by (auto simp: length_Suc_conv numeral_3_eq_3)
  note bounds = octet_bound [of a] octet_bound [of b] octet_bound [of c] octet_bound [of d] octet_bound [of e] octet_bound [of f]
  have "unat a div 4 = unat d div 4" "unat a mod 4 * 16 + unat b div 16 = unat d mod 4 * 16 + unat e div 16"
    "unat b mod 16 * 4 + unat c div 64 = unat e mod 16 * 4 + unat f div 64" "unat c mod 64 = unat f mod 64"
    using Suc.prems(3) bounds by (auto simp: s t intro!: base64url_unit_inj)
  from sextets [OF bounds this] have "a = d \<and> b = e \<and> c = f" by (simp add: word_unat_eq_iff)
  then show ?case using Suc.IH [OF s(2) t(2)] Suc.prems(3) by (simp add: s(1) t(1))
qed simp

section \<open>Identities\<close>

text \<open>HMAC-SHA256 gives 32 bytes.\<close>

definition hmac_ok :: "paging_env \<Rightarrow> bool" where
  "hmac_ok env \<longleftrightarrow> (\<forall>k m. length (pe_hmac env k m) = 32)"

lemma big_endian_length [simp]: "length (big_endian k n) = k"
  by (induction k n rule: big_endian.induct) simp_all

lemma big_endian_inj: "m < 256 ^ k \<Longrightarrow> n < 256 ^ k \<Longrightarrow> big_endian k m = big_endian k n \<Longrightarrow> m = n"
proof (induction k arbitrary: m n)
  case (Suc k)
  then have d: "big_endian k (m div 256) = big_endian k (n div 256)" "(of_nat (m mod 256) :: 8 word) = of_nat (n mod 256)" by simp_all
  from d(2) have "m mod 256 = n mod 256" by (simp add: word_unat_eq_iff unat_of_nat)
  moreover have "m div 256 = n div 256" using Suc.IH [OF _ _ d(1)] Suc.prems by (simp add: less_mult_imp_div_less mult.commute)
  ultimately show ?case by (metis div_mult_mod_eq)
qed simp

lemma xor_list_inj: "length s = length m \<Longrightarrow> length t = length m \<Longrightarrow> map2 xor s m = map2 xor t m \<Longrightarrow> s = (t :: octets)"
proof (induction m arbitrary: s t)
  case (Cons x m)
  then obtain a u b v where s: "s = a # u" "t = b # v" by (auto simp: length_Suc_conv)
  then have "xor (xor a x) x = xor (xor b x) x" using Cons.prems(3) by simp
  then have "a = b" by (simp add: xor.assoc)
  then show ?case using Cons s by simp
qed simp

lemma mask_length: "hmac_ok env \<Longrightarrow> length (identity_mask env) = 6"
  by (simp add: identity_mask_def hmac_ok_def)

lemma identity_inj:
  assumes "hmac_ok env" "j < 2 ^ 48" "k < 2 ^ 48" "cursor_identity env j = cursor_identity env k"
  shows "j = k"
proof -
  have "map2 xor (big_endian 6 j) (identity_mask env) = map2 xor (big_endian 6 k) (identity_mask env)"
    using assms(4) by (intro base64url_inj [of _ 2]) (simp_all add: mask_length [OF assms(1)] cursor_identity_def)
  then have "big_endian 6 j = big_endian 6 k" by (rule xor_list_inj [rotated 2]) (simp_all add: mask_length [OF assms(1)])
  then show ?thesis by (rule big_endian_inj [rotated 2]) (use assms in simp_all)
qed

lemma identity_shape: "hmac_ok env \<Longrightarrow> length (cursor_identity env k) = 8 \<and> list_all is_token_unit (cursor_identity env k)"
  by (simp add: cursor_identity_def base64url_units base64url_length mask_length)

lemma tag_shape: "hmac_ok env \<Longrightarrow> length (cursor_tag env ik offset) = 22 \<and> list_all is_token_unit (cursor_tag env ik offset)"
  by (simp add: cursor_tag_def base64url_units base64url_length hmac_ok_def)

section \<open>Offsets\<close>

lemma digit36: "n < 36 \<Longrightarrow> is_base36 (digit36 n) \<and> (if is_digit (digit36 n) then unat (digit36 n) - 48 else unat (digit36 n) - 87) = n"
  by (auto simp: digit36_def is_base36_def unit_class_defs unat_of_nat)

lemma base36_read: "value36 (base36 n) = n \<and> list_all is_base36 (base36 n) \<and> base36 n \<noteq> []"
proof (induction n rule: base36.induct)
  case (1 n)
  show ?case
  proof (cases "n < 36")
    case True
    then show ?thesis using digit36 [of n] by (subst (1 2 3) base36.simps) (simp add: value36_def)
  next
    case False
    then show ?thesis using 1 digit36 [of "n mod 36"] by (subst (1 2 3) base36.simps) (simp add: value36_def)
  qed
qed

lemma base36_length: "n < 36 ^ Suc k \<Longrightarrow> length (base36 n) \<le> Suc k"
proof (induction k arbitrary: n)
  case (Suc k)
  show ?case
  proof (cases "n < 36")
    case False
    have "n div 36 < 36 ^ Suc k" using Suc.prems by (simp add: less_mult_imp_div_less mult.commute)
    from Suc.IH [OF this] False show ?thesis by (subst base36.simps) simp
  qed (subst base36.simps, simp)
qed (subst base36.simps, simp)

section \<open>The identities of the retained snapshots\<close>

lemma sorted_wrt_pair: "sorted_wrt P xs \<Longrightarrow> a \<in> set xs \<Longrightarrow> b \<in> set xs \<Longrightarrow> a = b \<or> P a b \<or> P b a"
  by (induction xs) auto

lemma identified_cursor:
  "identified po env k sn \<Longrightarrow> sn_cursor sn = Some (i, key) \<Longrightarrow> po_resizable po \<and> 0 < k \<and> k < 2 ^ 48 \<and> i = cursor_identity env k"
  by (auto simp: identified_def split: if_splits)

lemma identities_distinct:
  assumes "hmac_ok env" "identity_inv po env st" "sn \<in> set (pn_snapshots st)" "sn' \<in> set (pn_snapshots st)"
    "sn_cursor sn = Some (i, key)" "sn_cursor sn' = Some (i, key')"
  shows "sn = sn'"
proof (rule ccontr)
  assume "sn \<noteq> sn'"
  have "sorted_wrt (\<lambda>a b. \<exists>j k. j < k \<and> identified po env j a \<and> identified po env k b) (pn_snapshots st)"
    using assms(2) by (simp add: identity_inv_def)
  from sorted_wrt_pair [OF this assms(3,4)] \<open>sn \<noteq> sn'\<close> have "\<exists>j k. j \<noteq> k \<and> identified po env j sn \<and> identified po env k sn'"
    by (elim disjE exE conjE) (blast dest: less_imp_neq less_imp_neq [symmetric])+
  then obtain j k where jk: "j \<noteq> k" "identified po env j sn" "identified po env k sn'" by blast
  from identified_cursor [OF jk(2) assms(5)] identified_cursor [OF jk(3) assms(6)] identity_inj [OF assms(1), of j k] jk(1)
  show False by simp
qed

lemma release_identities:
  assumes hmac: "hmac_ok env" and inv: "paging_inv po env st" "identity_inv po env st" and sn: "sn \<in> set (pn_snapshots st)"
  shows "identity_inv po env (snd (release sn st))"
proof -
  have sorted: "sorted_wrt (\<lambda>a b. sn_handle a < sn_handle b) (pn_snapshots st)" using inv(1) by (simp add: paging_inv_def)
  note keep = without_handle(3) [OF sorted sn]
  have set': "set (pn_snapshots (snd (release sn st))) = set (pn_snapshots st) - {sn}"
    by (simp add: release_core(1) [OF sn] keep del: set_filter)
  have old: "pn_resized st i = Some h \<longleftrightarrow> (\<exists>sn \<in> set (pn_snapshots st). \<exists>key. sn_handle sn = h \<and> sn_cursor sn = Some (i, key))" for i h
    using inv(2) by (simp add: identity_inv_def)
  have handles: "a = b" if "a \<in> set (pn_snapshots st)" "b \<in> set (pn_snapshots st)" "sn_handle a = sn_handle b" for a b
    using sorted_wrt_pair [OF sorted that(1,2)] that(3) by auto
  have "pn_resized (snd (release sn st)) i = Some h \<longleftrightarrow>
      (\<exists>sn' \<in> set (pn_snapshots st) - {sn}. \<exists>key. sn_handle sn' = h \<and> sn_cursor sn' = Some (i, key))" for i h
  proof (cases "sn_cursor sn")
    case None
    have "(\<exists>sn' \<in> set (pn_snapshots st) - {sn}. \<exists>key. sn_handle sn' = h \<and> sn_cursor sn' = Some (i, key)) \<longleftrightarrow>
        (\<exists>sn \<in> set (pn_snapshots st). \<exists>key. sn_handle sn = h \<and> sn_cursor sn = Some (i, key))"
      using None by fastforce
    then show ?thesis using old by (simp add: release_core(5) [OF sn] None)
  next
    case (Some ik)
    obtain i0 key0 where ik: "ik = (i0, key0)" by (cases ik)
    show ?thesis
    proof (cases "i = i0")
      case True
      then show ?thesis
        using identities_distinct [OF hmac inv(2) sn, of _ i0 key0] Some ik by (auto simp: release_core(5) [OF sn])
    next
      case False
      then have "(\<exists>sn' \<in> set (pn_snapshots st) - {sn}. \<exists>key. sn_handle sn' = h \<and> sn_cursor sn' = Some (i, key)) \<longleftrightarrow>
          (\<exists>sn \<in> set (pn_snapshots st). \<exists>key. sn_handle sn = h \<and> sn_cursor sn = Some (i, key))"
        using Some ik by fastforce
      then show ?thesis using old False Some ik by (simp add: release_core(5) [OF sn])
    qed
  qed
  moreover have "\<forall>sn' \<in> set (pn_snapshots st) - {sn}. \<exists>k \<le> pn_sequence st. identified po env k sn'"
    using inv(2) by (simp add: identity_inv_def)
  moreover have "sorted_wrt (\<lambda>a b. \<exists>j k. j < k \<and> identified po env j a \<and> identified po env k b) (pn_snapshots (snd (release sn st)))"
    using inv(2) by (simp add: identity_inv_def release_core(1) [OF sn] sorted_wrt_filter)
  ultimately show ?thesis
    unfolding identity_inv_def set' release_core(7) [OF sn] by blast
qed

lemma enter_identities:
  assumes hmac: "hmac_ok env" and inv: "identity_inv po env st" and adm: "snapshot_admitted po env st sn"
  shows "identity_inv po env (enter po sn st)"
proof -
  have new: "identified po env (Suc (pn_sequence st)) sn" using adm by (simp add: snapshot_admitted_def)
  have old: "\<forall>sn \<in> set (pn_snapshots st). \<exists>k \<le> pn_sequence st. identified po env k sn" using inv by (simp add: identity_inv_def)
  have core: "pn_snapshots (enter po sn st) = pn_snapshots st @ [sn]"
    "pn_sequence (enter po sn st) = (if po_resizable po then Suc (pn_sequence st) else pn_sequence st)"
    "pn_resized (enter po sn st) = (case sn_cursor sn of Some (i, _) \<Rightarrow> (pn_resized st) (i \<mapsto> sn_handle sn) | None \<Rightarrow> pn_resized st)"
    by (simp_all add: enter_def register_def split: option.split)
  have new_k: "\<exists>k \<le> pn_sequence (enter po sn st). identified po env k sn"
    using new by (cases "po_resizable po") (auto simp: core identified_def)
  have "identified po env k' sn' \<Longrightarrow> \<exists>j k. j < k \<and> identified po env j sn' \<and> identified po env k sn" if "k' \<le> pn_sequence st" for k' sn'
    using that new less_Suc_eq_le by blast
  then have sorted: "\<forall>sn' \<in> set (pn_snapshots st). \<exists>j k. j < k \<and> identified po env j sn' \<and> identified po env k sn"
    using old by blast
  have differ: "i \<noteq> i'" if "sn' \<in> set (pn_snapshots st)" "sn_cursor sn' = Some (i', key')" "sn_cursor sn = Some (i, key)" for sn' i i' key key'
  proof -
    obtain k where k: "k \<le> pn_sequence st" "identified po env k sn'" using old \<open>sn' \<in> set (pn_snapshots st)\<close> by blast
    from identified_cursor [OF k(2) that(2)] identified_cursor [OF new that(3)] identity_inj [OF hmac, of k "Suc (pn_sequence st)"] k(1)
    show ?thesis by auto
  qed
  have "pn_resized (enter po sn st) i = Some h \<longleftrightarrow>
      (\<exists>sn \<in> set (pn_snapshots st @ [sn]). \<exists>key. sn_handle sn = h \<and> sn_cursor sn = Some (i, key))" for i h
  proof (cases "sn_cursor sn")
    case (Some ik)
    obtain i0 key0 where ik: "ik = (i0, key0)" by (cases ik)
    show ?thesis
      using inv differ [of _ _ _ i0 key0] Some ik by (cases "i = i0") (auto simp: core identity_inv_def)
  qed (use inv in \<open>simp add: core identity_inv_def\<close>)
  then show ?thesis
    using inv sorted new_k old unfolding identity_inv_def core(1)
    by (auto simp: sorted_wrt_append core(2) le_Suc_eq)
qed

lemma moves_identities:
  assumes "moves po env R st st'" "hmac_ok env" "paging_inv po env st" "identity_inv po env st"
  shows "identity_inv po env st'"
  using assms
proof (induction rule: moves.induct)
  case (aside st1 st2)
  then have "identity_inv po env st1" by blast
  then show ?case using aside.hyps(2) by (simp add: identity_inv_def aside_def)
next
  case (release st1 sn)
  show ?case by (rule release_identities) (use release moves_inv in auto)
next
  case (enter st1 sn)
  then show ?case by (intro enter_identities) auto
qed simp

lemma reachable_identities: "paging_reachable po env st \<Longrightarrow> hmac_ok env \<Longrightarrow> identity_inv po env st"
proof (induction rule: paging_reachable.induct)
  case start
  show ?case by (simp add: identity_inv_def new_paging_def)
next
  case (turn st op)
  show ?case
    by (rule moves_identities [OF after_moves]) (use turn paging_reachable_inv in auto)
qed

section \<open>Tokens\<close>

lemma if_Some_eq: "(if P then Some x else None) = Some y \<longleftrightarrow> P \<and> x = y" "(if P then None else Some x) = Some y \<longleftrightarrow> \<not> P \<and> x = y"
  by simp_all

lemma token_groups_app: "token_groups t = Some (i, raw, supplied) \<Longrightarrow> t = i @ [0x5F] @ raw @ [0x5F] @ supplied"
proof -
  assume g: "token_groups t = Some (i, raw, supplied)"
  define u where "u = drop 8 t"
  have c: "take 8 t = i" "prefix [0x5F] u" "takeWhile is_base36 (tl u) = raw"
    "prefix [0x5F] (drop (Suc (length (takeWhile is_base36 (tl u)))) u)"
    "tl (drop (Suc (length (takeWhile is_base36 (tl u)))) u) = supplied"
    using g unfolding token_groups_def Let_def u_def [symmetric] if_Some_eq prod.inject by blast+
  have i: "i = take 8 t" "prefix [0x5F] u" "raw = takeWhile is_base36 (tl u)"
    "prefix [0x5F] (drop (Suc (length raw)) u)" "supplied = tl (drop (Suc (length raw)) u)"
    using c(4,5) unfolding c(3) by (simp_all only: c(1-3))
  from i(2) obtain w where w: "u = 0x5F # w" by (auto simp: prefix_def)
  from i(4) w obtain v where v: "drop (length raw) w = 0x5F # v" by (auto simp: prefix_def)
  obtain d where d: "w = raw @ d" using i(3) w takeWhile_dropWhile_id [of is_base36 w] by (metis list.sel(3))
  then have "d = 0x5F # v" using v by simp
  then have "u = [0x5F] @ raw @ [0x5F] @ supplied" using w i(5) d by simp
  then show ?thesis using i(1) append_take_drop_id [of 8 t] unfolding u_def by simp
qed

lemma token_groups_cursor:
  assumes "hmac_ok env" "length i = 8" "list_all is_token_unit i" "offset < 36 ^ 7"
  shows "token_groups (resized_cursor env (i, key) offset) = Some (i, base36 offset, cursor_tag env (i, key) offset)"
proof -
  let ?raw = "base36 offset" and ?tag = "cursor_tag env (i, key) offset"
  note raw = base36_read [of offset] and tag = tag_shape [OF assms(1), of "(i, key)" offset]
  have len: "length ?raw \<le> 7" using base36_length [of offset 6] assms(4) by simp
  have "\<not> is_base36 0x5F" by (simp add: is_base36_def unit_class_defs)
  then have "takeWhile is_base36 (?raw @ 0x5F # ?tag) = ?raw"
    using raw by (simp add: takeWhile_append list_all_iff)
  moreover have "1 \<le> length ?raw" using raw by (cases ?raw) auto
  ultimately show ?thesis
    using assms(2,3) tag len by (simp add: token_groups_def resized_cursor_def)
qed

lemma retained_bound:
  assumes "paging_inv po env st" "sn \<in> set (pn_snapshots st)"
  shows "length (sn_items sn) < po_nodeCapacity po"
proof -
  have "weight_ok sn" "sn_nodes sn \<le> sum_list (map sn_nodes (pn_snapshots st))" "sum_list (map sn_nodes (pn_snapshots st)) \<le> po_nodeCapacity po"
    using assms by (auto simp: paging_inv_def intro: member_le_sum_list)
  moreover have "length xs \<le> sum_list (map json_nodes xs)" for xs :: "json list"
    using json_nodes_list [of xs] by linarith
  then have "length (sn_items sn) < sn_nodes sn" if "weight_ok sn"
    using that by (simp add: weight_ok_def less_Suc_eq_le trans_le_add1)
  ultimately show ?thesis by linarith
qed

lemma retained_identity:
  assumes "identity_inv po env st" "sn \<in> set (pn_snapshots st)" "po_resizable po"
  obtains k key where "k \<le> pn_sequence st" "sn_cursor sn = Some (cursor_identity env k, key)" "k < 2 ^ 48" "identified po env k sn"
  using assms by (fastforce simp: identity_inv_def identified_def)

lemma snapshot_found:
  assumes "paging_inv po env st" "sn \<in> set (pn_snapshots st)"
  shows "snapshot_of st (sn_handle sn) = Some sn"
proof -
  have sorted: "sorted_wrt (\<lambda>a b. sn_handle a < sn_handle b) (pn_snapshots st)" using assms(1) by (simp add: paging_inv_def)
  have "snapshot_of st (sn_handle sn) \<noteq> None" using assms(2) by (auto simp: snapshot_of_def find_None_iff)
  then obtain a where a: "snapshot_of st (sn_handle sn) = Some a" by auto
  then show ?thesis using sorted_wrt_pair [OF sorted, of a sn] find_snapshot [OF a] assms(2) by auto
qed

text \<open>A token is accepted exactly when it is the cursor of a page of a retained snapshot.\<close>

lemma lookup_iff:
  assumes hmac: "hmac_ok env" and inv: "paging_inv po env st" "identity_inv po env st"
    and po: "po_resizable po" "po_nodeCapacity po \<le> 36 ^ 7"
  shows "lookupResized env token st = Some (sn, offset) \<longleftrightarrow>
     sn \<in> set (pn_snapshots st) \<and> 0 < offset \<and> offset < length (sn_items sn) \<and>
     (\<exists>ik. sn_cursor sn = Some ik \<and> token = resized_cursor env ik offset)"
proof
  assume l: "lookupResized env token st = Some (sn, offset)"
  then obtain i raw supplied where g: "token_groups token = Some (i, raw, supplied)"
    by (auto simp: lookupResized_def split: option.splits)
  from l obtain a where a: "Option.bind (pn_resized st i) (snapshot_of st) = Some a"
    by (auto simp: lookupResized_def g Let_def split: option.splits)
  from l have t: "token_groups token = Some (i, raw, supplied)" "offset = value36 raw"
    "Option.bind (pn_resized st i) (snapshot_of st) = Some sn" "offset \<noteq> 0" "offset < length (sn_items sn)" "base36 offset = raw"
    "supplied = cursor_tag env (the (sn_cursor sn)) offset"
    unfolding lookupResized_def g a Let_def option.case prod.case if_Some_eq prod.inject by (auto simp: g a)
  then have sn: "sn \<in> set (pn_snapshots st)" "pn_resized st i = Some (sn_handle sn)"
    by (auto simp: bind_eq_Some_conv dest: find_snapshot)
  then obtain sn' key where "sn' \<in> set (pn_snapshots st)" "sn_handle sn' = sn_handle sn" "sn_cursor sn' = Some (i, key)"
    using inv(2) by (auto simp: identity_inv_def)
  then have "sn_cursor sn = Some (i, key)" using snapshot_found [OF inv(1)] sn(1) by (metis option.inject)
  then show "sn \<in> set (pn_snapshots st) \<and> 0 < offset \<and> offset < length (sn_items sn) \<and>
     (\<exists>ik. sn_cursor sn = Some ik \<and> token = resized_cursor env ik offset)"
    using token_groups_app [OF t(1)] t sn by (simp add: resized_cursor_def)
next
  assume "sn \<in> set (pn_snapshots st) \<and> 0 < offset \<and> offset < length (sn_items sn) \<and>
     (\<exists>ik. sn_cursor sn = Some ik \<and> token = resized_cursor env ik offset)"
  then obtain ik where a: "sn \<in> set (pn_snapshots st)" "0 < offset" "offset < length (sn_items sn)" "sn_cursor sn = Some ik"
    "token = resized_cursor env ik offset" by blast
  obtain k key where k: "sn_cursor sn = Some (cursor_identity env k, key)" using retained_identity [OF inv(2) a(1) po(1)] by metis
  have ik: "ik = (cursor_identity env k, key)" using k a(4) by simp
  have "token_groups token = Some (fst ik, base36 offset, cursor_tag env ik offset)"
    unfolding a(5) ik fst_conv using token_groups_cursor [OF hmac _ _, of "cursor_identity env k" offset key] identity_shape [OF hmac, of k]
      retained_bound [OF inv(1) a(1)] a(3) po(2) by simp
  moreover have "pn_resized st (fst ik) = Some (sn_handle sn)"
    using inv(2) a(1,4) k by (auto simp: identity_inv_def)
  ultimately show "lookupResized env token st = Some (sn, offset)"
    using a base36_read [of offset] snapshot_found [OF inv(1) a(1)] by (simp add: lookupResized_def)
qed

lemma cursor_text_inj:
  assumes "length i = 8" "length j = 8" "resized_cursor env (i, key) m = resized_cursor env (j, key') n"
  shows "i = j \<and> m = n"
proof -
  have e: "i @ [0x5F] @ base36 m @ 0x5F # cursor_tag env (i, key) m = j @ [0x5F] @ base36 n @ 0x5F # cursor_tag env (j, key') n"
    using assms(3) by (simp add: resized_cursor_def)
  have t: "takeWhile is_base36 (base36 m @ 0x5F # s) = base36 m" for m s
    using base36_read [of m] by (simp add: takeWhile_append list_all_iff is_base36_def unit_class_defs)
  from arg_cong [OF e, of "take 8"] have "i = j" using assms(1,2) by simp
  moreover from arg_cong [OF e, of "\<lambda>x. takeWhile is_base36 (drop 9 x)"] have "base36 m = base36 n" using assms(1,2) t by simp
  ultimately show ?thesis using base36_read by metis
qed

section \<open>Identities over time\<close>

inductive paging_later :: "prepared_options \<Rightarrow> paging_env \<Rightarrow> paging \<Rightarrow> paging \<Rightarrow> bool" for po env st where
  now: "paging_later po env st st"
| turn: "paging_later po env st st1 \<Longrightarrow> paging_later po env st (after po env op st1)"

lemma moves_new:
  assumes "moves po env R st st'" "po_resizable po"
  shows "pn_sequence st \<le> pn_sequence st' \<and>
    (\<forall>sn \<in> set (pn_snapshots st'). sn \<in> set (pn_snapshots st) \<or> (\<exists>k > pn_sequence st. identified po env k sn))"
  using assms
proof (induction rule: moves.induct)
  case (release st1 sn)
  then show ?case by (auto simp: release_core)
next
  case (enter st1 sn)
  then have "identified po env (Suc (pn_sequence st1)) sn" by (simp add: snapshot_admitted_def)
  with enter show ?case by (auto simp: enter_def register_def less_Suc_eq_le)
qed (auto simp: aside_def)

lemma paging_later_reachable: "paging_later po env st st' \<Longrightarrow> paging_reachable po env st \<Longrightarrow> paging_reachable po env st'"
  by (induction rule: paging_later.induct) (auto intro: paging_reachable.turn)

lemma later_new:
  assumes "paging_later po env st st'" "po_resizable po" "paging_reachable po env st"
  shows "pn_sequence st \<le> pn_sequence st' \<and>
    (\<forall>sn \<in> set (pn_snapshots st'). sn \<in> set (pn_snapshots st) \<or> (\<exists>k > pn_sequence st. identified po env k sn))"
  using assms
proof (induction rule: paging_later.induct)
  case (turn st1 op)
  have "paging_inv po env st1" by (rule paging_reachable_inv [OF paging_later_reachable [OF turn(1) turn.prems(2)]])
  from moves_new [OF after_moves [OF this] turn.prems(1), of op] turn show ?case by fastforce
qed simp

end
