(* ===== verification/Paging_Example.thy ===== *)
theory Paging_Example
  imports Paging_Cursors Contract
begin

text \<open>
  A runtime on which the hypotheses of the pagination theorems hold, with a query serialization that is
  simple and exact, and its first operations.
\<close>

section \<open>What is relied on\<close>

text \<open>
  What is relied on of the URL parser: \<open>href\<close> parses to the same address, the query parameters of an
  address are well-formed strings, and parameters that were set and serialized are read back.
\<close>

definition query_laws :: "paging_env \<Rightarrow> bool" where
  "query_laws env \<longleftrightarrow> (\<forall>s u. pe_parse env s = Some u \<longrightarrow> pe_parse env (href u) = Some u \<and>
     list_all (\<lambda>(n, v). isUnicodeScalarString n \<and> isUnicodeScalarString v) (page_params u) \<and>
     (\<forall>ps. list_all (\<lambda>(n, v). isUnicodeScalarString n \<and> isUnicodeScalarString v) ps \<longrightarrow>
        (\<exists>w. pe_parse env (pe_href env s ps) = Some w \<and> page_params w = ps)))"

text \<open>The clock stays before a time.\<close>

definition clock_before :: "paging_env \<Rightarrow> int \<Rightarrow> bool" where
  "clock_before env t \<longleftrightarrow> (\<forall>n. \<exists>v. pe_clock env n = Some v \<and> 0 \<le> v \<and> v < t)"

section \<open>A runtime\<close>

text \<open>A text with its length in unary before it.\<close>

definition counted :: "jstring \<Rightarrow> jstring" where
  "counted s = replicate (length s) 0x61 @ 0x62 # s"

fun uncounted :: "nat \<Rightarrow> jstring \<Rightarrow> jstring list" where
  "uncounted 0 s = []"
| "uncounted (Suc n) s =
     (if s = [] then []
      else (let k = length (takeWhile (\<lambda>c. c = 0x61) s) in take k (drop (Suc k) s) # uncounted n (drop k (drop (Suc k) s))))"

fun paired :: "'a list \<Rightarrow> ('a \<times> 'a) list" where
  "paired (x # y # s) = (x, y) # paired s"
| "paired s = []"

definition example_query :: "(jstring \<times> jstring) list \<Rightarrow> jstring" where
  "example_query ps = concat (map (\<lambda>(n, v). counted n @ counted v) ps)"

definition example_page_url :: "jstring \<Rightarrow> page_url option" where
  "example_page_url s =
     (let q = drop 9 s; ps = paired (uncounted (length q) q) in
      if prefix (js ''http://h/'') s \<and> list_all (\<lambda>(n, v). isUnicodeScalarString n \<and> isUnicodeScalarString v) ps
      then Some \<lparr> href = s, protocol = js ''http:'', username = [], password = [], host = js ''h'', pathname = js ''/'',
        search = q, hash = [], bare_href = js ''http://h/'', page_origin = js ''http://h'', page_params = ps \<rparr>
      else None)"

definition paging_example_env :: paging_env where
  "paging_example_env = \<lparr> pe_parse = example_page_url, pe_href = (\<lambda>base ps. js ''http://h/'' @ example_query ps),
     pe_hmac = (\<lambda>k m. replicate 32 7), pe_key = [], pe_clock = (\<lambda>n. Some 5), pe_token = (\<lambda>n. Some (js ''entropy'')) \<rparr>"

definition example_options :: prepared_options where
  "example_options = \<lparr> po_resizable = True,
     po_scope = \<lparr> href = js ''http://h/'', protocol = js ''http:'', username = [], password = [], host = js ''h'',
       pathname = js ''/'', search = [], hash = [], bare_href = js ''http://h/'', page_origin = js ''http://h'', page_params = [] \<rparr>,
     po_defaultPageItems = 1, po_maxPageItems = 10, po_cursorTtlMs = 1000, po_retainedStateCapacity = 100,
     po_maxPositions = 10, po_byteCapacity = 10000, po_nodeCapacity = 1000, po_maxTokenLength = 64, po_attempts = 4,
     po_timer = False \<rparr>"

lemma uncounted_concat: "length ts \<le> n \<Longrightarrow> uncounted n (concat (map counted ts)) = ts"
proof (induction n arbitrary: ts)
  case (Suc n)
  show ?case
  proof (cases ts)
    case (Cons t us)
    have "takeWhile (\<lambda>c. c = 0x61) (replicate k 0x61 @ 0x62 # (r :: jstring)) = replicate k 0x61" for k r
      by (induction k) simp_all
    then show ?thesis using Suc Cons by (simp add: counted_def Let_def)
  qed simp
qed simp

lemma example_query_texts: "example_query ps = concat (map counted (concat (map (\<lambda>(n, v). [n, v]) ps)))"
  by (induction ps) (auto simp: example_query_def)

lemma paired_concat: "paired (concat (map (\<lambda>(n, v). [n, v]) ps)) = ps"
  by (induction ps) auto

lemma counted_texts: "length ts \<le> length (concat (map counted ts))"
proof (induction ts)
  case (Cons t ts)
  then show ?case by (simp add: counted_def)
qed simp

lemma example_laws: "query_laws paging_example_env" "hmac_ok paging_example_env" "clock_before paging_example_env 1000"
proof -
  have "example_page_url (js ''http://h/'' @ example_query ps) \<noteq> None \<and>
      page_params (the (example_page_url (js ''http://h/'' @ example_query ps))) = ps"
    if "list_all (\<lambda>(n, v). isUnicodeScalarString n \<and> isUnicodeScalarString v) ps" for ps
    using that counted_texts [of "concat (map (\<lambda>(n, v). [n, v]) ps)"]
    by (simp add: example_page_url_def example_query_texts uncounted_concat paired_concat Let_def js_def)
  then show "query_laws paging_example_env"
    by (fastforce simp: query_laws_def paging_example_env_def example_page_url_def Let_def split: if_splits)
  show "hmac_ok paging_example_env" by (simp add: hmac_ok_def paging_example_env_def)
  show "clock_before paging_example_env 1000" by (simp add: clock_before_def paging_example_env_def)
qed

section \<open>Its first operations\<close>

definition example_first :: first_page_input where
  "example_first = \<lparr> fp_items = JArr [JNull, JBool True, JNull], fp_limit = None, fp_view = js ''ann'', fp_epoch = js ''e'',
     fp_projection = js ''beads'', fp_continuation = js ''http://h/'' \<rparr>"

definition example_follow :: continuation_input where
  "example_follow = \<lparr> ci_limit = None, ci_token = [], ci_view = js ''ann'', ci_epoch = js ''e'', ci_projection = js ''beads'' \<rparr>"

definition example_paging :: paging where
  "example_paging = after example_options paging_example_env (FirstPage example_first None) new_paging"

lemma paging_example_reachable: "paging_reachable example_options paging_example_env example_paging"
  unfolding example_paging_def by (intro paging_reachable.intros)

lemma example_url: "example_page_url (js ''http://h/'') = Some (po_scope example_options)"
  by (simp add: example_page_url_def example_options_def js_def)

lemma boundedCopy_eq:
  "boundedCopy po v b n = (if json_bytes v \<le> b \<and> json_nodes v \<le> n then Inr (v, json_bytes v, json_nodes v)
     else localError (if po_resizable po then SnapshotLimitExceeded else CapacityExceeded))"
  by (simp add: boundedCopy_def snapshot_paid)

lemma example_copies:
  "first_copies example_options (fp_items example_first) 1 None st = Inr (None, [JNull, JBool True, JNull], 16, 4)"
  by (simp add: first_copies_def context_copy_def snapshot_items_def boundedCopy_eq example_first_def example_options_def
      json_bytes_simps Let_def)

lemma example_entered: "enter_epoch e (snd (cleanupAt now (new_paging \<lparr> pn_readings := a, pn_clock := b \<rparr>))) =
    new_paging \<lparr> pn_readings := a, pn_clock := b, pn_epoch := Some e \<rparr>"
  by (simp add: cleanupAt_def enter_epoch_def new_paging_def)

lemma example_admits:
  "validateLimit (fp_limit example_first) example_options = Inr 1"
  "paging_identity (fp_view example_first) = Inr (js ''ann'')" "paging_identity (fp_epoch example_first) = Inr (js ''e'')"
  "paging_identity (fp_projection example_first) = Inr (js ''beads'')"
  "validateContinuationUrl paging_example_env (fp_continuation example_first) (po_scope example_options) = Inr (js ''http://h/'')"
proof -
  have "pe_parse paging_example_env (js ''http://h/'') = Some (po_scope example_options)" by (simp add: paging_example_env_def example_url)
  then show "validateContinuationUrl paging_example_env (fp_continuation example_first) (po_scope example_options) = Inr (js ''http://h/'')"
    by (simp add: validateContinuationUrl_def example_first_def) (simp add: example_options_def)
qed (simp_all add: validateLimit_def example_first_def example_options_def paging_identity_def trimmed_unit_def unit_between_def js_def)

lemma example_start:
  "pn_closed new_paging = False" "pn_readings new_paging = 0" "pn_clock new_paging = 0" "pe_clock paging_example_env n = Some 5"
  by (simp_all add: new_paging_def paging_example_env_def)

lemma example_started:
  "firstPageWithContext example_options paging_example_env example_first None new_paging =
     retain_first example_options paging_example_env 5 1 (js ''ann'') (js ''e'') (js ''beads'') (js ''http://h/'')
       (None, [JNull, JBool True, JNull], 16, 4) (new_paging \<lparr> pn_readings := 1, pn_clock := 5, pn_epoch := Some (js ''e'') \<rparr>)"
  by (simp add: firstPageWithContext_def requireOpen_def paging_clock_def returnP_def example_admits example_entered example_copies [simplified]
      example_start)

lemma example_token: "valid_token example_options (js ''entropy'')" "pe_token paging_example_env n = Some (js ''entropy'')"
  by (simp_all add: valid_token_def js_def example_options_def paging_example_env_def is_token_unit_def unit_class_defs)

lemma example_identity:
  assumes "pn_sequence st = 0"
  shows "fresh_identity example_options paging_example_env (po_attempts example_options) st =
    (Inr (cursor_identity paging_example_env (Suc 0), replicate 32 7), st \<lparr> pn_draws := Suc (pn_draws st), pn_sequence := Suc 0 \<rparr>)"
proof -
  have "po_attempts example_options = Suc 3" by (simp add: example_options_def)
  moreover have "pe_hmac paging_example_env k m = replicate 32 7" for k m by (simp add: paging_example_env_def)
  ultimately show ?thesis
    unfolding fresh_identity.simps(2) by (simp only: fresh_identity.simps(2)) (simp add: example_token Let_def assms del: replicate.simps)
qed

text \<open>The snapshot of the first page, and what it leaves.\<close>

definition example_snapshot :: snapshot where
  "example_snapshot = \<lparr> sn_handle = 0, sn_cursor = Some (cursor_identity paging_example_env (Suc 0), replicate 32 7),
     sn_items = [JNull, JBool True, JNull], sn_limit = 1, sn_view = js ''ann'', sn_epoch = js ''e'', sn_projection = js ''beads'',
     sn_continuation = js ''http://h/'', sn_expiresAt = 1005, sn_bytes = 16, sn_nodes = 4, sn_positions = 0, sn_context = None \<rparr>"

lemma example_first_result:
  "\<exists>page. firstPageWithContext example_options paging_example_env example_first None new_paging = (Inr page, example_paging)"
  "pn_snapshots example_paging = [example_snapshot]" "pn_clock example_paging = 5" "pn_closed example_paging = False"
proof -
  let ?st = "new_paging \<lparr> pn_readings := Suc 0, pn_clock := 5, pn_epoch := Some (js ''e'') \<rparr>"
  let ?st1 = "?st \<lparr> pn_draws := Suc 0, pn_sequence := Suc 0 \<rparr>"
  have id: "fresh_identity example_options paging_example_env (po_attempts example_options) ?st =
      (Inr (cursor_identity paging_example_env (Suc 0), replicate 32 7), ?st1)"
    by (subst example_identity) (simp_all add: new_paging_def del: replicate.simps)
  have po: "po_resizable example_options" "po_maxPositions example_options = 10" "po_byteCapacity example_options = 10000"
    "po_nodeCapacity example_options = 1000" "po_retainedStateCapacity example_options = 100" "po_cursorTtlMs example_options = 1000"
    "po_timer example_options = False"
    by (simp_all add: example_options_def)
  have "\<exists>page st'. firstPageWithContext example_options paging_example_env example_first None new_paging = (Inr page, st') \<and>
      pn_snapshots st' = [example_snapshot] \<and> pn_clock st' = 5 \<and> pn_closed st' = False"
    unfolding example_started [unfolded One_nat_def] retain_first_def assertRetainedStateCapacity_def freshResizeIdentity_def
    by (simp add: po id returnP_def Let_def issue_first_def pageAt_def cursorFor_def make_page_def register_def
        scheduleIdleCleanup_def example_snapshot_def del: replicate.simps) (simp add: new_paging_def)
  then show "\<exists>page. firstPageWithContext example_options paging_example_env example_first None new_paging = (Inr page, example_paging)"
    "pn_snapshots example_paging = [example_snapshot]" "pn_clock example_paging = 5" "pn_closed example_paging = False"
    by (auto simp: example_paging_def)
qed

end
