(* ===== verification/Paging_Properties.thy ===== *)
theory Paging_Properties
  imports Paging_Example
begin

text \<open>
  What holds of every pagination: the retained state is accounted for and bounded, snapshots stay
  until they expire or are withdrawn, cursors are decided exactly and never bind a later snapshot, and
  a client that follows them receives the frozen items.
\<close>

section \<open>Retained state\<close>

text \<open>C17: In every reachable state the counters of retained bytes, positions and reserved cursors are the sums over
  the retained snapshots, each of which weighs the UTF-8 length of the JSON text of its items and its context, and
  they are within the configured capacities.\<close>

theorem retained_within_capacity:
  assumes "paging_reachable po env st"
  shows "pn_bytes st = (\<Sum>sn \<leftarrow> pn_snapshots st. byte_length (serialized (JArr (sn_items sn))) +
      (case sn_context sn of Some c \<Rightarrow> byte_length (serialized c) | None \<Rightarrow> 0)) \<and> pn_bytes st \<le> po_byteCapacity po \<and>
    pn_nodes st = (\<Sum>sn \<leftarrow> pn_snapshots st. json_nodes (JArr (sn_items sn)) +
      (case sn_context sn of Some c \<Rightarrow> json_nodes c | None \<Rightarrow> 0)) \<and> pn_nodes st \<le> po_nodeCapacity po \<and>
    pn_positions st = sum_list (map sn_positions (pn_snapshots st)) \<and>
    length (pn_snapshots st) + pn_positions st \<le> po_retainedStateCapacity po"
proof -
  note inv = paging_reachable_inv [OF assms, unfolded paging_inv_def weight_ok_def]
  have e: "map sn_bytes (pn_snapshots st) = map (\<lambda>sn. byte_length (serialized (JArr (sn_items sn))) +
      (case sn_context sn of Some c \<Rightarrow> byte_length (serialized c) | None \<Rightarrow> 0)) (pn_snapshots st)"
    "map sn_nodes (pn_snapshots st) = map (\<lambda>sn. json_nodes (JArr (sn_items sn)) +
      (case sn_context sn of Some c \<Rightarrow> json_nodes c | None \<Rightarrow> 0)) (pn_snapshots st)"
    using inv by (auto intro!: map_cong)
  from arg_cong [OF e(1), of sum_list] arg_cong [OF e(2), of sum_list] show ?thesis using inv by argo
qed

theorem retained_within_capacity_witness:
  "pn_bytes example_paging = (\<Sum>sn \<leftarrow> pn_snapshots example_paging. byte_length (serialized (JArr (sn_items sn))) +
      (case sn_context sn of Some c \<Rightarrow> byte_length (serialized c) | None \<Rightarrow> 0)) \<and> pn_bytes example_paging \<le> 10000 \<and>
    length (pn_snapshots example_paging) = 1"
  using retained_within_capacity [OF paging_example_reachable] example_first_result(2) by (simp add: example_options_def)

text \<open>C15: Nothing but its expiry, a change of the Scope epoch, the closing of the engine or the withdrawal of its own
  unissued first page releases a snapshot: an operation that refuses another snapshot for want of capacity, continues,
  cleans up or fails in any way leaves it retained and unchanged.\<close>

theorem snapshots_survive:
  assumes "paging_reachable po env st" "sn \<in> set (pn_snapshots st)" "\<not> withdraws po env op st sn"
    "pn_clock (after po env op st) < sn_expiresAt sn"
  shows "sn \<in> set (pn_snapshots (after po env op st))"
  using moves_keep [OF after_moves [OF paging_reachable_inv [OF assms(1)]] paging_reachable_inv [OF assms(1)] assms(2-4)] .

theorem snapshots_survive_witness:
  "example_snapshot \<in> set (pn_snapshots (after example_options paging_example_env CleanupExpired example_paging))"
proof (rule snapshots_survive [OF paging_example_reachable])
  have "pn_clock (after example_options paging_example_env CleanupExpired example_paging) = 5"
    using example_first_result(2-4)
    by (simp add: cleanupExpired_def paging_clock_def paging_example_env_def cleanupAt_def example_snapshot_def scheduleIdleCleanup_def
        example_options_def returnP_def)
  then show "pn_clock (after example_options paging_example_env CleanupExpired example_paging) < sn_expiresAt example_snapshot"
    by (simp add: example_snapshot_def)
qed (simp_all add: example_first_result)

text \<open>A cleanup leaves exactly the snapshots that are not expired, although it stops at the first of them.\<close>

lemma cleanup_exact:
  "paging_reachable po env st \<Longrightarrow> now \<le> pn_clock st \<Longrightarrow>
     pn_snapshots (snd (cleanupAt now st)) = filter (\<lambda>sn. now < sn_expiresAt sn) (pn_snapshots st)"
  by (rule cleanup_moves(2) [OF paging_reachable_inv])

section \<open>Cursors\<close>

text \<open>C16: A resizable engine accepts a token exactly when it is the cursor of a page, after the first, of a snapshot it
  retains: no other text, no other offset and no cursor of a released snapshot is accepted.\<close>

theorem cursor_decided:
  assumes "paging_reachable po env st" "po_resizable po" "hmac_ok env" "po_nodeCapacity po \<le> 36 ^ 7"
  shows "lookupResized env token st = Some (sn, offset) \<longleftrightarrow>
     sn \<in> set (pn_snapshots st) \<and> 0 < offset \<and> offset < length (sn_items sn) \<and>
     (\<exists>ik. sn_cursor sn = Some ik \<and> token = resized_cursor env ik offset)"
  using lookup_iff [OF assms(3) paging_reachable_inv [OF assms(1)] reachable_identities [OF assms(1,3)] assms(2,4)] .

theorem cursor_decided_witness:
  "lookupResized paging_example_env (resized_cursor paging_example_env (the (sn_cursor example_snapshot)) 2) example_paging = Some (example_snapshot, 2) \<and>
   lookupResized paging_example_env (resized_cursor paging_example_env (the (sn_cursor example_snapshot)) 3) example_paging \<noteq> Some (example_snapshot, 3)"
proof -
  have "po_resizable example_options" "po_nodeCapacity example_options \<le> 36 ^ 7" by (simp_all add: example_options_def)
  note decided = cursor_decided [OF paging_example_reachable this(1) example_laws(2) this(2)]
  have "sn_cursor example_snapshot \<noteq> None" "length (sn_items example_snapshot) = 3" by (simp_all add: example_snapshot_def)
  then show ?thesis by (auto simp: decided example_first_result(2))
qed



section \<open>Following the cursors\<close>

lemma bindP_Inr: "bindP m f st = (Inr y, st') \<longleftrightarrow> (\<exists>x st1. m st = (Inr x, st1) \<and> f x st1 = (Inr y, st'))"
  by (auto split: prod.splits sum.splits)

lemma returnP_Inr: "returnP r st = (Inr y, st') \<longleftrightarrow> r = Inr y \<and> st' = st"
  by (auto simp: returnP_def)

lemma clock_runs:
  assumes "clock_before env t" "pn_clock st < t"
  obtains st1 where "paging_clock env st = (Inr (pn_clock st1), st1)" "aside st st1" "pn_clock st1 < t" "pn_closed st1 = pn_closed st"
proof -
  obtain v where v: "pe_clock env (pn_readings st) = Some v" "0 \<le> v" "v < t" using assms(1) unfolding clock_before_def by blast
  show ?thesis
    by (rule that [of "snd (paging_clock env st)"]) (use v assms(2) in \<open>auto simp: paging_clock_def aside_def\<close>)
qed

lemma schedule_runs:
  assumes "clock_before env t" "pn_clock st < t"
  obtains st1 where "scheduleIdleCleanup po env st = (Inr (), st1)" "aside st st1" "pn_clock st1 < t" "pn_closed st1 = pn_closed st"
proof -
  obtain st1 where st1: "paging_clock env (st \<lparr> pn_timer := None \<rparr>) = (Inr (pn_clock st1), st1)" "pn_clock st1 < t"
    "pn_closed st1 = pn_closed st"
    using clock_runs [OF assms(1), of "st \<lparr> pn_timer := None \<rparr>"] assms(2) by auto
  have "\<exists>st1. scheduleIdleCleanup po env st = (Inr (), st1) \<and> pn_clock st1 < t \<and> pn_closed st1 = pn_closed st"
    using st1 assms(2) by (auto simp: scheduleIdleCleanup_def Let_def split: list.split)
  then show ?thesis using that schedule_quiet [of st po env] by force
qed

text \<open>A page of a snapshot of a resizable engine.\<close>

definition page_of :: "paging_env \<Rightarrow> snapshot \<Rightarrow> nat \<Rightarrow> nat \<Rightarrow> read_page \<Rightarrow> bool" where
  "page_of env sn offset limit page \<longleftrightarrow> rp_items page = take limit (drop offset (sn_items sn)) \<and>
     rp_next page = (if offset + limit < length (sn_items sn)
       then Some (continuationUrl env (sn_continuation sn) (resized_cursor env (the (sn_cursor sn)) (offset + limit)) (Some limit))
       else None)"

lemma page_runs:
  assumes "po_resizable po" "sn_cursor sn = Some ik" "offset < length (sn_items sn)" "0 < limit"
  obtains page st1 where "pageAt po env sn offset limit st = (Inr page, st1)" "page_of env sn offset limit page"
    "pn_clock st1 = pn_clock st" "pn_closed st1 = pn_closed st"
proof -
  have "offset + min (length (sn_items sn) - offset) limit < length (sn_items sn) \<longleftrightarrow> offset + limit < length (sn_items sn)"
    using assms(3) by linarith
  then have "\<exists>page st1. pageAt po env sn offset limit st = (Inr page, st1) \<and> page_of env sn offset limit page \<and>
      pn_clock st1 = pn_clock st \<and> pn_closed st1 = pn_closed st"
    using assms by (auto simp: pageAt_def Let_def cursorFor_def returnP_def make_page_def page_of_def)
  then show ?thesis using that by blast
qed

text \<open>One continuation before the expiry.\<close>

lemma continuation_runs:
  assumes hmac: "hmac_ok env" and inv: "paging_inv po env st" "identity_inv po env st"
    and po: "po_resizable po" "po_nodeCapacity po \<le> 36 ^ 7"
    and sn: "sn \<in> set (pn_snapshots st)" "sn_cursor sn = Some ik" "0 < offset" "offset < length (sn_items sn)"
    and time: "clock_before env (sn_expiresAt sn)" "pn_clock st < sn_expiresAt sn" "\<not> pn_closed st"
    and input: "ci_token input = resized_cursor env ik offset" "paging_identity (ci_epoch input) = Inr (sn_epoch sn)"
      "paging_identity (ci_view input) = Inr (sn_view sn)" "paging_identity (ci_projection input) = Inr (sn_projection sn)"
      "(case ci_limit input of None \<Rightarrow> Inr (sn_limit sn) | Some l \<Rightarrow> validateLimit (Some l) po) = Inr limit"
  obtains page st' where "continuePage po env input st = (Inr page, st')" "page_of env sn offset limit page"
    "sn \<in> set (pn_snapshots st')" "paging_inv po env st'" "identity_inv po env st'" "pn_clock st' < sn_expiresAt sn" "\<not> pn_closed st'"
proof -
  obtain st1 where st1: "paging_clock env st = (Inr (pn_clock st1), st1)" "aside st st1" "pn_clock st1 < sn_expiresAt sn" "\<not> pn_closed st1"
    using clock_runs [OF time(1,2)] time(3) by metis
  note inv1 = quiet_inv [OF inv(1) st1(2)] moves_identities [OF quiet_moves [OF st1(2)] hmac inv]
  have sn1: "sn \<in> set (pn_snapshots st1)" using sn(1) quiet_set [OF st1(2)] by simp
  have l1: "lookup_cursor po env (ci_token input) st1 = Some (sn, offset)"
    using lookup_iff [OF hmac inv1 po] sn1 sn(2-4) input(1) po(1) by (simp add: lookup_cursor_def del: split_paired_Ex)
  let ?st2 = "snd (cleanupAt (pn_clock st1) st1)"
  note c = cleanup_moves [OF inv1(1) order_refl]
  note inv2 = moves_inv [OF c(1) inv1(1)] moves_identities [OF c(1) hmac inv1]
  have sn2: "sn \<in> set (pn_snapshots ?st2)" using c(2) sn1 st1(3) by simp
  have l2: "lookup_cursor po env (ci_token input) ?st2 = Some (sn, offset)"
    using lookup_iff [OF hmac inv2 po] sn2 sn(2-4) input(1) po(1) by (simp add: lookup_cursor_def del: split_paired_Ex)
  have "0 < limit"
    using input(5) sn1 inv1(1) by (auto simp: paging_inv_def weight_ok_def dest: validateLimit_Inr split: option.splits)
  then obtain page st3 where page: "pageAt po env sn offset limit ?st2 = (Inr page, st3)" "page_of env sn offset limit page"
    "pn_clock st3 = pn_clock st1" "pn_closed st3 = pn_closed st1"
    using page_runs [OF po(1) sn(2,4)] c(3,4) by metis
  obtain st4 where st4: "scheduleIdleCleanup po env st3 = (Inr (), st4)" "pn_clock st4 < sn_expiresAt sn" "pn_closed st4 = pn_closed st3"
    using schedule_runs [OF time(1)] page(3) st1(3) by metis
  have run: "continuePage po env input st = (Inr page, st4)"
    using st1 l1 l2 page(1) st4(1) input po(1) time(3)
    by (simp add: continuePage_def requireOpen_def resume_cursor_def continue_snapshot_def returnP_def)
  have q: "aside ?st2 st4"
    using page_quiet [of ?st2 po env sn offset limit] schedule_quiet [of st3 po env] page(1) st4(1) by (auto intro: quiet_trans)
  show ?thesis
    by (rule that [OF run page(2)])
      (use q sn2 inv2 st4 page(4) st1(4) in \<open>auto simp: quiet_set intro: quiet_inv moves_identities [OF quiet_moves] hmac\<close>)
qed

text \<open>The cursor that a client reads in the address of the next page.\<close>

definition page_cursor :: "paging_env \<Rightarrow> read_page \<Rightarrow> jstring option" where
  "page_cursor env page = Option.bind (rp_next page) (\<lambda>u. Option.bind (pe_parse env u) (\<lambda>p.
     map_of (page_params p) (js ''cursor'')))"

lemma set_param_get: "map_of (set_param n v ps) m = (if m = n then Some v else map_of ps m)"
proof (induction ps)
  case (Cons p ps)
  have "map_of (filter (\<lambda>(k, _). k \<noteq> n) ps) m = map_of ps m" if "m \<noteq> n"
    using that by (induction ps) auto
  then show ?case using Cons by (cases p) auto
qed simp

lemma set_param_all: "list_all P ps \<Longrightarrow> P (n, v) \<Longrightarrow> list_all P (set_param n v ps)"
  by (induction n v ps rule: set_param.induct) (auto simp: list_all_iff)

lemma token_unit_ascii: "is_token_unit c \<Longrightarrow> c < 0x80" "is_base36 c \<Longrightarrow> c < 0x80"
  by (auto simp: is_token_unit_def is_base36_def unit_class_defs word_unat_eq_iff)

lemma cursor_scalar:
  assumes "hmac_ok env"
  shows "isUnicodeScalarString (resized_cursor env (cursor_identity env k, key) offset)"
proof (rule ascii_scalar)
  show "list_all (\<lambda>c. c < 0x80) (resized_cursor env (cursor_identity env k, key) offset)"
    using identity_shape [OF assms, of k] tag_shape [OF assms, of "(cursor_identity env k, key)" offset] base36_read [of offset]
    by (auto simp: resized_cursor_def list_all_iff token_unit_ascii)
qed

lemma next_cursor:
  assumes hmac: "hmac_ok env" and laws: "query_laws env" and page: "page_of env sn offset limit page"
    and sn: "sn_cursor sn = Some (cursor_identity env k, key)" "pe_parse env (sn_continuation sn) = Some u"
  shows "page_cursor env page = (if offset + limit < length (sn_items sn)
    then Some (resized_cursor env (cursor_identity env k, key) (offset + limit)) else None)"
proof -
  let ?t = "resized_cursor env (cursor_identity env k, key) (offset + limit)"
  let ?ps = "set_param (js ''limit'') (nat_text limit) (set_param (js ''cursor'') ?t (page_params u))"
  let ?ok = "\<lambda>(n, v). isUnicodeScalarString n \<and> isUnicodeScalarString v"
  have ascii: "isUnicodeScalarString (js ''limit'')" "isUnicodeScalarString (js ''cursor'')" "isUnicodeScalarString (nat_text limit)"
    by (rule ascii_scalar, simp add: js_def)+ (rule scalar_nat_text)
  have "list_all ?ok (page_params u)" using laws sn(2) by (auto simp: query_laws_def)
  then have "list_all ?ok ?ps" using ascii cursor_scalar [OF hmac] by (intro set_param_all) auto
  then obtain w where "pe_parse env (pe_href env (sn_continuation sn) ?ps) = Some w" "page_params w = ?ps"
    using laws sn(2) unfolding query_laws_def by blast
  then show ?thesis
    using page sn by (simp add: page_cursor_def page_of_def continuationUrl_def set_param_get)
qed

text \<open>A client that follows the cursors, at most \<open>n\<close> of them, asking for any page sizes.\<close>

fun drain_pages :: "prepared_options \<Rightarrow> paging_env \<Rightarrow> continuation_input \<Rightarrow> (nat \<Rightarrow> int option) \<Rightarrow> nat \<Rightarrow> jstring \<Rightarrow> json list paging_turn" where
  "drain_pages po env input sizes 0 token st = (Inr [], st)"
| "drain_pages po env input sizes (Suc n) token st =
     bindP (continuePage po env (input \<lparr> ci_limit := sizes n, ci_token := token \<rparr>)) (\<lambda>page.
       case page_cursor env page of
         None \<Rightarrow> returnP (Inr (rp_items page))
       | Some t \<Rightarrow> bindP (drain_pages po env input sizes n t) (\<lambda>rest. returnP (Inr (rp_items page @ rest)))) st"

lemma drain_exact:
  assumes "hmac_ok env" "po_resizable po" "po_nodeCapacity po \<le> 36 ^ 7" "query_laws env"
    "paging_inv po env st" "identity_inv po env st" "sn \<in> set (pn_snapshots st)"
    "pe_parse env (sn_continuation sn) = Some u" "sn_cursor sn = Some (cursor_identity env k, key)"
    "clock_before env (sn_expiresAt sn)" "pn_clock st < sn_expiresAt sn" "\<not> pn_closed st"
    "paging_identity (ci_epoch input) = Inr (sn_epoch sn)" "paging_identity (ci_view input) = Inr (sn_view sn)"
    "paging_identity (ci_projection input) = Inr (sn_projection sn)"
    "\<And>n l. sizes n = Some l \<Longrightarrow> \<exists>m. validateLimit (Some l) po = Inr m"
    "0 < offset" "offset < length (sn_items sn)" "length (sn_items sn) - offset \<le> n"
  shows "\<exists>st'. drain_pages po env input sizes n (resized_cursor env (cursor_identity env k, key) offset) st =
    (Inr (drop offset (sn_items sn)), st')"
  using assms
proof (induction n arbitrary: st offset)
  case (Suc n)
  let ?in = "input \<lparr> ci_limit := sizes n, ci_token := resized_cursor env (cursor_identity env k, key) offset \<rparr>"
  obtain limit where limit: "(case sizes n of None \<Rightarrow> Inr (sn_limit sn) | Some l \<Rightarrow> validateLimit (Some l) po) = Inr limit"
    using Suc.prems(16) by (cases "sizes n") auto
  have "weight_ok sn" using Suc.prems(5,7) by (simp add: paging_inv_def)
  then have pos: "0 < limit" using limit by (auto simp: weight_ok_def dest: validateLimit_Inr split: option.splits)
  obtain page st1 where page: "continuePage po env ?in st = (Inr page, st1)" "page_of env sn offset limit page"
    "sn \<in> set (pn_snapshots st1)" "paging_inv po env st1" "identity_inv po env st1" "pn_clock st1 < sn_expiresAt sn" "\<not> pn_closed st1"
    using continuation_runs [OF Suc.prems(1,5,6,2,3,7,9,17,18,10,11,12), of ?in limit] Suc.prems(13-15) limit by auto
  note follow = next_cursor [OF Suc.prems(1,4) page(2) Suc.prems(9,8)]
  show ?case
  proof (cases "offset + limit < length (sn_items sn)")
    case True
    have "\<exists>st'. drain_pages po env input sizes n (resized_cursor env (cursor_identity env k, key) (offset + limit)) st1 =
        (Inr (drop (offset + limit) (sn_items sn)), st')"
      by (rule Suc.IH [OF Suc.prems(1-4) page(4,5,3) Suc.prems(8-10) page(6,7) Suc.prems(13-16)]) (use True pos Suc.prems(19) in auto)
    then obtain st' where "drain_pages po env input sizes n (resized_cursor env (cursor_identity env k, key) (offset + limit)) st1 =
        (Inr (drop (offset + limit) (sn_items sn)), st')" by blast
    moreover have "rp_items page @ drop (offset + limit) (sn_items sn) = drop offset (sn_items sn)"
      using page(2) append_take_drop_id [of limit "drop offset (sn_items sn)"] by (simp add: page_of_def add.commute)
    ultimately show ?thesis using page(1) follow True by (simp add: returnP_def)
  next
    case False
    then show ?thesis using page(1,2) follow by (simp add: returnP_def page_of_def)
  qed
qed simp

section \<open>The first page\<close>

lemma clock_bound:
  assumes "clock_before env t" "pn_clock st < t"
  shows "pn_clock (snd (paging_clock env st)) < t" "pn_clock (snd (scheduleIdleCleanup po env st)) < t"
  using clock_runs [OF assms] schedule_runs [OF assms, where po = po] by (metis snd_conv)+

lemma epoch_core: "paging_inv po env st \<Longrightarrow> pn_closed (enter_epoch epoch st) = pn_closed st"
  using release_list_moves [OF _ subset_refl inv_distinct, where R = "\<lambda>_. True"] by (simp add: enter_epoch_def)

lemma expiring_closed: "pn_closed (snd (scheduleIdleCleanup po env st)) = pn_closed st"
  by (auto simp: scheduleIdleCleanup_def paging_clock_def Let_def localError_def split: list.splits option.splits if_splits)

text \<open>A snapshot that was issued with its first page.\<close>

lemma issue_first_runs:
  assumes "po_resizable po" "sn_cursor sn = Some ik" "sn_limit sn < length (sn_items sn)" "0 < sn_limit sn"
    "sn \<in> set (pn_snapshots st)" "clock_before env t" "pn_clock st < t"
    "issue_first po env sn st = (Inr page, st')"
  shows "page_of env sn 0 (sn_limit sn) page \<and> sn \<in> set (pn_snapshots st') \<and> pn_clock st' < t \<and> pn_closed st' = pn_closed st"
proof -
  obtain page0 st1 where page: "pageAt po env sn 0 (sn_limit sn) st = (Inr page0, st1)" "page_of env sn 0 (sn_limit sn) page0"
    "pn_clock st1 = pn_clock st" "pn_closed st1 = pn_closed st"
    using page_runs [OF assms(1,2)] assms(3,4) by (metis gr_implies_not0 length_greater_0_conv list.size(3))
  let ?st = "case sn_cursor sn of Some (i, _) \<Rightarrow> st1 \<lparr> pn_pageIds := (pn_pageIds st1) (rp_handle page0 \<mapsto> i) \<rparr> | None \<Rightarrow> st1"
  have core: "pn_clock ?st = pn_clock st" "pn_closed ?st = pn_closed st" "pn_snapshots ?st = pn_snapshots st1"
    using page(3,4) by (simp_all split: option.split)
  obtain st2 where st2: "scheduleIdleCleanup po env ?st = (Inr (), st2)" "aside ?st st2" "pn_clock st2 < t" "pn_closed st2 = pn_closed ?st"
    using schedule_runs [OF assms(6)] assms(7) core(1) by metis
  have "issue_first po env sn st = (Inr page0, st2)"
    using page(1) st2(1) by (simp add: issue_first_def)
  moreover have "pn_snapshots st1 = pn_snapshots st"
    using page_quiet [of st po env sn 0 "sn_limit sn"] page(1) by (simp add: aside_def)
  ultimately show ?thesis
    using assms(5,8) page(2) st2(2-4) core by (auto simp: aside_def)
qed

lemma retain_first_runs:
  assumes hmac: "hmac_ok env" and po: "po_resizable po" and time: "clock_before env t" "pn_clock st < t"
    and limit: "0 < limit" "limit < length items"
    and run: "retain_first po env now limit view epoch projection follow (c, items, octets, nodes) st = (Inr page, st')"
  shows "\<exists>sn k key. sn \<in> set (pn_snapshots st') \<and> sn_items sn = items \<and> sn_limit sn = limit \<and> sn_view sn = view \<and>
    sn_epoch sn = epoch \<and> sn_projection sn = projection \<and> sn_continuation sn = follow \<and>
    sn_expiresAt sn = now + int (po_cursorTtlMs po) \<and> sn_cursor sn = Some (cursor_identity env k, key) \<and>
    page_of env sn 0 limit page \<and> pn_clock st' < t \<and> pn_closed st' = pn_closed st"
proof -
  from run po obtain ik st1 where ik: "fresh_identity po env (po_attempts po) st = (Inr ik, st1)"
    and issue: "issue_first po env \<lparr> sn_handle = pn_handles st1, sn_cursor = Some ik, sn_items = items, sn_limit = limit,
      sn_view = view, sn_epoch = epoch, sn_projection = projection, sn_continuation = follow,
      sn_expiresAt = now + int (po_cursorTtlMs po), sn_bytes = octets, sn_nodes = nodes, sn_positions = 0, sn_context = c \<rparr>
      (register \<lparr> sn_handle = pn_handles st1, sn_cursor = Some ik, sn_items = items, sn_limit = limit,
      sn_view = view, sn_epoch = epoch, sn_projection = projection, sn_continuation = follow,
      sn_expiresAt = now + int (po_cursorTtlMs po), sn_bytes = octets, sn_nodes = nodes, sn_positions = 0, sn_context = c \<rparr>
      (st1 \<lparr> pn_handles := Suc (pn_handles st1) \<rparr>)) = (Inr page, st')" (is "issue_first po env ?sn ?st = _")
    by (auto simp: retain_first_def Let_def assertRetainedStateCapacity_def freshResizeIdentity_def returnP_def localError_def
        split: if_splits prod.splits sum.splits)
  from fresh_identity_result [OF ik] have f: "fst ik = cursor_identity env (Suc (pn_sequence st))"
    "pn_clock st1 = pn_clock st" "pn_closed st1 = pn_closed st" by auto
  have "page_of env ?sn 0 (sn_limit ?sn) page \<and> ?sn \<in> set (pn_snapshots st') \<and> pn_clock st' < t \<and> pn_closed st' = pn_closed ?st"
    by (rule issue_first_runs [OF po _ _ _ _ time(1) _ issue]) (use limit time(2) f in \<open>auto simp: register_def\<close>)
  then show ?thesis
    using f by (intro exI [of _ ?sn] exI [of _ "Suc (pn_sequence st)"] exI [of _ "snd ik"])
      (cases ik, simp add: register_def)
qed

lemma first_page_runs:
  assumes hmac: "hmac_ok env" and po: "po_resizable po" and inv: "paging_inv po env st"
    and time: "clock_before env t" "pn_clock st < t" "t \<le> pn_clock st + int (po_cursorTtlMs po)"
    and run: "firstPageWithContext po env input c st = (Inr page, st')" and items: "fp_items input = JArr items"
  shows "(rp_next page = None \<and> rp_items page = items) \<or>
    (\<exists>sn k key u. sn \<in> set (pn_snapshots st') \<and> sn_items sn = items \<and> 0 < sn_limit sn \<and> sn_limit sn < length items \<and>
      paging_identity (fp_view input) = Inr (sn_view sn) \<and> paging_identity (fp_epoch input) = Inr (sn_epoch sn) \<and>
      paging_identity (fp_projection input) = Inr (sn_projection sn) \<and>
      pe_parse env (fp_continuation input) = Some u \<and> sn_continuation sn = href u \<and> t \<le> sn_expiresAt sn \<and>
      sn_cursor sn = Some (cursor_identity env k, key) \<and> page_of env sn 0 (sn_limit sn) page \<and>
      pn_clock st' < t \<and> \<not> pn_closed st')"
proof -
  obtain st1 where st1: "paging_clock env st = (Inr (pn_clock st1), st1)" "aside st st1" "pn_clock st1 < t" "pn_closed st1 = pn_closed st"
    using clock_runs [OF time(1,2)] by metis
  have inv1: "paging_inv po env st1" by (rule quiet_inv [OF inv st1(2)])
  let ?st2 = "snd (cleanupAt (pn_clock st1) st1)"
  note c2 = cleanup_moves [OF inv1 order_refl]
  have inv2: "paging_inv po env ?st2" by (rule moves_inv [OF c2(1) inv1])
  have open': "\<not> pn_closed st" using run by (auto simp: firstPageWithContext_def requireOpen_def localError_def split: if_splits)
  from run obtain limit view epoch projection follow copied where r:
    "validateLimit (fp_limit input) po = Inr limit" "paging_identity (fp_view input) = Inr view"
    "paging_identity (fp_epoch input) = Inr epoch" "paging_identity (fp_projection input) = Inr projection"
    "validateContinuationUrl env (fp_continuation input) (po_scope po) = Inr follow"
    "first_copies po (fp_items input) limit c (enter_epoch epoch ?st2) = Inr copied"
    "(case copied of (c, items, _, _) \<Rightarrow>
         if length items \<le> limit
         then (case make_page items None c (enter_epoch epoch ?st2) of (page, st5) \<Rightarrow> (Inr page, st5))
         else retain_first po env (pn_clock st1) limit view epoch projection follow copied (enter_epoch epoch ?st2)) = (Inr page, st')"
    unfolding firstPageWithContext_def Let_def bindP_Inr returnP_Inr requireOpen_def
    by (auto simp: st1(1) bindP_Inr returnP_Inr simp del: bindP.simps split: if_splits)
  let ?st3 = "enter_epoch epoch ?st2"
  obtain c' xs octets nodes where copied: "copied = (c', xs, octets, nodes)" by (cases copied)
  have xs: "xs = items" using first_copies_Inr(1) [OF r(6) [unfolded copied]] items by simp
  have st3: "pn_clock ?st3 = pn_clock st1" "pn_closed ?st3 = pn_closed st"
    using enter_epoch_moves(2) [OF inv2, of epoch "\<lambda>_. True"] epoch_core [OF inv2] c2(3,4) st1(4) by simp_all
  obtain u where u: "pe_parse env (fp_continuation input) = Some u" "follow = href u"
    using r(5) by (auto simp: validateContinuationUrl_def split: option.splits if_splits)
  show ?thesis
  proof (cases "length items \<le> limit")
    case True
    then show ?thesis using r(7) by (auto simp: copied xs make_page_def)
  next
    case False
    have l: "0 < limit" using validateLimit_Inr [OF r(1)] by simp
    have "pn_clock st \<le> pn_clock st1" using st1(2) by (simp add: aside_def)
    moreover have "retain_first po env (pn_clock st1) limit view epoch projection follow (c', items, octets, nodes) ?st3 = (Inr page, st')"
      using r(7) False by (simp add: copied xs)
    from retain_first_runs [OF hmac po time(1) _ l _ this] False st3 st1(3) obtain sn k key where
      "sn \<in> set (pn_snapshots st')" "sn_items sn = items" "sn_limit sn = limit" "sn_view sn = view" "sn_epoch sn = epoch"
      "sn_projection sn = projection" "sn_continuation sn = follow" "sn_expiresAt sn = pn_clock st1 + int (po_cursorTtlMs po)"
      "sn_cursor sn = Some (cursor_identity env k, key)" "page_of env sn 0 limit page" "pn_clock st' < t" "pn_closed st' = pn_closed ?st3"
      by auto
    ultimately show ?thesis
      using False l r(2-4) u st3 open' time(3)
      by (intro disjI2 exI [of _ sn] exI [of _ k] exI [of _ key] exI [of _ u]) auto
  qed
qed

text \<open>C13: A listing is delivered exactly.  When a resizable engine returned the first page of some items, a client that
  follows the cursors it reads in the addresses of the pages, asking for any admissible page sizes, receives in order
  exactly the items of the first page's snapshot, none twice and none left out, as long as the clock stays before the
  expiry; without a cursor the first page was all of them.\<close>

theorem listing_delivered:
  assumes "paging_reachable po env st" "po_resizable po" "hmac_ok env" "po_nodeCapacity po \<le> 36 ^ 7" "query_laws env"
    "clock_before env (pn_clock st + int (po_cursorTtlMs po))" "0 < po_cursorTtlMs po"
    "firstPageWithContext po env input c st = (Inr page, st1)" "fp_items input = JArr items"
    "ci_view follow = fp_view input" "ci_epoch follow = fp_epoch input" "ci_projection follow = fp_projection input"
    "\<And>n l. sizes n = Some l \<Longrightarrow> 0 < l \<and> l \<le> int (po_maxPageItems po) \<and> l \<le> 2 ^ 53 - 1"
  shows "case page_cursor env page of
      None \<Rightarrow> rp_items page = items
    | Some token \<Rightarrow> \<exists>rest st2. drain_pages po env follow sizes (length items) token st1 = (Inr rest, st2) \<and> rp_items page @ rest = items"
proof -
  let ?t = "pn_clock st + int (po_cursorTtlMs po)"
  note inv = paging_reachable_inv [OF assms(1)] reachable_identities [OF assms(1,3)]
  have moves: "moves po env (withdraws po env (FirstPage input c) st) st st1"
    using first_page_moves [OF inv(1), of input c] assms(8) by simp
  note inv1 = moves_inv [OF moves inv(1)] moves_identities [OF moves assms(3) inv]
  from first_page_runs [OF assms(3,2) inv(1) assms(6) _ order_refl assms(8,9)] assms(7)
  consider (single) "rp_next page = None" "rp_items page = items"
    | (many) sn k key u where "sn \<in> set (pn_snapshots st1)" "sn_items sn = items" "0 < sn_limit sn" "sn_limit sn < length items"
      "paging_identity (fp_view input) = Inr (sn_view sn)" "paging_identity (fp_epoch input) = Inr (sn_epoch sn)"
      "paging_identity (fp_projection input) = Inr (sn_projection sn)" "pe_parse env (fp_continuation input) = Some u"
      "sn_continuation sn = href u" "?t \<le> sn_expiresAt sn" "sn_cursor sn = Some (cursor_identity env k, key)"
      "page_of env sn 0 (sn_limit sn) page" "pn_clock st1 < ?t" "\<not> pn_closed st1" by auto
  then show ?thesis
  proof cases
    case single
    then show ?thesis by (simp add: page_cursor_def)
  next
    case many
    have u: "pe_parse env (sn_continuation sn) = Some u" using assms(5) many(8,9) by (simp add: query_laws_def)
    have clock: "clock_before env (sn_expiresAt sn)" "pn_clock st1 < sn_expiresAt sn"
      using assms(6) many(10,13) unfolding clock_before_def by (fastforce, simp)
    have sizes: "\<exists>m. validateLimit (Some l) po = Inr m" if "sizes n = Some l" for n l
      using assms(13) [OF that] by (simp add: validateLimit_def)
    have ids: "paging_identity (ci_epoch follow) = Inr (sn_epoch sn)" "paging_identity (ci_view follow) = Inr (sn_view sn)"
      "paging_identity (ci_projection follow) = Inr (sn_projection sn)" using many(5-7) assms(10-12) by simp_all
    have "\<exists>st2. drain_pages po env follow sizes (length items) (resized_cursor env (cursor_identity env k, key) (sn_limit sn)) st1 =
      (Inr (drop (sn_limit sn) (sn_items sn)), st2)"
    proof (rule drain_exact [OF assms(3,2,4,5) inv1 many(1) u many(11) clock many(14) ids])
      show "\<exists>m. validateLimit (Some l) po = Inr m" if "sizes n = Some l" for n l by (rule sizes [OF that])
    qed (use many(2-4) in auto)
    then obtain st2 where "drain_pages po env follow sizes (length items) (resized_cursor env (cursor_identity env k, key) (sn_limit sn)) st1 =
      (Inr (drop (sn_limit sn) items), st2)" using many(2) by auto
    then show ?thesis
      using next_cursor [OF assms(3,5) many(12,11) u] many(2,4,12) by (simp add: page_of_def)
  qed
qed

theorem listing_delivered_witness:
  "\<exists>page. fst (firstPageWithContext example_options paging_example_env example_first None new_paging) = Inr page \<and>
    (case page_cursor paging_example_env page of
      None \<Rightarrow> rp_items page = [JNull, JBool True, JNull]
    | Some token \<Rightarrow> \<exists>rest st2. drain_pages example_options paging_example_env example_follow (\<lambda>n. Some 2) 3 token example_paging = (Inr rest, st2) \<and>
        rp_items page @ rest = [JNull, JBool True, JNull])"
proof -
  obtain page where page: "firstPageWithContext example_options paging_example_env example_first None new_paging = (Inr page, example_paging)"
    using example_first_result(1) by blast
  have "case page_cursor paging_example_env page of
      None \<Rightarrow> rp_items page = [JNull, JBool True, JNull]
    | Some token \<Rightarrow> \<exists>rest st2. drain_pages example_options paging_example_env example_follow (\<lambda>n. Some 2)
        (length [JNull, JBool True, JNull :: json]) token example_paging = (Inr rest, st2) \<and> rp_items page @ rest = [JNull, JBool True, JNull]"
    by (rule listing_delivered [OF paging_reachable.start _ example_laws(2) _ example_laws(1) _ _ page])
      (use example_laws(3) in \<open>simp_all add: example_options_def example_first_def example_follow_def new_paging_def\<close>)
  moreover have "length [JNull, JBool True, JNull :: json] = 3" by simp
  ultimately show ?thesis using page by (intro exI [of _ page]) (simp only: fst_conv simp_thms)
qed

end
