(* ===== verification/Spec2Isabelle.thy ===== *)
theory Spec2Isabelle
  imports Batch_Properties Selector_Grammar Paging_Properties
begin

text \<open>
  A verified model of the retained-v01 owner of the Bead Data Protocol server
  (\<open>packages/server/src/retained-v01\<close> with the JSON modules of \<open>packages/protocol/src\<close> it is built on).

  \<^bold>\<open>The program.\<close> An owner keeps one Scope: a graph of Beads and of Links between Beads, each with a
  permanent identity below the Scope, aliases that name live Beads, a log of lifecycle events with one
  position per change, and a ledger with the outcome of every request under its principal and
  idempotency key. A request is a JSON document. Its contract admits it or refuses it; the admitted
  invocation is decided in one transaction over the tables: a known key is replayed or is a conflict, a
  new one is executed and its outcome retained. Readers list, read and page through the events with
  cursors. A batch evaluates many members over one working graph and commits all of them or none.

  \<^bold>\<open>The theories, in the order of the code.\<close>
  \<^item> \<open>Prelude\<close>: 16-bit code units, strings of them (\<open>js\<close> for literals), errors as \<open>js_error\<close>, results as
    sums (\<open>Inl\<close> for a thrown error), and the generic lemmas.
  \<^item> \<open>Json_Value\<close>, \<open>Json_Text\<close>, \<open>Json_Number\<close>, \<open>Json_Decode\<close>, \<open>Json_Admission\<close>: \<open>json-admission.ts\<close>,
    \<open>json-values.ts\<close> and \<open>json-value-equality.ts\<close>. JSON trees over a leaf type of numbers (literals,
    binary64 values as exact decimals, or semantic leaves), the iterative printer, the decoder with its
    frame stack, exact decimals, the admissibility of numbers in binary64 and the diagnostic budget.
  \<^item> \<open>Semantic_Identity\<close>: \<open>semantic-identity.ts\<close>, the encoding that decides whether two requests are the same.
  \<^item> \<open>Uri\<close>, \<open>Navigation\<close>: \<open>reference-input.ts\<close>, the canonical ids of \<open>read-values.ts\<close> and \<open>contract.ts\<close>, the
    alias namespace and the reserved addresses of the owner (\<open>openOwner\<close>, \<open>owner_ok\<close>). The URL parser of the
    runtime is the parameter \<open>url_runtime\<close>, a function from text to the parts of an address.
  \<^item> \<open>Object_Edits\<close>, \<open>Contract\<close>, \<open>Link_Contract\<close>, \<open>Reference_Comparison\<close>, \<open>Events\<close>, \<open>Batch_Contract\<close>:
    \<open>object-edits.ts\<close>, \<open>contract.ts\<close>, \<open>link-contract.ts\<close>, \<open>alias-contract.ts\<close>, \<open>alias-witness.ts\<close>,
    \<open>reference-comparison.ts\<close>, \<open>recovery.ts\<close> (witness texts), \<open>events.ts\<close>, \<open>batch-contract.ts\<close>: requests to
    prepared invocations, their identity under the aliases of the moment, facts and event queries.
  \<^item> \<open>Store_State\<close>: the tables of \<open>store.ts\<close> as association lists in the record \<open>store\<close>, one statement each
    with the constraints of its table; a violated constraint is the \<open>SqlError\<close> that fences the session.
  \<^item> \<open>Store\<close>, \<open>Store_Turns\<close>, \<open>Store_Requests\<close>: decisions, operations, Links, aliases, reads, event pages
    and transactions of \<open>store.ts\<close>; \<open>prepare_request\<close> is the dispatch of \<open>http.ts\<close>.
  \<^item> \<open>Batch_Evaluate\<close>, \<open>Store_Batch\<close>: \<open>batch-evaluate.ts\<close> and \<open>applyBatch\<close>.

  \<^bold>\<open>Clocks and identifiers.\<close> What the runtime supplies to a turn is the record \<open>supplied\<close>: the identifiers
  \<open>su_ids 0, 1, ...\<close> it draws and the readings of its clock, in the order the code takes them. The theorems
  assume of them only \<open>fresh\<close>: that the drawn UUIDs are distinct, were not drawn before and are canonical
  path segments. \<open>transaction\<close> takes as an input whether the database commits.

  \<^bold>\<open>The proofs.\<close>
  \<^item> The modules of values: round trips of the printer and the decoder, the identity of requests decides
    their semantic equality, soundness of edits, exactness of admission.
  \<^item> \<open>Store_Laws\<close>, \<open>Store_Invariant\<close>, \<open>Store_Operations\<close>, \<open>Store_Decisions\<close>, \<open>Store_Commits\<close>: the laws of the
    statements (\<open>row_laws\<close>), the invariant \<open>base_inv\<close> of the tables, the one form \<open>committed\<close> of every
    change (\<open>advances\<close>), the ledger (\<open>store_inv\<close>) and what later stores keep (\<open>extends\<close>).
  \<^item> \<open>Store_Machine\<close>: \<open>session_step\<close>, \<open>reachable\<close> and \<open>later\<close>, the turns of a session with any requests, any
    clock and any commit failures, and the invariant of every reachable session.
  \<^item> \<open>Store_Properties\<close>, \<open>Store_Safety\<close>, \<open>Store_Behaviour\<close>, \<open>Store_Reads\<close>: what holds of reachable sessions:
    soundness of the graph, of the log and of the ledger, atomic turns, final fences, replay of retries, turns
    that never violate a constraint, each operation decided by its guards, complete paging.
  \<^item> \<open>Graph_Machine\<close>: the abstract specification, a graph with one rule for each kind of change, and the
    refinement of every turn to it. \<open>Batch_Graph\<close>, \<open>Batch_Writes\<close>, \<open>Batch_Properties\<close>: the working graph of
    a batch, its writes, and the refinement of a batch to a run of the abstract rules.
  \<^item> \<open>Example\<close>, \<open>Example_Session\<close>: the owner of \<open>http://h/\<close> and its first turn, on which the hypotheses of
    the theorems are shown to hold.
  \<^item> Locales: \<open>keyed_table\<close> is the contract of the tables, \<open>endpoint_checker\<close> the contract of the two
    endpoint loops (over the stored and over the working graph); both are interpreted on the model.

  \<^bold>\<open>Loops and bounds.\<close> Loops over finite structures are structural or have a measure; none needs fuel.
  \<open>allocate_id\<close> draws at most 33 identifiers as the code does; \<open>drain\<close>, a client that follows the next pages,
  is given one page more than there are events, and is proved to end. Capacities (positions and decisions
  up to \<open>2^53 - 1\<close>, 262144 bytes of an answer, 300000 of a fact, 32 MiB of a listing, 100 members of a batch)
  are the numbers of the code.

  \<^bold>\<open>Not modelled.\<close>
  \<^item> The file of the database: its schema on disk, pragmas, the checks of an existing file when it is opened
    (\<open>recovery.ts\<close> apart from the witnesses, \<open>batch-recovery.ts\<close>), the \<open>retained_json\<close> checks of the
    columns, and a failure of SQLite that is no violated constraint, except a failed COMMIT.
  \<^item> Transport: sockets, headers and streams of \<open>http.ts\<close>, \<open>private-process.ts\<close>; queries over collections.
  \<^item> JavaScript objects with accessors, proxies or cycles: inputs are JSON trees.
  \<^item> The other packages: the earlier read and transaction protocols of the server, the schema evaluator, the
    client, the adapters, the conformance runner and the command lines; the manifest lists them.
\<close>

end
